(* ===== verification/Rix_Prelude.thy ===== *)
theory Rix_Prelude
  imports Main "HOL-Library.Word"
begin

unbundle bit_operations_syntax

text \<open>
  What the component theories share: names for the C integer types, the facts on
  bitmasks kept in machine words, on counted \<^verbatim>\<open>for\<close> loops that stop at
  the first hit, and on arrays updated by index.

  Conventions of the whole development.
  \<^item> A fixed-width unsigned integer is a word of its width where the code relies on
    wrap-around or on its bits; a count or index that an invariant of the component keeps in
    range is a \<^typ>\<open>nat\<close>.  A C \<^verbatim>\<open>int\<close> return code is an \<^typ>\<open>int\<close>.
  \<^item> A pointer parameter that designates an object is the object's value; the operation returns
    the updated object.  The tests \<^verbatim>\<open>if (!p) return ...\<close> on such parameters have no
    counterpart, since a value is always there.  Where a null pointer is a meaningful input
    (an absent buffer, an optional result) the parameter is an \<open>option\<close>.
  \<^item> A function whose body runs between taking and releasing one spinlock with interrupts
    masked is one atomic step.
\<close>

type_synonym u8 = "8 word"
type_synonym u16 = "16 word"
type_synonym u32 = "32 word"
type_synonym u64 = "64 word"

type_synonym rc = int

named_theorems rix_simps \<open>equations that evaluate a model operation on its branches\<close>
named_theorems rix_inv \<open>preservation of a component's invariant by its operations\<close>

subsection \<open>Bitmasks\<close>

text \<open>\<^verbatim>\<open>1 << n\<close> at a word type.\<close>

definition one_shl :: "nat \<Rightarrow> 'a::len word" where
  "one_shl n = push_bit n 1"

lemma bit_one_shl [simp]: "bit (one_shl n :: 'a::len word) k \<longleftrightarrow> k = n \<and> n < LENGTH('a)"
  by (auto simp: one_shl_def bit_exp_iff)

text \<open>\<^verbatim>\<open>m & (1 << n)\<close>, \<^verbatim>\<open>m |= 1 << n\<close> and
  \<^verbatim>\<open>m &= ~(1 << n)\<close> read through \<^const>\<open>bit\<close>.\<close>

lemma and_one_shl_eq_0 [simp]: "w AND one_shl n = 0 \<longleftrightarrow> \<not> bit w n" for w :: "'a::len word"
proof
  assume "w AND one_shl n = 0"
  then have "\<not> bit (w AND one_shl n) n" by simp
  then show "\<not> bit w n" by (auto simp: bit_and_iff dest: bit_imp_le_length)
next
  assume "\<not> bit w n"
  then show "w AND one_shl n = 0" by (intro bit_word_eqI) (auto simp: bit_and_iff)
qed

lemma bit_or_one_shl [simp]:
  "bit (w OR one_shl n) k \<longleftrightarrow> bit w k \<or> (k = n \<and> n < LENGTH('a))" for w :: "'a::len word"
  by (auto simp: bit_or_iff)

lemma bit_and_not_one_shl [simp]:
  "bit (w AND NOT (one_shl n)) k \<longleftrightarrow> bit w k \<and> k \<noteq> n" for w :: "'a::len word"
  by (auto simp: bit_and_iff bit_not_iff dest: bit_imp_le_length)

lemma word_nonzero_bit: "w \<noteq> 0 \<longleftrightarrow> (\<exists>n < LENGTH('a). bit w n)" for w :: "'a::len word"
proof
  assume "w \<noteq> 0"
  then show "\<exists>n < LENGTH('a). bit w n" by (metis bit_0_eq bit_word_eqI bot_apply bot_bool_def)
qed auto

lemma unat_drop_bit_Suc_0_less: "m \<noteq> 0 \<Longrightarrow> unat (drop_bit (Suc 0) m) < unat m" for m :: "'a::len word"
proof -
  assume "m \<noteq> 0"
  then have "unat m \<noteq> 0" by (simp add: unat_eq_zero)
  moreover have "unat (drop_bit (Suc 0) m) = unat m div 2"
    by (subst unat_drop_bit_eq) (simp add: drop_bit_Suc)
  ultimately show ?thesis by simp
qed

lemma unat_of_nat_small [simp]: "n < 2 ^ LENGTH('a) \<Longrightarrow> unat (of_nat n :: 'a::len word) = n"
  by (simp add: unat_of_nat take_bit_nat_eq_self)

lemma card_bits_drop_bit:
  "card {k. bit w k} = (if odd w then 1 else 0) + card {k. bit (drop_bit (Suc 0) w) k}"
  for w :: "'a::len word"
proof -
  have fin: "finite {k. bit v k}" for v :: "'a word"
    by (rule finite_subset[of _ "{..<LENGTH('a)}"]) (auto dest: bit_imp_le_length)
  have "{k. bit w k} = {k. k = 0 \<and> odd w} \<union> Suc ` {k. bit (drop_bit (Suc 0) w) k}"
    by (auto simp: bit_drop_bit_eq bit_0 image_iff gr0_conv_Suc) (metis bit_0 not0_implies_Suc)+
  moreover have "card ({k. k = 0 \<and> odd w} \<union> Suc ` {k. bit (drop_bit (Suc 0) w) k}) =
      card {k::nat. k = 0 \<and> odd w} + card (Suc ` {k. bit (drop_bit (Suc 0) w) k})"
    by (rule card_Un_disjoint) (auto simp: fin)
  ultimately show ?thesis by (simp add: card_image)
qed

subsection \<open>Loops that stop at the first hit\<close>

text \<open>\<^verbatim>\<open>for (i = a; i < b; i++) if (P(i)) ...\<close> is \<^term>\<open>find P [a..<b]\<close>.\<close>

lemma find_upt_Some:
  "find P [a..<b] = Some i \<longleftrightarrow> a \<le> i \<and> i < b \<and> P i \<and> (\<forall>j. a \<le> j \<longrightarrow> j < i \<longrightarrow> \<not> P j)"
proof -
  have "find P [a..<b] = Some i \<longleftrightarrow>
      (\<exists>k < b - a. P (a + k) \<and> i = a + k \<and> (\<forall>j<k. \<not> P (a + j)))"
    unfolding find_Some_iff by (auto simp: nth_upt)
  also have "\<dots> \<longleftrightarrow> a \<le> i \<and> i < b \<and> P i \<and> (\<forall>j. a \<le> j \<longrightarrow> j < i \<longrightarrow> \<not> P j)"
    (is "?L \<longleftrightarrow> ?R")
  proof
    assume ?L
    then obtain k where k: "k < b - a" "P (a + k)" "i = a + k" "\<forall>j<k. \<not> P (a + j)" by blast
    have "\<not> P j" if "a \<le> j" "j < i" for j
      using k(4)[rule_format, of "j - a"] that k(3) by simp
    with k show ?R by auto
  next
    assume ?R
    then show ?L by (intro exI[of _ "i - a"]) auto
  qed
  finally show ?thesis .
qed

lemma find_upt_None: "find P [a..<b] = None \<longleftrightarrow> (\<forall>i. a \<le> i \<longrightarrow> i < b \<longrightarrow> \<not> P i)"
  by (auto simp: find_None_iff)

lemma find_upt_SomeD:
  assumes "find P [a..<b] = Some i"
  shows "a \<le> i" "i < b" "P i" "\<And>j. a \<le> j \<Longrightarrow> j < i \<Longrightarrow> \<not> P j"
  using assms by (simp_all add: find_upt_Some)

lemma no_wrap_plus_1:
  fixes x :: "'a::len word"
  assumes "x + 1 \<noteq> 0"
  shows "x < x + 1" "unat (x + 1) = unat x + 1"
proof -
  have "x \<noteq> - 1" using assms by auto
  then show "unat (x + 1) = unat x + 1"
    by (metis Suc_eq_plus1 add.commute assms unatSuc)
  then show "x < x + 1" by (simp add: word_less_nat_alt)
qed

lemma no_wrap_bound:
  fixes x :: u64
  assumes "unat x + 1 < 2 ^ 64"
  shows "x + 1 \<noteq> 0"
proof
  assume "x + 1 = 0"
  then have "x = - 1" by (simp add: add_eq_0_iff2)
  then have "unat x = 2 ^ 64 - 1" by (simp add: unsigned_minus_1_eq_mask mask_eq_exp_minus_1)
  with assms show False by simp
qed

lemma unat_plus_1_small:
  fixes x :: "'a::len word"
  assumes "unat x < 2 ^ LENGTH('a) - 1"
  shows "unat (x + 1) = unat x + 1"
proof (rule no_wrap_plus_1(2))
  show "x + 1 \<noteq> 0"
  proof
    assume "x + 1 = 0"
    then have "x = - 1" by (simp add: add_eq_0_iff2)
    then have "unat x = 2 ^ LENGTH('a) - 1" by (simp add: unsigned_minus_1_eq_mask mask_eq_exp_minus_1)
    with assms show False by simp
  qed
qed

lemma unat_minus_1:
  fixes x :: "'a::len word"
  assumes "x \<noteq> 0"
  shows "unat (x - 1) = unat x - 1"
proof -
  have "1 \<le> x" using assms by (simp add: word_le_nat_alt unat_gt_0 Suc_leI)
  then show ?thesis by (simp add: unat_sub)
qed

lemma option_eqI_Some: "(\<And>x. a = Some x \<longleftrightarrow> b = Some x) \<Longrightarrow> a = b"
  by (metis not_Some_eq)

lemma length_filter_upt: "length (filter P [0..<n]) = card {i. i < n \<and> P i}"
  by (simp add: length_filter_conv_card cong: conj_cong)

lemma word_of_unat [simp]: "of_nat (unat w) = w" for w :: "'a::len word"
  by simp

end
