(* ===== verification/Runqueue.thy ===== *)
theory Runqueue
  imports Rix_Prelude
begin

unbundle bit_operations_syntax

text \<open>
  The per-CPU runqueue of \<^verbatim>\<open>kernel/sched/runqueue.c\<close>: a 32-bit mask of task slots, a
  round-robin cursor and the length of the current streak of high-priority picks.
\<close>

subsection \<open>State and operations\<close>

definition RIX_RQ_SLOTS :: u32 where "RIX_RQ_SLOTS = 32"
definition RIX_RQ_HIPRI_CAP :: u32 where "RIX_RQ_HIPRI_CAP = 4"

record rix_runqueue =
  rq_mask :: u32
  rq_cursor :: u32
  rq_hipri_streak :: u32

definition rq_init_locked :: rix_runqueue where
  "rq_init_locked = \<lparr>rq_mask = 0, rq_cursor = 0, rq_hipri_streak = 0\<rparr>"

definition rq_add_locked :: "rix_runqueue \<Rightarrow> u32 \<Rightarrow> rix_runqueue" where
  "rq_add_locked rq idx =
     (if idx \<ge> RIX_RQ_SLOTS then rq
      else rq\<lparr>rq_mask := rq_mask rq OR one_shl (unat idx)\<rparr>)"

definition rq_remove_locked :: "rix_runqueue \<Rightarrow> u32 \<Rightarrow> rix_runqueue" where
  "rq_remove_locked rq idx =
     (if idx \<ge> RIX_RQ_SLOTS then rq
      else rq\<lparr>rq_mask := rq_mask rq AND NOT (one_shl (unat idx))\<rparr>)"

definition rq_scan_locked :: "rix_runqueue \<Rightarrow> u32 \<Rightarrow> u32 \<Rightarrow> rc \<times> rix_runqueue" where
  "rq_scan_locked rq pool start =
     (case find (\<lambda>n. pool AND one_shl (unat ((start + of_nat n) mod RIX_RQ_SLOTS)) \<noteq> 0)
             [0..<unat RIX_RQ_SLOTS] of
        None \<Rightarrow> (-1, rq)
      | Some n \<Rightarrow>
          let i = (start + of_nat n) mod RIX_RQ_SLOTS
          in (int (unat i), rq\<lparr>rq_cursor := (i + 1) mod RIX_RQ_SLOTS\<rparr>))"

definition rq_pick_normal_locked :: "rix_runqueue \<Rightarrow> u32 \<Rightarrow> rc \<times> rix_runqueue" where
  "rq_pick_normal_locked rq start =
     (let (pick, rq') = rq_scan_locked rq (rq_mask rq) start
      in (pick, rq'\<lparr>rq_hipri_streak := 0\<rparr>))"

definition rq_pick_locked :: "rix_runqueue \<Rightarrow> u32 \<Rightarrow> rc \<times> rix_runqueue" where
  "rq_pick_locked rq himask =
     (if rq_mask rq = 0 then (-1, rq)
      else
        let start = rq_cursor rq mod RIX_RQ_SLOTS;
            pool = rq_mask rq AND himask
        in if pool \<noteq> 0 \<and> rq_hipri_streak rq < RIX_RQ_HIPRI_CAP
           then (let (pick, rq') = rq_scan_locked rq pool start
                 in if pick \<ge> 0
                    then (pick, rq'\<lparr>rq_hipri_streak := rq_hipri_streak rq' + 1\<rparr>)
                    else rq_pick_normal_locked rq' start)
           else rq_pick_normal_locked rq start)"

definition rq_empty_locked :: "rix_runqueue \<Rightarrow> bool" where
  "rq_empty_locked rq \<longleftrightarrow> rq_mask rq = 0"

function rq_count_loop :: "u32 \<Rightarrow> u32 \<Rightarrow> u32" where
  "rq_count_loop m n = (if m = 0 then n else rq_count_loop (drop_bit (Suc 0) m) (n + (m AND 1)))"
  by pat_completeness auto
termination
  by (relation "measure (\<lambda>(m, n). unat m)") (auto simp: unat_drop_bit_Suc_0_less)

declare rq_count_loop.simps [simp del]

definition rq_count_locked :: "rix_runqueue \<Rightarrow> u32" where
  "rq_count_locked rq = rq_count_loop (rq_mask rq) 0"

definition rq_contains_locked :: "rix_runqueue \<Rightarrow> u32 \<Rightarrow> bool" where
  "rq_contains_locked rq idx \<longleftrightarrow>
     \<not> idx \<ge> RIX_RQ_SLOTS \<and> rq_mask rq AND one_shl (unat idx) \<noteq> 0"


subsection \<open>The set of slots a queue holds\<close>

definition rq_slots :: "rix_runqueue \<Rightarrow> nat set" where
  "rq_slots rq = {i. bit (rq_mask rq) i}"

lemma rq_slots_subset: "rq_slots rq \<subseteq> {..<32}"
  by (auto simp: rq_slots_def dest: bit_imp_le_length)

lemma finite_rq_slots [simp]: "finite (rq_slots rq)"
  by (rule finite_subset[OF rq_slots_subset]) simp

lemma rq_slots_init [simp]: "rq_slots rq_init_locked = {}"
  by (simp add: rq_slots_def rq_init_locked_def)

lemma rq_slots_add: "i < 32 \<Longrightarrow> rq_slots (rq_add_locked rq (of_nat i)) = insert i (rq_slots rq)"
  by (auto simp: rq_slots_def rq_add_locked_def RIX_RQ_SLOTS_def word_le_nat_alt)

lemma rq_slots_remove: "i < 32 \<Longrightarrow> rq_slots (rq_remove_locked rq (of_nat i)) = rq_slots rq - {i}"
  by (auto simp: rq_slots_def rq_remove_locked_def RIX_RQ_SLOTS_def word_le_nat_alt)

lemma rq_contains_iff: "i < 32 \<Longrightarrow> rq_contains_locked rq (of_nat i) \<longleftrightarrow> i \<in> rq_slots rq"
  by (auto simp: rq_slots_def rq_contains_locked_def RIX_RQ_SLOTS_def word_le_nat_alt)

lemma rq_empty_iff: "rq_empty_locked rq \<longleftrightarrow> rq_slots rq = {}"
  using word_nonzero_bit[of "rq_mask rq"]
  by (auto simp: rq_slots_def rq_empty_locked_def dest: bit_imp_le_length)

lemma rq_count_loop_card: "rq_count_loop m n = n + of_nat (card {k. bit m k})"
proof (induction m n rule: rq_count_loop.induct)
  case (1 m n)
  show ?case
  proof (cases "m = 0")
    case False
    have "m AND 1 = (if odd m then 1 else 0)" by (simp add: and_one_eq odd_iff_mod_2_eq_one)
    with False 1 show ?thesis
      by (simp add: rq_count_loop.simps[of m n] card_bits_drop_bit[of m])
  qed (simp add: rq_count_loop.simps)
qed

lemma rq_count_card: "unat (rq_count_locked rq) = card (rq_slots rq)"
proof -
  have "card (rq_slots rq) \<le> card {..<32::nat}" by (intro card_mono rq_slots_subset) simp
  then show ?thesis by (simp add: rq_count_locked_def rq_count_loop_card rq_slots_def)
qed

subsection \<open>The circular scan\<close>

lemma unat_RIX_RQ_SLOTS [simp]: "unat RIX_RQ_SLOTS = 32"
  by (simp add: RIX_RQ_SLOTS_def)

lemma unat_start_mod [simp]: "unat (c mod RIX_RQ_SLOTS) = unat c mod 32"
  by (simp add: unat_mod)

lemma unat_scan_index:
  "unat start < 32 \<Longrightarrow> n < 32 \<Longrightarrow> unat ((start + of_nat n) mod RIX_RQ_SLOTS) = (unat start + n) mod 32"
  by (simp add: unat_word_ariths unat_of_nat)

text \<open>How far a slot lies ahead of the cursor, going round once.\<close>

definition ahead :: "nat \<Rightarrow> nat \<Rightarrow> nat" where
  "ahead c s = (s + 32 - c) mod 32"

lemma ahead_less [simp]: "ahead c s < 32"
  by (simp add: ahead_def)

lemma ahead_if: "c < 32 \<Longrightarrow> s < 32 \<Longrightarrow> ahead c s = (if c \<le> s then s - c else s + 32 - c)"
  by (simp add: ahead_def mod_if)

lemma wrap32: "x < 64 \<Longrightarrow> x mod 32 = (if x < 32 then x else x - 32)" for x :: nat
  by (simp add: mod_if)

lemma slot_at_ahead: "c < 32 \<Longrightarrow> s < 32 \<Longrightarrow> (c + ahead c s) mod 32 = s"
  by (simp add: ahead_if wrap32)

lemma ahead_step:
  assumes "c < 32" "s < 32" "n < ahead c s"
  shows "ahead ((c + Suc n) mod 32) s = ahead c s - n - 1"
proof (cases "c \<le> s")
  case True
  then have c: "ahead c s = s - c" using assms(1,2) by (simp add: ahead_if)
  then have "c + n + 1 \<le> s" using assms(3) by simp
  then show ?thesis using assms(2) c by (simp add: ahead_if)
next
  case False
  then have c: "ahead c s = s + 32 - c" using assms(1,2) by (simp add: ahead_if)
  show ?thesis
  proof (cases "c + n + 1 < 32")
    case True
    with False assms(2) c show ?thesis by (simp add: ahead_if)
  next
    case ge: False
    then have "(c + Suc n) mod 32 = c + n + 1 - 32" using assms c by (subst wrap32) auto
    moreover have "c + n + 1 - 32 \<le> s" using assms(3) c by simp
    ultimately show ?thesis using assms(2) c ge by (simp add: ahead_if)
  qed
qed

lemma rq_scan_locked_hit:
  assumes start: "unat start < 32" and pool: "pool \<noteq> 0"
  obtains n where "n < 32" "bit pool ((unat start + n) mod 32)"
    "\<And>j. j < n \<Longrightarrow> \<not> bit pool ((unat start + j) mod 32)"
    "rq_scan_locked rq pool start =
       (int ((unat start + n) mod 32), rq\<lparr>rq_cursor := of_nat ((unat start + Suc n) mod 32)\<rparr>)"
proof -
  let ?P = "\<lambda>n. pool AND one_shl (unat ((start + of_nat n) mod RIX_RQ_SLOTS)) \<noteq> 0"
  have P: "?P n \<longleftrightarrow> bit pool ((unat start + n) mod 32)" if "n < 32" for n
    using that start by (simp only: unat_scan_index and_one_shl_eq_0 not_not)
  obtain s where s: "s < 32" "bit pool s" using pool word_nonzero_bit[of pool] by auto
  have "?P (ahead (unat start) s)" using s start by (simp only: P ahead_less slot_at_ahead)
  then have "find ?P [0..<32] \<noteq> None"
    unfolding find_upt_None using ahead_less[of "unat start" s] by blast
  then obtain n where n: "find ?P [0..<32] = Some n" by blast
  note h = find_upt_SomeD[OF n]
  let ?i = "(start + of_nat n) mod RIX_RQ_SLOTS"
  have i: "unat ?i = (unat start + n) mod 32" using start h(2) by (rule unat_scan_index)
  have "unat ((?i + 1) mod RIX_RQ_SLOTS) = (unat ?i + 1) mod 32"
    using i by (simp add: unat_word_ariths)
  also have "\<dots> = (unat start + Suc n) mod 32" unfolding i by presburger
  finally have c: "(?i + 1) mod RIX_RQ_SLOTS = of_nat ((unat start + Suc n) mod 32)"
    by (simp add: word_unat_eq_iff)
  have res: "rq_scan_locked rq pool start =
      (int ((unat start + n) mod 32), rq\<lparr>rq_cursor := of_nat ((unat start + Suc n) mod 32)\<rparr>)"
    unfolding rq_scan_locked_def unat_RIX_RQ_SLOTS n by (simp only: option.case Let_def i c)
  show thesis
  proof (rule that[OF h(2) _ _ res])
    show "bit pool ((unat start + n) mod 32)" using h(2,3) P by blast
    show "\<And>j. j < n \<Longrightarrow> \<not> bit pool ((unat start + j) mod 32)"
      using h(2,4) P by (meson less_trans zero_le)
  qed
qed

subsection \<open>Picking\<close>

lemma rq_pick_normal_hit:
  assumes "unat start < 32" "rq_mask rq \<noteq> 0"
  obtains n where "n < 32" "(unat start + n) mod 32 \<in> rq_slots rq"
    "\<And>j. j < n \<Longrightarrow> (unat start + j) mod 32 \<notin> rq_slots rq"
    "rq_pick_normal_locked rq start =
       (int ((unat start + n) mod 32),
        rq\<lparr>rq_cursor := of_nat ((unat start + Suc n) mod 32), rq_hipri_streak := 0\<rparr>)"
proof (rule rq_scan_locked_hit[OF assms, of rq])
  fix n
  assume n: "n < 32" "bit (rq_mask rq) ((unat start + n) mod 32)"
    "\<And>j. j < n \<Longrightarrow> \<not> bit (rq_mask rq) ((unat start + j) mod 32)"
    "rq_scan_locked rq (rq_mask rq) start =
       (int ((unat start + n) mod 32), rq\<lparr>rq_cursor := of_nat ((unat start + Suc n) mod 32)\<rparr>)"
  show thesis
  proof (rule that[of n])
    show "rq_pick_normal_locked rq start =
        (int ((unat start + n) mod 32),
         rq\<lparr>rq_cursor := of_nat ((unat start + Suc n) mod 32), rq_hipri_streak := 0\<rparr>)"
      unfolding rq_pick_normal_locked_def n(4) by simp
  qed (use n in \<open>auto simp: rq_slots_def\<close>)
qed

text \<open>The two outcomes of a pick from a queue that holds a slot: the next high-priority slot while
  the streak is below the cap, otherwise the next slot of the whole mask.\<close>

lemma rq_pick_cases:
  assumes mask: "rq_mask rq \<noteq> 0"
  obtains
    (high) n where "rq_mask rq AND himask \<noteq> 0" "rq_hipri_streak rq < 4" "n < 32"
      "bit (rq_mask rq AND himask) ((unat (rq_cursor rq) + n) mod 32)"
      "\<And>j. j < n \<Longrightarrow> \<not> bit (rq_mask rq AND himask) ((unat (rq_cursor rq) + j) mod 32)"
      "rq_pick_locked rq himask =
         (int ((unat (rq_cursor rq) + n) mod 32),
          rq\<lparr>rq_cursor := of_nat ((unat (rq_cursor rq) + Suc n) mod 32),
             rq_hipri_streak := rq_hipri_streak rq + 1\<rparr>)"
  | (normal) n where "rq_mask rq AND himask = 0 \<or> 4 \<le> rq_hipri_streak rq" "n < 32"
      "(unat (rq_cursor rq) + n) mod 32 \<in> rq_slots rq"
      "\<And>j. j < n \<Longrightarrow> (unat (rq_cursor rq) + j) mod 32 \<notin> rq_slots rq"
      "rq_pick_locked rq himask =
         (int ((unat (rq_cursor rq) + n) mod 32),
          rq\<lparr>rq_cursor := of_nat ((unat (rq_cursor rq) + Suc n) mod 32), rq_hipri_streak := 0\<rparr>)"
proof (cases "rq_mask rq AND himask \<noteq> 0 \<and> rq_hipri_streak rq < 4")
  case True
  have st: "unat (rq_cursor rq mod RIX_RQ_SLOTS) < 32" by simp
  from rq_scan_locked_hit[OF st, of "rq_mask rq AND himask" rq] True
  obtain n where n: "n < 32" "bit (rq_mask rq AND himask) ((unat (rq_cursor rq) mod 32 + n) mod 32)"
    "\<And>j. j < n \<Longrightarrow> \<not> bit (rq_mask rq AND himask) ((unat (rq_cursor rq) mod 32 + j) mod 32)"
    "rq_scan_locked rq (rq_mask rq AND himask) (rq_cursor rq mod RIX_RQ_SLOTS) =
       (int ((unat (rq_cursor rq) mod 32 + n) mod 32),
        rq\<lparr>rq_cursor := of_nat ((unat (rq_cursor rq) mod 32 + Suc n) mod 32)\<rparr>)"
    unfolding unat_start_mod by metis
  show thesis
  proof (rule high[of n])
    show "rq_pick_locked rq himask =
        (int ((unat (rq_cursor rq) + n) mod 32),
         rq\<lparr>rq_cursor := of_nat ((unat (rq_cursor rq) + Suc n) mod 32),
            rq_hipri_streak := rq_hipri_streak rq + 1\<rparr>)"
      using True mask unfolding rq_pick_locked_def Let_def n(4) mod_add_left_eq
      by (simp add: RIX_RQ_HIPRI_CAP_def)
    show "\<not> bit (rq_mask rq AND himask) ((unat (rq_cursor rq) + j) mod 32)" if "j < n" for j
      using n(3)[OF that] by (simp only: mod_add_left_eq not_False_eq_True)
  qed (use True n(1,2) in \<open>simp_all only: mod_add_left_eq simp_thms\<close>)
next
  case False
  have st: "unat (rq_cursor rq mod RIX_RQ_SLOTS) < 32" by simp
  from rq_pick_normal_hit[OF st mask]
  obtain n where n: "n < 32" "(unat (rq_cursor rq) mod 32 + n) mod 32 \<in> rq_slots rq"
    "\<And>j. j < n \<Longrightarrow> (unat (rq_cursor rq) mod 32 + j) mod 32 \<notin> rq_slots rq"
    "rq_pick_normal_locked rq (rq_cursor rq mod RIX_RQ_SLOTS) =
       (int ((unat (rq_cursor rq) mod 32 + n) mod 32),
        rq\<lparr>rq_cursor := of_nat ((unat (rq_cursor rq) mod 32 + Suc n) mod 32), rq_hipri_streak := 0\<rparr>)"
    unfolding unat_start_mod by metis
  show thesis
  proof (rule normal[of n])
    show "rq_pick_locked rq himask =
        (int ((unat (rq_cursor rq) + n) mod 32),
         rq\<lparr>rq_cursor := of_nat ((unat (rq_cursor rq) + Suc n) mod 32), rq_hipri_streak := 0\<rparr>)"
      using False mask unfolding rq_pick_locked_def Let_def n(4) mod_add_left_eq
      by (auto simp: RIX_RQ_HIPRI_CAP_def)
    show "rq_mask rq AND himask = 0 \<or> 4 \<le> rq_hipri_streak rq"
      using False by (simp add: not_less)
    show "(unat (rq_cursor rq) + j) mod 32 \<notin> rq_slots rq" if "j < n" for j
      using n(3)[OF that] by (simp only: mod_add_left_eq not_False_eq_True)
  qed (use n(1,2) in \<open>simp_all only: mod_add_left_eq\<close>)
qed

lemma rq_pick_empty: "rq_mask rq = 0 \<Longrightarrow> rq_pick_locked rq himask = (-1, rq)"
  by (simp add: rq_pick_locked_def)

lemma rq_slots_mask_0: "rq_mask rq = 0 \<longleftrightarrow> rq_slots rq = {}"
  using rq_empty_iff by (simp add: rq_empty_locked_def)

lemma rq_pick_mask: "rq_mask (snd (rq_pick_locked rq himask)) = rq_mask rq"
  by (cases "rq_mask rq = 0") (auto simp: rq_pick_empty elim!: rq_pick_cases[of rq himask])

lemma rq_pick_slots [simp]: "rq_slots (snd (rq_pick_locked rq himask)) = rq_slots rq"
  by (simp add: rq_slots_def rq_pick_mask)

lemma rq_pick_member:
  assumes "rq_slots rq \<noteq> {}"
  shows "\<exists>i \<in> rq_slots rq. fst (rq_pick_locked rq himask) = int i"
proof -
  from assms have "rq_mask rq \<noteq> 0" by (simp add: rq_slots_mask_0)
  then show ?thesis
    by (rule rq_pick_cases[of rq himask]) (auto simp: rq_slots_def bit_and_iff)
qed

lemma rq_pick_negative_iff: "fst (rq_pick_locked rq himask) < 0 \<longleftrightarrow> rq_slots rq = {}"
  using rq_pick_member[of rq himask] rq_pick_empty[of rq himask] rq_slots_mask_0[of rq] by force

lemma rq_pick_streak:
  assumes "rq_hipri_streak rq \<le> 4"
  shows "rq_hipri_streak (snd (rq_pick_locked rq himask)) \<le> 4"
proof (cases "rq_mask rq = 0")
  case True
  then show ?thesis using assms by (simp add: rq_pick_empty)
next
  case False
  then show ?thesis
  proof (rule rq_pick_cases[of rq himask])
    assume "rq_hipri_streak rq < 4"
    then have "rq_hipri_streak rq + 1 \<le> 4" by (rule inc_le)
    then show ?thesis if "rq_pick_locked rq himask = (r, rq\<lparr>rq_cursor := c, rq_hipri_streak := rq_hipri_streak rq + 1\<rparr>)"
      for r c using that by simp
  qed auto
qed

subsection \<open>Sequences of picks\<close>

text \<open>The queue after \<open>k\<close> picks with the same priority mask, and the pick made then.\<close>

definition rq_after :: "u32 \<Rightarrow> nat \<Rightarrow> rix_runqueue \<Rightarrow> rix_runqueue" where
  "rq_after himask k rq = ((\<lambda>q. snd (rq_pick_locked q himask)) ^^ k) rq"

definition rq_nth_pick :: "u32 \<Rightarrow> nat \<Rightarrow> rix_runqueue \<Rightarrow> rc" where
  "rq_nth_pick himask k rq = fst (rq_pick_locked (rq_after himask k rq) himask)"

lemma rq_after_0 [simp]: "rq_after himask 0 rq = rq"
  by (simp add: rq_after_def)

lemma rq_after_Suc: "rq_after himask (Suc k) rq = rq_after himask k (snd (rq_pick_locked rq himask))"
  by (simp add: rq_after_def funpow_Suc_right del: funpow.simps)

lemma rq_after_Suc': "rq_after himask (Suc k) rq = snd (rq_pick_locked (rq_after himask k rq) himask)"
  by (simp add: rq_after_def)

lemma rq_nth_pick_Suc: "rq_nth_pick himask (Suc k) rq = rq_nth_pick himask k (snd (rq_pick_locked rq himask))"
  by (simp add: rq_nth_pick_def rq_after_Suc)

lemma rq_round_robin_reaches:
  assumes "s \<in> rq_slots rq" "rq_mask rq AND himask = 0"
  shows "\<exists>k \<le> ahead (unat (rq_cursor rq) mod 32) s. rq_nth_pick himask k rq = int s"
  using assms
proof (induction "ahead (unat (rq_cursor rq) mod 32) s" arbitrary: rq rule: less_induct)
  case less
  let ?c = "unat (rq_cursor rq) mod 32"
  have s: "s < 32" using less.prems rq_slots_subset by blast
  have "rq_mask rq \<noteq> 0" using less.prems by (auto simp: rq_slots_mask_0)
  then show ?case
  proof (cases rule: rq_pick_cases[of rq himask])
    case (high n)
    with less.prems show ?thesis by simp
  next
    case (normal n)
    have n: "n \<le> ahead ?c s"
    proof (rule ccontr)
      assume "\<not> n \<le> ahead ?c s"
      then have "(unat (rq_cursor rq) + ahead ?c s) mod 32 \<notin> rq_slots rq" using normal(4) by simp
      moreover have "(unat (rq_cursor rq) + ahead ?c s) mod 32 = s"
        using slot_at_ahead[of ?c s] s by (simp add: mod_add_left_eq)
      ultimately show False using less.prems by simp
    qed
    show ?thesis
    proof (cases "n = ahead ?c s")
      case True
      then have "(unat (rq_cursor rq) + n) mod 32 = s"
        using slot_at_ahead[of ?c s] s by (simp add: mod_add_left_eq)
      then have "rq_nth_pick himask 0 rq = int s" using normal(5) by (simp add: rq_nth_pick_def)
      then show ?thesis by blast
    next
      case False
      let ?rq' = "snd (rq_pick_locked rq himask)"
      have "unat (of_nat ((unat (rq_cursor rq) + Suc n) mod 32) :: u32) = (unat (rq_cursor rq) + Suc n) mod 32"
        by (rule unat_of_nat_small) (rule order_less_trans[OF mod_less_divisor], simp_all)
      then have "unat (rq_cursor ?rq') mod 32 = (unat (rq_cursor rq) + Suc n) mod 32"
        unfolding normal(5) by simp
      then have c': "unat (rq_cursor ?rq') mod 32 = (?c + Suc n) mod 32"
        by (simp only: mod_add_left_eq)
      have d: "ahead (unat (rq_cursor ?rq') mod 32) s = ahead ?c s - n - 1"
        unfolding c' by (rule ahead_step) (use s n False in auto)
      have "\<exists>k \<le> ahead (unat (rq_cursor ?rq') mod 32) s. rq_nth_pick himask k ?rq' = int s"
        using n False less.prems by (intro less.hyps) (auto simp: d rq_pick_mask)
      then obtain k where "k \<le> ahead ?c s - n - 1" "rq_nth_pick himask k ?rq' = int s"
        unfolding d by blast
      then show ?thesis using n False by (intro exI[of _ "Suc k"]) (auto simp: rq_nth_pick_Suc)
    qed
  qed
qed


subsection \<open>The queue as an interface\<close>

text \<open>What the scheduler relies on: the slots a queue holds, a pick that returns one of them and
  keeps them all, and a removal.  \<open>pick_verified\<close> is the loop the scheduler runs over a
  queue: take a pick, accept it if the slot passes the check, otherwise drop the slot and go on, at
  most a fixed number of times.\<close>

fun pick_verified :: "('q \<Rightarrow> rc \<times> 'q) \<Rightarrow> ('q \<Rightarrow> nat \<Rightarrow> 'q) \<Rightarrow> (nat \<Rightarrow> bool) \<Rightarrow> nat \<Rightarrow> 'q \<Rightarrow> nat option \<times> 'q" where
  "pick_verified pick rm ok 0 q = (None, q)"
| "pick_verified pick rm ok (Suc n) q =
     (let (pi, q1) = pick q
      in if pi < 0 then (None, q1)
         else if ok (nat pi) then (Some (nat pi), q1)
         else pick_verified pick rm ok n (rm q1 (nat pi)))"

locale slot_queue =
  fixes slots :: "'q \<Rightarrow> nat set"
    and pick :: "'q \<Rightarrow> rc \<times> 'q"
    and remove :: "'q \<Rightarrow> nat \<Rightarrow> 'q"
  assumes finite_slots: "finite (slots q)"
    and pick_keeps: "slots (snd (pick q)) = slots q"
    and pick_in: "slots q \<noteq> {} \<Longrightarrow> \<exists>i \<in> slots q. fst (pick q) = int i"
    and pick_none: "slots q = {} \<Longrightarrow> fst (pick q) < 0"
    and remove_slot: "i \<in> slots q \<Longrightarrow> slots (remove q i) = slots q - {i}"
begin

lemma pick_verified_sound:
  "pick_verified pick remove ok n q = (Some i, q') \<Longrightarrow> i \<in> slots q \<and> ok i"
proof (induction n arbitrary: q)
  case (Suc n)
  obtain pi q1 where p: "pick q = (pi, q1)" by fastforce
  show ?case
  proof (cases "slots q = {}")
    case True
    with pick_none[of q] p Suc.prems show ?thesis by simp
  next
    case False
    then obtain j where j: "j \<in> slots q" "pi = int j" using pick_in[of q] p by auto
    have s1: "slots q1 = slots q" using pick_keeps[of q] p by simp
    show ?thesis
    proof (cases "ok j")
      case True
      with Suc.prems p j show ?thesis by simp
    next
      case no: False
      then have "pick_verified pick remove ok n (remove q1 j) = (Some i, q')"
        using Suc.prems p j by simp
      from Suc.IH[OF this] show ?thesis using remove_slot[of j q1] j s1 by simp
    qed
  qed
qed simp

lemma pick_verified_complete:
  assumes "card (slots q) \<le> n" "i \<in> slots q" "ok i"
  shows "\<exists>j q'. pick_verified pick remove ok n q = (Some j, q')"
  using assms
proof (induction n arbitrary: q)
  case 0
  then show ?case using finite_slots[of q] by auto
next
  case (Suc n)
  obtain pi q1 where p: "pick q = (pi, q1)" by fastforce
  obtain j where j: "j \<in> slots q" "pi = int j" using pick_in[of q] p Suc.prems by auto
  have s1: "slots q1 = slots q" using pick_keeps[of q] p by simp
  show ?case
  proof (cases "ok j")
    case True
    with p j show ?thesis by simp
  next
    case False
    have r: "slots (remove q1 j) = slots q - {j}" using remove_slot[of j q1] j s1 by simp
    have "card (slots q - {j}) < card (slots q)" using j finite_slots by (intro psubset_card_mono) auto
    then have "\<exists>j' q'. pick_verified pick remove ok n (remove q1 j) = (Some j', q')"
      using Suc.prems False by (intro Suc.IH) (auto simp: r)
    with p j False show ?thesis by simp
  qed
qed

lemma pick_verified_subset: "slots (snd (pick_verified pick remove ok n q)) \<subseteq> slots q"
proof (induction n arbitrary: q)
  case (Suc n)
  obtain pi q1 where p: "pick q = (pi, q1)" by fastforce
  have s1: "slots q1 = slots q" using pick_keeps[of q] p by simp
  show ?case
  proof (cases "pi < 0 \<or> ok (nat pi)")
    case True
    with p s1 show ?thesis by auto
  next
    case False
    with pick_none[of q] p have "slots q \<noteq> {}" by auto
    then have "nat pi \<in> slots q1" using pick_in[of q] p s1 by auto
    from remove_slot[OF this] Suc.IH[of "remove q1 (nat pi)"] False p s1 show ?thesis by auto
  qed
qed simp

text \<open>When every slot of the queue passes the check, the first pick is accepted and the queue keeps its slots.\<close>

lemma pick_verified_all_ok:
  assumes "\<forall>i \<in> slots q. ok i"
  shows "slots (snd (pick_verified pick remove ok n q)) = slots q"
proof (cases n)
  case (Suc m)
  obtain pi q1 where p: "pick q = (pi, q1)" by fastforce
  have s1: "slots q1 = slots q" using pick_keeps[of q] p by simp
  have "pi < 0 \<or> ok (nat pi)"
    using assms pick_in[of q] pick_none[of q] p by (cases "slots q = {}") auto
  with p s1 Suc show ?thesis by auto
qed simp

end

interpretation rq: slot_queue rq_slots "\<lambda>q. rq_pick_locked q himask" "\<lambda>q i. rq_remove_locked q (of_nat i)"
proof
  fix q i
  show "finite (rq_slots q)" by simp
  show "rq_slots (snd (rq_pick_locked q himask)) = rq_slots q" by simp
  show "rq_slots q \<noteq> {} \<Longrightarrow> \<exists>i \<in> rq_slots q. fst (rq_pick_locked q himask) = int i"
    by (rule rq_pick_member)
  show "rq_slots q = {} \<Longrightarrow> fst (rq_pick_locked q himask) < 0" by (simp add: rq_pick_negative_iff)
  show "i \<in> rq_slots q \<Longrightarrow> rq_slots (rq_remove_locked q (of_nat i)) = rq_slots q - {i}"
    using rq_slots_subset by (intro rq_slots_remove) auto
qed

subsection \<open>Properties\<close>

text \<open>C28: the bitmask operations implement a set of task slots: adding, removing, testing, counting
  and the emptiness test act on the set of slots as the set operations do, and a slot index of 32 or
  more changes nothing.\<close>

theorem rq_refines_slot_set:
  "rq_slots rq_init_locked = {} \<and>
   rq_slots (rq_add_locked rq idx) = (if unat idx < 32 then insert (unat idx) (rq_slots rq) else rq_slots rq) \<and>
   rq_slots (rq_remove_locked rq idx) = (if unat idx < 32 then rq_slots rq - {unat idx} else rq_slots rq) \<and>
   (rq_contains_locked rq idx \<longleftrightarrow> unat idx \<in> rq_slots rq) \<and>
   (rq_empty_locked rq \<longleftrightarrow> rq_slots rq = {}) \<and>
   unat (rq_count_locked rq) = card (rq_slots rq)"
proof -
  have idx: "idx = of_nat (unat idx)" by (simp add: word_unat_eq_iff)
  show ?thesis
  proof (cases "unat idx < 32")
    case True
    then show ?thesis
      using rq_slots_add[OF True, of rq] rq_slots_remove[OF True, of rq] rq_contains_iff[OF True, of rq]
      by (simp add: rq_empty_iff rq_count_card)
  next
    case False
    then have "RIX_RQ_SLOTS \<le> idx" by (simp add: word_le_nat_alt)
    moreover have "unat idx \<notin> rq_slots rq" using False rq_slots_subset by blast
    ultimately show ?thesis using False
      by (simp add: rq_add_locked_def rq_remove_locked_def rq_contains_locked_def rq_empty_iff rq_count_card)
  qed
qed

text \<open>C29: a pick returns a slot the queue holds, and returns -1 exactly when it holds none; it never
  adds or loses a slot.\<close>

theorem rq_pick_correct:
  "(if rq_slots rq = {} then fst (rq_pick_locked rq himask) = -1
    else \<exists>i \<in> rq_slots rq. fst (rq_pick_locked rq himask) = int i) \<and>
   rq_slots (snd (rq_pick_locked rq himask)) = rq_slots rq"
  using rq_pick_member[of rq himask] rq_pick_empty[of rq himask] rq_slots_mask_0[of rq] by auto

text \<open>C30: while no slot of the queue has high priority the picks are fair: every slot of the queue
  comes up within the next 32 picks.\<close>

theorem rq_round_robin_fair:
  assumes "s \<in> rq_slots rq" "rq_mask rq AND himask = 0"
  shows "\<exists>k < 32. rq_nth_pick himask k rq = int s"
  using rq_round_robin_reaches[OF assms] ahead_less[of "unat (rq_cursor rq) mod 32" s]
  by (meson order_le_less_trans)

theorem rq_round_robin_fair_witness:
  "\<exists>k < 32. rq_nth_pick 8 k \<lparr>rq_mask = 5, rq_cursor = 1, rq_hipri_streak = 0\<rparr> = int 0"
proof (rule rq_round_robin_fair)
  show "0 \<in> rq_slots \<lparr>rq_mask = 5, rq_cursor = 1, rq_hipri_streak = 0\<rparr>" by (simp add: rq_slots_def)
  show "rq_mask \<lparr>rq_mask = 5, rq_cursor = 1, rq_hipri_streak = 0\<rparr> AND 8 = 0" by simp
qed



definition starving_queue :: rix_runqueue where
  "starving_queue = \<lparr>rq_mask = 7, rq_cursor = 0, rq_hipri_streak = 0\<rparr>"

lemma seven_mask: "(7 :: u32) = mask 3"
  by (simp add: mask_eq_exp_minus_1)

lemma bit_seven: "bit (7 :: u32) n \<longleftrightarrow> n < 3"
  unfolding seven_mask bit_mask_iff by auto

lemma rq_slots_7:
  assumes "rq_mask rq = 7"
  shows "rq_slots rq = {0, 1, 2}"
proof -
  have "rq_slots rq = {n. n < 3}" unfolding rq_slots_def assms bit_seven by (rule refl)
  also have "\<dots> = {0, 1, 2}" by auto
  finally show ?thesis .
qed

text \<open>What the picks keep: the mask, and that a full streak leaves the cursor right after slot 0.\<close>

definition starving :: "rix_runqueue \<Rightarrow> bool" where
  "starving rq \<longleftrightarrow> rq_mask rq = 7 \<and> (4 \<le> rq_hipri_streak rq \<longrightarrow> rq_cursor rq = 1)"

lemma starving_pick:
  assumes "starving rq"
  shows "starving (snd (rq_pick_locked rq 1)) \<and> fst (rq_pick_locked rq 1) \<in> {0, 1}"
proof -
  from assms have m: "rq_mask rq = 7" by (simp add: starving_def)
  have pool: "rq_mask rq AND 1 = 1" by (simp add: m)
  have nonzero: "rq_mask rq \<noteq> 0" by (simp add: m)
  then show ?thesis
  proof (cases rule: rq_pick_cases[of rq 1])
    case (high n)
    from high(4) have z: "(unat (rq_cursor rq) + n) mod 32 = 0" by (simp add: pool bit_1_iff)
    then have "(unat (rq_cursor rq) + Suc n) mod 32 = 1" by (simp add: mod_Suc)
    with z high(6) have "rq_pick_locked rq 1 =
        (0, rq\<lparr>rq_cursor := 1, rq_hipri_streak := rq_hipri_streak rq + 1\<rparr>)"
      by (simp only: of_nat_1 of_nat_0 int_ops)
    with m show ?thesis by (simp add: starving_def)
  next
    case (normal n)
    then have c: "rq_cursor rq = 1" using assms pool by (simp add: starving_def)
    have "n = 0"
    proof (rule ccontr)
      assume "n \<noteq> 0"
      then have "(unat (rq_cursor rq) + 0) mod 32 \<notin> rq_slots rq" using normal(4) by blast
      then show False by (simp add: c rq_slots_7[OF m])
    qed
    with normal(5) c m show ?thesis by (simp add: starving_def)
  qed
qed

text \<open>The cap does not keep normal slots from starving.  With slots 0, 1 and 2 in the queue and
  slot 0 of high priority, the picks go 0, 0, 0, 0, 1 for ever: the pick over the whole mask starts
  after the last high-priority slot each time, so slot 2 is never picked although it stays in the queue.\<close>

theorem rq_high_priority_starves:
  "2 \<in> rq_slots (rq_after 1 k starving_queue) \<and> rq_nth_pick 1 k starving_queue \<noteq> 2"
proof -
  have "starving (rq_after 1 k starving_queue)"
  proof (induction k)
    case 0
    show ?case by (simp add: starving_def starving_queue_def)
  next
    case (Suc k)
    then show ?case by (simp add: rq_after_Suc' starving_pick)
  qed
  then show ?thesis
    using starving_pick rq_slots_7 unfolding rq_nth_pick_def starving_def by fastforce
qed

end
