(* ===== verification/Handle_Registry.thy ===== *)
theory Handle_Registry
  imports Rix_Prelude
begin

text \<open>
  The interface the scheduler uses to keep its tasks bound to objects of another component: a
  registry is a finite map from live handles to their owners, \<open>prepare\<close> adds a fresh handle and
  \<open>remove\<close> drops one.  The wait queues and the thread table both provide it.  A client that keeps at
  most one handle per agent stays coherent with its registries: every binding names a live entry of
  its own, no handle is shared, and no live entry is left without its agent.
\<close>

locale handle_registry =
  fixes ok :: "'q \<Rightarrow> bool"
    and room :: "'q \<Rightarrow> bool"
    and owner :: "'q \<Rightarrow> 'h \<Rightarrow> 'o option"
    and prepare :: "'q \<Rightarrow> 'o \<Rightarrow> rc \<times> 'h option \<times> 'q"
    and remove :: "'q \<Rightarrow> 'h \<Rightarrow> rc \<times> 'q"
  assumes prepare_ok: "ok q \<Longrightarrow> room q \<Longrightarrow> prepare q x = (r, Some h, q') \<Longrightarrow> ok q'"
    and prepare_fresh: "ok q \<Longrightarrow> room q \<Longrightarrow> prepare q x = (r, Some h, q') \<Longrightarrow> owner q h = None"
    and prepare_owner: "ok q \<Longrightarrow> room q \<Longrightarrow> prepare q x = (r, Some h, q') \<Longrightarrow> owner q' = (owner q)(h \<mapsto> x)"
    and remove_ok: "ok q \<Longrightarrow> ok (snd (remove q h))"
    and remove_owner: "ok q \<Longrightarrow> owner (snd (remove q h)) = (owner q)(h := None)"
begin

definition coherent :: "('w \<Rightarrow> 'q) \<Rightarrow> ('t \<Rightarrow> ('w \<times> 'h) option) \<Rightarrow> ('t \<Rightarrow> 'o) \<Rightarrow> bool" where
  "coherent qs b ident \<longleftrightarrow>
     (\<forall>w. ok (qs w)) \<and>
     (\<forall>t w h. b t = Some (w, h) \<longrightarrow> owner (qs w) h = Some (ident t)) \<and>
     (\<forall>t t' x. b t = Some x \<longrightarrow> b t' = Some x \<longrightarrow> t = t') \<and>
     (\<forall>w h. owner (qs w) h \<noteq> None \<longrightarrow> (\<exists>t. b t = Some (w, h)))"

lemma coherentD:
  assumes "coherent qs b ident"
  shows "ok (qs w)" "b t = Some (w, h) \<Longrightarrow> owner (qs w) h = Some (ident t)"
    "b t = Some x \<Longrightarrow> b t' = Some x \<Longrightarrow> t = t'"
    "owner (qs w) h = Some y \<Longrightarrow> \<exists>t. b t = Some (w, h)"
  using assms unfolding coherent_def by blast+

lemma coherent_prepare:
  assumes c: "coherent qs b ident" and free: "b t = None"
    and p: "room (qs w)" "prepare (qs w) (ident t) = (r, Some h, q')"
  shows "coherent (qs(w := q')) (b(t \<mapsto> (w, h))) ident"
proof -
  note cd = coherentD[OF c]
  note laws = prepare_ok[OF cd(1) p] prepare_fresh[OF cd(1) p] prepare_owner[OF cd(1) p]
  have new: "b t' \<noteq> Some (w, h)" for t' using cd(2)[of t' w h] laws(2) by auto
  show ?thesis
    unfolding coherent_def
  proof (intro conjI allI impI)
    show "ok ((qs(w := q')) w')" for w' using cd(1) laws(1) by simp
    show "owner ((qs(w := q')) w') h' = Some (ident t')" if "(b(t \<mapsto> (w, h))) t' = Some (w', h')" for t' w' h'
      using that cd(2)[of t' w' h'] laws(3) new[of t'] by (auto split: if_splits)
    show "t1 = t2" if "(b(t \<mapsto> (w, h))) t1 = Some x" "(b(t \<mapsto> (w, h))) t2 = Some x" for t1 t2 x
      using that cd(3)[of t1 x t2] new by (auto split: if_splits)
    fix w' h' assume o: "owner ((qs(w := q')) w') h' \<noteq> None"
    show "\<exists>t'. (b(t \<mapsto> (w, h))) t' = Some (w', h')"
    proof (cases "w' = w \<and> h' = h")
      case False
      then obtain y where "owner (qs w') h' = Some y" using o laws(3) by (auto split: if_splits)
      from cd(4)[OF this] obtain t' where "b t' = Some (w', h')" by blast
      with free show ?thesis by (intro exI[of _ t']) auto
    qed auto
  qed
qed

lemma coherent_remove:
  assumes c: "coherent qs b ident" and bt: "b t = Some (w, h)"
  shows "coherent (qs(w := snd (remove (qs w) h))) (b(t := None)) ident"
proof -
  note cd = coherentD[OF c]
  note laws = remove_ok[OF cd(1)] remove_owner[OF cd(1)]
  have "b t' = Some (w, h) \<Longrightarrow> t' = t" for t' using cd(3)[of t' "(w, h)" t] bt by simp
  then have only: "t' = t" if "b t' = Some (w, h)" for t' using that by blast
  show ?thesis
    unfolding coherent_def
  proof (intro conjI allI impI)
    show "ok ((qs(w := snd (remove (qs w) h))) w')" for w' using cd(1) laws(1) by simp
    show "owner ((qs(w := snd (remove (qs w) h))) w') h' = Some (ident t')"
      if "(b(t := None)) t' = Some (w', h')" for t' w' h'
      using that cd(2)[of t' w' h'] laws(2) only[of t'] by (auto split: if_splits)
    show "t1 = t2" if "(b(t := None)) t1 = Some x" "(b(t := None)) t2 = Some x" for t1 t2 x
      using that cd(3)[of t1 x t2] by (auto split: if_splits)
    fix w' h' assume "owner ((qs(w := snd (remove (qs w) h))) w') h' \<noteq> None"
    then obtain y where y: "owner (qs w') h' = Some y" "\<not> (w' = w \<and> h' = h)"
      using laws(2) by (auto split: if_splits)
    from cd(4)[OF y(1)] obtain t' where "b t' = Some (w', h')" by blast
    with bt y(2) show "\<exists>t'. (b(t := None)) t' = Some (w', h')" by (intro exI[of _ t']) auto
  qed
qed

text \<open>An agent without a binding may change its identity, and a registry may change in any way that
  keeps its owners.\<close>

lemma coherent_ident:
  assumes "coherent qs b ident" "\<And>t. b t \<noteq> None \<Longrightarrow> ident' t = ident t"
  shows "coherent qs b ident'"
  using assms unfolding coherent_def by (metis option.distinct(1))

lemma coherent_queue:
  assumes "coherent qs b ident" "ok q'" "owner q' = owner (qs w)"
  shows "coherent (qs(w := q')) b ident"
  using assms unfolding coherent_def by auto

end

end
