(* ===== verification/Thread_Table.thy ===== *)
theory Thread_Table
  imports Handle_Registry
begin

text \<open>
  The kernel thread table of \<^verbatim>\<open>kernel/sched/thread.c\<close>: 64 records, each naming its
  owner process, and the counter the thread ids are taken from.  The process table is read through
  \<^verbatim>\<open>process_lookup\<close> only; here it is the argument \<open>lookup\<close>, which gives the
  state of a process.
\<close>

subsection \<open>State and operations\<close>

datatype rix_process_state = RIX_PROC_UNUSED | RIX_PROC_RUNNING | RIX_PROC_SLEEPING | RIX_PROC_ZOMBIE

datatype rix_thread_state = RIX_THREAD_UNUSED | RIX_THREAD_ACTIVE | RIX_THREAD_DETACHED

record rix_thread =
  th_tid :: u64
  th_owner_pid :: u64
  th_state :: rix_thread_state

record rix_thread_info =
  ti_tid :: u64
  ti_owner_pid :: u64
  ti_state :: rix_thread_state
  ti_flags :: u32

record thread_table =
  threads :: "rix_thread list"
  next_tid :: u64

definition RIX_THREAD_MAX :: nat where "RIX_THREAD_MAX = 64"

definition unused_thread :: rix_thread where
  "unused_thread = \<lparr>th_tid = 0, th_owner_pid = 0, th_state = RIX_THREAD_UNUSED\<rparr>"

definition thread_table_init :: thread_table where
  "thread_table_init = \<lparr>threads = replicate RIX_THREAD_MAX unused_thread, next_tid = 1\<rparr>"

definition find_locked :: "thread_table \<Rightarrow> u64 \<Rightarrow> nat option" where
  "find_locked t tid =
     (if tid = 0 then None
      else find (\<lambda>i. th_state (threads t ! i) \<noteq> RIX_THREAD_UNUSED \<and> th_tid (threads t ! i) = tid)
             [0..<RIX_THREAD_MAX])"

definition owner_live :: "(u64 \<Rightarrow> rix_process_state option) \<Rightarrow> u64 \<Rightarrow> bool" where
  "owner_live lookup pid =
     (if pid = 0 then True
      else case lookup pid of
        None \<Rightarrow> False
      | Some st \<Rightarrow> \<not> (st = RIX_PROC_UNUSED \<or> st = RIX_PROC_ZOMBIE))"

definition thread_alloc_locked ::
  "(u64 \<Rightarrow> rix_process_state option) \<Rightarrow> thread_table \<Rightarrow> u64 \<Rightarrow> rc \<times> u64 option \<times> thread_table" where
  "thread_alloc_locked lookup t owner_pid =
     (if \<not> owner_live lookup owner_pid then (-1, None, t)
      else case find (\<lambda>i. th_state (threads t ! i) = RIX_THREAD_UNUSED) [0..<RIX_THREAD_MAX] of
        None \<Rightarrow> (-2, None, t)
      | Some i \<Rightarrow>
          let tid0 = next_tid t;
              n0 = next_tid t + 1;
              tid = (if tid0 = 0 then n0 else tid0);
              n1 = (if tid0 = 0 then n0 + 1 else n0)
          in (0, Some tid,
              t\<lparr>threads := (threads t)[i := \<lparr>th_tid = tid, th_owner_pid = owner_pid,
                                            th_state = RIX_THREAD_ACTIVE\<rparr>],
                next_tid := n1\<rparr>))"

definition thread_free_locked :: "thread_table \<Rightarrow> u64 \<Rightarrow> thread_table" where
  "thread_free_locked t tid =
     (case find_locked t tid of
        None \<Rightarrow> t
      | Some i \<Rightarrow> t\<lparr>threads := (threads t)[i := unused_thread]\<rparr>)"

definition thread_detach_pid_locked :: "thread_table \<Rightarrow> u64 \<Rightarrow> thread_table" where
  "thread_detach_pid_locked t pid =
     t\<lparr>threads := map (\<lambda>x. if th_state x = RIX_THREAD_ACTIVE \<and> th_owner_pid x = pid
                             then x\<lparr>th_state := RIX_THREAD_DETACHED\<rparr> else x) (threads t)\<rparr>"

definition thread_count_locked :: "thread_table \<Rightarrow> u64 \<Rightarrow> nat" where
  "thread_count_locked t pid =
     length (filter (\<lambda>x. th_state x = RIX_THREAD_ACTIVE \<and> th_owner_pid x = pid) (threads t))"

definition thread_info :: "rix_thread \<Rightarrow> rix_thread_info" where
  "thread_info x = \<lparr>ti_tid = th_tid x, ti_owner_pid = th_owner_pid x, ti_state = th_state x, ti_flags = 0\<rparr>"

definition thread_lookup_locked :: "thread_table \<Rightarrow> u64 \<Rightarrow> rix_thread_info option" where
  "thread_lookup_locked t tid =
     (case find_locked t tid of
        None \<Rightarrow> None
      | Some i \<Rightarrow> Some (thread_info (threads t ! i)))"

definition thread_live_count_locked :: "thread_table \<Rightarrow> nat" where
  "thread_live_count_locked t = length (filter (\<lambda>x. th_state x \<noteq> RIX_THREAD_UNUSED) (threads t))"

definition thread_list_locked :: "thread_table \<Rightarrow> nat \<Rightarrow> rix_thread_info list option" where
  "thread_list_locked t capacity =
     (let total = length (filter (\<lambda>x. th_state x \<noteq> RIX_THREAD_UNUSED) (threads t))
      in if capacity < total then None
         else Some (map thread_info (filter (\<lambda>x. th_state x \<noteq> RIX_THREAD_UNUSED) (threads t))))"

subsection \<open>Well-formed tables\<close>

text \<open>All 64 records are there; the ids of the records in use are distinct, non-zero and below the
  counter; an unused record is blank.\<close>

abbreviation in_use :: "rix_thread \<Rightarrow> bool" where
  "in_use x \<equiv> th_state x \<noteq> RIX_THREAD_UNUSED"

definition thread_table_ok :: "thread_table \<Rightarrow> bool" where
  "thread_table_ok t \<longleftrightarrow>
     length (threads t) = RIX_THREAD_MAX \<and> next_tid t \<noteq> 0 \<and>
     (\<forall>i < RIX_THREAD_MAX. in_use (threads t ! i) \<longrightarrow> th_tid (threads t ! i) \<noteq> 0 \<and> th_tid (threads t ! i) < next_tid t) \<and>
     (\<forall>i < RIX_THREAD_MAX. \<forall>j < RIX_THREAD_MAX.
        in_use (threads t ! i) \<longrightarrow> in_use (threads t ! j) \<longrightarrow> th_tid (threads t ! i) = th_tid (threads t ! j) \<longrightarrow> i = j)"

text \<open>The table as a finite map from thread ids to owner and state.\<close>

definition thread_map :: "thread_table \<Rightarrow> u64 \<Rightarrow> (u64 \<times> rix_thread_state) option" where
  "thread_map t tid =
     map_option (\<lambda>i. (th_owner_pid (threads t ! i), th_state (threads t ! i))) (find_locked t tid)"

lemma thread_table_okD:
  assumes "thread_table_ok t"
  shows "length (threads t) = RIX_THREAD_MAX" "next_tid t \<noteq> 0"
    "\<And>i. i < RIX_THREAD_MAX \<Longrightarrow> in_use (threads t ! i) \<Longrightarrow> th_tid (threads t ! i) \<noteq> 0"
    "\<And>i. i < RIX_THREAD_MAX \<Longrightarrow> in_use (threads t ! i) \<Longrightarrow> th_tid (threads t ! i) < next_tid t"
    "\<And>i j. i < RIX_THREAD_MAX \<Longrightarrow> j < RIX_THREAD_MAX \<Longrightarrow> in_use (threads t ! i) \<Longrightarrow>
       in_use (threads t ! j) \<Longrightarrow> th_tid (threads t ! i) = th_tid (threads t ! j) \<Longrightarrow> i = j"
  using assms unfolding thread_table_ok_def by blast+

lemma find_locked_Some:
  assumes "thread_table_ok t"
  shows "find_locked t tid = Some i \<longleftrightarrow>
    i < RIX_THREAD_MAX \<and> in_use (threads t ! i) \<and> th_tid (threads t ! i) = tid"
proof -
  note ok = thread_table_okD[OF assms]
  have "tid \<noteq> 0 \<and> find (\<lambda>i. in_use (threads t ! i) \<and> th_tid (threads t ! i) = tid) [0..<RIX_THREAD_MAX] = Some i \<longleftrightarrow>
      i < RIX_THREAD_MAX \<and> in_use (threads t ! i) \<and> th_tid (threads t ! i) = tid"
    unfolding find_upt_Some using ok(3,5) by (metis less_irrefl less_trans zero_le)
  then show ?thesis by (auto simp: find_locked_def)
qed

lemma find_locked_None:
  assumes "thread_table_ok t"
  shows "find_locked t tid = None \<longleftrightarrow> (\<forall>i < RIX_THREAD_MAX. in_use (threads t ! i) \<longrightarrow> th_tid (threads t ! i) \<noteq> tid)"
  using find_locked_Some[OF assms, of tid] by (metis not_None_eq)

lemma thread_table_init_ok [simp]: "thread_table_ok thread_table_init"
  by (simp add: thread_table_ok_def thread_table_init_def unused_thread_def)

text \<open>Overwriting one record keeps the table well formed when the new record is unused or carries an
  id that is new.\<close>

lemma thread_table_ok_update:
  assumes ok: "thread_table_ok t" and i: "i < RIX_THREAD_MAX" and n: "next_tid t \<le> n"
    and x: "in_use x \<Longrightarrow> th_tid x \<noteq> 0 \<and> th_tid x < n"
    and fresh: "\<And>j. in_use x \<Longrightarrow> j < RIX_THREAD_MAX \<Longrightarrow> j \<noteq> i \<Longrightarrow> in_use (threads t ! j) \<Longrightarrow>
      th_tid (threads t ! j) \<noteq> th_tid x"
  shows "thread_table_ok (t\<lparr>threads := (threads t)[i := x], next_tid := n\<rparr>)"
proof -
  note okd = thread_table_okD[OF ok]
  have n0: "n \<noteq> 0" using n okd(2) by (metis word_le_0_iff)
  have at: "(threads t)[i := x] ! j = (if j = i then x else threads t ! j)" if "j < RIX_THREAD_MAX" for j
    using that okd(1) by (simp add: nth_list_update)
  have lt: "th_tid (threads t ! j) < n" if "j < RIX_THREAD_MAX" "in_use (threads t ! j)" for j
    using okd(4)[OF that] n by (rule less_le_trans)
  show ?thesis
    unfolding thread_table_ok_def
  proof (intro conjI allI impI)
    fix j assume "j < RIX_THREAD_MAX"
      "in_use (threads (t\<lparr>threads := (threads t)[i := x], next_tid := n\<rparr>) ! j)"
    then show "th_tid (threads (t\<lparr>threads := (threads t)[i := x], next_tid := n\<rparr>) ! j) \<noteq> 0"
      and "th_tid (threads (t\<lparr>threads := (threads t)[i := x], next_tid := n\<rparr>) ! j)
        < next_tid (t\<lparr>threads := (threads t)[i := x], next_tid := n\<rparr>)"
      using x lt okd(3) by (auto simp: at split: if_splits)
  next
    fix j k assume "j < RIX_THREAD_MAX" "k < RIX_THREAD_MAX"
      "in_use (threads (t\<lparr>threads := (threads t)[i := x], next_tid := n\<rparr>) ! j)"
      "in_use (threads (t\<lparr>threads := (threads t)[i := x], next_tid := n\<rparr>) ! k)"
      "th_tid (threads (t\<lparr>threads := (threads t)[i := x], next_tid := n\<rparr>) ! j) =
       th_tid (threads (t\<lparr>threads := (threads t)[i := x], next_tid := n\<rparr>) ! k)"
    then show "j = k" using okd(5) fresh by (auto simp: at split: if_splits)
  qed (use okd(1) n0 in auto)
qed

subsection \<open>The operations on the map\<close>

lemma thread_alloc_cases:
  assumes ok: "thread_table_ok t"
  obtains
    (dead) "\<not> owner_live lookup pid" "thread_alloc_locked lookup t pid = (-1, None, t)"
  | (full) "owner_live lookup pid" "\<forall>i < RIX_THREAD_MAX. in_use (threads t ! i)"
      "thread_alloc_locked lookup t pid = (-2, None, t)"
  | (ok) i where "owner_live lookup pid" "i < RIX_THREAD_MAX" "\<not> in_use (threads t ! i)"
      "thread_alloc_locked lookup t pid =
         (0, Some (next_tid t),
          t\<lparr>threads := (threads t)[i := \<lparr>th_tid = next_tid t, th_owner_pid = pid, th_state = RIX_THREAD_ACTIVE\<rparr>],
            next_tid := next_tid t + 1\<rparr>)"
proof (cases "owner_live lookup pid")
  case False
  then show ?thesis by (intro dead) (simp_all add: thread_alloc_locked_def)
next
  case live: True
  show ?thesis
  proof (cases "find (\<lambda>i. th_state (threads t ! i) = RIX_THREAD_UNUSED) [0..<RIX_THREAD_MAX]")
    case None
    show ?thesis
    proof (rule full)
      show "\<forall>i < RIX_THREAD_MAX. in_use (threads t ! i)"
        using None[unfolded find_upt_None] by blast
    qed (simp_all add: live None thread_alloc_locked_def)
  next
    case (Some i)
    show ?thesis
    proof (rule ok[of i])
      show "i < RIX_THREAD_MAX" "\<not> in_use (threads t ! i)"
        using find_upt_SomeD[OF Some] by simp_all
    qed (simp_all add: live Some thread_alloc_locked_def Let_def thread_table_okD(2)[OF assms])
  qed
qed

lemma thread_map_SomeD:
  assumes "thread_table_ok t" "thread_map t tid = Some v"
  obtains i where "i < RIX_THREAD_MAX" "in_use (threads t ! i)" "th_tid (threads t ! i) = tid"
    "v = (th_owner_pid (threads t ! i), th_state (threads t ! i))"
  using assms by (auto simp: thread_map_def find_locked_Some)

lemma thread_map_SomeI:
  assumes "thread_table_ok t" "i < RIX_THREAD_MAX" "in_use (threads t ! i)" "th_tid (threads t ! i) = tid"
  shows "thread_map t tid = Some (th_owner_pid (threads t ! i), th_state (threads t ! i))"
  using assms find_locked_Some[of t tid i] by (simp add: thread_map_def)

lemma thread_map_None:
  assumes "thread_table_ok t"
  shows "thread_map t tid = None \<longleftrightarrow> (\<forall>i < RIX_THREAD_MAX. in_use (threads t ! i) \<longrightarrow> th_tid (threads t ! i) \<noteq> tid)"
  by (simp add: thread_map_def find_locked_None[OF assms])

lemma thread_map_eqI:
  assumes "thread_table_ok t"
    and "\<And>i. i < RIX_THREAD_MAX \<Longrightarrow> in_use (threads t ! i) \<Longrightarrow>
      m (th_tid (threads t ! i)) = Some (th_owner_pid (threads t ! i), th_state (threads t ! i))"
    and "\<And>tid. (\<And>i. i < RIX_THREAD_MAX \<Longrightarrow> in_use (threads t ! i) \<Longrightarrow> th_tid (threads t ! i) \<noteq> tid) \<Longrightarrow> m tid = None"
  shows "thread_map t = m"
proof
  fix tid
  show "thread_map t tid = m tid"
  proof (cases "thread_map t tid")
    case None
    then show ?thesis using assms(3)[of tid] by (simp add: thread_map_None[OF assms(1)])
  next
    case (Some v)
    from thread_map_SomeD[OF assms(1) this] assms(2) Some show ?thesis by metis
  qed
qed

lemma thread_map_next_tid:
  assumes "thread_table_ok t" "next_tid t \<le> tid"
  shows "thread_map t tid = None"
  using thread_table_okD(4)[OF assms(1)] assms(2) by (force simp: thread_map_None[OF assms(1)])

lemma thread_alloc_ok [rix_inv]:
  assumes ok: "thread_table_ok t" and room: "next_tid t + 1 \<noteq> 0"
    and r: "thread_alloc_locked lookup t pid = (r, out, t')"
  shows "thread_table_ok t'"
  using ok
proof (cases rule: thread_alloc_cases[of t lookup pid])
  case (ok i)
  have lt: "next_tid t < next_tid t + 1" using room by (rule no_wrap_plus_1)
  show ?thesis
    using ok r thread_table_okD(2,4)[OF assms(1)] lt
    by (auto intro!: thread_table_ok_update assms(1)) (metis less_irrefl)
qed (use r assms(1) in auto)

lemma thread_alloc_map:
  assumes ok: "thread_table_ok t" and room: "next_tid t + 1 \<noteq> 0"
    and r: "thread_alloc_locked lookup t pid = (0, Some tid, t')"
  shows "tid = next_tid t" "next_tid t' = next_tid t + 1" "thread_map t tid = None"
    "thread_map t' = (thread_map t)(tid \<mapsto> (pid, RIX_THREAD_ACTIVE))"
proof -
  from ok obtain i where i: "i < RIX_THREAD_MAX" "\<not> in_use (threads t ! i)" "tid = next_tid t"
    and t': "t' = t\<lparr>threads := (threads t)[i := \<lparr>th_tid = next_tid t, th_owner_pid = pid, th_state = RIX_THREAD_ACTIVE\<rparr>],
            next_tid := next_tid t + 1\<rparr>"
    by (rule thread_alloc_cases[of t lookup pid]) (use r in auto)
  show "tid = next_tid t" "next_tid t' = next_tid t + 1" "thread_map t tid = None"
    using i t' thread_map_next_tid[OF ok] by auto
  have ok': "thread_table_ok t'" using thread_alloc_ok[OF ok room r] .
  have at: "threads t' ! j = (if j = i then \<lparr>th_tid = next_tid t, th_owner_pid = pid, th_state = RIX_THREAD_ACTIVE\<rparr>
      else threads t ! j)" if "j < RIX_THREAD_MAX" for j
    using that thread_table_okD(1)[OF ok] by (simp add: t' nth_list_update)
  show "thread_map t' = (thread_map t)(tid \<mapsto> (pid, RIX_THREAD_ACTIVE))"
  proof (rule thread_map_eqI[OF ok'])
    fix j assume j: "j < RIX_THREAD_MAX" "in_use (threads t' ! j)"
    show "((thread_map t)(tid \<mapsto> (pid, RIX_THREAD_ACTIVE))) (th_tid (threads t' ! j)) =
        Some (th_owner_pid (threads t' ! j), th_state (threads t' ! j))"
    proof (cases "j = i")
      case True
      then show ?thesis using i j by (simp add: at)
    next
      case False
      then have "th_tid (threads t ! j) < next_tid t" "in_use (threads t ! j)"
        using thread_table_okD(4)[OF ok j(1)] j by (auto simp: at)
      then show ?thesis using False i j thread_map_SomeI[OF ok j(1) _ refl] by (auto simp: at)
    qed
  next
    fix u assume u: "\<And>j. j < RIX_THREAD_MAX \<Longrightarrow> in_use (threads t' ! j) \<Longrightarrow> th_tid (threads t' ! j) \<noteq> u"
    have "u \<noteq> tid" using u[of i] i by (simp add: at)
    moreover have "thread_map t u = None"
      unfolding thread_map_None[OF ok] using u i by (metis at)
    ultimately show "((thread_map t)(tid \<mapsto> (pid, RIX_THREAD_ACTIVE))) u = None" by simp
  qed
qed

lemma thread_free_ok [rix_inv]: "thread_table_ok t \<Longrightarrow> thread_table_ok (thread_free_locked t tid)"
  using thread_table_ok_update[of t _ "next_tid t" unused_thread]
  by (auto simp: thread_free_locked_def find_locked_Some unused_thread_def split: option.splits)

lemma thread_free_map:
  assumes ok: "thread_table_ok t"
  shows "thread_map (thread_free_locked t tid) = (thread_map t)(tid := None)"
proof (cases "find_locked t tid")
  case None
  then have "thread_map t tid = None" by (simp add: thread_map_def)
  then have "(thread_map t)(tid := None) = thread_map t" by (rule fun_upd_idem)
  with None show ?thesis by (simp add: thread_free_locked_def)
next
  case (Some i)
  note i = Some[unfolded find_locked_Some[OF ok]]
  have t': "thread_free_locked t tid = t\<lparr>threads := (threads t)[i := unused_thread]\<rparr>"
    using Some by (simp add: thread_free_locked_def)
  have at: "threads (thread_free_locked t tid) ! j = (if j = i then unused_thread else threads t ! j)"
    if "j < RIX_THREAD_MAX" for j
    using that thread_table_okD(1)[OF ok] by (simp add: t' nth_list_update)
  show ?thesis
  proof (rule thread_map_eqI[OF thread_free_ok[OF ok]])
    fix j assume j: "j < RIX_THREAD_MAX" "in_use (threads (thread_free_locked t tid) ! j)"
    then have ne: "j \<noteq> i" by (auto simp: at unused_thread_def)
    then have "th_tid (threads t ! j) \<noteq> tid" using thread_table_okD(5)[OF ok j(1)] i j by (auto simp: at)
    then show "((thread_map t)(tid := None)) (th_tid (threads (thread_free_locked t tid) ! j)) =
        Some (th_owner_pid (threads (thread_free_locked t tid) ! j), th_state (threads (thread_free_locked t tid) ! j))"
      using ne j thread_map_SomeI[OF ok j(1) _ refl] by (auto simp: at)
  next
    fix u assume u: "\<And>j. j < RIX_THREAD_MAX \<Longrightarrow> in_use (threads (thread_free_locked t tid) ! j) \<Longrightarrow>
      th_tid (threads (thread_free_locked t tid) ! j) \<noteq> u"
    show "((thread_map t)(tid := None)) u = None"
    proof (cases "u = tid")
      case False
      have "thread_map t u = None" unfolding thread_map_None[OF ok] using u i False by (metis at)
      then show ?thesis by simp
    qed simp
  qed
qed

lemma find_locked_detach [simp]:
  assumes "thread_table_ok t"
  shows "find_locked (thread_detach_pid_locked t pid) tid = find_locked t tid"
  unfolding find_locked_def thread_detach_pid_locked_def
  using thread_table_okD(1)[OF assms] by (auto intro!: find_cong split: if_splits)

lemma thread_detach_ok [rix_inv]:
  assumes "thread_table_ok t"
  shows "thread_table_ok (thread_detach_pid_locked t pid)"
  using thread_table_okD[OF assms]
  by (auto simp: thread_table_ok_def thread_detach_pid_locked_def split: if_splits)

lemma thread_detach_map:
  assumes "thread_table_ok t"
  shows "thread_map (thread_detach_pid_locked t pid) tid =
    map_option (\<lambda>(own, st). (own, if st = RIX_THREAD_ACTIVE \<and> own = pid then RIX_THREAD_DETACHED else st))
      (thread_map t tid)"
proof (cases "find_locked t tid")
  case None
  then show ?thesis by (simp add: thread_map_def find_locked_detach[OF assms])
next
  case (Some i)
  then have "i < length (threads t)" using thread_table_okD(1)[OF assms] by (simp add: find_locked_Some[OF assms])
  then show ?thesis using Some
    by (simp add: thread_map_def find_locked_detach[OF assms]) (simp add: thread_detach_pid_locked_def)
qed

lemma thread_count_card:
  assumes "thread_table_ok t"
  shows "thread_count_locked t pid = card {tid. thread_map t tid = Some (pid, RIX_THREAD_ACTIVE)}"
proof -
  note okd = thread_table_okD[OF assms]
  let ?I = "{i. i < RIX_THREAD_MAX \<and> th_state (threads t ! i) = RIX_THREAD_ACTIVE \<and> th_owner_pid (threads t ! i) = pid}"
  have "{tid. thread_map t tid = Some (pid, RIX_THREAD_ACTIVE)} = (\<lambda>i. th_tid (threads t ! i)) ` ?I"
    by (auto elim!: thread_map_SomeD[OF assms] dest: sym intro!: thread_map_SomeI[OF assms, THEN trans])
  moreover have "inj_on (\<lambda>i. th_tid (threads t ! i)) ?I"
    using okd(5) by (auto intro!: inj_onI)
  ultimately have "card {tid. thread_map t tid = Some (pid, RIX_THREAD_ACTIVE)} = card ?I"
    by (simp add: card_image)
  then show ?thesis by (simp add: thread_count_locked_def length_filter_conv_card okd(1))
qed

subsection \<open>The table is a handle registry\<close>

definition thread_owner :: "thread_table \<Rightarrow> u64 \<Rightarrow> u64 option" where
  "thread_owner t tid = map_option fst (thread_map t tid)"

lemma thread_alloc_None:
  assumes "thread_table_ok t" "thread_alloc_locked lookup t pid = (r, None, t')"
  shows "t' = t"
  using assms(1) by (cases rule: thread_alloc_cases[of t lookup pid]) (use assms(2) in auto)

lemma thread_alloc_Some:
  assumes "thread_table_ok t" "thread_alloc_locked lookup t pid = (r, Some tid, t')"
  shows "r = 0"
  using assms(1) by (cases rule: thread_alloc_cases[of t lookup pid]) (use assms(2) in auto)

lemma thread_detach_owner [simp]:
  assumes "thread_table_ok t"
  shows "thread_owner (thread_detach_pid_locked t pid) = thread_owner t"
  by (rule ext) (auto simp: thread_owner_def thread_detach_map[OF assms] option.map_comp comp_def case_prod_beta
      intro!: option.map_cong)

interpretation th: handle_registry thread_table_ok "\<lambda>t. next_tid t + 1 \<noteq> 0" thread_owner
  "thread_alloc_locked lookup" "\<lambda>t tid. (0, thread_free_locked t tid)"
proof
  fix t x r h t'
  assume a: "thread_table_ok t" "next_tid t + 1 \<noteq> 0" and p: "thread_alloc_locked lookup t x = (r, Some h, t')"
  note r = thread_alloc_Some[OF a(1) p]
  show "thread_table_ok t'" by (rule thread_alloc_ok[OF a p])
  show "thread_owner t h = None" using thread_alloc_map(3)[OF a p[unfolded r]] by (simp add: thread_owner_def)
  show "thread_owner t' = (thread_owner t)(h \<mapsto> x)"
    using thread_alloc_map(4)[OF a p[unfolded r]] by (auto simp: thread_owner_def)
next
  fix t tid
  assume a: "thread_table_ok t"
  show "thread_table_ok (snd (0, thread_free_locked t tid))" using thread_free_ok[OF a] by simp
  show "thread_owner (snd (0, thread_free_locked t tid)) = (thread_owner t)(tid := None)"
    by (auto simp: thread_owner_def thread_free_map[OF a])
qed

subsection \<open>Sequences of operations\<close>

text \<open>Every transition of the table, with the process table the allocation sees, and the ids a
  sequence of them hands out.\<close>

datatype thread_op =
    Thread_alloc "u64 \<Rightarrow> rix_process_state option" u64
  | Thread_free u64
  | Thread_detach u64

fun thread_step :: "thread_op \<Rightarrow> thread_table \<Rightarrow> u64 list \<times> thread_table" where
  "thread_step (Thread_alloc lookup pid) t =
     (case thread_alloc_locked lookup t pid of (r, out, t') \<Rightarrow> (case out of None \<Rightarrow> [] | Some tid \<Rightarrow> [tid], t'))"
| "thread_step (Thread_free tid) t = ([], thread_free_locked t tid)"
| "thread_step (Thread_detach pid) t = ([], thread_detach_pid_locked t pid)"

fun thread_run :: "thread_op list \<Rightarrow> thread_table \<Rightarrow> u64 list \<times> thread_table" where
  "thread_run [] t = ([], t)"
| "thread_run (a # as) t =
     (let (ids, t1) = thread_step a t; (ids', t2) = thread_run as t1 in (ids @ ids', t2))"

lemma thread_step_cases:
  assumes ok: "thread_table_ok t" and room: "next_tid t + 1 \<noteq> 0"
    and r: "thread_step a t = (ids, t')"
  shows "thread_table_ok t' \<and>
    (ids = [] \<and> next_tid t' = next_tid t \<or> ids = [next_tid t] \<and> next_tid t' = next_tid t + 1)"
proof (cases a)
  case (Thread_alloc lookup pid)
  show ?thesis using ok
  proof (cases rule: thread_alloc_cases[of t lookup pid])
    case (ok i)
    then show ?thesis using thread_alloc_ok[OF assms(1) room ok(4)] r Thread_alloc by auto
  qed (use r Thread_alloc assms(1) in auto)
next
  case (Thread_free tid)
  have "next_tid (thread_free_locked t tid) = next_tid t"
    by (simp add: thread_free_locked_def split: option.split)
  then show ?thesis using Thread_free r thread_free_ok[OF ok] by auto
next
  case (Thread_detach pid)
  then show ?thesis using r thread_detach_ok[OF ok] by (auto simp: thread_detach_pid_locked_def)
qed

lemma thread_run_increasing:
  assumes "thread_table_ok t" "unat (next_tid t) + length as < 2 ^ 64" "thread_run as t = (ids, t')"
  shows "thread_table_ok t' \<and> sorted_wrt (<) ids \<and> (\<forall>x \<in> set ids. next_tid t \<le> x \<and> x < next_tid t') \<and>
    next_tid t \<le> next_tid t'"
  using assms
proof (induction as arbitrary: t ids)
  case (Cons a as)
  obtain i1 t1 where s: "thread_step a t = (i1, t1)" by (cases "thread_step a t")
  obtain i2 where r: "thread_run as t1 = (i2, t')" "ids = i1 @ i2"
    using Cons.prems(3) s by (auto split: prod.splits)
  have room: "next_tid t + 1 \<noteq> 0" using Cons.prems(2) by (intro no_wrap_bound) simp
  note st = thread_step_cases[OF Cons.prems(1) room s]
  note w = no_wrap_plus_1[OF room]
  have "unat (next_tid t1) + length as < 2 ^ 64" using st Cons.prems(2) w(2) by auto
  from Cons.IH[OF _ this r(1)] st have ih: "thread_table_ok t' \<and> sorted_wrt (<) i2 \<and>
      (\<forall>x \<in> set i2. next_tid t1 \<le> x \<and> x < next_tid t') \<and> next_tid t1 \<le> next_tid t'" by blast
  from st consider "i1 = []" "next_tid t1 = next_tid t" | "i1 = [next_tid t]" "next_tid t1 = next_tid t + 1" by blast
  then show ?case
  proof cases
    case 1
    then show ?thesis using ih r(2) by simp
  next
    case 2
    have lt: "next_tid t < next_tid t1" using 2 w(1) by simp
    then show ?thesis using ih r(2) 2(1) by (auto intro: less_le_trans less_imp_le le_less_trans)
  qed
qed auto

subsection \<open>Properties\<close>

text \<open>C31: The thread table is a finite map from thread ids.  On a well-formed table whose id counter
  has not reached its last value, an allocation that succeeds hands out an id that no live thread
  has, and adds exactly the binding of that id to its owner; \<open>thread_free_locked\<close> removes exactly one
  id; \<open>thread_detach_pid_locked\<close> turns the active threads of one process, and no other, into detached
  ones; \<open>thread_count_locked\<close> is the number of active threads of a process.  Every one of them leaves
  the table well formed.\<close>

theorem thread_table_refines_map:
  assumes "thread_table_ok t" "next_tid t + 1 \<noteq> 0"
  shows "(thread_alloc_locked lookup t pid = (0, Some tid, t') \<longrightarrow>
      tid \<noteq> 0 \<and> thread_map t tid = None \<and> thread_map t' = (thread_map t)(tid \<mapsto> (pid, RIX_THREAD_ACTIVE)) \<and>
      thread_table_ok t') \<and>
    thread_map (thread_free_locked t u) = (thread_map t)(u := None) \<and>
    thread_table_ok (thread_free_locked t u) \<and>
    thread_map (thread_detach_pid_locked t pid) v =
      map_option (\<lambda>(own, st). (own, if st = RIX_THREAD_ACTIVE \<and> own = pid then RIX_THREAD_DETACHED else st))
        (thread_map t v) \<and>
    thread_table_ok (thread_detach_pid_locked t pid) \<and>
    thread_count_locked t pid = card {w. thread_map t w = Some (pid, RIX_THREAD_ACTIVE)}"
  using assms thread_alloc_map[OF assms] thread_alloc_ok[OF assms] thread_table_okD(2)[OF assms(1)]
  by (auto simp: thread_free_map thread_free_ok thread_detach_map thread_detach_ok thread_count_card)

theorem thread_table_refines_map_witness:
  "thread_alloc_locked (\<lambda>_. Some RIX_PROC_RUNNING) thread_table_init 7 =
     (0, Some 1, \<lparr>threads = \<lparr>th_tid = 1, th_owner_pid = 7, th_state = RIX_THREAD_ACTIVE\<rparr> # replicate 63 unused_thread,
                  next_tid = 2\<rparr>) \<and>
   thread_map \<lparr>threads = \<lparr>th_tid = 1, th_owner_pid = 7, th_state = RIX_THREAD_ACTIVE\<rparr> # replicate 63 unused_thread,
                  next_tid = 2\<rparr> = (thread_map thread_table_init)(1 \<mapsto> (7, RIX_THREAD_ACTIVE))"
proof -
  have e: "thread_alloc_locked (\<lambda>_. Some RIX_PROC_RUNNING) thread_table_init 7 =
     (0, Some 1, \<lparr>threads = \<lparr>th_tid = 1, th_owner_pid = 7, th_state = RIX_THREAD_ACTIVE\<rparr> # replicate 63 unused_thread,
                  next_tid = 2\<rparr>)"
    by code_simp
  have "next_tid thread_table_init + 1 \<noteq> 0" by (simp add: thread_table_init_def)
  from thread_table_refines_map[OF thread_table_init_ok this] e show ?thesis by blast
qed

text \<open>C32: Thread ids are never reused.  Along any sequence of allocations, frees and detaches from
  the initial table, as long as it is shorter than the id space, the ids handed out are strictly
  increasing, so no id is ever given out twice, not even after its thread was freed.\<close>

theorem thread_ids_never_reused:
  assumes "length as < 2 ^ 64 - 1"
  shows "sorted_wrt (<) (fst (thread_run as thread_table_init))"
proof -
  have "unat (next_tid thread_table_init) + length as < 2 ^ 64"
    using assms by (simp add: thread_table_init_def)
  from thread_run_increasing[OF thread_table_init_ok this] show ?thesis
    by (cases "thread_run as thread_table_init") simp
qed

theorem thread_ids_never_reused_witness:
  "fst (thread_run [Thread_alloc (\<lambda>_. None) 0, Thread_free 1, Thread_alloc (\<lambda>_. None) 0] thread_table_init) = [1, 2] \<and>
   sorted_wrt (<) (fst (thread_run [Thread_alloc (\<lambda>_. None) 0, Thread_free 1, Thread_alloc (\<lambda>_. None) 0] thread_table_init))"
proof
  show "fst (thread_run [Thread_alloc (\<lambda>_. None) 0, Thread_free 1, Thread_alloc (\<lambda>_. None) 0] thread_table_init) = [1, 2]"
    by code_simp
  show "sorted_wrt (<) (fst (thread_run [Thread_alloc (\<lambda>_. None) 0, Thread_free 1, Thread_alloc (\<lambda>_. None) 0] thread_table_init))"
    by (rule thread_ids_never_reused) simp
qed

end
