(* ===== verification/Wait_Queue.thy ===== *)
theory Wait_Queue
  imports Handle_Registry
begin

text \<open>
  The waiter registry of \<^verbatim>\<open>kernel/sync/waitqueue.c\<close>: 64 waiter slots addressed by
  handles that carry a slot index and a generation.  Every function body runs under the queue's
  spinlock, so each is one step on the queue.  The array of waiters is a function of the slot index;
  the operations touch indices below \<open>RIX_WQ_MAX_WAITERS\<close> only.
\<close>

subsection \<open>State and operations\<close>

datatype rix_wait_state = RIX_WAIT_UNUSED | RIX_WAIT_READY | RIX_WAIT_BLOCKED | RIX_WAIT_WOKEN

record rix_wait_handle =
  wh_index :: u32
  wh_generation :: u64

record rix_waiter =
  w_id :: u64
  w_generation :: u64
  w_state :: rix_wait_state

record rix_waitqueue =
  wq_waiters :: "nat \<Rightarrow> rix_waiter"
  wq_count :: u32
  wq_generation :: u64

definition RIX_WQ_MAX_WAITERS :: nat where "RIX_WQ_MAX_WAITERS = 64"

definition rix_waitqueue_init :: rix_waitqueue where
  "rix_waitqueue_init =
     \<lparr>wq_waiters = (\<lambda>_. \<lparr>w_id = 0, w_generation = 0, w_state = RIX_WAIT_UNUSED\<rparr>),
      wq_count = 0, wq_generation = 1\<rparr>"

definition wq_resolve :: "rix_waitqueue \<Rightarrow> rix_wait_handle \<Rightarrow> nat option" where
  "wq_resolve q h =
     (if unat (wh_index h) \<ge> RIX_WQ_MAX_WAITERS then None
      else let w = wq_waiters q (unat (wh_index h))
           in if w_state w = RIX_WAIT_UNUSED \<or> w_generation w \<noteq> wh_generation h then None
              else Some (unat (wh_index h)))"

definition rix_waitqueue_prepare :: "rix_waitqueue \<Rightarrow> u64 \<Rightarrow> rc \<times> rix_wait_handle option \<times> rix_waitqueue" where
  "rix_waitqueue_prepare q wid =
     (case find (\<lambda>i. w_state (wq_waiters q i) = RIX_WAIT_UNUSED) [0..<RIX_WQ_MAX_WAITERS] of
        None \<Rightarrow> (-1, None, q)
      | Some i \<Rightarrow>
          let g = wq_generation q;
              n = g + 1
          in (0, Some \<lparr>wh_index = of_nat i, wh_generation = g\<rparr>,
              q\<lparr>wq_waiters := (wq_waiters q)(i := \<lparr>w_id = wid, w_generation = g, w_state = RIX_WAIT_READY\<rparr>),
                wq_generation := (if n = 0 then 1 else n),
                wq_count := wq_count q + 1\<rparr>))"

definition rix_waitqueue_block :: "rix_waitqueue \<Rightarrow> rix_wait_handle \<Rightarrow> rc \<times> rix_waitqueue" where
  "rix_waitqueue_block q h =
     (case wq_resolve q h of
        None \<Rightarrow> (-1, q)
      | Some i \<Rightarrow>
          if w_state (wq_waiters q i) \<noteq> RIX_WAIT_READY then (-1, q)
          else (0, q\<lparr>wq_waiters := (wq_waiters q)(i := (wq_waiters q i)\<lparr>w_state := RIX_WAIT_BLOCKED\<rparr>)\<rparr>))"

definition rix_waitqueue_take_wakeup :: "rix_waitqueue \<Rightarrow> rix_wait_handle \<Rightarrow> rc \<times> rix_waitqueue" where
  "rix_waitqueue_take_wakeup q h =
     (case wq_resolve q h of
        None \<Rightarrow> (-1, q)
      | Some i \<Rightarrow>
          if w_state (wq_waiters q i) = RIX_WAIT_WOKEN
          then (0, q\<lparr>wq_waiters := (wq_waiters q)(i := (wq_waiters q i)\<lparr>w_state := RIX_WAIT_READY\<rparr>)\<rparr>)
          else (1, q))"

definition rix_waitqueue_wake_one :: "rix_waitqueue \<Rightarrow> rc \<times> rix_waitqueue" where
  "rix_waitqueue_wake_one q =
     (case find (\<lambda>i. w_state (wq_waiters q i) = RIX_WAIT_BLOCKED) [0..<RIX_WQ_MAX_WAITERS] of
        None \<Rightarrow> (1, q)
      | Some i \<Rightarrow>
          (0, q\<lparr>wq_waiters := (wq_waiters q)(i := (wq_waiters q i)\<lparr>w_state := RIX_WAIT_WOKEN\<rparr>)\<rparr>))"

definition rix_waitqueue_wake_all :: "rix_waitqueue \<Rightarrow> rc \<times> rix_waitqueue" where
  "rix_waitqueue_wake_all q =
     (int (length (filter (\<lambda>i. w_state (wq_waiters q i) = RIX_WAIT_BLOCKED) [0..<RIX_WQ_MAX_WAITERS])),
      q\<lparr>wq_waiters := (\<lambda>i. if i < RIX_WQ_MAX_WAITERS \<and> w_state (wq_waiters q i) = RIX_WAIT_BLOCKED
                            then (wq_waiters q i)\<lparr>w_state := RIX_WAIT_WOKEN\<rparr> else wq_waiters q i)\<rparr>)"

definition rix_waitqueue_remove :: "rix_waitqueue \<Rightarrow> rix_wait_handle \<Rightarrow> rc \<times> rix_waitqueue" where
  "rix_waitqueue_remove q h =
     (case wq_resolve q h of
        None \<Rightarrow> (-1, q)
      | Some i \<Rightarrow>
          (0, q\<lparr>wq_waiters := (wq_waiters q)(i := (wq_waiters q i)\<lparr>w_id := 0, w_state := RIX_WAIT_UNUSED\<rparr>),
                wq_count := (if wq_count q \<noteq> 0 then wq_count q - 1 else wq_count q)\<rparr>))"

subsection \<open>Well-formed queues\<close>

text \<open>The slots in use, who is behind a handle, and the invariant: no slot carries a generation that
  is still to be issued, and the counter is the number of slots in use.\<close>

definition wq_used :: "rix_waitqueue \<Rightarrow> nat set" where
  "wq_used q = {i. i < RIX_WQ_MAX_WAITERS \<and> w_state (wq_waiters q i) \<noteq> RIX_WAIT_UNUSED}"

definition wq_owner :: "rix_waitqueue \<Rightarrow> rix_wait_handle \<Rightarrow> u64 option" where
  "wq_owner q h = map_option (\<lambda>i. w_id (wq_waiters q i)) (wq_resolve q h)"

definition wq_ok :: "rix_waitqueue \<Rightarrow> bool" where
  "wq_ok q \<longleftrightarrow> (\<forall>i < RIX_WQ_MAX_WAITERS. w_generation (wq_waiters q i) < wq_generation q) \<and>
     unat (wq_count q) = card (wq_used q)"

lemma wq_used_finite [simp]: "finite (wq_used q)"
  by (simp add: wq_used_def)

lemma wq_used_card: "card (wq_used q) \<le> RIX_WQ_MAX_WAITERS"
proof -
  have "wq_used q \<subseteq> {..<RIX_WQ_MAX_WAITERS}" by (auto simp: wq_used_def)
  from card_mono[OF _ this] show ?thesis by simp
qed

lemma wq_resolve_Some:
  "wq_resolve q h = Some i \<longleftrightarrow>
     i = unat (wh_index h) \<and> i \<in> wq_used q \<and> w_generation (wq_waiters q i) = wh_generation h"
  by (auto simp: wq_resolve_def wq_used_def Let_def)

lemma handle_eqI:
  "unat (wh_index h) = unat (wh_index h') \<Longrightarrow> wh_generation h = wh_generation h' \<Longrightarrow> h = (h' :: rix_wait_handle)"
  by (simp add: word_unat_eq_iff)

lemma wq_resolve_inj:
  "wq_resolve q h = Some i \<Longrightarrow> wq_resolve q h' = Some i \<Longrightarrow> h = h'"
  by (rule handle_eqI) (auto simp: wq_resolve_Some)

lemma wq_init_ok [simp]: "wq_ok rix_waitqueue_init"
  by (simp add: wq_ok_def rix_waitqueue_init_def wq_used_def)

lemma wq_init_owner [simp]: "wq_owner rix_waitqueue_init h = None"
  by (simp add: wq_owner_def rix_waitqueue_init_def wq_resolve_def)

subsection \<open>Each operation\<close>

lemma wq_prepare_cases:
  obtains
    (full) "wq_used q = {..<RIX_WQ_MAX_WAITERS}" "rix_waitqueue_prepare q x = (-1, None, q)"
  | (slot) i where "i < RIX_WQ_MAX_WAITERS" "i \<notin> wq_used q"
      "rix_waitqueue_prepare q x =
         (0, Some \<lparr>wh_index = of_nat i, wh_generation = wq_generation q\<rparr>,
          q\<lparr>wq_waiters := (wq_waiters q)(i := \<lparr>w_id = x, w_generation = wq_generation q, w_state = RIX_WAIT_READY\<rparr>),
            wq_generation := (if wq_generation q + 1 = 0 then 1 else wq_generation q + 1),
            wq_count := wq_count q + 1\<rparr>)"
proof (cases "find (\<lambda>i. w_state (wq_waiters q i) = RIX_WAIT_UNUSED) [0..<RIX_WQ_MAX_WAITERS]")
  case None
  show thesis
  proof (rule full)
    show "wq_used q = {..<RIX_WQ_MAX_WAITERS}"
      using None[unfolded find_upt_None] by (auto simp: wq_used_def)
  qed (simp add: rix_waitqueue_prepare_def None)
next
  case (Some i)
  show thesis
  proof (rule slot)
    show "i < RIX_WQ_MAX_WAITERS" "i \<notin> wq_used q"
      using find_upt_SomeD[OF Some] by (auto simp: wq_used_def)
  qed (simp add: rix_waitqueue_prepare_def Some Let_def)
qed

lemma wq_prepare_laws:
  assumes ok: "wq_ok q" and room: "wq_generation q + 1 \<noteq> 0"
    and p: "rix_waitqueue_prepare q x = (r, Some h, q')"
  shows "wq_ok q'" "wq_owner q h = None" "wq_owner q' = (wq_owner q)(h \<mapsto> x)" "wh_generation h = wq_generation q"
proof -
  obtain i where i: "i < RIX_WQ_MAX_WAITERS" "i \<notin> wq_used q"
    and h: "h = \<lparr>wh_index = of_nat i, wh_generation = wq_generation q\<rparr>"
    and q': "q' = q\<lparr>wq_waiters := (wq_waiters q)(i := \<lparr>w_id = x, w_generation = wq_generation q, w_state = RIX_WAIT_READY\<rparr>),
            wq_generation := wq_generation q + 1, wq_count := wq_count q + 1\<rparr>"
    by (rule wq_prepare_cases[of q x]) (use p room in auto)
  show "wh_generation h = wq_generation q" by (simp add: h)
  have used: "wq_used q' = insert i (wq_used q)" using i by (auto simp: wq_used_def q')
  note w = no_wrap_plus_1[OF room]
  have "card (wq_used q) < 2 ^ 32 - 1" using wq_used_card[of q] by (simp add: RIX_WQ_MAX_WAITERS_def)
  then have "unat (wq_count q + 1) = unat (wq_count q) + 1"
    using ok by (intro unat_plus_1_small) (simp add: wq_ok_def)
  then show "wq_ok q'"
    using ok i(2) w(1) unfolding wq_ok_def used by (auto simp: q' intro: less_trans)
  have ix: "unat (of_nat i :: u32) = i" using i(1) by (intro unat_of_nat_small) (simp add: RIX_WQ_MAX_WAITERS_def)
  show none: "wq_owner q h = None"
    using i by (auto simp: wq_owner_def h wq_resolve_def ix wq_used_def)
  have new: "wq_resolve q' h = Some i" by (simp add: wq_resolve_Some used h ix) (simp add: q')
  show "wq_owner q' = (wq_owner q)(h \<mapsto> x)"
  proof
    fix h'
    show "wq_owner q' h' = ((wq_owner q)(h \<mapsto> x)) h'"
    proof (cases "h' = h")
      case True
      then show ?thesis using new by (simp add: wq_owner_def q')
    next
      case False
      then have ne: "wq_resolve q' h' \<noteq> Some i" using wq_resolve_inj[OF new] by auto
      have "wq_resolve q' h' = wq_resolve q h'"
      proof (rule option_eqI_Some)
        fix j
        have "j \<noteq> i \<Longrightarrow> (wq_resolve q' h' = Some j \<longleftrightarrow> wq_resolve q h' = Some j)"
          by (auto simp: wq_resolve_Some used) (auto simp: q')
        moreover have "wq_resolve q h' \<noteq> Some i" using i by (simp add: wq_resolve_Some)
        ultimately show "wq_resolve q' h' = Some j \<longleftrightarrow> wq_resolve q h' = Some j" using ne by blast
      qed
      then show ?thesis using False ne by (cases "wq_resolve q h'") (auto simp: wq_owner_def q')
    qed
  qed
qed

text \<open>The operations that only move a waiter between the states in use: same owners, same invariant.\<close>

definition wq_same :: "rix_waitqueue \<Rightarrow> rix_waitqueue \<Rightarrow> bool" where
  "wq_same q q' \<longleftrightarrow> wq_generation q' = wq_generation q \<and> wq_count q' = wq_count q \<and>
     (\<forall>i. w_id (wq_waiters q' i) = w_id (wq_waiters q i) \<and>
          w_generation (wq_waiters q' i) = w_generation (wq_waiters q i) \<and>
          (w_state (wq_waiters q' i) = RIX_WAIT_UNUSED \<longleftrightarrow> w_state (wq_waiters q i) = RIX_WAIT_UNUSED))"

lemma wq_same_laws:
  assumes "wq_same q q'"
  shows "wq_used q' = wq_used q" "wq_resolve q' h = wq_resolve q h" "wq_owner q' = wq_owner q"
    "wq_ok q' = wq_ok q" "wq_generation q' = wq_generation q"
proof -
  show u: "wq_used q' = wq_used q" using assms by (simp add: wq_used_def wq_same_def)
  show r: "wq_resolve q' h = wq_resolve q h" for h using assms by (simp add: wq_resolve_def wq_same_def)
  show "wq_owner q' = wq_owner q" using assms by (auto simp: wq_owner_def r wq_same_def)
  show "wq_ok q' = wq_ok q" using assms by (simp add: wq_ok_def u wq_same_def)
  show "wq_generation q' = wq_generation q" using assms by (simp add: wq_same_def)
qed

lemma wq_block_same: "wq_same q (snd (rix_waitqueue_block q h))"
  by (auto simp: rix_waitqueue_block_def wq_same_def wq_resolve_Some wq_used_def split: option.split)

lemma wq_take_same: "wq_same q (snd (rix_waitqueue_take_wakeup q h))"
  by (auto simp: rix_waitqueue_take_wakeup_def wq_same_def wq_resolve_Some wq_used_def split: option.split)

lemma wq_wake_one_same: "wq_same q (snd (rix_waitqueue_wake_one q))"
  by (auto simp: rix_waitqueue_wake_one_def wq_same_def dest: find_upt_SomeD(3) split: option.split)

lemma wq_wake_all_same: "wq_same q (snd (rix_waitqueue_wake_all q))"
  by (auto simp: rix_waitqueue_wake_all_def wq_same_def)

lemmas wq_same_ops = wq_block_same wq_take_same wq_wake_one_same wq_wake_all_same

lemma wq_remove_laws:
  assumes ok: "wq_ok q"
  shows "wq_ok (snd (rix_waitqueue_remove q h))"
    "wq_owner (snd (rix_waitqueue_remove q h)) = (wq_owner q)(h := None)"
    "wq_generation (snd (rix_waitqueue_remove q h)) = wq_generation q"
proof -
  let ?q = "snd (rix_waitqueue_remove q h)"
  show "wq_generation ?q = wq_generation q" by (simp add: rix_waitqueue_remove_def split: option.split)
  show "wq_ok ?q" "wq_owner ?q = (wq_owner q)(h := None)"
  proof (atomize (full), cases "wq_resolve q h")
    case None
    then have "?q = q" "wq_owner q h = None" by (simp_all add: rix_waitqueue_remove_def wq_owner_def)
    then show "wq_ok ?q \<and> wq_owner ?q = (wq_owner q)(h := None)" using ok by (simp add: fun_upd_idem)
  next
    case (Some i)
    note i = Some[unfolded wq_resolve_Some]
    have card: "card (wq_used q) > 0" using i by (auto simp: card_gt_0_iff)
    have q': "?q = q\<lparr>wq_waiters := (wq_waiters q)(i := (wq_waiters q i)\<lparr>w_id := 0, w_state := RIX_WAIT_UNUSED\<rparr>),
                wq_count := wq_count q - 1\<rparr>"
      using Some card ok by (auto simp: rix_waitqueue_remove_def wq_ok_def)
    have used: "wq_used ?q = wq_used q - {i}" by (auto simp: wq_used_def q')
    have "unat (wq_count q - 1) = unat (wq_count q) - 1"
      using card ok by (intro unat_minus_1) (auto simp: wq_ok_def)
    moreover have "card (wq_used q - {i}) = card (wq_used q) - 1"
      by (rule card_Diff_singleton) (use i in blast)
    ultimately have "wq_ok ?q" using ok unfolding wq_ok_def used by (simp add: q')
    moreover have "wq_owner ?q h' = ((wq_owner q)(h := None)) h'" for h'
    proof (cases "h' = h")
      case True
      then show ?thesis using i by (auto simp: wq_owner_def wq_resolve_def q')
    next
      case False
      then have ne: "wq_resolve q h' \<noteq> Some i" using wq_resolve_inj[OF Some] by auto
      have "wq_resolve ?q h' = wq_resolve q h'"
      proof (rule option_eqI_Some)
        fix j
        have "j \<noteq> i \<Longrightarrow> (wq_resolve ?q h' = Some j \<longleftrightarrow> wq_resolve q h' = Some j)"
          by (auto simp: wq_resolve_Some used) (auto simp: q')
        moreover have "wq_resolve ?q h' \<noteq> Some i" by (simp add: wq_resolve_Some used)
        ultimately show "wq_resolve ?q h' = Some j \<longleftrightarrow> wq_resolve q h' = Some j" using ne by blast
      qed
      then show ?thesis using False ne by (cases "wq_resolve q h'") (auto simp: wq_owner_def q')
    qed
    ultimately show "wq_ok ?q \<and> wq_owner ?q = (wq_owner q)(h := None)" by auto
  qed
qed

subsection \<open>The queue is a handle registry\<close>

interpretation wq: handle_registry wq_ok "\<lambda>q. wq_generation q + 1 \<noteq> 0" wq_owner rix_waitqueue_prepare rix_waitqueue_remove
  by unfold_locales (auto intro: wq_prepare_laws wq_remove_laws)

subsection \<open>Properties\<close>

datatype wq_op = Wq_prepare u64 | Wq_block rix_wait_handle | Wq_take rix_wait_handle | Wq_wake_one | Wq_wake_all
  | Wq_remove rix_wait_handle

fun wq_step :: "wq_op \<Rightarrow> rix_waitqueue \<Rightarrow> rix_waitqueue" where
  "wq_step (Wq_prepare x) q = snd (snd (rix_waitqueue_prepare q x))"
| "wq_step (Wq_block h) q = snd (rix_waitqueue_block q h)"
| "wq_step (Wq_take h) q = snd (rix_waitqueue_take_wakeup q h)"
| "wq_step Wq_wake_one q = snd (rix_waitqueue_wake_one q)"
| "wq_step Wq_wake_all q = snd (rix_waitqueue_wake_all q)"
| "wq_step (Wq_remove h) q = snd (rix_waitqueue_remove q h)"

lemma wq_step_laws:
  assumes "wq_ok q" "unat (wq_generation q) + 1 < 2 ^ 64"
  shows "wq_ok (wq_step a q)" "wq_generation q \<le> wq_generation (wq_step a q)"
    "unat (wq_generation (wq_step a q)) \<le> unat (wq_generation q) + 1"
    "wq_owner q h = None \<Longrightarrow> wh_generation h < wq_generation q \<Longrightarrow> wq_owner (wq_step a q) h = None"
proof -
  note w = no_wrap_bound[OF assms(2)]
  have "wq_ok (wq_step a q) \<and> wq_generation q \<le> wq_generation (wq_step a q) \<and>
    unat (wq_generation (wq_step a q)) \<le> unat (wq_generation q) + 1 \<and>
    (wq_owner q h = None \<longrightarrow> wh_generation h < wq_generation q \<longrightarrow> wq_owner (wq_step a q) h = None)"
  proof (cases a)
    case (Wq_prepare x)
    obtain r out q' where p: "rix_waitqueue_prepare q x = (r, out, q')" by (metis prod.exhaust)
    show ?thesis
    proof (cases out)
      case None
      with p have "q' = q" by (rule_tac wq_prepare_cases[of q x]) auto
      then show ?thesis using p Wq_prepare assms(1) by simp
    next
      case (Some h')
      have "wq_generation q' = wq_generation q + 1"
        by (rule wq_prepare_cases[of q x]) (use p Some w in auto)
      then show ?thesis
        using p Some Wq_prepare wq_prepare_laws[OF assms(1) w p[unfolded Some]] no_wrap_plus_1[OF w]
        by (auto intro: less_imp_le)
    qed
  next
    case (Wq_remove h')
    then show ?thesis using wq_remove_laws[OF assms(1), of h'] by simp
  qed (use assms(1) in \<open>simp_all add: wq_same_laws(3-5)[OF wq_same_ops(1)] wq_same_laws(3-5)[OF wq_same_ops(2)]
        wq_same_laws(3-5)[OF wq_same_ops(3)] wq_same_laws(3-5)[OF wq_same_ops(4)]\<close>)
  then show "wq_ok (wq_step a q)" "wq_generation q \<le> wq_generation (wq_step a q)"
    "unat (wq_generation (wq_step a q)) \<le> unat (wq_generation q) + 1"
    "wq_owner q h = None \<Longrightarrow> wh_generation h < wq_generation q \<Longrightarrow> wq_owner (wq_step a q) h = None"
    by blast+
qed

lemma wq_run_stale:
  assumes "wq_ok q" "unat (wq_generation q) + length as < 2 ^ 64" "wq_owner q h = None"
    "wh_generation h < wq_generation q"
  shows "wq_owner (fold wq_step as q) h = None"
  using assms
proof (induction as arbitrary: q)
  case (Cons a as)
  have "unat (wq_generation q) + 1 < 2 ^ 64" using Cons.prems(2) by simp
  note st = wq_step_laws[OF Cons.prems(1) this, where a = a]
  show ?case
    using Cons.prems st(1-3) st(4)[of h]
    by (simp add: Cons.IH less_le_trans)
qed simp

text \<open>C33: A handle is dead for good once its waiter was removed.  On a well-formed queue, after a
  successful \<open>rix_waitqueue_remove\<close> of a handle, and whatever operations follow (new waiters that reuse
  the slot included, as long as the 64-bit generation does not run out), every operation that is given
  the stale handle is refused and leaves the queue as it is.\<close>

theorem stale_handle_refused:
  assumes "wq_ok q" "rix_waitqueue_remove q h = (0, q1)" "unat (wq_generation q) + length as < 2 ^ 64"
  shows "rix_waitqueue_block (fold wq_step as q1) h = (-1, fold wq_step as q1) \<and>
    rix_waitqueue_take_wakeup (fold wq_step as q1) h = (-1, fold wq_step as q1) \<and>
    rix_waitqueue_remove (fold wq_step as q1) h = (-1, fold wq_step as q1)"
proof -
  have "wq_resolve q h \<noteq> None" using assms(2) by (auto simp: rix_waitqueue_remove_def split: option.splits)
  then have g: "wh_generation h < wq_generation q"
    using assms(1) by (auto simp: wq_resolve_Some wq_ok_def wq_used_def)
  have "wq_owner (fold wq_step as q1) h = None"
    using wq_remove_laws[OF assms(1), of h] assms(2,3) g by (intro wq_run_stale) auto
  then show ?thesis
    by (simp add: wq_owner_def rix_waitqueue_block_def rix_waitqueue_take_wakeup_def rix_waitqueue_remove_def)
qed

definition one_waiter_queue :: rix_waitqueue where
  "one_waiter_queue = snd (snd (rix_waitqueue_prepare rix_waitqueue_init 7))"

theorem stale_handle_refused_witness:
  "rix_waitqueue_take_wakeup (fold wq_step [Wq_prepare 9] (snd (rix_waitqueue_remove one_waiter_queue \<lparr>wh_index = 0, wh_generation = 1\<rparr>)))
     \<lparr>wh_index = 0, wh_generation = 1\<rparr> =
   (-1, fold wq_step [Wq_prepare 9] (snd (rix_waitqueue_remove one_waiter_queue \<lparr>wh_index = 0, wh_generation = 1\<rparr>)))"
proof (rule stale_handle_refused[THEN conjunct2, THEN conjunct1])
  show "wq_ok one_waiter_queue"
    using wq_step_laws(1)[OF wq_init_ok, of "Wq_prepare 7"]
    by (simp add: one_waiter_queue_def rix_waitqueue_init_def)
  show "rix_waitqueue_remove one_waiter_queue \<lparr>wh_index = 0, wh_generation = 1\<rparr> =
      (0, snd (rix_waitqueue_remove one_waiter_queue \<lparr>wh_index = 0, wh_generation = 1\<rparr>))"
    by (simp add: one_waiter_queue_def rix_waitqueue_prepare_def rix_waitqueue_remove_def rix_waitqueue_init_def
        wq_resolve_def RIX_WQ_MAX_WAITERS_def upt_rec Let_def)
  show "unat (wq_generation one_waiter_queue) + length [Wq_prepare 9] < 2 ^ 64"
    by (simp add: one_waiter_queue_def rix_waitqueue_prepare_def rix_waitqueue_init_def
        RIX_WQ_MAX_WAITERS_def upt_rec Let_def)
qed


end
