(* ===== verification/Scheduler.thy ===== *)
theory Scheduler
  imports Runqueue Thread_Table Wait_Queue
begin

text \<open>
  The scheduler of \<^verbatim>\<open>kernel/sched/scheduler.c\<close>: 32 task slots, one run queue, one current
  slot and one quantum per CPU, the thread table and the wait queues the tasks are bound to.  The
  static arrays are functions of the index; an operation is a function of the state, with the index
  of the CPU it runs on where the code calls \<open>sched_cpu\<close>.  What a function does under \<open>sched_lock\<close> is
  one step.  The processor map of \<^verbatim>\<open>smp.c\<close> (which CPU is the boot processor, which CPUs are
  online) is the argument \<open>e\<close>, the process table the argument \<open>lookup\<close>.  Inter-processor interrupts
  are recorded in the order they are sent.  Stack and FPU images, log output and the address space
  switch are not part of the state.
\<close>

subsection \<open>State\<close>

datatype task_state = TASK_UNUSED | TASK_RUNNABLE | TASK_RUNNING | TASK_DEAD | TASK_BLOCKED

datatype smp_cpu_state = SMP_CPU_ABSENT | SMP_CPU_PRESENT | SMP_CPU_STARTING | SMP_CPU_ONLINE | SMP_CPU_OFFLINE

datatype ipi = Ipi_cpu nat | Ipi_aps

record rix_user_context =
  uc_r15 :: u64
  uc_r14 :: u64
  uc_r13 :: u64
  uc_r12 :: u64
  uc_r11 :: u64
  uc_r10 :: u64
  uc_r9 :: u64
  uc_r8 :: u64
  uc_rbp :: u64
  uc_rdi :: u64
  uc_rsi :: u64
  uc_rdx :: u64
  uc_rcx :: u64
  uc_rbx :: u64
  uc_rax :: u64
  uc_rip :: u64
  uc_rflags :: u64
  uc_rsp :: u64

record rix_task =
  t_id :: u64
  t_state :: task_state
  t_tid :: u64
  t_entry :: u64
  t_arg :: u64
  t_process_pid :: u64
  t_user_entry :: u64
  t_user_stack :: u64
  t_user_return :: u64
  t_user_context_valid :: bool
  t_ap_ok :: bool
  t_affinity :: u64
  t_run_cpu :: u32
  t_migrations :: u32
  t_prio :: u8
  t_run_ticks :: u64
  t_stamp :: u64
  t_voluntary :: u32
  t_involuntary :: u32
  t_user_context :: rix_user_context
  t_wait_wq :: "nat option"
  t_wait_handle :: rix_wait_handle

record smp_map =
  smp_bsp_index :: int
  smp_cpu_state :: "nat \<Rightarrow> smp_cpu_state"
  smp_online_count :: nat

record process_view =
  pv_state :: rix_process_state
  pv_pml4_phys :: u64
  pv_kernel_stack :: u64

type_synonym process_table = "u64 \<Rightarrow> process_view option"

record sched =
  ticks :: u64
  tasks :: "nat \<Rightarrow> rix_task"
  cpu_current :: "nat \<Rightarrow> nat"
  next_id :: u64
  cpu_rq :: "nat \<Rightarrow> rix_runqueue"
  cpu_idle_valid :: "nat \<Rightarrow> bool"
  cpu_preempt_depth :: "nat \<Rightarrow> u32"
  cpu_need_resched :: "nat \<Rightarrow> bool"
  cpu_quantum_left :: "nat \<Rightarrow> u64"
  cpu_in_idle :: "nat \<Rightarrow> bool"
  thread_tab :: thread_table
  wait_queues :: "nat \<Rightarrow> rix_waitqueue"
  ipis :: "ipi list"

definition RIX_MAX_TASKS :: nat where "RIX_MAX_TASKS = 32"
definition SMP_MAX_CPUS :: nat where "SMP_MAX_CPUS = 64"
definition RIX_PREEMPT_QUANTUM_TICKS :: u64 where "RIX_PREEMPT_QUANTUM_TICKS = 10"
definition RIX_PRIO_MAX :: nat where "RIX_PRIO_MAX = 1"

abbreviation no_handle :: rix_wait_handle where
  "no_handle \<equiv> \<lparr>wh_index = 0, wh_generation = 0\<rparr>"

abbreviation upd_task :: "sched \<Rightarrow> nat \<Rightarrow> (rix_task \<Rightarrow> rix_task) \<Rightarrow> sched" where
  "upd_task s i f \<equiv> s\<lparr>tasks := (tasks s)(i := f (tasks s i))\<rparr>"

definition sched_cpu :: "smp_map \<Rightarrow> int \<Rightarrow> nat" where
  "sched_cpu e cpu_id =
     (if cpu_id \<ge> 0 \<and> cpu_id < int SMP_MAX_CPUS then nat cpu_id
      else if smp_bsp_index e \<ge> 0 \<and> smp_bsp_index e < int SMP_MAX_CPUS then nat (smp_bsp_index e)
      else 0)"

subsection \<open>Run queue masks\<close>

definition rq_cpu_is_bsp :: "smp_map \<Rightarrow> nat \<Rightarrow> bool" where
  "rq_cpu_is_bsp e c \<longleftrightarrow> int c = smp_bsp_index e"

definition rq_eligible :: "smp_map \<Rightarrow> sched \<Rightarrow> nat \<Rightarrow> nat \<Rightarrow> bool" where
  "rq_eligible e s c i =
     (if i \<ge> RIX_MAX_TASKS \<or> c \<ge> SMP_MAX_CPUS then False
      else if t_affinity (tasks s i) AND one_shl c = 0 then False
      else if rq_cpu_is_bsp e c then True
      else i \<noteq> 0 \<and> t_process_pid (tasks s i) = 0 \<and> t_ap_ok (tasks s i))"

definition rq_add_eligible_locked :: "smp_map \<Rightarrow> sched \<Rightarrow> nat \<Rightarrow> sched" where
  "rq_add_eligible_locked e s i =
     s\<lparr>cpu_rq := (\<lambda>c. if c < SMP_MAX_CPUS \<and> rq_eligible e s c i then rq_add_locked (cpu_rq s c) (of_nat i)
                      else cpu_rq s c)\<rparr>"

definition rq_remove_all_locked :: "sched \<Rightarrow> nat \<Rightarrow> sched" where
  "rq_remove_all_locked s i =
     s\<lparr>cpu_rq := (\<lambda>c. if c < SMP_MAX_CPUS then rq_remove_locked (cpu_rq s c) (of_nat i) else cpu_rq s c)\<rparr>"

definition rq_resync_locked :: "smp_map \<Rightarrow> sched \<Rightarrow> nat \<Rightarrow> sched" where
  "rq_resync_locked e s i =
     (let s1 = rq_remove_all_locked s i
      in if i < RIX_MAX_TASKS \<and> t_state (tasks s1 i) = TASK_RUNNABLE then rq_add_eligible_locked e s1 i else s1)"

definition rq_verify_locked :: "smp_map \<Rightarrow> sched \<Rightarrow> bool" where
  "rq_verify_locked e s =
     list_all (\<lambda>c. list_all (\<lambda>i.
         rq_contains_locked (cpu_rq s c) (of_nat i) =
         (t_state (tasks s i) = TASK_RUNNABLE \<and> rq_eligible e s c i)) [0..<RIX_MAX_TASKS]) [0..<SMP_MAX_CPUS]"

subsection \<open>Placement and priority\<close>

definition find_task :: "sched \<Rightarrow> u64 \<Rightarrow> nat option" where
  "find_task s tsk = find (\<lambda>i. t_id (tasks s i) = tsk \<and> t_state (tasks s i) \<noteq> TASK_UNUSED) [1..<RIX_MAX_TASKS]"

definition scheduler_task_allow_ap :: "smp_map \<Rightarrow> sched \<Rightarrow> u64 \<Rightarrow> rc \<times> sched" where
  "scheduler_task_allow_ap e s tsk =
     (if tsk = 0 then (-1, s)
      else case find_task s tsk of
        None \<Rightarrow> (-1, s)
      | Some i \<Rightarrow>
          if t_process_pid (tasks s i) = 0
          then (0, rq_resync_locked e (upd_task s i (t_ap_ok_update (\<lambda>_. True))) i)
          else (-1, s))"

definition scheduler_set_affinity :: "smp_map \<Rightarrow> sched \<Rightarrow> u64 \<Rightarrow> u64 \<Rightarrow> rc \<times> sched" where
  "scheduler_set_affinity e s tsk msk =
     (if tsk = 0 \<or> msk = 0 then (-1, s)
      else if smp_bsp_index e < 0 \<or> smp_bsp_index e \<ge> int SMP_MAX_CPUS then (-1, s)
      else case find_task s tsk of
        None \<Rightarrow> (-1, s)
      | Some i \<Rightarrow>
          let base_allowed = (if t_process_pid (tasks s i) = 0 \<and> t_ap_ok (tasks s i) then - 1
                              else one_shl (nat (smp_bsp_index e)))
          in if msk AND base_allowed = 0 then (-1, s)
             else (0, rq_resync_locked e (upd_task s i (t_affinity_update (\<lambda>_. msk))) i))"

definition scheduler_set_priority :: "sched \<Rightarrow> u64 \<Rightarrow> nat \<Rightarrow> rc \<times> sched" where
  "scheduler_set_priority s tsk level =
     (if tsk = 0 \<or> level > RIX_PRIO_MAX then (-1, s)
      else case find_task s tsk of
        None \<Rightarrow> (-1, s)
      | Some i \<Rightarrow>
          if level > 0 \<and> t_process_pid (tasks s i) \<noteq> 0 then (-1, s)
          else (0, upd_task s i (t_prio_update (\<lambda>_. of_nat level))))"

subsection \<open>Selection\<close>

definition sched_himask :: "sched \<Rightarrow> u32" where
  "sched_himask s = fold (\<lambda>i m. if t_prio (tasks s i) \<noteq> 0 then m OR one_shl i else m) [0..<RIX_MAX_TASKS] 0"

text \<open>The loop over the CPU's own queue, then, on an application processor, the loop over a copy of
  the boot processor's mask that rotates with the thief's cursor and streak.\<close>

definition sched_pick_locked :: "smp_map \<Rightarrow> sched \<Rightarrow> nat \<Rightarrow> nat \<Rightarrow> nat \<times> sched" where
  "sched_pick_locked e s me old =
     (if me \<ge> SMP_MAX_CPUS then (old, s)
      else
        let himask = sched_himask s;
            ok = (\<lambda>i. t_state (tasks s i) = TASK_RUNNABLE \<and> rq_eligible e s me i);
            (own, q) = pick_verified (\<lambda>q. rq_pick_locked q himask) (\<lambda>q i. rq_remove_locked q (of_nat i))
                         ok RIX_MAX_TASKS (cpu_rq s me);
            s1 = s\<lparr>cpu_rq := (cpu_rq s)(me := q)\<rparr>
        in case own of
             Some i \<Rightarrow> (i, s1)
           | None \<Rightarrow>
               if \<not> rq_cpu_is_bsp e me \<and> 0 \<le> smp_bsp_index e \<and> smp_bsp_index e < int SMP_MAX_CPUS then
                 let tmp = (cpu_rq s1 me)\<lparr>rq_mask := rq_mask (cpu_rq s1 (nat (smp_bsp_index e)))\<rparr>;
                     (stolen, tmp1) = pick_verified (\<lambda>q. rq_pick_locked q himask)
                         (\<lambda>q i. q\<lparr>rq_mask := rq_mask q AND NOT (one_shl i)\<rparr>) ok RIX_MAX_TASKS tmp
                 in case stolen of
                      Some i \<Rightarrow> (i, s1\<lparr>cpu_rq := (cpu_rq s1)(me := (cpu_rq s1 me)
                                    \<lparr>rq_cursor := rq_cursor tmp1, rq_hipri_streak := rq_hipri_streak tmp1\<rparr>)\<rparr>)
                    | None \<Rightarrow> (old, s1)
               else (old, s1))"

definition rq_note_claim_locked :: "sched \<Rightarrow> nat \<Rightarrow> nat \<Rightarrow> sched" where
  "rq_note_claim_locked s me next =
     (if next \<ge> RIX_MAX_TASKS \<or> me \<ge> SMP_MAX_CPUS then s
      else
        let t = tasks s next;
            m = (if t_run_cpu t \<noteq> - 1 \<and> t_run_cpu t \<noteq> of_nat me then t_migrations t + 1 else t_migrations t)
        in upd_task s next (\<lambda>t. t\<lparr>t_migrations := m, t_run_cpu := of_nat me\<rparr>))"

subsection \<open>Quanta and preemption\<close>

definition scheduler_tick :: "sched \<Rightarrow> sched" where
  "scheduler_tick s = s\<lparr>ticks := ticks s + 1\<rparr>"

definition scheduler_preempt_disable :: "sched \<Rightarrow> nat \<Rightarrow> sched" where
  "scheduler_preempt_disable s me =
     (if me < SMP_MAX_CPUS then s\<lparr>cpu_preempt_depth := (cpu_preempt_depth s)(me := cpu_preempt_depth s me + 1)\<rparr> else s)"

definition scheduler_preempt_enable :: "sched \<Rightarrow> nat \<Rightarrow> sched" where
  "scheduler_preempt_enable s me =
     (if me < SMP_MAX_CPUS \<and> cpu_preempt_depth s me \<noteq> 0
      then s\<lparr>cpu_preempt_depth := (cpu_preempt_depth s)(me := cpu_preempt_depth s me - 1)\<rparr> else s)"

definition scheduler_preempt_is_disabled :: "sched \<Rightarrow> nat \<Rightarrow> bool" where
  "scheduler_preempt_is_disabled s me \<longleftrightarrow> me < SMP_MAX_CPUS \<and> cpu_preempt_depth s me \<noteq> 0"

definition scheduler_need_resched :: "sched \<Rightarrow> nat \<Rightarrow> bool" where
  "scheduler_need_resched s me \<longleftrightarrow> me < SMP_MAX_CPUS \<and> cpu_need_resched s me"

definition scheduler_clear_need_resched :: "sched \<Rightarrow> nat \<Rightarrow> sched" where
  "scheduler_clear_need_resched s me =
     (if me < SMP_MAX_CPUS then s\<lparr>cpu_need_resched := (cpu_need_resched s)(me := False)\<rparr> else s)"

definition scheduler_runnable_count :: "sched \<Rightarrow> nat" where
  "scheduler_runnable_count s =
     length (filter (\<lambda>i. t_state (tasks s i) = TASK_RUNNABLE \<or> t_state (tasks s i) = TASK_RUNNING) [0..<RIX_MAX_TASKS])"

definition ap_eligible_runnable :: "sched \<Rightarrow> bool" where
  "ap_eligible_runnable s =
     list_ex (\<lambda>i. t_state (tasks s i) = TASK_RUNNABLE \<and> t_process_pid (tasks s i) = 0 \<and> t_ap_ok (tasks s i))
       [1..<RIX_MAX_TASKS]"

definition preempt_arm_cpu :: "nat \<Rightarrow> bool \<Rightarrow> sched \<Rightarrow> sched" where
  "preempt_arm_cpu c is_ap s =
     (if cpu_preempt_depth s c \<noteq> 0 then s
      else if scheduler_runnable_count s < 2 then s
      else let s1 = s\<lparr>cpu_need_resched := (cpu_need_resched s)(c := True)\<rparr>
           in if is_ap then s1\<lparr>ipis := ipis s1 @ [Ipi_cpu c]\<rparr> else s1)"

text \<open>One row of the tick: the quantum of a CPU runs down, and the CPU is armed when it expires.\<close>

definition preempt_tick_row :: "nat \<Rightarrow> bool \<Rightarrow> sched \<Rightarrow> sched" where
  "preempt_tick_row c is_ap s =
     (let left = (if cpu_quantum_left s c \<noteq> 0 then cpu_quantum_left s c - 1 else cpu_quantum_left s c)
      in if left \<noteq> 0 then s\<lparr>cpu_quantum_left := (cpu_quantum_left s)(c := left)\<rparr>
         else preempt_arm_cpu c is_ap (s\<lparr>cpu_quantum_left := (cpu_quantum_left s)(c := RIX_PREEMPT_QUANTUM_TICKS)\<rparr>))"

definition scheduler_preempt_tick :: "smp_map \<Rightarrow> sched \<Rightarrow> nat \<Rightarrow> sched" where
  "scheduler_preempt_tick e s me =
     (if me \<ge> SMP_MAX_CPUS then s
      else if int me \<noteq> smp_bsp_index e then s
      else
        let s1 = preempt_tick_row me False s
        in if smp_online_count e \<le> 1 then s1
           else if \<not> ap_eligible_runnable s1 then s1
           else fold (\<lambda>c s. if int c = smp_bsp_index e then s
                            else if smp_cpu_state e c \<noteq> SMP_CPU_ONLINE then s
                            else preempt_tick_row c True s) [0..<SMP_MAX_CPUS] s1)"

definition scheduler_should_yield_from_irq :: "sched \<Rightarrow> nat \<Rightarrow> bool \<times> sched" where
  "scheduler_should_yield_from_irq s me =
     (if me \<ge> SMP_MAX_CPUS \<or> cpu_preempt_depth s me \<noteq> 0 \<or> \<not> cpu_need_resched s me then (False, s)
      else if cpu_in_idle s me then (False, s)
      else if cpu_current s me \<ge> RIX_MAX_TASKS \<or> t_state (tasks s (cpu_current s me)) \<noteq> TASK_RUNNING then (False, s)
      else if scheduler_runnable_count s < 2
        then (False, s\<lparr>cpu_need_resched := (cpu_need_resched s)(me := False),
                       cpu_quantum_left := (cpu_quantum_left s)(me := RIX_PREEMPT_QUANTUM_TICKS)\<rparr>)
      else (True, s))"

subsection \<open>Blocking and waking\<close>

definition scheduler_wait_prepare :: "sched \<Rightarrow> nat \<Rightarrow> nat \<Rightarrow> rc \<times> rix_wait_handle option \<times> sched" where
  "scheduler_wait_prepare s me w =
     (if me \<ge> SMP_MAX_CPUS then (-1, None, s)
      else
        let i = cpu_current s me;
            t = tasks s i
        in if t_wait_wq t \<noteq> None then (-1, None, s)
           else case rix_waitqueue_prepare (wait_queues s w) (t_id t) of
             (r, out, q) \<Rightarrow>
               (case out of
                  None \<Rightarrow> (-1, None, s\<lparr>wait_queues := (wait_queues s)(w := q)\<rparr>)
                | Some h \<Rightarrow>
                    (0, Some h,
                     upd_task (s\<lparr>wait_queues := (wait_queues s)(w := q)\<rparr>) i
                       (\<lambda>t. t\<lparr>t_wait_wq := Some w, t_wait_handle := h\<rparr>))))"

definition scheduler_block_current :: "sched \<Rightarrow> nat \<Rightarrow> sched" where
  "scheduler_block_current s me =
     (if me \<ge> SMP_MAX_CPUS then s
      else
        let i = cpu_current s me;
            t = tasks s i;
            s1 = (if t_state t = TASK_RUNNING
                  then upd_task s i (\<lambda>t. t\<lparr>t_run_ticks := t_run_ticks t + (ticks s - t_stamp t), t_state := TASK_BLOCKED\<rparr>)
                  else if t_state t = TASK_RUNNABLE then upd_task s i (t_state_update (\<lambda>_. TASK_BLOCKED))
                  else s)
        in rq_remove_all_locked s1 i)"

definition task_drop_waiter :: "sched \<Rightarrow> nat \<Rightarrow> sched" where
  "task_drop_waiter s i =
     (case t_wait_wq (tasks s i) of
        None \<Rightarrow> s
      | Some w \<Rightarrow>
          upd_task (s\<lparr>wait_queues := (wait_queues s)(w := snd (rix_waitqueue_remove (wait_queues s w) (t_wait_handle (tasks s i))))\<rparr>) i
            (\<lambda>t. t\<lparr>t_wait_wq := None, t_wait_handle := no_handle\<rparr>))"

definition scheduler_wait_take :: "sched \<Rightarrow> nat \<Rightarrow> rc \<times> sched" where
  "scheduler_wait_take s me =
     (if me \<ge> SMP_MAX_CPUS then (1, s)
      else
        let i = cpu_current s me;
            t = tasks s i
        in case t_wait_wq t of
             None \<Rightarrow> (1, s)
           | Some w \<Rightarrow>
               let (rc, q1) = rix_waitqueue_take_wakeup (wait_queues s w) (t_wait_handle t);
                   (_, q2) = rix_waitqueue_remove q1 (t_wait_handle t)
               in (rc, upd_task (s\<lparr>wait_queues := (wait_queues s)(w := q2)\<rparr>) i
                         (\<lambda>t. t\<lparr>t_wait_wq := None, t_wait_handle := no_handle\<rparr>)))"

definition scheduler_wait_abort :: "smp_map \<Rightarrow> sched \<Rightarrow> nat \<Rightarrow> sched" where
  "scheduler_wait_abort e s me =
     (if me \<ge> SMP_MAX_CPUS then s
      else
        let i = cpu_current s me;
            s1 = task_drop_waiter s i
        in if t_state (tasks s1 i) = TASK_BLOCKED
           then rq_add_eligible_locked e (upd_task s1 i (t_state_update (\<lambda>_. TASK_RUNNABLE))) i
           else s1)"

text \<open>The wake loops: every blocked slot that matches becomes runnable and joins the masks; the flag
  says whether an application processor could run one of them.\<close>

definition wake_slots :: "smp_map \<Rightarrow> (rix_task \<Rightarrow> bool) \<Rightarrow> nat list \<Rightarrow> bool \<times> sched \<Rightarrow> bool \<times> sched" where
  "wake_slots e match = fold (\<lambda>i (ap_work, s).
     if t_state (tasks s i) = TASK_BLOCKED \<and> match (tasks s i)
     then (ap_work \<or> (i \<noteq> 0 \<and> t_process_pid (tasks s i) = 0 \<and> t_ap_ok (tasks s i)),
           rq_add_eligible_locked e (upd_task s i (t_state_update (\<lambda>_. TASK_RUNNABLE))) i)
     else (ap_work, s))"

definition scheduler_wake_queue :: "smp_map \<Rightarrow> sched \<Rightarrow> nat \<Rightarrow> sched" where
  "scheduler_wake_queue e s w =
     (let s1 = s\<lparr>wait_queues := (wait_queues s)(w := snd (rix_waitqueue_wake_all (wait_queues s w)))\<rparr>;
          (ap_work, s2) = wake_slots e (\<lambda>t. t_wait_wq t = Some w) [0..<RIX_MAX_TASKS] (False, s1)
      in if ap_work then s2\<lparr>ipis := ipis s2 @ [Ipi_aps]\<rparr> else s2)"

definition scheduler_wake_pid :: "smp_map \<Rightarrow> sched \<Rightarrow> u64 \<Rightarrow> sched" where
  "scheduler_wake_pid e s pid =
     (let (ap_work, s2) = wake_slots e (\<lambda>t. t_process_pid t = pid) [0..<RIX_MAX_TASKS] (False, s)
      in if ap_work then s2\<lparr>ipis := ipis s2 @ [Ipi_aps]\<rparr> else s2)"

definition scheduler_thread_count_for_pid :: "sched \<Rightarrow> u64 \<Rightarrow> nat" where
  "scheduler_thread_count_for_pid s pid = thread_count_locked (thread_tab s) pid"

definition scheduler_thread_detach_pid :: "sched \<Rightarrow> u64 \<Rightarrow> sched" where
  "scheduler_thread_detach_pid s pid = s\<lparr>thread_tab := thread_detach_pid_locked (thread_tab s) pid\<rparr>"

definition scheduler_current_tid :: "sched \<Rightarrow> nat \<Rightarrow> u64" where
  "scheduler_current_tid s me = (if me \<ge> SMP_MAX_CPUS then 0 else t_tid (tasks s (cpu_current s me)))"

definition scheduler_current_id :: "sched \<Rightarrow> nat \<Rightarrow> u64" where
  "scheduler_current_id s me = t_id (tasks s (cpu_current s me))"

subsection \<open>Death and creation\<close>

definition task_mark_dead_locked :: "sched \<Rightarrow> nat \<Rightarrow> sched" where
  "task_mark_dead_locked s i =
     (let s1 = (if t_state (tasks s i) = TASK_RUNNING
                then upd_task s i (\<lambda>t. t\<lparr>t_run_ticks := t_run_ticks t + (ticks s - t_stamp t)\<rparr>) else s);
          s2 = upd_task s1 i (t_state_update (\<lambda>_. TASK_DEAD));
          s3 = task_drop_waiter s2 i;
          s4 = (if t_tid (tasks s3 i) \<noteq> 0
                then upd_task (s3\<lparr>thread_tab := thread_free_locked (thread_tab s3) (t_tid (tasks s3 i))\<rparr>) i
                       (t_tid_update (\<lambda>_. 0))
                else s3)
      in rq_remove_all_locked s4 i)"

definition scheduler_exit_current_locked :: "sched \<Rightarrow> nat \<Rightarrow> sched" where
  "scheduler_exit_current_locked s me = task_mark_dead_locked s (cpu_current s me)"

definition task_alloc :: "sched \<Rightarrow> (nat \<times> sched) option" where
  "task_alloc s =
     (case find (\<lambda>i. t_state (tasks s i) = TASK_UNUSED \<or> t_state (tasks s i) = TASK_DEAD) [1..<RIX_MAX_TASKS] of
        None \<Rightarrow> None
      | Some i \<Rightarrow>
          Some (i, upd_task s i (\<lambda>t. t\<lparr>t_wait_wq := None, t_wait_handle := no_handle, t_tid := 0,
                     t_affinity := - 1, t_run_cpu := - 1, t_migrations := 0, t_prio := 0, t_run_ticks := 0,
                     t_stamp := 0, t_voluntary := 0, t_involuntary := 0\<rparr>)))"

definition task_take_id :: "sched \<Rightarrow> nat \<Rightarrow> sched" where
  "task_take_id s i =
     (let id0 = next_id s;
          n0 = next_id s + 1
      in if id0 = 0 then upd_task (s\<lparr>next_id := n0 + 1\<rparr>) i (t_id_update (\<lambda>_. n0))
         else upd_task (s\<lparr>next_id := n0\<rparr>) i (t_id_update (\<lambda>_. id0)))"

definition task_bind_thread_locked :: "process_table \<Rightarrow> sched \<Rightarrow> nat \<Rightarrow> rc \<times> sched" where
  "task_bind_thread_locked lookup s i =
     (case thread_alloc_locked (\<lambda>pid. map_option pv_state (lookup pid)) (thread_tab s) (t_process_pid (tasks s i)) of
        (r, out, tt) \<Rightarrow>
          (case out of
             None \<Rightarrow> (-4, upd_task (s\<lparr>thread_tab := tt\<rparr>) i (\<lambda>t. t\<lparr>t_state := TASK_UNUSED, t_tid := 0\<rparr>))
           | Some tid \<Rightarrow> (0, upd_task (s\<lparr>thread_tab := tt\<rparr>) i (t_tid_update (\<lambda>_. tid)))))"

text \<open>The tail the four creation functions share: bind a thread, join the masks, kick the
  application processors, report the id.\<close>

definition task_publish :: "smp_map \<Rightarrow> process_table \<Rightarrow> sched \<Rightarrow> nat \<Rightarrow> rc \<times> u64 option \<times> sched" where
  "task_publish e lookup s i =
     (case task_bind_thread_locked lookup s i of
        (r, s1) \<Rightarrow>
          if r \<noteq> 0 then (-4, None, s1)
          else let s2 = rq_add_eligible_locked e s1 i
               in (0, Some (t_id (tasks s2 i)), s2\<lparr>ipis := ipis s2 @ [Ipi_aps]\<rparr>))"

definition scheduler_create_kernel_thread ::
  "smp_map \<Rightarrow> process_table \<Rightarrow> sched \<Rightarrow> u64 \<Rightarrow> u64 \<Rightarrow> rc \<times> u64 option \<times> sched" where
  "scheduler_create_kernel_thread e lookup s entry arg =
     (if entry = 0 then (-1, None, s)
      else case task_alloc s of
        None \<Rightarrow> (-1, None, s)
      | Some (i, s1) \<Rightarrow>
          let s2 = task_take_id s1 i;
              s3 = upd_task s2 i (\<lambda>t. t\<lparr>t_entry := entry, t_arg := arg, t_process_pid := 0,
                     t_user_entry := 0, t_user_stack := 0, t_user_return := - 1, t_user_context_valid := False,
                     t_state := TASK_RUNNABLE, t_ap_ok := False\<rparr>)
          in task_publish e lookup s3 i)"

definition user_process_ready :: "process_table \<Rightarrow> u64 \<Rightarrow> bool" where
  "user_process_ready lookup pid =
     (case lookup pid of None \<Rightarrow> False | Some p \<Rightarrow> pv_pml4_phys p \<noteq> 0 \<and> pv_kernel_stack p \<noteq> 0)"

definition scheduler_create_user_process ::
  "smp_map \<Rightarrow> process_table \<Rightarrow> sched \<Rightarrow> u64 \<Rightarrow> u64 \<Rightarrow> u64 \<Rightarrow> rc \<times> u64 option \<times> sched" where
  "scheduler_create_user_process e lookup s pid entry user_stack =
     (if pid = 0 \<or> entry = 0 \<or> user_stack = 0 then (-1, None, s)
      else if \<not> user_process_ready lookup pid then (-2, None, s)
      else case task_alloc s of
        None \<Rightarrow> (-3, None, s)
      | Some (i, s1) \<Rightarrow>
          let s2 = task_take_id s1 i;
              s3 = upd_task s2 i (\<lambda>t. t\<lparr>t_entry := 0, t_arg := 0, t_process_pid := pid,
                     t_user_entry := entry, t_user_stack := user_stack, t_user_return := - 1,
                     t_user_context_valid := False, t_state := TASK_RUNNABLE, t_ap_ok := False\<rparr>)
          in task_publish e lookup s3 i)"

definition scheduler_create_fork_child ::
  "smp_map \<Rightarrow> process_table \<Rightarrow> sched \<Rightarrow> u64 \<Rightarrow> u64 \<Rightarrow> u64 \<Rightarrow> u64 \<Rightarrow> rc \<times> u64 option \<times> sched" where
  "scheduler_create_fork_child e lookup s pid entry user_stack return_value =
     (if pid = 0 \<or> entry = 0 \<or> user_stack = 0 then (-1, None, s)
      else if \<not> user_process_ready lookup pid then (-1, None, s)
      else case task_alloc s of
        None \<Rightarrow> (-1, None, s)
      | Some (i, s1) \<Rightarrow>
          let s2 = task_take_id s1 i;
              s3 = upd_task s2 i (\<lambda>t. t\<lparr>t_entry := 0, t_arg := 0, t_process_pid := pid,
                     t_user_entry := entry, t_user_stack := user_stack, t_user_return := return_value,
                     t_user_context_valid := False, t_state := TASK_RUNNABLE, t_ap_ok := False\<rparr>)
          in task_publish e lookup s3 i)"

definition scheduler_create_fork_child_context ::
  "smp_map \<Rightarrow> process_table \<Rightarrow> sched \<Rightarrow> u64 \<Rightarrow> rix_user_context \<Rightarrow> rc \<times> u64 option \<times> sched" where
  "scheduler_create_fork_child_context e lookup s pid ctxt =
     (if pid = 0 then (-1, None, s)
      else if \<not> user_process_ready lookup pid then (-1, None, s)
      else case task_alloc s of
        None \<Rightarrow> (-1, None, s)
      | Some (i, s1) \<Rightarrow>
          let s2 = task_take_id s1 i;
              s3 = upd_task s2 i (\<lambda>t. t\<lparr>t_entry := 0, t_arg := 0, t_process_pid := pid,
                     t_user_entry := uc_rip ctxt, t_user_stack := uc_rsp ctxt, t_user_return := 0,
                     t_user_context := ctxt\<lparr>uc_rax := 0\<rparr>, t_user_context_valid := True,
                     t_state := TASK_RUNNABLE, t_ap_ok := False\<rparr>)
          in task_publish e lookup s3 i)"

subsection \<open>Yield and the idle loop\<close>

text \<open>A CPU claims a slot: it becomes running and current, leaves every mask, and its interval starts.\<close>

definition sched_claim :: "sched \<Rightarrow> nat \<Rightarrow> nat \<Rightarrow> sched" where
  "sched_claim s me next =
     (let s1 = (upd_task s next (t_state_update (\<lambda>_. TASK_RUNNING)))\<lparr>cpu_current := (cpu_current s)(me := next)\<rparr>;
          s2 = rq_remove_all_locked s1 next;
          s3 = rq_note_claim_locked s2 me next
      in upd_task s3 next (t_stamp_update (\<lambda>_. ticks s3)))"

text \<open>How the critical section of \<open>scheduler_yield\<close> ends: the task goes on, the CPU leaves for its idle
  stack, nothing can run, it switches from one slot to another, or the mask check has stopped the machine.\<close>

datatype yield_outcome = Yield_continue | Yield_idle | Yield_stuck | Yield_switch nat nat | Yield_failstop

definition scheduler_yield_locked :: "smp_map \<Rightarrow> sched \<Rightarrow> nat \<Rightarrow> yield_outcome \<times> sched" where
  "scheduler_yield_locked e s me =
     (let yield_armed = (if me < SMP_MAX_CPUS then cpu_need_resched s me else False);
          s0 = (if me < SMP_MAX_CPUS
                then s\<lparr>cpu_need_resched := (cpu_need_resched s)(me := False),
                       cpu_quantum_left := (cpu_quantum_left s)(me := RIX_PREEMPT_QUANTUM_TICKS)\<rparr> else s);
          old = cpu_current s0 me;
          old_flipped = (t_state (tasks s0 old) = TASK_RUNNING);
          s1 = (if old_flipped
                then rq_add_eligible_locked e
                       (upd_task s0 old (\<lambda>t. t\<lparr>t_state := TASK_RUNNABLE,
                          t_run_ticks := t_run_ticks t + (ticks s0 - t_stamp t)\<rparr>)) old
                else s0)
      in if \<not> rq_verify_locked e s1 then (Yield_failstop, s1)
         else
           let (next, s2) = sched_pick_locked e s1 me old
           in if next = old then
                let s3 = (if old_flipped
                          then upd_task (rq_remove_all_locked (upd_task s2 old (t_state_update (\<lambda>_. TASK_RUNNING))) old) old
                                 (t_stamp_update (\<lambda>_. ticks s2))
                          else s2)
                in if t_state (tasks s3 old) = TASK_RUNNING then (Yield_continue, s3)
                   else if me < SMP_MAX_CPUS \<and> cpu_idle_valid s3 me then (Yield_idle, s3)
                   else (Yield_stuck, s3)
              else
                let s3 = (if old_flipped
                          then if yield_armed
                               then upd_task s2 old (\<lambda>t. t\<lparr>t_involuntary := t_involuntary t + 1\<rparr>)
                               else upd_task s2 old (\<lambda>t. t\<lparr>t_voluntary := t_voluntary t + 1\<rparr>)
                          else s2)
                in (Yield_switch old next, sched_claim s3 me next))"

text \<open>The rest of \<open>scheduler_yield\<close>, on the stack of the task that was switched to: its address space
  is activated, and a task whose address space cannot be activated dies.\<close>

definition scheduler_yield_resume :: "(u64 \<Rightarrow> rc) \<Rightarrow> sched \<Rightarrow> nat \<Rightarrow> sched" where
  "scheduler_yield_resume process_activate s me =
     (let i = cpu_current s me
      in if t_process_pid (tasks s i) \<noteq> 0 \<and> process_activate (t_process_pid (tasks s i)) \<noteq> 0
         then task_mark_dead_locked s i else s)"

datatype idle_outcome = Idle_park | Idle_switch nat | Idle_failstop

definition scheduler_ap_idle_locked :: "smp_map \<Rightarrow> sched \<Rightarrow> nat \<Rightarrow> idle_outcome \<times> sched" where
  "scheduler_ap_idle_locked e s me =
     (let s0 = s\<lparr>cpu_idle_valid := (cpu_idle_valid s)(me := True)\<rparr>;
          old = cpu_current s0 me
      in if \<not> rq_verify_locked e s0 then (Idle_failstop, s0)
         else
           let (next, s1) = sched_pick_locked e s0 me old
           in if next = old \<or> t_state (tasks s1 next) \<noteq> TASK_RUNNABLE
              then (Idle_park, s1\<lparr>cpu_in_idle := (cpu_in_idle s1)(me := True)\<rparr>)
              else (Idle_switch next, sched_claim (s1\<lparr>cpu_in_idle := (cpu_in_idle s1)(me := False)\<rparr>) me next))"

definition scheduler_ap_unpark :: "sched \<Rightarrow> nat \<Rightarrow> sched" where
  "scheduler_ap_unpark s me = s\<lparr>cpu_in_idle := (cpu_in_idle s)(me := False)\<rparr>"

subsection \<open>Initial state\<close>

definition init_task :: rix_task where
  "init_task = \<lparr>t_id = 0, t_state = TASK_UNUSED, t_tid = 0, t_entry = 0, t_arg = 0, t_process_pid = 0,
     t_user_entry = 0, t_user_stack = 0, t_user_return = - 1, t_user_context_valid = False, t_ap_ok = False,
     t_affinity = - 1, t_run_cpu = - 1, t_migrations = 0, t_prio = 0, t_run_ticks = 0, t_stamp = 0,
     t_voluntary = 0, t_involuntary = 0,
     t_user_context = \<lparr>uc_r15 = 0, uc_r14 = 0, uc_r13 = 0, uc_r12 = 0, uc_r11 = 0, uc_r10 = 0, uc_r9 = 0, uc_r8 = 0,
        uc_rbp = 0, uc_rdi = 0, uc_rsi = 0, uc_rdx = 0, uc_rcx = 0, uc_rbx = 0, uc_rax = 0,
        uc_rip = 0, uc_rflags = 0, uc_rsp = 0\<rparr>,
     t_wait_wq = None, t_wait_handle = no_handle\<rparr>"

definition scheduler_init :: "process_table \<Rightarrow> sched" where
  "scheduler_init lookup =
     (case thread_alloc_locked (\<lambda>pid. map_option pv_state (lookup pid)) thread_table_init 0 of
        (r, out, tt) \<Rightarrow>
          \<lparr>ticks = 0,
           tasks = (\<lambda>_. init_task)(0 := init_task\<lparr>t_state := TASK_RUNNING, t_tid := (case out of None \<Rightarrow> 0 | Some tid \<Rightarrow> tid)\<rparr>),
           cpu_current = (\<lambda>_. 0), next_id = 1, cpu_rq = (\<lambda>_. rq_init_locked), cpu_idle_valid = (\<lambda>_. False),
           cpu_preempt_depth = (\<lambda>_. 0), cpu_need_resched = (\<lambda>_. False),
           cpu_quantum_left = (\<lambda>_. RIX_PREEMPT_QUANTUM_TICKS), cpu_in_idle = (\<lambda>_. False),
           thread_tab = tt, wait_queues = (\<lambda>_. rix_waitqueue_init), ipis = []\<rparr>)"

end
