(* ===== verification/Scheduler_Invariants.thy ===== *)
theory Scheduler_Invariants
  imports Scheduler
begin

text \<open>
  The invariants of the scheduler: the mask of every run queue is exactly the set of runnable slots
  its CPU may run, every task that is alive owns one thread record and every other owns none, and the
  wait bindings of the tasks agree with the wait queues.  Each is shown for every operation; the step
  relation at the end puts them together for all reachable states.
\<close>

subsection \<open>Masks\<close>

definition task_elig :: "smp_map \<Rightarrow> rix_task \<Rightarrow> nat \<Rightarrow> nat \<Rightarrow> bool" where
  "task_elig e t c i \<longleftrightarrow> i < RIX_MAX_TASKS \<and> c < SMP_MAX_CPUS \<and> bit (t_affinity t) c \<and>
     (rq_cpu_is_bsp e c \<or> i \<noteq> 0 \<and> t_process_pid t = 0 \<and> t_ap_ok t)"

lemma rq_eligible_task: "rq_eligible e s c i = task_elig e (tasks s i) c i"
  by (auto simp: rq_eligible_def task_elig_def)

definition slot_sync :: "smp_map \<Rightarrow> sched \<Rightarrow> nat \<Rightarrow> bool" where
  "slot_sync e s i \<longleftrightarrow> (\<forall>c < SMP_MAX_CPUS.
     i \<in> rq_slots (cpu_rq s c) \<longleftrightarrow> t_state (tasks s i) = TASK_RUNNABLE \<and> rq_eligible e s c i)"

definition rq_sync :: "smp_map \<Rightarrow> sched \<Rightarrow> bool" where
  "rq_sync e s \<longleftrightarrow> (\<forall>i < RIX_MAX_TASKS. slot_sync e s i)"

definition rq_sync_except :: "smp_map \<Rightarrow> sched \<Rightarrow> nat \<Rightarrow> bool" where
  "rq_sync_except e s i \<longleftrightarrow> (\<forall>j < RIX_MAX_TASKS. j \<noteq> i \<longrightarrow> slot_sync e s j)"

definition no_bits :: "sched \<Rightarrow> nat \<Rightarrow> bool" where
  "no_bits s i \<longleftrightarrow> (\<forall>c < SMP_MAX_CPUS. i \<notin> rq_slots (cpu_rq s c))"

lemma slot_of_nat: "i < RIX_MAX_TASKS \<Longrightarrow> unat (of_nat i :: u32) = i"
  by (rule unat_of_nat_small) (simp add: RIX_MAX_TASKS_def)

lemma rq_verify_iff: "rq_verify_locked e s \<longleftrightarrow> rq_sync e s"
proof -
  have "rq_contains_locked (cpu_rq s c) (of_nat i) \<longleftrightarrow> i \<in> rq_slots (cpu_rq s c)" if "i < RIX_MAX_TASKS" for c i
    using that by (simp add: rq_contains_iff RIX_MAX_TASKS_def)
  then show ?thesis
    by (auto simp: rq_verify_locked_def rq_sync_def slot_sync_def list_all_iff)
qed

lemma rq_add_eligible_sel [simp]:
  "tasks (rq_add_eligible_locked e s i) = tasks s"
  "ticks (rq_add_eligible_locked e s i) = ticks s"
  "cpu_current (rq_add_eligible_locked e s i) = cpu_current s"
  "next_id (rq_add_eligible_locked e s i) = next_id s"
  "thread_tab (rq_add_eligible_locked e s i) = thread_tab s"
  "wait_queues (rq_add_eligible_locked e s i) = wait_queues s"
  "cpu_idle_valid (rq_add_eligible_locked e s i) = cpu_idle_valid s"
  "cpu_quantum_left (rq_add_eligible_locked e s i) = cpu_quantum_left s"
  "ipis (rq_add_eligible_locked e s i) = ipis s"
  by (simp_all add: rq_add_eligible_locked_def)

lemma rq_remove_all_sel [simp]:
  "tasks (rq_remove_all_locked s i) = tasks s"
  "ticks (rq_remove_all_locked s i) = ticks s"
  "cpu_current (rq_remove_all_locked s i) = cpu_current s"
  "next_id (rq_remove_all_locked s i) = next_id s"
  "thread_tab (rq_remove_all_locked s i) = thread_tab s"
  "wait_queues (rq_remove_all_locked s i) = wait_queues s"
  "cpu_idle_valid (rq_remove_all_locked s i) = cpu_idle_valid s"
  "cpu_quantum_left (rq_remove_all_locked s i) = cpu_quantum_left s"
  "ipis (rq_remove_all_locked s i) = ipis s"
  by (simp_all add: rq_remove_all_locked_def)

lemma slots_add_eligible:
  assumes "i < RIX_MAX_TASKS" "c < SMP_MAX_CPUS"
  shows "rq_slots (cpu_rq (rq_add_eligible_locked e s i) c) =
    (if rq_eligible e s c i then insert i (rq_slots (cpu_rq s c)) else rq_slots (cpu_rq s c))"
  using assms by (simp add: rq_add_eligible_locked_def rq_slots_add slot_of_nat RIX_MAX_TASKS_def)

lemma slots_remove_all:
  assumes "i < RIX_MAX_TASKS" "c < SMP_MAX_CPUS"
  shows "rq_slots (cpu_rq (rq_remove_all_locked s i) c) = rq_slots (cpu_rq s c) - {i}"
  using assms by (simp add: rq_remove_all_locked_def rq_slots_remove slot_of_nat RIX_MAX_TASKS_def)

text \<open>The cache is read off the state, affinity, owner and \<open>ap_ok\<close> of the slots and the queues only.\<close>

definition task_core :: "rix_task \<Rightarrow> task_state \<times> u64 \<times> u64 \<times> bool" where
  "task_core t = (t_state t, t_affinity t, t_process_pid t, t_ap_ok t)"

lemma slot_sync_cong:
  assumes "task_core (tasks s' i) = task_core (tasks s i)"
    "\<And>c. c < SMP_MAX_CPUS \<Longrightarrow> rq_slots (cpu_rq s' c) = rq_slots (cpu_rq s c)"
  shows "slot_sync e s' i = slot_sync e s i"
  using assms by (simp add: slot_sync_def rq_eligible_task task_elig_def task_core_def)

lemma rq_sync_cong:
  assumes "\<And>i. i < RIX_MAX_TASKS \<Longrightarrow> task_core (tasks s' i) = task_core (tasks s i)"
    "\<And>c. c < SMP_MAX_CPUS \<Longrightarrow> rq_slots (cpu_rq s' c) = rq_slots (cpu_rq s c)"
  shows "rq_sync e s' = rq_sync e s"
  using slot_sync_cong[OF assms(1,2)] by (simp add: rq_sync_def)

lemma rq_sync_exceptI: "rq_sync e s \<Longrightarrow> rq_sync_except e s i"
  by (simp add: rq_sync_def rq_sync_except_def)

lemma no_bitsI: "rq_sync e s \<Longrightarrow> i < RIX_MAX_TASKS \<Longrightarrow> t_state (tasks s i) \<noteq> TASK_RUNNABLE \<Longrightarrow> no_bits s i"
  by (auto simp: rq_sync_def slot_sync_def no_bits_def)

lemma rq_sync_except_cong:
  assumes "rq_sync_except e s i" "\<And>j. j < RIX_MAX_TASKS \<Longrightarrow> j \<noteq> i \<Longrightarrow> task_core (tasks s' j) = task_core (tasks s j)"
    "\<And>c. c < SMP_MAX_CPUS \<Longrightarrow> rq_slots (cpu_rq s' c) = rq_slots (cpu_rq s c)"
  shows "rq_sync_except e s' i"
  using assms slot_sync_cong[of s' _ s e] by (simp add: rq_sync_except_def)

lemma no_bits_cong:
  assumes "no_bits s i" "\<And>c. c < SMP_MAX_CPUS \<Longrightarrow> rq_slots (cpu_rq s' c) = rq_slots (cpu_rq s c)"
  shows "no_bits s' i"
  using assms by (simp add: no_bits_def)

lemma rq_sync_add:
  assumes "rq_sync_except e s i" "no_bits s i" "i < RIX_MAX_TASKS" "t_state (tasks s i) = TASK_RUNNABLE"
  shows "rq_sync e (rq_add_eligible_locked e s i)"
  using assms
  by (auto simp: rq_sync_def rq_sync_except_def slot_sync_def no_bits_def slots_add_eligible rq_eligible_task)

lemma rq_sync_remove:
  assumes "rq_sync_except e s i" "i < RIX_MAX_TASKS" "t_state (tasks s i) \<noteq> TASK_RUNNABLE"
  shows "rq_sync e (rq_remove_all_locked s i)"
  using assms
  by (auto simp: rq_sync_def rq_sync_except_def slot_sync_def slots_remove_all rq_eligible_task)

lemma rq_sync_resync:
  assumes "rq_sync_except e s i" "i < RIX_MAX_TASKS"
  shows "rq_sync e (rq_resync_locked e s i)"
proof (cases "t_state (tasks s i) = TASK_RUNNABLE")
  case True
  have "rq_sync_except e (rq_remove_all_locked s i) i" "no_bits (rq_remove_all_locked s i) i"
    using assms by (auto simp: rq_sync_except_def slot_sync_def no_bits_def slots_remove_all rq_eligible_task)
  then show ?thesis using True assms(2) by (simp add: rq_resync_locked_def rq_sync_add)
next
  case False
  then show ?thesis using assms by (simp add: rq_resync_locked_def rq_sync_remove)
qed

lemma rq_sync_idle:
  assumes "rq_sync_except e s i" "no_bits s i" "t_state (tasks s i) \<noteq> TASK_RUNNABLE"
  shows "rq_sync e s"
  using assms by (auto simp: rq_sync_def rq_sync_except_def slot_sync_def no_bits_def)

subsection \<open>Selection\<close>

text \<open>The copy of a queue the steal loop works on drops slots by clearing mask bits; it meets the same
  interface as the queue itself.\<close>

interpretation tq: slot_queue rq_slots "\<lambda>q. rq_pick_locked q himask" "\<lambda>q i. q\<lparr>rq_mask := rq_mask q AND NOT (one_shl i)\<rparr>"
proof
  fix q i
  show "i \<in> rq_slots q \<Longrightarrow> rq_slots (q\<lparr>rq_mask := rq_mask q AND NOT (one_shl i)\<rparr>) = rq_slots q - {i}"
    using rq_slots_subset[of q] by (auto simp: rq_slots_def)
qed (simp_all add: rq_pick_member rq_pick_negative_iff)

lemma rq_slots_mask_only: "rq_mask q = rq_mask q' \<Longrightarrow> rq_slots q = rq_slots q'"
  by (simp add: rq_slots_def)

abbreviation own_pick :: "smp_map \<Rightarrow> sched \<Rightarrow> nat \<Rightarrow> nat option \<times> rix_runqueue" where
  "own_pick e s me \<equiv> pick_verified (\<lambda>q. rq_pick_locked q (sched_himask s)) (\<lambda>q i. rq_remove_locked q (of_nat i))
     (\<lambda>i. t_state (tasks s i) = TASK_RUNNABLE \<and> rq_eligible e s me i) RIX_MAX_TASKS (cpu_rq s me)"

lemma sync_own_slots:
  assumes "rq_sync e s" "me < SMP_MAX_CPUS"
  shows "i \<in> rq_slots (cpu_rq s me) \<longleftrightarrow> t_state (tasks s i) = TASK_RUNNABLE \<and> rq_eligible e s me i"
proof (cases "i < RIX_MAX_TASKS")
  case True
  then show ?thesis using assms by (simp add: rq_sync_def slot_sync_def)
next
  case False
  then show ?thesis using rq_slots_subset[of "cpu_rq s me"] by (auto simp: RIX_MAX_TASKS_def rq_eligible_def)
qed

text \<open>With the masks in step, the CPU's own queue decides: its first pick is accepted if there is one,
  and if there is none no other queue has work for this CPU.\<close>

lemma own_pick_sync:
  assumes "rq_sync e s" "me < SMP_MAX_CPUS" "own_pick e s me = (own, q)"
  shows "rq_slots q = rq_slots (cpu_rq s me)"
    "own = Some i \<Longrightarrow> t_state (tasks s i) = TASK_RUNNABLE \<and> rq_eligible e s me i"
    "own = None \<Longrightarrow> \<not> (t_state (tasks s i) = TASK_RUNNABLE \<and> rq_eligible e s me i)"
proof -
  note own = sync_own_slots[OF assms(1,2)]
  show "rq_slots q = rq_slots (cpu_rq s me)"
    using rq.pick_verified_all_ok[of "cpu_rq s me", where ok = "\<lambda>i. t_state (tasks s i) = TASK_RUNNABLE \<and> rq_eligible e s me i"
        and himask = "sched_himask s" and n = RIX_MAX_TASKS] own assms(3) by simp
  show "own = Some i \<Longrightarrow> t_state (tasks s i) = TASK_RUNNABLE \<and> rq_eligible e s me i"
    using assms(3) by (auto dest: rq.pick_verified_sound)
  assume none: "own = None"
  have "card (rq_slots (cpu_rq s me)) \<le> card {..<32::nat}"
    by (rule card_mono) (simp_all add: rq_slots_subset)
  then have "card (rq_slots (cpu_rq s me)) \<le> RIX_MAX_TASKS" by (simp add: RIX_MAX_TASKS_def)
  from rq.pick_verified_complete[OF this, of i "\<lambda>i. t_state (tasks s i) = TASK_RUNNABLE \<and> rq_eligible e s me i"
      "sched_himask s"] none assms(3) own[of i]
  show "\<not> (t_state (tasks s i) = TASK_RUNNABLE \<and> rq_eligible e s me i)" by auto
qed

lemma sched_pick_sync:
  assumes sync: "rq_sync e s" and me: "me < SMP_MAX_CPUS"
  shows "sched_pick_locked e s me old =
    (case own_pick e s me of (own, q) \<Rightarrow>
       ((case own of Some i \<Rightarrow> i | None \<Rightarrow> old), s\<lparr>cpu_rq := (cpu_rq s)(me := q)\<rparr>))"
proof -
  obtain own q where o: "own_pick e s me = (own, q)" by (rule prod.exhaust)
  note op = own_pick_sync[OF sync me o]
  have nme: "(SMP_MAX_CPUS \<le> me) = False" using me by simp
  show ?thesis
  proof (cases own)
    case (Some i)
    show ?thesis
      unfolding sched_pick_locked_def Let_def o[unfolded Some] by (simp only: nme if_False prod.case option.case)
  next
    case None
    have no: "\<not> (t_state (tasks s i) = TASK_RUNNABLE \<and> rq_eligible e s me i)" for i using op(3)[OF None] .
    have st: "fst (pick_verified (\<lambda>q. rq_pick_locked q (sched_himask s))
        (\<lambda>q i. q\<lparr>rq_mask := rq_mask q AND NOT (one_shl i)\<rparr>)
        (\<lambda>i. t_state (tasks s i) = TASK_RUNNABLE \<and> rq_eligible e s me i) n tmp) = None" (is "fst ?r = None") for n tmp
    proof (cases "fst ?r")
      case (Some i)
      then have "?r = (Some i, snd ?r)" by (rule prod_eqI[OF trans]) simp_all
      from tq.pick_verified_sound[OF this] no show ?thesis by blast
    qed
    show ?thesis
      unfolding sched_pick_locked_def Let_def o[unfolded None]
      by (simp only: nme if_False prod.case option.case) (simp only: case_prod_beta st option.case if_cancel)
  qed
qed

lemma sched_pick_cases:
  assumes sync: "rq_sync e s" and me: "me < SMP_MAX_CPUS" and p: "sched_pick_locked e s me old = (next, s')"
  obtains
    (picked) q where "s' = s\<lparr>cpu_rq := (cpu_rq s)(me := q)\<rparr>" "rq_slots q = rq_slots (cpu_rq s me)"
      "t_state (tasks s next) = TASK_RUNNABLE" "rq_eligible e s me next" "next < RIX_MAX_TASKS"
  | (none) q where "s' = s\<lparr>cpu_rq := (cpu_rq s)(me := q)\<rparr>" "rq_slots q = rq_slots (cpu_rq s me)"
      "next = old" "\<And>i. \<not> (t_state (tasks s i) = TASK_RUNNABLE \<and> rq_eligible e s me i)"
proof -
  obtain own q where o: "own_pick e s me = (own, q)" by (rule prod.exhaust)
  note op = own_pick_sync[OF sync me o]
  have r: "next = (case own of Some i \<Rightarrow> i | None \<Rightarrow> old)" "s' = s\<lparr>cpu_rq := (cpu_rq s)(me := q)\<rparr>"
    using p unfolding sched_pick_sync[OF sync me] o by simp_all
  show thesis
  proof (cases own)
    case None
    with r(1) have "next = old" by simp
    from none[OF r(2) op(1) this op(3)[OF None]] show thesis .
  next
    case (Some i)
    with r(1) have "next = i" by simp
    with op(2)[OF Some] have n: "t_state (tasks s next) = TASK_RUNNABLE" "rq_eligible e s me next" by simp_all
    then have "next < RIX_MAX_TASKS" by (simp add: rq_eligible_def split: if_splits)
    from picked[OF r(2) op(1) n this] show thesis .
  qed
qed

lemma sched_pick_keeps:
  assumes "rq_sync e s" "me < SMP_MAX_CPUS" "sched_pick_locked e s me old = (next, s')"
  obtains q where "s' = s\<lparr>cpu_rq := (cpu_rq s)(me := q)\<rparr>" "rq_sync e s'"
proof -
  have "\<exists>q. s' = s\<lparr>cpu_rq := (cpu_rq s)(me := q)\<rparr> \<and> rq_slots q = rq_slots (cpu_rq s me)"
    using assms by (rule sched_pick_cases) blast+
  then obtain q where q: "s' = s\<lparr>cpu_rq := (cpu_rq s)(me := q)\<rparr>" "rq_slots q = rq_slots (cpu_rq s me)" by blast
  have "rq_sync e s' = rq_sync e s" by (rule rq_sync_cong) (simp_all add: q)
  with assms(1) q(1) that show thesis by blast
qed

subsection \<open>Bindings\<close>

text \<open>The thread a slot holds and the waiter it is bound to, as bindings into the two registries.\<close>

definition alive :: "rix_task \<Rightarrow> bool" where
  "alive t \<longleftrightarrow> t_state t \<noteq> TASK_UNUSED \<and> t_state t \<noteq> TASK_DEAD"

definition thread_binding :: "(nat \<Rightarrow> rix_task) \<Rightarrow> nat \<Rightarrow> (unit \<times> u64) option" where
  "thread_binding ts i = (if i < RIX_MAX_TASKS \<and> t_tid (ts i) \<noteq> 0 then Some ((), t_tid (ts i)) else None)"

definition wait_binding :: "(nat \<Rightarrow> rix_task) \<Rightarrow> nat \<Rightarrow> (nat \<times> rix_wait_handle) option" where
  "wait_binding ts i =
     (if i < RIX_MAX_TASKS then map_option (\<lambda>w. (w, t_wait_handle (ts i))) (t_wait_wq (ts i)) else None)"

definition threads_ok :: "thread_table \<Rightarrow> (nat \<Rightarrow> rix_task) \<Rightarrow> bool" where
  "threads_ok tt ts \<longleftrightarrow>
     handle_registry.coherent thread_table_ok thread_owner (\<lambda>_. tt) (thread_binding ts) (\<lambda>i. t_process_pid (ts i))"

definition waits_ok :: "(nat \<Rightarrow> rix_waitqueue) \<Rightarrow> (nat \<Rightarrow> rix_task) \<Rightarrow> bool" where
  "waits_ok wqs ts \<longleftrightarrow>
     handle_registry.coherent wq_ok wq_owner wqs (wait_binding ts) (\<lambda>i. t_id (ts i))"

definition life_ok :: "(nat \<Rightarrow> rix_task) \<Rightarrow> bool" where
  "life_ok ts \<longleftrightarrow> (\<forall>i < RIX_MAX_TASKS. (t_tid (ts i) \<noteq> 0 \<longleftrightarrow> alive (ts i)) \<and> (\<not> alive (ts i) \<longrightarrow> t_wait_wq (ts i) = None))"

definition waits_ready :: "(nat \<Rightarrow> rix_waitqueue) \<Rightarrow> bool" where
  "waits_ready wqs \<longleftrightarrow> (\<forall>w i. w_state (wq_waiters (wqs w) i) = RIX_WAIT_UNUSED \<or> w_state (wq_waiters (wqs w) i) = RIX_WAIT_READY)"

lemma threads_ok_cong:
  assumes "threads_ok tt ts" "\<And>i. i < RIX_MAX_TASKS \<Longrightarrow> t_tid (ts' i) = t_tid (ts i)"
    "\<And>i. i < RIX_MAX_TASKS \<Longrightarrow> t_tid (ts i) \<noteq> 0 \<Longrightarrow> t_process_pid (ts' i) = t_process_pid (ts i)"
  shows "threads_ok tt ts'"
proof -
  have "thread_binding ts' = thread_binding ts" using assms(2) by (auto simp: fun_eq_iff thread_binding_def)
  then show ?thesis using assms(1,3) unfolding threads_ok_def
    by (auto intro: th.coherent_ident simp: thread_binding_def split: if_splits)
qed

lemma threads_ok_free:
  assumes "threads_ok tt ts" "i < RIX_MAX_TASKS" "t_tid (ts i) \<noteq> 0" "t_tid x = 0"
  shows "threads_ok (thread_free_locked tt (t_tid (ts i))) (ts(i := x))"
proof -
  have b: "thread_binding (ts(i := x)) = (thread_binding ts)(i := None)"
    using assms(2,4) by (auto simp: thread_binding_def)
  have "thread_binding ts i = Some ((), t_tid (ts i))" using assms(2,3) by (simp add: thread_binding_def)
  from th.coherent_remove[OF assms(1)[unfolded threads_ok_def] this]
  have c: "handle_registry.coherent thread_table_ok thread_owner (\<lambda>_. thread_free_locked tt (t_tid (ts i)))
      ((thread_binding ts)(i := None)) (\<lambda>i. t_process_pid (ts i))" by (simp add: fun_upd_def)
  show ?thesis unfolding threads_ok_def b by (rule th.coherent_ident[OF c]) (simp split: if_splits)
qed

lemma threads_okD: "threads_ok tt ts \<Longrightarrow> thread_table_ok tt"
  unfolding threads_ok_def by (drule th.coherentD(1))

lemma threads_ok_alloc:
  assumes ok: "threads_ok tt ts" and i: "i < RIX_MAX_TASKS" "t_tid (ts i) = 0" and room: "next_tid tt + 1 \<noteq> 0"
    and a: "thread_alloc_locked lookup tt (t_process_pid x) = (r, Some tid, tt')" and x: "t_tid x = tid"
  shows "threads_ok tt' (ts(i := x)) \<and> tid \<noteq> 0"
proof -
  note tok = threads_okD[OF ok]
  have tid: "tid \<noteq> 0"
    using thread_alloc_map(1)[OF tok room] thread_table_okD(2)[OF tok] a thread_alloc_Some[OF tok a] by simp
  let ?ts = "ts(i := x\<lparr>t_tid := 0\<rparr>)"
  have b: "thread_binding ?ts = thread_binding ts" using i by (auto simp: thread_binding_def)
  have c: "handle_registry.coherent thread_table_ok thread_owner (\<lambda>_. tt) (thread_binding ?ts) (\<lambda>j. t_process_pid (?ts j))"
    unfolding b using ok[unfolded threads_ok_def] by (rule th.coherent_ident) (use i in \<open>auto simp: thread_binding_def split: if_splits\<close>)
  have "thread_binding ?ts i = None" by (simp add: thread_binding_def)
  from th.coherent_prepare[OF c this, where w = "()" and lookup = lookup] room a
  have c': "handle_registry.coherent thread_table_ok thread_owner (\<lambda>_. tt')
      ((thread_binding ?ts)(i \<mapsto> ((), tid))) (\<lambda>j. t_process_pid (?ts j))" by (simp add: fun_upd_def)
  have "(thread_binding ?ts)(i \<mapsto> ((), tid)) = thread_binding (ts(i := x))"
    using i tid x by (auto simp: thread_binding_def)
  with c' tid show ?thesis unfolding threads_ok_def
    by (auto intro: th.coherent_ident)
qed

lemma waits_ok_cong:
  assumes "waits_ok wqs ts" "\<And>i. i < RIX_MAX_TASKS \<Longrightarrow> t_wait_wq (ts' i) = t_wait_wq (ts i)"
    "\<And>i. i < RIX_MAX_TASKS \<Longrightarrow> t_wait_wq (ts i) \<noteq> None \<Longrightarrow> t_id (ts' i) = t_id (ts i) \<and> t_wait_handle (ts' i) = t_wait_handle (ts i)"
  shows "waits_ok wqs ts'"
proof -
  have "wait_binding ts' i = wait_binding ts i" for i
    using assms(2,3)[of i] by (cases "t_wait_wq (ts i)") (auto simp: wait_binding_def)
  then have "wait_binding ts' = wait_binding ts" by blast
  then show ?thesis using assms(1,3) unfolding waits_ok_def
    by (auto intro: wq.coherent_ident simp: wait_binding_def split: if_splits)
qed

lemma waits_ok_prepare:
  assumes "waits_ok wqs ts" "i < RIX_MAX_TASKS" "t_wait_wq (ts i) = None" "wq_generation (wqs w) + 1 \<noteq> 0"
    "rix_waitqueue_prepare (wqs w) (t_id (ts i)) = (r, Some h, q)"
    "t_wait_wq x = Some w" "t_wait_handle x = h" "t_id x = t_id (ts i)"
  shows "waits_ok (wqs(w := q)) (ts(i := x))"
proof -
  have "wait_binding ts i = None" using assms(3) by (simp add: wait_binding_def)
  from wq.coherent_prepare[OF assms(1)[unfolded waits_ok_def] this assms(4,5)]
  have c: "handle_registry.coherent wq_ok wq_owner (wqs(w := q)) ((wait_binding ts)(i \<mapsto> (w, h))) (\<lambda>i. t_id (ts i))" .
  have b: "wait_binding (ts(i := x)) = (wait_binding ts)(i \<mapsto> (w, h))"
    using assms(2,6,7) by (auto simp: wait_binding_def)
  show ?thesis unfolding waits_ok_def b by (rule wq.coherent_ident[OF c]) (use assms(8) in simp)
qed

lemma waits_ok_remove:
  assumes "waits_ok wqs ts" "i < RIX_MAX_TASKS" "t_wait_wq (ts i) = Some w" "t_wait_wq x = None"
  shows "waits_ok (wqs(w := snd (rix_waitqueue_remove (wqs w) (t_wait_handle (ts i))))) (ts(i := x))"
proof -
  have "wait_binding ts i = Some (w, t_wait_handle (ts i))" using assms(2,3) by (simp add: wait_binding_def)
  from wq.coherent_remove[OF assms(1)[unfolded waits_ok_def] this]
  have c: "handle_registry.coherent wq_ok wq_owner (wqs(w := snd (rix_waitqueue_remove (wqs w) (t_wait_handle (ts i)))))
     ((wait_binding ts)(i := None)) (\<lambda>i. t_id (ts i))" .
  have b: "wait_binding (ts(i := x)) = (wait_binding ts)(i := None)"
    using assms(4) by (auto simp: wait_binding_def)
  show ?thesis unfolding waits_ok_def b by (rule wq.coherent_ident[OF c]) (simp split: if_splits)
qed

lemma waits_ok_queue:
  assumes "waits_ok wqs ts" "wq_same (wqs w) q"
  shows "waits_ok (wqs(w := q)) ts"
  using assms(1) wq_same_laws[OF assms(2)] wq.coherentD(1)[OF assms(1)[unfolded waits_ok_def]]
  unfolding waits_ok_def by (auto intro: wq.coherent_queue)

lemma waits_okD:
  assumes "waits_ok wqs ts" "i < RIX_MAX_TASKS" "t_wait_wq (ts i) = Some w"
  shows "wq_ok (wqs w)" "wq_owner (wqs w) (t_wait_handle (ts i)) = Some (t_id (ts i))"
  using wq.coherentD(1,2)[OF assms(1)[unfolded waits_ok_def]] assms(2,3)
  by (simp_all add: wait_binding_def)

lemma waits_ready_upd:
  assumes "waits_ready wqs"
    "\<And>i. w_state (wq_waiters q i) = RIX_WAIT_UNUSED \<or> w_state (wq_waiters q i) = RIX_WAIT_READY"
  shows "waits_ready (wqs(w := q))"
  using assms by (simp add: waits_ready_def)

lemma waits_ready_ops:
  assumes "waits_ready wqs"
  shows "waits_ready (wqs(w := snd (snd (rix_waitqueue_prepare (wqs w) x))))"
    "waits_ready (wqs(w := snd (rix_waitqueue_remove (wqs w) h)))"
    "rix_waitqueue_wake_all (wqs w) = (0, wqs w)"
    "snd (rix_waitqueue_take_wakeup (wqs w) h) = wqs w"
proof -
  have st: "w_state (wq_waiters (wqs w) i) = RIX_WAIT_UNUSED \<or> w_state (wq_waiters (wqs w) i) = RIX_WAIT_READY" for w i
    using assms by (simp add: waits_ready_def)
  have nb: "w_state (wq_waiters (wqs w) i) \<noteq> RIX_WAIT_BLOCKED" "w_state (wq_waiters (wqs w) i) \<noteq> RIX_WAIT_WOKEN" for i
    using st[of w i] by auto
  show "waits_ready (wqs(w := snd (snd (rix_waitqueue_prepare (wqs w) x))))"
    by (rule waits_ready_upd[OF assms]) (use st in \<open>auto simp: rix_waitqueue_prepare_def Let_def split: option.split\<close>)
  show "waits_ready (wqs(w := snd (rix_waitqueue_remove (wqs w) h)))"
    by (rule waits_ready_upd[OF assms]) (use st in \<open>auto simp: rix_waitqueue_remove_def split: option.split\<close>)
  show "rix_waitqueue_wake_all (wqs w) = (0, wqs w)" by (simp add: rix_waitqueue_wake_all_def nb)
  show "snd (rix_waitqueue_take_wakeup (wqs w) h) = wqs w"
    by (simp add: rix_waitqueue_take_wakeup_def nb split: option.split)
qed

subsection \<open>The invariant and its frame rules\<close>

definition bind_ok :: "sched \<Rightarrow> bool" where
  "bind_ok s \<longleftrightarrow> (\<forall>c. cpu_current s c < RIX_MAX_TASKS) \<and> life_ok (tasks s) \<and>
     threads_ok (thread_tab s) (tasks s) \<and> waits_ok (wait_queues s) (tasks s) \<and> waits_ready (wait_queues s)"

definition sched_inv :: "smp_map \<Rightarrow> sched \<Rightarrow> bool" where
  "sched_inv e s \<longleftrightarrow> rq_sync e s \<and> bind_ok s"

definition bind_core :: "rix_task \<Rightarrow> bool \<times> u64 \<times> nat option \<times> rix_wait_handle \<times> u64 \<times> u64" where
  "bind_core t = (alive t, t_tid t, t_wait_wq t, t_wait_handle t, t_id t, t_process_pid t)"

lemma bind_okD:
  assumes "bind_ok s"
  shows "cpu_current s c < RIX_MAX_TASKS" "life_ok (tasks s)" "threads_ok (thread_tab s) (tasks s)"
    "waits_ok (wait_queues s) (tasks s)" "waits_ready (wait_queues s)"
  using assms by (simp_all add: bind_ok_def)

lemma life_ok_cong:
  assumes "life_ok ts" "\<And>i. i < RIX_MAX_TASKS \<Longrightarrow> bind_core (ts' i) = bind_core (ts i)"
  shows "life_ok ts'"
  using assms by (simp add: life_ok_def bind_core_def)

lemma life_ok_upd:
  assumes "life_ok ts" "t_tid x \<noteq> 0 \<longleftrightarrow> alive x" "\<not> alive x \<Longrightarrow> t_wait_wq x = None"
  shows "life_ok (ts(i := x))"
  using assms by (auto simp: life_ok_def)

lemma bind_ok_frame:
  assumes "bind_ok s" "\<And>i. i < RIX_MAX_TASKS \<Longrightarrow> bind_core (tasks s' i) = bind_core (tasks s i)"
    "\<And>c. cpu_current s' c < RIX_MAX_TASKS" "thread_tab s' = thread_tab s" "wait_queues s' = wait_queues s"
  shows "bind_ok s'"
  unfolding bind_ok_def assms(4,5)
proof (intro conjI allI)
  show "life_ok (tasks s')" by (rule life_ok_cong[OF bind_okD(2)[OF assms(1)] assms(2)])
  show "threads_ok (thread_tab s) (tasks s')"
    by (rule threads_ok_cong[OF bind_okD(3)[OF assms(1)]]) (use assms(2) in \<open>auto simp: bind_core_def\<close>)
  show "waits_ok (wait_queues s) (tasks s')"
    by (rule waits_ok_cong[OF bind_okD(4)[OF assms(1)]]) (use assms(2) in \<open>auto simp: bind_core_def\<close>)
qed (use bind_okD(5)[OF assms(1)] assms(3) in auto)

text \<open>An update of one slot that keeps what the bindings read, and of the queues in any way.\<close>

lemma bind_ok_slot:
  assumes "bind_ok s" "bind_core x = bind_core (tasks s i)" "tasks s' = (tasks s)(i := x)"
    "\<And>c. cpu_current s' c < RIX_MAX_TASKS" "thread_tab s' = thread_tab s" "wait_queues s' = wait_queues s"
  shows "bind_ok s'"
  by (rule bind_ok_frame[OF assms(1)]) (use assms(2-6) in auto)

lemma rq_sync_core:
  assumes "rq_sync e s" "\<And>i. i < RIX_MAX_TASKS \<Longrightarrow> task_core (tasks s' i) = task_core (tasks s i)" "cpu_rq s' = cpu_rq s"
  shows "rq_sync e s'"
  using assms(1) rq_sync_cong[of s' s e] assms(2,3) by simp

lemma sched_inv_frame:
  assumes "sched_inv e s" "tasks s' = tasks s" "cpu_rq s' = cpu_rq s" "cpu_current s' = cpu_current s"
    "thread_tab s' = thread_tab s" "wait_queues s' = wait_queues s"
  shows "sched_inv e s'"
  using assms rq_sync_core[of e s s'] by (simp add: sched_inv_def bind_ok_def)

lemma except_slot:
  assumes "rq_sync e s" "tasks s' = (tasks s)(i := x)" "cpu_rq s' = cpu_rq s"
  shows "rq_sync_except e s' i"
  by (rule rq_sync_except_cong[OF rq_sync_exceptI[OF assms(1)]]) (use assms(2,3) in auto)

lemma no_bits_slot:
  assumes "rq_sync e s" "i < RIX_MAX_TASKS" "t_state (tasks s i) \<noteq> TASK_RUNNABLE" "cpu_rq s' = cpu_rq s"
  shows "no_bits s' i"
  by (rule no_bits_cong[OF no_bitsI[OF assms(1-3)]]) (use assms(4) in auto)

text \<open>A slot that was not runnable becomes runnable and joins the masks; a slot leaves them.\<close>

lemma sync_publish:
  assumes "rq_sync e s" "i < RIX_MAX_TASKS" "t_state (tasks s i) \<noteq> TASK_RUNNABLE" "t_state x = TASK_RUNNABLE"
    "tasks s' = (tasks s)(i := x)" "cpu_rq s' = cpu_rq s"
  shows "rq_sync e (rq_add_eligible_locked e s' i)"
  by (rule rq_sync_add) (use assms except_slot[OF assms(1,5,6)] no_bits_slot[OF assms(1-3,6)] in auto)

lemma sync_withdraw:
  assumes "rq_sync e s" "i < RIX_MAX_TASKS" "t_state x \<noteq> TASK_RUNNABLE" "tasks s' = (tasks s)(i := x)" "cpu_rq s' = cpu_rq s"
  shows "rq_sync e (rq_remove_all_locked s' i)"
  by (rule rq_sync_remove) (use assms except_slot[OF assms(1,4,5)] in auto)

subsection \<open>Placement, priority and quanta\<close>

lemma find_task_Some:
  assumes "find_task s tsk = Some i"
  shows "i < RIX_MAX_TASKS" "t_id (tasks s i) = tsk" "t_state (tasks s i) \<noteq> TASK_UNUSED"
  using find_upt_SomeD[OF assms[unfolded find_task_def]] by simp_all

lemma rq_resync_sel [simp]:
  "tasks (rq_resync_locked e s i) = tasks s" "cpu_current (rq_resync_locked e s i) = cpu_current s"
  "thread_tab (rq_resync_locked e s i) = thread_tab s" "wait_queues (rq_resync_locked e s i) = wait_queues s"
  by (simp_all add: rq_resync_locked_def Let_def)

lemma inv_resync:
  assumes inv: "sched_inv e s" and i: "i < RIX_MAX_TASKS" and x: "bind_core x = bind_core (tasks s i)"
  shows "sched_inv e (rq_resync_locked e (s\<lparr>tasks := (tasks s)(i := x)\<rparr>) i)"
proof -
  have "rq_sync e s" "bind_ok s" using inv by (simp_all add: sched_inv_def)
  then show ?thesis
    using rq_sync_resync[OF except_slot i, of e s _ x] bind_ok_slot[of s x i] x bind_okD(1)[of s]
    by (simp add: sched_inv_def)
qed

lemma allow_ap_inv: "sched_inv e s \<Longrightarrow> sched_inv e (snd (scheduler_task_allow_ap e s tsk))"
  by (auto simp: scheduler_task_allow_ap_def bind_core_def alive_def dest: find_task_Some(1) intro!: inv_resync split: option.split)

lemma set_affinity_inv: "sched_inv e s \<Longrightarrow> sched_inv e (snd (scheduler_set_affinity e s tsk msk))"
  by (auto simp: scheduler_set_affinity_def Let_def bind_core_def alive_def dest: find_task_Some(1) intro!: inv_resync
      split: option.split)

lemma set_priority_inv:
  assumes "sched_inv e s"
  shows "sched_inv e (snd (scheduler_set_priority s tsk level))"
proof -
  have "sched_inv e (upd_task s i (t_prio_update (\<lambda>_. p)))" for i p
    using assms rq_sync_core[of e s "upd_task s i (t_prio_update (\<lambda>_. p))"]
      bind_ok_slot[of s "(tasks s i)\<lparr>t_prio := p\<rparr>" i "upd_task s i (t_prio_update (\<lambda>_. p))"] bind_okD(1)[of s]
    by (auto simp: sched_inv_def task_core_def bind_core_def alive_def)
  then show ?thesis using assms by (simp add: scheduler_set_priority_def split: option.split)
qed

lemma preempt_arm_sel [simp]:
  "tasks (preempt_arm_cpu c a s) = tasks s" "cpu_rq (preempt_arm_cpu c a s) = cpu_rq s"
  "cpu_current (preempt_arm_cpu c a s) = cpu_current s" "thread_tab (preempt_arm_cpu c a s) = thread_tab s"
  "wait_queues (preempt_arm_cpu c a s) = wait_queues s" "cpu_quantum_left (preempt_arm_cpu c a s) = cpu_quantum_left s"
  by (simp_all add: preempt_arm_cpu_def Let_def)

lemma preempt_row_inv: "sched_inv e s \<Longrightarrow> sched_inv e (preempt_tick_row c a s)"
  by (erule sched_inv_frame) (simp_all add: preempt_tick_row_def Let_def)

lemma preempt_tick_inv:
  assumes "sched_inv e s"
  shows "sched_inv e (scheduler_preempt_tick e s me)"
proof -
  have "sched_inv e s \<Longrightarrow> sched_inv e (fold (\<lambda>c s. if int c = smp_bsp_index e then s
        else if smp_cpu_state e c \<noteq> SMP_CPU_ONLINE then s else preempt_tick_row c True s) cs s)" for cs s
    by (induction cs arbitrary: s) (simp_all add: preempt_row_inv)
  then show ?thesis using assms preempt_row_inv[OF assms] by (simp add: scheduler_preempt_tick_def Let_def)
qed

lemma quantum_ops_inv:
  assumes "sched_inv e s"
  shows "sched_inv e (scheduler_tick s)" "sched_inv e (scheduler_preempt_disable s me)"
    "sched_inv e (scheduler_preempt_enable s me)" "sched_inv e (scheduler_clear_need_resched s me)"
    "sched_inv e (snd (scheduler_should_yield_from_irq s me))" "sched_inv e (scheduler_ap_unpark s me)"
  by (rule sched_inv_frame[OF assms]; simp add: scheduler_tick_def scheduler_preempt_disable_def scheduler_preempt_enable_def
      scheduler_clear_need_resched_def scheduler_should_yield_from_irq_def scheduler_ap_unpark_def)+

subsection \<open>Blocking and waking\<close>

lemma block_current_inv:
  assumes inv: "sched_inv e s"
  shows "sched_inv e (scheduler_block_current s me)"
proof (cases "me \<ge> SMP_MAX_CPUS")
  case False
  have sync: "rq_sync e s" and b: "bind_ok s" using inv by (simp_all add: sched_inv_def)
  let ?i = "cpu_current s me"
  note i = bind_okD(1)[OF b, of me]
  define x where "x = (if t_state (tasks s ?i) = TASK_RUNNING
      then (tasks s ?i)\<lparr>t_run_ticks := t_run_ticks (tasks s ?i) + (ticks s - t_stamp (tasks s ?i)), t_state := TASK_BLOCKED\<rparr>
      else if t_state (tasks s ?i) = TASK_RUNNABLE then (tasks s ?i)\<lparr>t_state := TASK_BLOCKED\<rparr> else tasks s ?i)"
  have r: "scheduler_block_current s me = rq_remove_all_locked (s\<lparr>tasks := (tasks s)(?i := x)\<rparr>) ?i"
    using False by (simp add: scheduler_block_current_def x_def Let_def)
  have x: "t_state x \<noteq> TASK_RUNNABLE" "bind_core x = bind_core (tasks s ?i)"
    by (auto simp: x_def bind_core_def alive_def)
  have "rq_sync e (scheduler_block_current s me)"
    unfolding r by (rule sync_withdraw[OF sync i x(1)]) simp_all
  moreover have "bind_ok (scheduler_block_current s me)"
    by (rule bind_ok_slot[OF b x(2)]) (simp_all add: r bind_okD(1)[OF b])
  ultimately show ?thesis by (simp add: sched_inv_def)
qed (simp add: assms scheduler_block_current_def)

lemma wait_prepare_inv:
  assumes inv: "sched_inv e s" and room: "wq_generation (wait_queues s w) + 1 \<noteq> 0"
    and al: "alive (tasks s (cpu_current s me))" and p: "scheduler_wait_prepare s me w = (r, out, s')"
  shows "sched_inv e s'"
proof -
  have sync: "rq_sync e s" and b: "bind_ok s" using inv by (simp_all add: sched_inv_def)
  let ?i = "cpu_current s me"
  note i = bind_okD(1)[OF b, of me]
  obtain r1 o1 q where q: "rix_waitqueue_prepare (wait_queues s w) (t_id (tasks s ?i)) = (r1, o1, q)"
    by (rule prod_cases3)
  show ?thesis
  proof (cases "SMP_MAX_CPUS \<le> me \<or> t_wait_wq (tasks s ?i) \<noteq> None")
    case True
    then have "scheduler_wait_prepare s me w = (-1, None, s)" by (auto simp: scheduler_wait_prepare_def Let_def)
    then have "s' = s" using p by simp
    with inv show ?thesis by simp
  next
    case free: False
    show ?thesis
  proof (cases o1)
    case None
    have "q = wait_queues s w"
      by (rule wq_prepare_cases[of "wait_queues s w" "t_id (tasks s ?i)"]) (use q None in auto)
    then have "s' = s" using p free q None by (simp add: scheduler_wait_prepare_def Let_def)
    then show ?thesis using inv by simp
  next
    case (Some h)
    have s': "s' = upd_task (s\<lparr>wait_queues := (wait_queues s)(w := q)\<rparr>) ?i (\<lambda>t. t\<lparr>t_wait_wq := Some w, t_wait_handle := h\<rparr>)"
      using p free q Some by (simp add: scheduler_wait_prepare_def Let_def)
    let ?x = "(tasks s ?i)\<lparr>t_wait_wq := Some w, t_wait_handle := h\<rparr>"
    have "waits_ok ((wait_queues s)(w := q)) ((tasks s)(?i := ?x))"
      by (rule waits_ok_prepare[OF bind_okD(4)[OF b] i _ room q[unfolded Some]]) (use free in simp_all)
    moreover have "waits_ready ((wait_queues s)(w := q))"
      using waits_ready_ops(1)[OF bind_okD(5)[OF b], of w "t_id (tasks s ?i)"] q by simp
    moreover have "life_ok ((tasks s)(?i := ?x))"
      by (rule life_ok_upd[OF bind_okD(2)[OF b]])
        (use bind_okD(2)[OF b] i al in \<open>auto simp: alive_def life_ok_def\<close>)
    moreover have "threads_ok (thread_tab s) ((tasks s)(?i := ?x))"
      by (rule threads_ok_cong[OF bind_okD(3)[OF b]]) auto
    ultimately have "bind_ok s'" using bind_okD(1)[OF b] by (simp add: s' bind_ok_def)
    moreover have "rq_sync e s'" by (rule rq_sync_core[OF sync]) (auto simp: s' task_core_def)
    ultimately show ?thesis by (simp add: sched_inv_def)
  qed
  qed
qed

text \<open>Dropping the binding of a slot, on the registry side and on the task side.\<close>

lemma drop_waiter_sel [simp]:
  "cpu_rq (task_drop_waiter s i) = cpu_rq s" "cpu_current (task_drop_waiter s i) = cpu_current s"
  "thread_tab (task_drop_waiter s i) = thread_tab s" "ticks (task_drop_waiter s i) = ticks s"
  by (simp_all add: task_drop_waiter_def split: option.split)

lemma drop_waiter_tasks:
  "tasks (task_drop_waiter s i) =
    (tasks s)(i := (if t_wait_wq (tasks s i) = None then tasks s i
                    else (tasks s i)\<lparr>t_wait_wq := None, t_wait_handle := no_handle\<rparr>))"
  by (auto simp: task_drop_waiter_def split: option.split)

lemma drop_waiter_waits:
  assumes "waits_ok (wait_queues s) (tasks s)" "waits_ready (wait_queues s)" "i < RIX_MAX_TASKS"
  shows "waits_ok (wait_queues (task_drop_waiter s i)) (tasks (task_drop_waiter s i))"
    "waits_ready (wait_queues (task_drop_waiter s i))" "t_wait_wq (tasks (task_drop_waiter s i) i) = None"
  using assms waits_ok_remove[OF assms(1,3)] waits_ready_ops(2)[OF assms(2)]
  by (auto simp: task_drop_waiter_def split: option.split)

lemma drop_waiter_inv:
  assumes inv: "sched_inv e s" and i: "i < RIX_MAX_TASKS"
  shows "sched_inv e (task_drop_waiter s i)"
proof -
  have sync: "rq_sync e s" and b: "bind_ok s" using inv by (simp_all add: sched_inv_def)
  have "life_ok (tasks (task_drop_waiter s i))"
    unfolding drop_waiter_tasks by (rule life_ok_upd[OF bind_okD(2)[OF b]])
      (use bind_okD(2)[OF b] i in \<open>auto simp: alive_def life_ok_def\<close>)
  moreover have "threads_ok (thread_tab s) (tasks (task_drop_waiter s i))"
    unfolding drop_waiter_tasks by (rule threads_ok_cong[OF bind_okD(3)[OF b]]) auto
  ultimately have "bind_ok (task_drop_waiter s i)"
    using drop_waiter_waits[OF bind_okD(4,5)[OF b] i] bind_okD(1)[OF b] by (simp add: bind_ok_def)
  moreover have "rq_sync e (task_drop_waiter s i)"
    by (rule rq_sync_core[OF sync]) (auto simp: drop_waiter_tasks task_core_def)
  ultimately show ?thesis by (simp add: sched_inv_def)
qed

lemma wait_take_drop:
  assumes "waits_ready (wait_queues s)" "me < SMP_MAX_CPUS"
  shows "snd (scheduler_wait_take s me) = task_drop_waiter s (cpu_current s me)"
  using waits_ready_ops(4)[OF assms(1)] assms(2)
  by (auto simp: scheduler_wait_take_def task_drop_waiter_def Let_def case_prod_beta split: option.split)

lemma wait_take_inv:
  assumes "sched_inv e s"
  shows "sched_inv e (snd (scheduler_wait_take s me))"
proof (cases "me < SMP_MAX_CPUS")
  case True
  with assms show ?thesis
    using wait_take_drop[of s me] drop_waiter_inv[OF assms] by (simp add: sched_inv_def bind_ok_def)
qed (simp add: assms scheduler_wait_take_def)

lemma slot_wake_inv:
  assumes inv: "sched_inv e s" and i: "i < RIX_MAX_TASKS" and st: "t_state (tasks s i) = TASK_BLOCKED"
  shows "sched_inv e (rq_add_eligible_locked e (upd_task s i (t_state_update (\<lambda>_. TASK_RUNNABLE))) i)"
proof -
  have sync: "rq_sync e s" and b: "bind_ok s" using inv by (simp_all add: sched_inv_def)
  let ?x = "(tasks s i)\<lparr>t_state := TASK_RUNNABLE\<rparr>"
  let ?s = "rq_add_eligible_locked e (upd_task s i (t_state_update (\<lambda>_. TASK_RUNNABLE))) i"
  have "rq_sync e ?s" by (rule sync_publish[OF sync i, where x = ?x]) (simp_all add: st)
  moreover have "bind_ok ?s"
    by (rule bind_ok_slot[OF b, where x = ?x and i = i]) (simp_all add: bind_core_def alive_def st bind_okD(1)[OF b])
  ultimately show ?thesis by (simp add: sched_inv_def)
qed

lemma wait_abort_inv:
  assumes inv: "sched_inv e s"
  shows "sched_inv e (scheduler_wait_abort e s me)"
proof (cases "me < SMP_MAX_CPUS")
  case True
  have i: "cpu_current s me < RIX_MAX_TASKS" using inv by (simp add: sched_inv_def bind_ok_def)
  note d = drop_waiter_inv[OF inv i]
  show ?thesis using d slot_wake_inv[OF d i] True by (simp add: scheduler_wait_abort_def Let_def)
qed (simp add: inv scheduler_wait_abort_def)

lemma wake_slots_inv:
  assumes "sched_inv e s" "\<forall>i \<in> set is. i < RIX_MAX_TASKS"
  shows "sched_inv e (snd (wake_slots e match is (a, s)))"
  using assms
proof (induction "is" arbitrary: a s)
  case (Cons i "is")
  then show ?case using slot_wake_inv[OF Cons.prems(1), of i] by (simp add: wake_slots_def)
qed (simp add: wake_slots_def)

lemma ipis_inv [simp]: "sched_inv e (s\<lparr>ipis := x\<rparr>) = sched_inv e s"
  by (auto intro: sched_inv_frame[of e s "s\<lparr>ipis := x\<rparr>"] sched_inv_frame[of e "s\<lparr>ipis := x\<rparr>" s])

lemma wake_pid_inv: "sched_inv e s \<Longrightarrow> sched_inv e (scheduler_wake_pid e s pid)"
  using wake_slots_inv[of e s "[0..<RIX_MAX_TASKS]" "\<lambda>t. t_process_pid t = pid" False]
  by (simp add: scheduler_wake_pid_def case_prod_beta Let_def)

lemma wake_queue_inv:
  assumes "sched_inv e s"
  shows "sched_inv e (scheduler_wake_queue e s w)"
proof -
  have "rix_waitqueue_wake_all (wait_queues s w) = (0, wait_queues s w)"
    using assms by (intro waits_ready_ops) (simp add: sched_inv_def bind_ok_def)
  then show ?thesis
    using wake_slots_inv[OF assms, of "[0..<RIX_MAX_TASKS]" "\<lambda>t. t_wait_wq t = Some w" False]
    by (simp add: scheduler_wake_queue_def case_prod_beta Let_def)
qed

subsection \<open>Death and creation\<close>

lemma mark_dead_shape:
  obtains x where "tasks (task_mark_dead_locked s i) = (tasks s)(i := x)" "t_state x = TASK_DEAD" "t_tid x = 0" "t_wait_wq x = None"
    "wait_queues (task_mark_dead_locked s i) = wait_queues (task_drop_waiter s i)"
    "thread_tab (task_mark_dead_locked s i) =
       (if t_tid (tasks s i) \<noteq> 0 then thread_free_locked (thread_tab s) (t_tid (tasks s i)) else thread_tab s)"
    "\<exists>s0. task_mark_dead_locked s i = rq_remove_all_locked s0 i \<and> tasks s0 = (tasks s)(i := x) \<and> cpu_rq s0 = cpu_rq s"
    "cpu_current (task_mark_dead_locked s i) = cpu_current s"
proof -
  define s1 where "s1 = (if t_state (tasks s i) = TASK_RUNNING
    then upd_task s i (\<lambda>t. t\<lparr>t_run_ticks := t_run_ticks t + (ticks s - t_stamp t)\<rparr>) else s)"
  define s2 where "s2 = upd_task s1 i (t_state_update (\<lambda>_. TASK_DEAD))"
  define s3 where "s3 = task_drop_waiter s2 i"
  define s4 where "s4 = (if t_tid (tasks s3 i) \<noteq> 0
      then upd_task (s3\<lparr>thread_tab := thread_free_locked (thread_tab s3) (t_tid (tasks s3 i))\<rparr>) i (t_tid_update (\<lambda>_. 0)) else s3)"
  have r: "task_mark_dead_locked s i = rq_remove_all_locked s4 i"
    by (simp add: task_mark_dead_locked_def s1_def s2_def s3_def s4_def Let_def)
  have s2: "tasks s2 = (tasks s)(i := tasks s2 i)" "t_state (tasks s2 i) = TASK_DEAD" "t_tid (tasks s2 i) = t_tid (tasks s i)"
    "t_wait_wq (tasks s2 i) = t_wait_wq (tasks s i)" "t_wait_handle (tasks s2 i) = t_wait_handle (tasks s i)"
    "wait_queues s2 = wait_queues s" "thread_tab s2 = thread_tab s" "cpu_rq s2 = cpu_rq s" "cpu_current s2 = cpu_current s"
    by (simp_all add: s2_def s1_def)
  have s2': "(tasks s2)(i := y) = (tasks s)(i := y)" for y by (subst s2(1)) simp
  have wq: "wait_queues s3 = wait_queues (task_drop_waiter s i)"
    using s2 by (simp add: s3_def task_drop_waiter_def split: option.split)
  have s3: "tasks s3 = (tasks s)(i := tasks s3 i)" "t_state (tasks s3 i) = TASK_DEAD" "t_tid (tasks s3 i) = t_tid (tasks s i)"
    "t_wait_wq (tasks s3 i) = None" "thread_tab s3 = thread_tab s" "cpu_rq s3 = cpu_rq s" "cpu_current s3 = cpu_current s"
    using s2 s2' by (auto simp: s3_def drop_waiter_tasks)
  have s3': "(tasks s3)(i := y) = (tasks s)(i := y)" for y by (subst s3(1)) simp
  have s4: "tasks s4 = (tasks s)(i := tasks s4 i)" "t_state (tasks s4 i) = TASK_DEAD" "t_tid (tasks s4 i) = 0"
    "t_wait_wq (tasks s4 i) = None" "wait_queues s4 = wait_queues (task_drop_waiter s i)" "cpu_rq s4 = cpu_rq s"
    "thread_tab s4 = (if t_tid (tasks s i) \<noteq> 0 then thread_free_locked (thread_tab s) (t_tid (tasks s i)) else thread_tab s)"
    "cpu_current s4 = cpu_current s"
    using s3 s3' wq by (auto simp: s4_def)
  show thesis
    by (rule that[of "tasks s4 i"]) (use s4 in \<open>auto simp: r\<close>)
qed

lemma mark_dead_inv:
  assumes inv: "sched_inv e s" and i: "i < RIX_MAX_TASKS"
  shows "sched_inv e (task_mark_dead_locked s i)"
proof (rule mark_dead_shape[of s i])
  fix x
  let ?s = "task_mark_dead_locked s i"
  assume x: "tasks ?s = (tasks s)(i := x)" "t_state x = TASK_DEAD" "t_tid x = 0" "t_wait_wq x = None"
    and wq: "wait_queues ?s = wait_queues (task_drop_waiter s i)"
    and tt: "thread_tab ?s = (if t_tid (tasks s i) \<noteq> 0 then thread_free_locked (thread_tab s) (t_tid (tasks s i)) else thread_tab s)"
    and rq: "\<exists>s0. ?s = rq_remove_all_locked s0 i \<and> tasks s0 = (tasks s)(i := x) \<and> cpu_rq s0 = cpu_rq s"
    and cur: "cpu_current ?s = cpu_current s"
  have sync: "rq_sync e s" and b: "bind_ok s" using inv by (simp_all add: sched_inv_def)
  note w = drop_waiter_waits[OF bind_okD(4,5)[OF b] i]
  have "rq_sync e ?s" using rq sync_withdraw[OF sync i, of x] x(2) by auto
  moreover have "life_ok (tasks ?s)"
    unfolding x(1) by (rule life_ok_upd[OF bind_okD(2)[OF b]]) (simp_all add: x alive_def)
  moreover have "threads_ok (thread_tab ?s) (tasks ?s)"
  proof (cases "t_tid (tasks s i) = 0")
    case True
    have "threads_ok (thread_tab s) ((tasks s)(i := x))"
      by (rule threads_ok_cong[OF bind_okD(3)[OF b]]) (use True x(3) in auto)
    then show ?thesis using True tt x(1) by simp
  next
    case False
    then show ?thesis using threads_ok_free[OF bind_okD(3)[OF b] i False x(3)] tt x(1) by simp
  qed
  moreover have "waits_ok (wait_queues ?s) (tasks ?s)"
    unfolding wq by (rule waits_ok_cong[OF w(1)]) (use x(1,4) w(3) in \<open>auto simp: drop_waiter_tasks\<close>)
  ultimately show ?thesis using w(2) bind_okD(1)[OF b] by (simp add: sched_inv_def bind_ok_def wq cur)
qed

lemma inv_current: "sched_inv e s \<Longrightarrow> cpu_current s c < RIX_MAX_TASKS"
  by (simp add: sched_inv_def bind_ok_def)

lemma exit_inv: "sched_inv e s \<Longrightarrow> sched_inv e (scheduler_exit_current_locked s me)"
  by (simp add: scheduler_exit_current_locked_def mark_dead_inv inv_current)

lemma resume_inv: "sched_inv e s \<Longrightarrow> sched_inv e (scheduler_yield_resume act s me)"
  by (simp add: scheduler_yield_resume_def Let_def mark_dead_inv inv_current)

lemma detach_inv:
  assumes "sched_inv e s"
  shows "sched_inv e (scheduler_thread_detach_pid s pid)"
proof -
  have sync: "rq_sync e s" and b: "bind_ok s" using assms by (simp_all add: sched_inv_def)
  have "threads_ok (thread_detach_pid_locked (thread_tab s) pid) (tasks s)"
    using th.coherent_queue[OF bind_okD(3)[OF b, unfolded threads_ok_def], of "thread_detach_pid_locked (thread_tab s) pid" "()"]
      threads_okD[OF bind_okD(3)[OF b]] by (simp add: threads_ok_def thread_detach_ok fun_upd_def)
  moreover have "rq_sync e (scheduler_thread_detach_pid s pid)"
    by (rule rq_sync_core[OF sync]) (simp_all add: scheduler_thread_detach_pid_def)
  ultimately show ?thesis using b by (simp add: sched_inv_def bind_ok_def scheduler_thread_detach_pid_def)
qed

lemma task_alloc_Some:
  assumes "task_alloc s = Some (i, s1)"
  shows "i < RIX_MAX_TASKS" "i \<noteq> 0" "\<not> alive (tasks s i)"
    "s1 = s\<lparr>tasks := (tasks s)(i := tasks s1 i)\<rparr>" "t_tid (tasks s1 i) = 0" "t_wait_wq (tasks s1 i) = None"
proof -
  obtain j where j: "find (\<lambda>i. t_state (tasks s i) = TASK_UNUSED \<or> t_state (tasks s i) = TASK_DEAD) [1..<RIX_MAX_TASKS] = Some j"
    using assms by (auto simp: task_alloc_def split: option.splits)
  with assms have "i = j" and s1: "s1 = s\<lparr>tasks := (tasks s)(i := tasks s1 i)\<rparr>" "t_tid (tasks s1 i) = 0" "t_wait_wq (tasks s1 i) = None"
    by (auto simp: task_alloc_def)
  with find_upt_SomeD[OF j] show "i < RIX_MAX_TASKS" "i \<noteq> 0" "\<not> alive (tasks s i)" by (auto simp: alive_def)
  show "s1 = s\<lparr>tasks := (tasks s)(i := tasks s1 i)\<rparr>" "t_tid (tasks s1 i) = 0" "t_wait_wq (tasks s1 i) = None" by fact+
qed

text \<open>The shared tail of creation, from a slot that was free and is now filled in.\<close>

lemma task_publish_inv:
  assumes inv: "sched_inv e s" and i: "i < RIX_MAX_TASKS" "\<not> alive (tasks s i)"
    and x: "t_state x = TASK_RUNNABLE" "t_tid x = 0" "t_wait_wq x = None" and room: "next_tid (thread_tab s) + 1 \<noteq> 0"
    and s3: "tasks s3 = (tasks s)(i := x)" "cpu_rq s3 = cpu_rq s" "cpu_current s3 = cpu_current s"
      "thread_tab s3 = thread_tab s" "wait_queues s3 = wait_queues s"
  shows "sched_inv e (snd (snd (task_publish e lookup s3 i)))"
proof -
  have sync: "rq_sync e s" and b: "bind_ok s" using inv by (simp_all add: sched_inv_def)
  have st: "t_state (tasks s i) \<noteq> TASK_RUNNABLE" and tid0: "t_tid (tasks s i) = 0" and w0: "t_wait_wq (tasks s i) = None"
    using i bind_okD(2)[OF b] by (auto simp: alive_def life_ok_def)
  have waits: "waits_ok (wait_queues s) ((tasks s)(i := y))" if "t_wait_wq y = None" for y
    by (rule waits_ok_cong[OF bind_okD(4)[OF b]]) (use w0 that in auto)
  let ?l = "\<lambda>pid. map_option pv_state (lookup pid)"
  obtain r out tt where a: "thread_alloc_locked ?l (thread_tab s) (t_process_pid x) = (r, out, tt)" by (rule prod_cases3)
  note tok = threads_okD[OF bind_okD(3)[OF b]]
  show ?thesis
  proof (cases out)
    case None
    let ?y = "x\<lparr>t_state := TASK_UNUSED, t_tid := 0\<rparr>"
    let ?s = "upd_task (s3\<lparr>thread_tab := tt\<rparr>) i (\<lambda>t. t\<lparr>t_state := TASK_UNUSED, t_tid := 0\<rparr>)"
    have r: "snd (snd (task_publish e lookup s3 i)) = ?s"
      using a None s3 by (simp add: task_publish_def task_bind_thread_locked_def)
    have t: "tasks ?s = (tasks s)(i := ?y)" using s3 by simp
    have tt: "tt = thread_tab s" using thread_alloc_None[OF tok] a None by blast
    have "rq_sync e ?s"
      by (rule rq_sync_idle[of e _ i]) (use except_slot[OF sync t] no_bits_slot[OF sync i(1) st] s3 in \<open>auto simp: t\<close>)
    moreover have "threads_ok (thread_tab s) ((tasks s)(i := ?y))"
      by (rule threads_ok_cong[OF bind_okD(3)[OF b]]) (use tid0 in auto)
    moreover have "life_ok ((tasks s)(i := ?y))"
      by (rule life_ok_upd[OF bind_okD(2)[OF b]]) (use x in \<open>simp_all add: alive_def\<close>)
    ultimately have "rq_sync e ?s" "bind_ok ?s"
      unfolding bind_ok_def t using waits[of ?y] bind_okD(1,5)[OF b] x s3 tt by simp_all
    then show ?thesis by (simp add: r sched_inv_def)
  next
    case (Some tid)
    let ?y = "x\<lparr>t_tid := tid\<rparr>"
    let ?s = "upd_task (s3\<lparr>thread_tab := tt\<rparr>) i (t_tid_update (\<lambda>_. tid))"
    have r: "snd (snd (task_publish e lookup s3 i)) = (rq_add_eligible_locked e ?s i)\<lparr>ipis := ipis (rq_add_eligible_locked e ?s i) @ [Ipi_aps]\<rparr>"
      using a Some s3 by (simp add: task_publish_def task_bind_thread_locked_def Let_def)
    have t: "tasks ?s = (tasks s)(i := ?y)" using s3 by simp
    have "threads_ok tt ((tasks s)(i := ?y)) \<and> tid \<noteq> 0"
      by (rule threads_ok_alloc[OF bind_okD(3)[OF b] i(1) tid0 room, where lookup = ?l and r = r]) (use a Some in simp_all)
    then have "bind_ok ?s"
      unfolding bind_ok_def t
      using life_ok_upd[OF bind_okD(2)[OF b], of ?y i] waits[of ?y] bind_okD(1,5)[OF b] x s3
      by (auto simp: alive_def split: if_splits)
    then have "bind_ok (rq_add_eligible_locked e ?s i)"
      by (rule bind_ok_frame) (simp_all add: s3 bind_okD(1)[OF b])
    moreover have "rq_sync e (rq_add_eligible_locked e ?s i)"
      by (rule sync_publish[OF sync i(1) st _ t]) (use x s3 in simp_all)
    ultimately show ?thesis by (simp add: r) (simp add: sched_inv_def)
  qed
qed

lemma task_take_id_shape:
  "tasks (task_take_id s i) = (tasks s)(i := tasks (task_take_id s i) i)"
  "t_tid (tasks (task_take_id s i) i) = t_tid (tasks s i)" "t_wait_wq (tasks (task_take_id s i) i) = t_wait_wq (tasks s i)"
  "cpu_rq (task_take_id s i) = cpu_rq s" "cpu_current (task_take_id s i) = cpu_current s"
  "thread_tab (task_take_id s i) = thread_tab s" "wait_queues (task_take_id s i) = wait_queues s"
  by (simp_all add: task_take_id_def Let_def)

text \<open>Every creation function allocates a slot, fills it in with a function \<open>f\<close> of the fields, and publishes it.\<close>

lemma create_inv:
  assumes inv: "sched_inv e s" and room: "next_tid (thread_tab s) + 1 \<noteq> 0" and al: "task_alloc s = Some (i, s1)"
    and f: "\<And>t. t_state (f t) = TASK_RUNNABLE" "\<And>t. t_tid (f t) = t_tid t" "\<And>t. t_wait_wq (f t) = t_wait_wq t"
  shows "sched_inv e (snd (snd (task_publish e lookup (upd_task (task_take_id s1 i) i f) i)))"
proof -
  note a = task_alloc_Some[OF al]
  have s1: "tasks s1 = (tasks s)(i := tasks s1 i)" "cpu_rq s1 = cpu_rq s" "cpu_current s1 = cpu_current s"
    "thread_tab s1 = thread_tab s" "wait_queues s1 = wait_queues s"
    using a(4) by (metis sched.select_convs sched.surjective sched.update_convs)+
  note t = task_take_id_shape[of s1 i]
  have "tasks (upd_task (task_take_id s1 i) i f) = (tasks s)(i := f (tasks (task_take_id s1 i) i))"
    using t(1) s1(1) by (metis (no_types, lifting) fun_upd_upd sched.select_convs(2) sched.surjective sched.update_convs(2))
  then show ?thesis
    by (intro task_publish_inv[OF inv a(1,3) _ _ _ room, where x = "f (tasks (task_take_id s1 i) i)"])
      (use f t a s1 in simp_all)
qed

lemma create_ops_inv:
  assumes "sched_inv e s" "next_tid (thread_tab s) + 1 \<noteq> 0"
  shows "sched_inv e (snd (snd (scheduler_create_kernel_thread e lookup s entry arg)))"
    "sched_inv e (snd (snd (scheduler_create_user_process e lookup s pid entry stk)))"
    "sched_inv e (snd (snd (scheduler_create_fork_child e lookup s pid entry stk rv)))"
    "sched_inv e (snd (snd (scheduler_create_fork_child_context e lookup s pid ctxt)))"
  using assms
  by (auto simp: scheduler_create_kernel_thread_def scheduler_create_user_process_def scheduler_create_fork_child_def
      scheduler_create_fork_child_context_def Let_def intro!: create_inv split: option.split)

subsection \<open>Yield and the idle loop\<close>

lemma note_claim_sel [simp]:
  "cpu_rq (rq_note_claim_locked s me i) = cpu_rq s" "cpu_current (rq_note_claim_locked s me i) = cpu_current s"
  "thread_tab (rq_note_claim_locked s me i) = thread_tab s" "wait_queues (rq_note_claim_locked s me i) = wait_queues s"
  "ticks (rq_note_claim_locked s me i) = ticks s"
  by (simp_all add: rq_note_claim_locked_def Let_def)

lemma note_claim_core [simp]:
  "task_core (tasks (rq_note_claim_locked s me i) j) = task_core (tasks s j)"
  "bind_core (tasks (rq_note_claim_locked s me i) j) = bind_core (tasks s j)"
  "t_state (tasks (rq_note_claim_locked s me i) j) = t_state (tasks s j)"
  by (simp_all add: rq_note_claim_locked_def Let_def task_core_def bind_core_def alive_def)

lemma stamp_core [simp]:
  "task_core (t\<lparr>t_stamp := v\<rparr>) = task_core t" "bind_core (t\<lparr>t_stamp := v\<rparr>) = bind_core t"
  by (simp_all add: task_core_def bind_core_def alive_def)

lemma claim_inv:
  assumes inv: "sched_inv e s" and i: "i < RIX_MAX_TASKS" and st: "t_state (tasks s i) = TASK_RUNNABLE"
  shows "sched_inv e (sched_claim s me i)"
proof -
  have sync: "rq_sync e s" and b: "bind_ok s" using inv by (simp_all add: sched_inv_def)
  let ?x = "(tasks s i)\<lparr>t_state := TASK_RUNNING\<rparr>"
  let ?s1 = "(upd_task s i (t_state_update (\<lambda>_. TASK_RUNNING)))\<lparr>cpu_current := (cpu_current s)(me := i)\<rparr>"
  let ?s3 = "rq_note_claim_locked (rq_remove_all_locked ?s1 i) me i"
  have r: "sched_claim s me i = upd_task ?s3 i (t_stamp_update (\<lambda>_. ticks ?s3))"
    by (simp add: sched_claim_def Let_def)
  have "rq_sync e (rq_remove_all_locked ?s1 i)" by (rule sync_withdraw[OF sync i, where x = ?x]) simp_all
  then have "rq_sync e (sched_claim s me i)"
    by (rule rq_sync_core) (simp_all add: r)
  moreover have "bind_ok ?s1"
    by (rule bind_ok_slot[OF b, where x = ?x and i = i]) (use i bind_okD(1)[OF b] st in \<open>auto simp: bind_core_def alive_def\<close>)
  then have "bind_ok (sched_claim s me i)"
    by (rule bind_ok_frame)
      (use i bind_okD(1)[OF b] in \<open>simp_all add: r\<close>)
  ultimately show ?thesis by (simp add: sched_inv_def)
qed

lemma inv_pick:
  assumes "sched_inv e s" "me < SMP_MAX_CPUS" "sched_pick_locked e s me old = (next, s')"
  shows "sched_inv e s'" "tasks s' = tasks s" "ticks s' = ticks s" "cpu_current s' = cpu_current s"
    "next = old \<or> next < RIX_MAX_TASKS \<and> t_state (tasks s' next) = TASK_RUNNABLE"
proof -
  have sync: "rq_sync e s" using assms(1) by (simp add: sched_inv_def)
  obtain q where q: "s' = s\<lparr>cpu_rq := (cpu_rq s)(me := q)\<rparr>" "rq_sync e s'"
    using sync assms(2,3) by (rule sched_pick_keeps)
  have "bind_ok s'" using assms(1) by (simp add: q(1) sched_inv_def bind_ok_def)
  then show "sched_inv e s'" "tasks s' = tasks s" "ticks s' = ticks s" "cpu_current s' = cpu_current s"
    using q by (simp_all add: sched_inv_def)
  show "next = old \<or> next < RIX_MAX_TASKS \<and> t_state (tasks s' next) = TASK_RUNNABLE"
    using sync assms(2,3) by (rule sched_pick_cases) (simp_all add: q(1))
qed

text \<open>The yielding task rejoins the masks before the pick.\<close>

definition yield_flip :: "smp_map \<Rightarrow> sched \<Rightarrow> nat \<Rightarrow> sched" where
  "yield_flip e s old =
     (if t_state (tasks s old) = TASK_RUNNING
      then rq_add_eligible_locked e (upd_task s old (\<lambda>t. t\<lparr>t_state := TASK_RUNNABLE,
             t_run_ticks := t_run_ticks t + (ticks s - t_stamp t)\<rparr>)) old
      else s)"

lemma yield_flip_inv:
  assumes inv: "sched_inv e s" and i: "i < RIX_MAX_TASKS"
  shows "sched_inv e (yield_flip e s i)"
proof (cases "t_state (tasks s i) = TASK_RUNNING")
  case True
  have sync: "rq_sync e s" and b: "bind_ok s" using inv by (simp_all add: sched_inv_def)
  let ?x = "(tasks s i)\<lparr>t_state := TASK_RUNNABLE, t_run_ticks := t_run_ticks (tasks s i) + (ticks s - t_stamp (tasks s i))\<rparr>"
  have "rq_sync e (yield_flip e s i)"
    using sync_publish[OF sync i, of ?x] True by (simp add: yield_flip_def)
  moreover have "bind_ok (yield_flip e s i)"
    by (rule bind_ok_slot[OF b, where x = ?x and i = i])
      (use True bind_okD(1)[OF b] in \<open>simp_all add: yield_flip_def bind_core_def alive_def\<close>)
  ultimately show ?thesis by (simp add: sched_inv_def)
qed (simp add: inv yield_flip_def)

definition yield_reclaim :: "sched \<Rightarrow> nat \<Rightarrow> sched" where
  "yield_reclaim s old =
     upd_task (rq_remove_all_locked (upd_task s old (t_state_update (\<lambda>_. TASK_RUNNING))) old) old (t_stamp_update (\<lambda>_. ticks s))"

lemma yield_reclaim_inv:
  assumes inv: "sched_inv e s" and i: "i < RIX_MAX_TASKS" and st: "t_state (tasks s i) = TASK_RUNNABLE"
  shows "sched_inv e (yield_reclaim s i)"
proof -
  have sync: "rq_sync e s" and b: "bind_ok s" using inv by (simp_all add: sched_inv_def)
  let ?x = "(tasks s i)\<lparr>t_state := TASK_RUNNING\<rparr>"
  have "rq_sync e (rq_remove_all_locked (upd_task s i (t_state_update (\<lambda>_. TASK_RUNNING))) i)"
    by (rule sync_withdraw[OF sync i, where x = ?x]) simp_all
  then have "rq_sync e (yield_reclaim s i)" by (rule rq_sync_core) (simp_all add: yield_reclaim_def)
  moreover have "bind_ok (yield_reclaim s i)"
    by (rule bind_ok_slot[OF b, where x = "?x\<lparr>t_stamp := ticks s\<rparr>" and i = i])
      (use st bind_okD(1)[OF b] in \<open>simp_all add: yield_reclaim_def bind_core_def alive_def\<close>)
  ultimately show ?thesis by (simp add: sched_inv_def)
qed

lemma count_yield_inv:
  assumes inv: "sched_inv e s"
    and f: "task_core (f (tasks s i)) = task_core (tasks s i)" "bind_core (f (tasks s i)) = bind_core (tasks s i)"
  shows "sched_inv e (upd_task s i f)"
proof -
  have sync: "rq_sync e s" and b: "bind_ok s" using inv by (simp_all add: sched_inv_def)
  have "rq_sync e (upd_task s i f)" by (rule rq_sync_core[OF sync]) (use f in auto)
  moreover have "bind_ok (upd_task s i f)" by (rule bind_ok_slot[OF b f(2)]) (simp_all add: bind_okD(1)[OF b])
  ultimately show ?thesis by (simp add: sched_inv_def)
qed

definition yield_enter :: "sched \<Rightarrow> nat \<Rightarrow> sched" where
  "yield_enter s me = s\<lparr>cpu_need_resched := (cpu_need_resched s)(me := False),
     cpu_quantum_left := (cpu_quantum_left s)(me := RIX_PREEMPT_QUANTUM_TICKS)\<rparr>"

lemma yield_enter_inv: "sched_inv e s \<Longrightarrow> sched_inv e (yield_enter s me)"
  by (erule sched_inv_frame) (simp_all add: yield_enter_def)

definition yield_count :: "sched \<Rightarrow> nat \<Rightarrow> bool \<Rightarrow> bool \<Rightarrow> sched" where
  "yield_count s old flipped armed =
     (if flipped
      then if armed then upd_task s old (\<lambda>t. t\<lparr>t_involuntary := t_involuntary t + 1\<rparr>)
           else upd_task s old (\<lambda>t. t\<lparr>t_voluntary := t_voluntary t + 1\<rparr>)
      else s)"

lemma yield_count_inv: "sched_inv e s \<Longrightarrow> sched_inv e (yield_count s old fl armed)"
  by (simp add: yield_count_def count_yield_inv task_core_def bind_core_def alive_def)

text \<open>The critical section of a yield in the terms above.\<close>

lemma yield_unfold:
  assumes "me < SMP_MAX_CPUS" "old = cpu_current s me" "s1 = yield_flip e (yield_enter s me) old"
    "sched_pick_locked e s1 me old = (next, s2)" "flipped = (t_state (tasks s old) = TASK_RUNNING)"
    "s3 = (if flipped then yield_reclaim s2 old else s2)"
  shows "scheduler_yield_locked e s me =
    (if \<not> rq_verify_locked e s1 then (Yield_failstop, s1)
     else if next = old then
       (if t_state (tasks s3 old) = TASK_RUNNING then Yield_continue
        else if cpu_idle_valid s3 me then Yield_idle else Yield_stuck, s3)
     else (Yield_switch old next, sched_claim (yield_count s2 old flipped (cpu_need_resched s me)) me next))"
proof -
  have fl: "t_state (tasks (yield_enter s me) old) = t_state (tasks s old)" and cu: "cpu_current (yield_enter s me) = cpu_current s"
    by (simp_all add: yield_enter_def)
  have c: "(if me < SMP_MAX_CPUS then A else B) = A" for A B :: sched using assms(1) by simp
  have c': "(if me < SMP_MAX_CPUS then A else B) = A" for A B :: bool using assms(1) by simp
  show ?thesis
    unfolding scheduler_yield_locked_def c c' yield_enter_def[symmetric] Let_def cu assms(2)[symmetric] fl assms(5)[symmetric]
    using assms(1,3,4,6) unfolding yield_flip_def fl assms(5)[symmetric]
    by (cases flipped) (auto simp: yield_reclaim_def yield_count_def)
qed

lemma yield_count_sel [simp]:
  "t_state (tasks (yield_count s old fl armed) i) = t_state (tasks s i)" "ticks (yield_count s old fl armed) = ticks s"
  by (simp_all add: yield_count_def)

lemma yield_inv:
  assumes inv: "sched_inv e s" and me: "me < SMP_MAX_CPUS"
  shows "sched_inv e (snd (scheduler_yield_locked e s me))" "fst (scheduler_yield_locked e s me) \<noteq> Yield_failstop"
proof -
  let ?old = "cpu_current s me"
  note old = inv_current[OF inv, of me]
  define s1 where "s1 = yield_flip e (yield_enter s me) ?old"
  have i1: "sched_inv e s1" unfolding s1_def by (rule yield_flip_inv[OF yield_enter_inv[OF inv] old])
  then have v: "rq_verify_locked e s1" by (simp add: rq_verify_iff sched_inv_def)
  obtain nxt s2 where p: "sched_pick_locked e s1 me ?old = (nxt, s2)" by (rule prod.exhaust)
  note pk = inv_pick[OF i1 me p]
  define flipped where "flipped \<longleftrightarrow> t_state (tasks s ?old) = TASK_RUNNING"
  define s3 where "s3 = (if flipped then yield_reclaim s2 ?old else s2)"
  note u = yield_unfold[OF me refl s1_def p flipped_def s3_def]
  have fl: "t_state (tasks s2 ?old) = TASK_RUNNABLE" if flipped
    using that by (simp add: pk(2) s1_def yield_flip_def yield_enter_def flipped_def)
  have i3: "sched_inv e s3" using pk(1) yield_reclaim_inv[OF pk(1) old fl] by (simp add: s3_def)
  have "sched_inv e (sched_claim (yield_count s2 ?old flipped a) me nxt)" if "nxt \<noteq> ?old" for a
    using pk(5) that by (intro claim_inv yield_count_inv pk(1)) auto
  then show "sched_inv e (snd (scheduler_yield_locked e s me))" using i3 v by (simp add: u)
  show "fst (scheduler_yield_locked e s me) \<noteq> Yield_failstop" using v by (simp add: u)
qed

lemma ap_idle_inv:
  assumes inv: "sched_inv e s" and me: "me < SMP_MAX_CPUS"
  shows "sched_inv e (snd (scheduler_ap_idle_locked e s me))" "fst (scheduler_ap_idle_locked e s me) \<noteq> Idle_failstop"
proof -
  let ?s0 = "s\<lparr>cpu_idle_valid := (cpu_idle_valid s)(me := True)\<rparr>"
  have i0: "sched_inv e ?s0" by (rule sched_inv_frame[OF inv]) simp_all
  then have v: "rq_verify_locked e ?s0" by (simp add: rq_verify_iff sched_inv_def)
  obtain nxt s1 where p: "sched_pick_locked e ?s0 me (cpu_current s me) = (nxt, s1)" by (rule prod.exhaust)
  note pk = inv_pick[OF i0 me p]
  have i1: "sched_inv e (s1\<lparr>cpu_in_idle := x\<rparr>)" for x by (rule sched_inv_frame[OF pk(1)]) simp_all
  have u: "scheduler_ap_idle_locked e s me =
      (if nxt = cpu_current s me \<or> t_state (tasks s1 nxt) \<noteq> TASK_RUNNABLE
       then (Idle_park, s1\<lparr>cpu_in_idle := (cpu_in_idle s1)(me := True)\<rparr>)
       else (Idle_switch nxt, sched_claim (s1\<lparr>cpu_in_idle := (cpu_in_idle s1)(me := False)\<rparr>) me nxt))"
    using p v by (simp add: scheduler_ap_idle_locked_def Let_def)
  show "sched_inv e (snd (scheduler_ap_idle_locked e s me))"
    using i1 claim_inv[OF i1, of nxt] pk(5) by (auto simp: u)
  show "fst (scheduler_ap_idle_locked e s me) \<noteq> Idle_failstop" by (simp add: u)
qed

subsection \<open>Reachable states\<close>

lemma scheduler_init_shape:
  obtains tid tt where "scheduler_init lookup =
    \<lparr>ticks = 0, tasks = (\<lambda>_. init_task)(0 := init_task\<lparr>t_state := TASK_RUNNING, t_tid := tid\<rparr>),
     cpu_current = (\<lambda>_. 0), next_id = 1, cpu_rq = (\<lambda>_. rq_init_locked), cpu_idle_valid = (\<lambda>_. False),
     cpu_preempt_depth = (\<lambda>_. 0), cpu_need_resched = (\<lambda>_. False), cpu_quantum_left = (\<lambda>_. RIX_PREEMPT_QUANTUM_TICKS),
     cpu_in_idle = (\<lambda>_. False), thread_tab = tt, wait_queues = (\<lambda>_. rix_waitqueue_init), ipis = []\<rparr>"
    "thread_alloc_locked (\<lambda>pid. map_option pv_state (lookup pid)) thread_table_init 0 = (0, Some tid, tt)"
proof (rule thread_alloc_cases[OF thread_table_init_ok, of "\<lambda>pid. map_option pv_state (lookup pid)" 0])
  assume "\<forall>i < RIX_THREAD_MAX. in_use (threads thread_table_init ! i)"
  then have "in_use (threads thread_table_init ! 0)" by (simp add: RIX_THREAD_MAX_def)
  then show thesis by (simp add: thread_table_init_def unused_thread_def RIX_THREAD_MAX_def)
qed (use that in \<open>auto simp: owner_live_def scheduler_init_def\<close>)

lemma thread_init_unused: "i < RIX_THREAD_MAX \<Longrightarrow> \<not> in_use (threads thread_table_init ! i)"
  by (simp add: thread_table_init_def unused_thread_def)

lemma thread_init_next [simp]: "next_tid thread_table_init = 1"
  by (simp add: thread_table_init_def)

lemma scheduler_init_inv: "sched_inv e (scheduler_init lookup)"
proof (rule scheduler_init_shape[of lookup])
  fix tid tt
  let ?ts = "(\<lambda>_. init_task)(0 := init_task\<lparr>t_state := TASK_RUNNING, t_tid := tid\<rparr>)"
  assume s: "scheduler_init lookup =
    \<lparr>ticks = 0, tasks = ?ts,
     cpu_current = (\<lambda>_. 0), next_id = 1, cpu_rq = (\<lambda>_. rq_init_locked), cpu_idle_valid = (\<lambda>_. False),
     cpu_preempt_depth = (\<lambda>_. 0), cpu_need_resched = (\<lambda>_. False), cpu_quantum_left = (\<lambda>_. RIX_PREEMPT_QUANTUM_TICKS),
     cpu_in_idle = (\<lambda>_. False), thread_tab = tt, wait_queues = (\<lambda>_. rix_waitqueue_init), ipis = []\<rparr>"
    and a: "thread_alloc_locked (\<lambda>pid. map_option pv_state (lookup pid)) thread_table_init 0 = (0, Some tid, tt)"
  have "thread_owner thread_table_init = (\<lambda>_. None)"
    by (rule ext) (simp add: thread_owner_def thread_map_None thread_init_unused)
  then have t0: "threads_ok thread_table_init (\<lambda>_. init_task)"
    by (simp add: threads_ok_def th.coherent_def thread_binding_def init_task_def)
  have "threads_ok tt ?ts \<and> tid \<noteq> 0"
    by (rule threads_ok_alloc[OF t0]) (use a in \<open>simp_all add: init_task_def RIX_MAX_TASKS_def\<close>)
  moreover have "waits_ok (\<lambda>_. rix_waitqueue_init) ?ts"
    by (auto simp: waits_ok_def wq.coherent_def wait_binding_def init_task_def)
  moreover have "waits_ready (\<lambda>_. rix_waitqueue_init)" by (simp add: waits_ready_def rix_waitqueue_init_def)
  moreover have "rq_sync e (scheduler_init lookup)"
    by (simp add: rq_sync_def slot_sync_def s init_task_def)
  ultimately show ?thesis
    by (simp add: sched_inv_def bind_ok_def s life_ok_def alive_def init_task_def RIX_MAX_TASKS_def)
qed

text \<open>Every operation of the scheduler, by any CPU, in any order, with any process table and any
  outcome of the address space switch.  A counter that hands out 64-bit numbers is assumed not to have
  reached its last value; a wait queue is only initialised while no task is bound to it; a task that has
  died no longer calls \<open>scheduler_wait_prepare\<close>.\<close>

inductive sched_step :: "smp_map \<Rightarrow> sched \<Rightarrow> sched \<Rightarrow> bool" for e where
  Create_kernel: "next_tid (thread_tab s) + 1 \<noteq> 0 \<Longrightarrow>
     sched_step e s (snd (snd (scheduler_create_kernel_thread e lookup s entry arg)))"
| Create_user: "next_tid (thread_tab s) + 1 \<noteq> 0 \<Longrightarrow>
     sched_step e s (snd (snd (scheduler_create_user_process e lookup s pid entry stk)))"
| Create_fork: "next_tid (thread_tab s) + 1 \<noteq> 0 \<Longrightarrow>
     sched_step e s (snd (snd (scheduler_create_fork_child e lookup s pid entry stk rv)))"
| Create_fork_context: "next_tid (thread_tab s) + 1 \<noteq> 0 \<Longrightarrow>
     sched_step e s (snd (snd (scheduler_create_fork_child_context e lookup s pid ctxt)))"
| Allow_ap: "sched_step e s (snd (scheduler_task_allow_ap e s tsk))"
| Set_affinity: "sched_step e s (snd (scheduler_set_affinity e s tsk msk))"
| Set_priority: "sched_step e s (snd (scheduler_set_priority s tsk level))"
| Tick: "sched_step e s (scheduler_tick s)"
| Preempt_tick: "sched_step e s (scheduler_preempt_tick e s me)"
| Preempt_disable: "sched_step e s (scheduler_preempt_disable s me)"
| Preempt_enable: "sched_step e s (scheduler_preempt_enable s me)"
| Clear_need_resched: "sched_step e s (scheduler_clear_need_resched s me)"
| Should_yield: "sched_step e s (snd (scheduler_should_yield_from_irq s me))"
| Wait_prepare: "wq_generation (wait_queues s w) + 1 \<noteq> 0 \<Longrightarrow> alive (tasks s (cpu_current s me)) \<Longrightarrow>
     sched_step e s (snd (snd (scheduler_wait_prepare s me w)))"
| Block_current: "sched_step e s (scheduler_block_current s me)"
| Wait_take: "sched_step e s (snd (scheduler_wait_take s me))"
| Wait_abort: "sched_step e s (scheduler_wait_abort e s me)"
| Wake_queue: "sched_step e s (scheduler_wake_queue e s w)"
| Wake_pid: "sched_step e s (scheduler_wake_pid e s pid)"
| Thread_detach: "sched_step e s (scheduler_thread_detach_pid s pid)"
| Exit_current: "sched_step e s (scheduler_exit_current_locked s me)"
| Yield: "me < SMP_MAX_CPUS \<Longrightarrow> sched_step e s (snd (scheduler_yield_locked e s me))"
| Yield_resume: "sched_step e s (scheduler_yield_resume act s me)"
| Ap_idle: "me < SMP_MAX_CPUS \<Longrightarrow> sched_step e s (snd (scheduler_ap_idle_locked e s me))"
| Ap_unpark: "sched_step e s (scheduler_ap_unpark s me)"
| Wq_init: "(\<forall>i < RIX_MAX_TASKS. t_wait_wq (tasks s i) \<noteq> Some w) \<Longrightarrow>
     sched_step e s (s\<lparr>wait_queues := (wait_queues s)(w := rix_waitqueue_init)\<rparr>)"

lemma wq_init_inv:
  assumes inv: "sched_inv e s" and free: "\<forall>i < RIX_MAX_TASKS. t_wait_wq (tasks s i) \<noteq> Some w"
  shows "sched_inv e (s\<lparr>wait_queues := (wait_queues s)(w := rix_waitqueue_init)\<rparr>)"
proof -
  have sync: "rq_sync e s" and b: "bind_ok s" using inv by (simp_all add: sched_inv_def)
  have "wq_owner (wait_queues s w) h = None" for h
    using wq.coherentD(4)[OF bind_okD(4)[OF b, unfolded waits_ok_def], of w h] free
    by (cases "wq_owner (wait_queues s w) h") (auto simp: wait_binding_def split: if_splits)
  then have "wq_owner rix_waitqueue_init = wq_owner (wait_queues s w)" by auto
  then have "waits_ok ((wait_queues s)(w := rix_waitqueue_init)) (tasks s)"
    using wq.coherent_queue[OF bind_okD(4)[OF b, unfolded waits_ok_def]] by (simp add: waits_ok_def)
  moreover have "waits_ready ((wait_queues s)(w := rix_waitqueue_init))"
    by (rule waits_ready_upd[OF bind_okD(5)[OF b]]) (simp add: rix_waitqueue_init_def)
  moreover have "rq_sync e (s\<lparr>wait_queues := (wait_queues s)(w := rix_waitqueue_init)\<rparr>)"
    by (rule rq_sync_core[OF sync]) simp_all
  ultimately show ?thesis using b by (simp add: sched_inv_def bind_ok_def)
qed

lemmas sched_op_inv =
  create_ops_inv allow_ap_inv set_affinity_inv set_priority_inv preempt_tick_inv quantum_ops_inv block_current_inv
  wait_take_inv wait_abort_inv wake_queue_inv wake_pid_inv detach_inv exit_inv resume_inv wq_init_inv
  yield_inv(1) ap_idle_inv(1)

lemma sched_step_inv: "sched_step e s s' \<Longrightarrow> sched_inv e s \<Longrightarrow> sched_inv e s'"
proof (induction rule: sched_step.induct)
  case (Wait_prepare s w me)
  then show ?case by (metis wait_prepare_inv prod.collapse)
qed (simp_all add: sched_op_inv)

inductive sched_reachable :: "smp_map \<Rightarrow> sched \<Rightarrow> bool" for e where
  Boot: "sched_reachable e (scheduler_init lookup)"
| Step: "sched_reachable e s \<Longrightarrow> sched_step e s s' \<Longrightarrow> sched_reachable e s'"

lemma reachable_inv: "sched_reachable e s \<Longrightarrow> sched_inv e s"
  by (induction rule: sched_reachable.induct) (auto intro: scheduler_init_inv sched_step_inv)

end
