(* ===== verification/Scheduler_Properties.thy ===== *)
theory Scheduler_Properties
  imports Scheduler_Invariants
begin

text \<open>
  What the invariants of the scheduler give, stated over its operations: the mask check never stops
  the machine, selection is sound and complete, threads and waiters are bound to live tasks one to one,
  the boot processor is preempted within a quantum; and scenarios in which the code does not do what
  its comments promise.
\<close>

subsection \<open>Threads of live tasks\<close>

lemma inv_threads:
  assumes "sched_inv e s"
  shows "thread_table_ok (thread_tab s)"
    "i < RIX_MAX_TASKS \<Longrightarrow> alive (tasks s i) \<Longrightarrow> thread_owner (thread_tab s) (t_tid (tasks s i)) = Some (t_process_pid (tasks s i))"
    "i < RIX_MAX_TASKS \<Longrightarrow> \<not> alive (tasks s i) \<Longrightarrow> t_tid (tasks s i) = 0"
    "i < RIX_MAX_TASKS \<Longrightarrow> j < RIX_MAX_TASKS \<Longrightarrow> alive (tasks s i) \<Longrightarrow> t_tid (tasks s i) = t_tid (tasks s j) \<Longrightarrow> i = j"
    "thread_owner (thread_tab s) tid \<noteq> None \<Longrightarrow> \<exists>i < RIX_MAX_TASKS. alive (tasks s i) \<and> t_tid (tasks s i) = tid"
proof -
  have b: "bind_ok s" using assms by (simp add: sched_inv_def)
  note c = th.coherentD[OF bind_okD(3)[OF b, unfolded threads_ok_def]]
  note l = bind_okD(2)[OF b, unfolded life_ok_def]
  show "thread_table_ok (thread_tab s)" by (rule threads_okD[OF bind_okD(3)[OF b]])
  show "thread_owner (thread_tab s) (t_tid (tasks s i)) = Some (t_process_pid (tasks s i))" if "i < RIX_MAX_TASKS" "alive (tasks s i)"
    using c(2)[of i "()"] l that by (auto simp: thread_binding_def)
  show "t_tid (tasks s i) = 0" if "i < RIX_MAX_TASKS" "\<not> alive (tasks s i)" using l that by auto
  show "i = j" if "i < RIX_MAX_TASKS" "j < RIX_MAX_TASKS" "alive (tasks s i)" "t_tid (tasks s i) = t_tid (tasks s j)"
  proof -
    have "t_tid (tasks s i) \<noteq> 0" using l that by blast
    then have "thread_binding (tasks s) i = Some ((), t_tid (tasks s i))" "thread_binding (tasks s) j = Some ((), t_tid (tasks s i))"
      using that by (simp_all add: thread_binding_def)
    then show "i = j" by (rule c(3))
  qed
  show "\<exists>i < RIX_MAX_TASKS. alive (tasks s i) \<and> t_tid (tasks s i) = tid" if "thread_owner (thread_tab s) tid \<noteq> None"
    using c(4)[where h = tid] l that by (auto simp: thread_binding_def split: if_splits) blast
qed

text \<open>64 records serve 32 tasks: the thread table never runs full.\<close>

lemma thread_table_not_full:
  assumes "sched_inv e s"
  shows "\<exists>i < RIX_THREAD_MAX. \<not> in_use (threads (thread_tab s) ! i)"
proof (rule ccontr)
  assume "\<not> ?thesis"
  then have full: "\<And>i. i < RIX_THREAD_MAX \<Longrightarrow> in_use (threads (thread_tab s) ! i)" by blast
  note ok = inv_threads(1)[OF assms]
  let ?f = "\<lambda>i. th_tid (threads (thread_tab s) ! i)"
  have "?f ` {..<RIX_THREAD_MAX} \<subseteq> (\<lambda>i. t_tid (tasks s i)) ` {..<RIX_MAX_TASKS}"
  proof (rule image_subsetI)
    fix i assume i: "i \<in> {..<RIX_THREAD_MAX}"
    then have "thread_owner (thread_tab s) (?f i) \<noteq> None"
      using thread_map_SomeI[OF ok _ full refl, of i] by (simp add: thread_owner_def)
    from inv_threads(5)[OF assms this] show "?f i \<in> (\<lambda>i. t_tid (tasks s i)) ` {..<RIX_MAX_TASKS}" by force
  qed
  then have "card (?f ` {..<RIX_THREAD_MAX}) \<le> card ((\<lambda>i. t_tid (tasks s i)) ` {..<RIX_MAX_TASKS})"
    by (rule card_mono[OF finite_imageI[OF finite_lessThan]])
  also have "\<dots> \<le> RIX_MAX_TASKS" using card_image_le[of "{..<RIX_MAX_TASKS}"] by simp
  finally have "card (?f ` {..<RIX_THREAD_MAX}) \<le> RIX_MAX_TASKS" .
  moreover have "inj_on ?f {..<RIX_THREAD_MAX}" using thread_table_okD(5)[OF ok] full by (auto intro!: inj_onI)
  ultimately show False by (simp add: card_image RIX_THREAD_MAX_def RIX_MAX_TASKS_def)
qed

lemma thread_alloc_succeeds:
  assumes "sched_inv e s" "owner_live lookup pid"
  obtains tid tt where "thread_alloc_locked lookup (thread_tab s) pid = (0, Some tid, tt)"
  using inv_threads(1)[OF assms(1)]
proof (rule thread_alloc_cases[of "thread_tab s" lookup pid])
qed (use that assms(2) thread_table_not_full[OF assms(1)] in auto)

lemma task_alloc_fields:
  assumes "task_alloc s = Some (i, s1)"
  shows "s1 = s\<lparr>tasks := (tasks s)(i := (tasks s i)\<lparr>t_wait_wq := None, t_wait_handle := no_handle, t_tid := 0,
           t_affinity := - 1, t_run_cpu := - 1, t_migrations := 0, t_prio := 0, t_run_ticks := 0,
           t_stamp := 0, t_voluntary := 0, t_involuntary := 0\<rparr>)\<rparr>"
  using assms by (auto simp: task_alloc_def split: option.splits)

text \<open>The outcome of creating a kernel thread.\<close>

lemma create_kernel_outcome:
  assumes inv: "sched_inv e s" and al: "task_alloc s = Some (i, s1)" and entry: "entry \<noteq> 0" and nid: "next_id s \<noteq> 0"
  obtains x s' where "scheduler_create_kernel_thread e lookup s entry arg = (0, Some (next_id s), s')"
    "tasks s' = (tasks s)(i := x)" "t_state x = TASK_RUNNABLE" "t_id x = next_id s" "t_process_pid x = 0"
    "\<not> t_ap_ok x" "t_affinity x = - 1" "t_wait_wq x = None" "cpu_current s' = cpu_current s" "next_id s' = next_id s + 1"
    "cpu_idle_valid s' = cpu_idle_valid s" "wait_queues s' = wait_queues s"
    "next_tid (thread_tab s') = next_tid (thread_tab s) + 1"
proof -
  let ?l = "\<lambda>pid. map_option pv_state (lookup pid)"
  obtain tid tt where a: "thread_alloc_locked ?l (thread_tab s) 0 = (0, Some tid, tt)"
    by (rule thread_alloc_succeeds[OF inv, of ?l 0]) (simp add: owner_live_def)
  have n: "next_tid tt = next_tid (thread_tab s) + 1"
    using inv_threads(1)[OF inv] by (rule thread_alloc_cases[of _ ?l 0]) (use a in auto)
  note f = task_alloc_fields[OF al]
  let ?s = "snd (snd (scheduler_create_kernel_thread e lookup s entry arg))"
  have "scheduler_create_kernel_thread e lookup s entry arg = (0, Some (next_id s), ?s)"
    "tasks ?s = (tasks s)(i := tasks ?s i)" "t_state (tasks ?s i) = TASK_RUNNABLE" "t_id (tasks ?s i) = next_id s"
    "t_process_pid (tasks ?s i) = 0" "\<not> t_ap_ok (tasks ?s i)" "t_affinity (tasks ?s i) = - 1" "t_wait_wq (tasks ?s i) = None"
    "cpu_current ?s = cpu_current s" "next_id ?s = next_id s + 1" "cpu_idle_valid ?s = cpu_idle_valid s"
    "wait_queues ?s = wait_queues s" "next_tid (thread_tab ?s) = next_tid (thread_tab s) + 1"
    using entry nid a n
    by (simp_all add: scheduler_create_kernel_thread_def al f task_take_id_def task_publish_def task_bind_thread_locked_def Let_def)
  then show thesis by (rule that)
qed

lemma claim_fields:
  "cpu_current (sched_claim s me i) = (cpu_current s)(me := i)" "cpu_idle_valid (sched_claim s me i) = cpu_idle_valid s"
  "t_state (tasks (sched_claim s me i) j) = (if j = i then TASK_RUNNING else t_state (tasks s j))"
  "t_id (tasks (sched_claim s me i) j) = t_id (tasks s j)"
  "t_process_pid (tasks (sched_claim s me i) j) = t_process_pid (tasks s j)"
  "t_ap_ok (tasks (sched_claim s me i) j) = t_ap_ok (tasks s j)"
  "t_wait_wq (tasks (sched_claim s me i) j) = t_wait_wq (tasks s j)"
  "next_id (sched_claim s me i) = next_id s" "thread_tab (sched_claim s me i) = thread_tab s"
  "wait_queues (sched_claim s me i) = wait_queues s"
  by (simp_all add: sched_claim_def rq_note_claim_locked_def rq_remove_all_locked_def Let_def)

subsection \<open>Properties\<close>

text \<open>C1: The fail-stop check of the run queue masks never fires.  In every state the kernel can reach
  from \<open>scheduler_init\<close> by any sequence of scheduler operations on any CPUs, bit \<open>i\<close> of the mask of CPU \<open>c\<close>
  is set exactly if slot \<open>i\<close> is runnable and eligible on \<open>c\<close>; so neither a yield nor the idle loop ever
  freezes the machine.\<close>

theorem rq_verify_never_fires:
  assumes "sched_reachable e s" "me < SMP_MAX_CPUS"
  shows "rq_verify_locked e s \<and> fst (scheduler_yield_locked e s me) \<noteq> Yield_failstop \<and>
    fst (scheduler_ap_idle_locked e s me) \<noteq> Idle_failstop"
  using reachable_inv[OF assms(1)] yield_inv(2)[OF reachable_inv[OF assms(1)] assms(2)]
    ap_idle_inv(2)[OF reachable_inv[OF assms(1)] assms(2)]
  by (simp add: rq_verify_iff sched_inv_def)

text \<open>Two processors online, the first is the boot processor; no process exists.\<close>

definition duo :: smp_map where
  "duo = \<lparr>smp_bsp_index = 0, smp_cpu_state = (\<lambda>c. if c < 2 then SMP_CPU_ONLINE else SMP_CPU_ABSENT), smp_online_count = 2\<rparr>"

definition no_processes :: process_table where
  "no_processes = (\<lambda>_. None)"

definition run_boot :: sched where "run_boot = scheduler_init no_processes"
definition run_created :: sched where "run_created = snd (snd (scheduler_create_kernel_thread duo no_processes run_boot 4096 0))"

lemma run_boot_facts:
  "tasks run_boot j = (if j = 0 then init_task\<lparr>t_state := TASK_RUNNING, t_tid := 1\<rparr> else init_task)"
  "cpu_current run_boot = (\<lambda>_. 0)" "next_id run_boot = 1" "next_tid (thread_tab run_boot) = 2"
  "cpu_idle_valid run_boot = (\<lambda>_. False)" "wait_queues run_boot = (\<lambda>_. rix_waitqueue_init)"
proof -
  obtain tid tt where s: "scheduler_init no_processes =
    \<lparr>ticks = 0, tasks = (\<lambda>_. init_task)(0 := init_task\<lparr>t_state := TASK_RUNNING, t_tid := tid\<rparr>),
     cpu_current = (\<lambda>_. 0), next_id = 1, cpu_rq = (\<lambda>_. rq_init_locked), cpu_idle_valid = (\<lambda>_. False),
     cpu_preempt_depth = (\<lambda>_. 0), cpu_need_resched = (\<lambda>_. False), cpu_quantum_left = (\<lambda>_. RIX_PREEMPT_QUANTUM_TICKS),
     cpu_in_idle = (\<lambda>_. False), thread_tab = tt, wait_queues = (\<lambda>_. rix_waitqueue_init), ipis = []\<rparr>"
    and a: "thread_alloc_locked (\<lambda>pid. map_option pv_state (no_processes pid)) thread_table_init 0 = (0, Some tid, tt)"
    by (rule scheduler_init_shape)
  have "tid = 1" "next_tid tt = 2"
    using thread_alloc_map(1,2)[OF thread_table_init_ok _ a] by simp_all
  then show "tasks run_boot j = (if j = 0 then init_task\<lparr>t_state := TASK_RUNNING, t_tid := 1\<rparr> else init_task)"
    "cpu_current run_boot = (\<lambda>_. 0)" "next_id run_boot = 1" "next_tid (thread_tab run_boot) = 2"
    "cpu_idle_valid run_boot = (\<lambda>_. False)" "wait_queues run_boot = (\<lambda>_. rix_waitqueue_init)"
    by (simp_all add: run_boot_def s)
qed

lemma run_boot_reachable: "sched_reachable e run_boot"
  unfolding run_boot_def by (rule sched_reachable.Boot)

lemma task_alloc_first:
  assumes "t_state (tasks s 1) = TASK_UNUSED \<or> t_state (tasks s 1) = TASK_DEAD"
  shows "\<exists>s1. task_alloc s = Some (1, s1)"
proof -
  have "[1..<RIX_MAX_TASKS] = 1 # [2..<RIX_MAX_TASKS]" by (simp add: RIX_MAX_TASKS_def upt_rec)
  then show ?thesis using assms by (simp add: task_alloc_def)
qed

lemma run_created_facts:
  "scheduler_create_kernel_thread duo no_processes run_boot 4096 0 = (0, Some 1, run_created)"
  "sched_reachable duo run_created"
  "t_state (tasks run_created j) = (if j = 0 then TASK_RUNNING else if j = 1 then TASK_RUNNABLE else TASK_UNUSED)"
  "t_id (tasks run_created j) = (if j = 1 then 1 else 0)"
  "t_process_pid (tasks run_created j) = 0" "\<not> t_ap_ok (tasks run_created j)" "t_affinity (tasks run_created j) = - 1"
  "t_wait_wq (tasks run_created j) = None"
  "cpu_current run_created = (\<lambda>_. 0)" "next_id run_created = 2" "next_tid (thread_tab run_created) = 3"
  "cpu_idle_valid run_created = (\<lambda>_. False)" "wait_queues run_created = (\<lambda>_. rix_waitqueue_init)"
proof -
  note b = run_boot_facts
  obtain s1 where al: "task_alloc run_boot = Some (1, s1)"
    using task_alloc_first[of run_boot] by (auto simp: b init_task_def)
  obtain x s' where c: "scheduler_create_kernel_thread duo no_processes run_boot 4096 0 = (0, Some (next_id run_boot), s')"
    "tasks s' = (tasks run_boot)(1 := x)" "t_state x = TASK_RUNNABLE" "t_id x = next_id run_boot" "t_process_pid x = 0"
    "\<not> t_ap_ok x" "t_affinity x = - 1" "t_wait_wq x = None" "cpu_current s' = cpu_current run_boot" "next_id s' = next_id run_boot + 1"
    "cpu_idle_valid s' = cpu_idle_valid run_boot" "wait_queues s' = wait_queues run_boot"
    "next_tid (thread_tab s') = next_tid (thread_tab run_boot) + 1"
    by (rule create_kernel_outcome[OF reachable_inv[OF run_boot_reachable] al, of 4096 duo no_processes 0]) (simp_all add: b)
  have s': "s' = run_created" by (simp add: run_created_def c(1))
  show "sched_reachable duo run_created"
    unfolding run_created_def by (rule sched_reachable.Step[OF run_boot_reachable Create_kernel]) (simp add: b)
  show "scheduler_create_kernel_thread duo no_processes run_boot 4096 0 = (0, Some 1, run_created)"
    "t_state (tasks run_created j) = (if j = 0 then TASK_RUNNING else if j = 1 then TASK_RUNNABLE else TASK_UNUSED)"
    "t_id (tasks run_created j) = (if j = 1 then 1 else 0)"
    "t_process_pid (tasks run_created j) = 0" "\<not> t_ap_ok (tasks run_created j)" "t_affinity (tasks run_created j) = - 1"
    "t_wait_wq (tasks run_created j) = None"
    "cpu_current run_created = (\<lambda>_. 0)" "next_id run_created = 2" "next_tid (thread_tab run_created) = 3"
    "cpu_idle_valid run_created = (\<lambda>_. False)" "wait_queues run_created = (\<lambda>_. rix_waitqueue_init)"
    using c b by (simp_all add: s' init_task_def)
qed

theorem rq_verify_never_fires_witness:
  "rq_verify_locked duo run_created \<and> fst (scheduler_yield_locked duo run_created 0) \<noteq> Yield_failstop \<and>
   fst (scheduler_ap_idle_locked duo run_created 0) \<noteq> Idle_failstop"
  by (rule rq_verify_never_fires[OF run_created_facts(2)]) (simp add: SMP_MAX_CPUS_def)

text \<open>C5: Selection is sound and complete.  In every reachable state the pick of a CPU returns a slot
  that is runnable and eligible there whenever there is one, and otherwise the current slot; it changes no
  task and leaves every mask as it was.  Work is therefore never left waiting by a CPU that may run it.\<close>

theorem sched_pick_sound_complete:
  assumes "sched_reachable e s" "me < SMP_MAX_CPUS" "sched_pick_locked e s me old = (picked, s')"
  shows "(if \<exists>i. t_state (tasks s i) = TASK_RUNNABLE \<and> rq_eligible e s me i
      then t_state (tasks s picked) = TASK_RUNNABLE \<and> rq_eligible e s me picked else picked = old) \<and>
    tasks s' = tasks s \<and> (\<lambda>c. rq_slots (cpu_rq s' c)) = (\<lambda>c. rq_slots (cpu_rq s c))"
proof -
  have "rq_sync e s" using reachable_inv[OF assms(1)] by (simp add: sched_inv_def)
  then show ?thesis using assms(2,3)
    by (rule sched_pick_cases) (auto simp: fun_eq_iff)
qed

theorem sched_pick_sound_complete_witness:
  "t_state (tasks run_created (fst (sched_pick_locked duo run_created 0 0))) = TASK_RUNNABLE"
proof -
  have "rq_eligible duo run_created 0 1"
    by (simp add: rq_eligible_task task_elig_def run_created_facts rq_cpu_is_bsp_def duo_def RIX_MAX_TASKS_def SMP_MAX_CPUS_def)
  then have "\<exists>i. t_state (tasks run_created i) = TASK_RUNNABLE \<and> rq_eligible duo run_created 0 i"
    by (intro exI[of _ 1]) (simp add: run_created_facts)
  with sched_pick_sound_complete[OF run_created_facts(2), of 0 0 "fst (sched_pick_locked duo run_created 0 0)"
      "snd (sched_pick_locked duo run_created 0 0)"]
  show ?thesis by (simp add: SMP_MAX_CPUS_def)
qed

text \<open>The steal path never has anything to steal.  In every reachable state, if the loop over the
  CPU's own queue finds nothing then no slot at all is runnable and eligible for that CPU, so the loop over
  the boot processor's mask cannot return a task either: with the masks kept exact for every CPU, the
  work-conservation fallback is unreachable code.\<close>

theorem steal_path_unreachable:
  assumes "sched_reachable e s" "me < SMP_MAX_CPUS" "own_pick e s me = (None, q)"
  shows "\<not> (t_state (tasks s i) = TASK_RUNNABLE \<and> rq_eligible e s me i) \<and>
    fst (sched_pick_locked e s me old) = old"
proof -
  have sync: "rq_sync e s" using reachable_inv[OF assms(1)] by (simp add: sched_inv_def)
  show ?thesis
    using own_pick_sync(3)[OF sync assms(2,3) refl, of i] by (simp add: sched_pick_sync[OF sync assms(2)] assms(3))
qed

theorem steal_path_unreachable_witness:
  "\<exists>q. own_pick duo run_created 1 = (None, q) \<and> fst (sched_pick_locked duo run_created 1 0) = 0"
proof -
  have sync: "rq_sync duo run_created" using reachable_inv[OF run_created_facts(2)] by (simp add: sched_inv_def)
  have me: "(1::nat) < SMP_MAX_CPUS" by (simp add: SMP_MAX_CPUS_def)
  obtain own q where o: "own_pick duo run_created 1 = (own, q)" by (rule prod.exhaust)
  have "\<not> rq_eligible duo run_created 1 i" for i
    by (simp add: rq_eligible_task task_elig_def rq_cpu_is_bsp_def duo_def run_created_facts)
  then have "own = None" using own_pick_sync(2)[OF sync me o] by (cases own) auto
  with o have "own_pick duo run_created 1 = (None, q)" by simp
  with steal_path_unreachable[OF run_created_facts(2) me this] show ?thesis by blast
qed

text \<open>C7: Threads and tasks correspond one to one.  In every reachable state a slot that is in use has a
  thread record whose owner is the process of the task, no two slots share a record, an unused or dead slot
  has none, and there is no record without a slot: the number of live records is the number of live tasks.
  Hence the thread table is never full and creating a kernel thread fails only for a null entry or when
  every slot is taken, never for lack of a thread.\<close>

theorem threads_match_live_tasks:
  assumes "sched_reachable e s"
  shows "(\<forall>i < RIX_MAX_TASKS. if alive (tasks s i)
        then \<exists>st. thread_map (thread_tab s) (t_tid (tasks s i)) = Some (t_process_pid (tasks s i), st)
        else t_tid (tasks s i) = 0) \<and>
    inj_on (\<lambda>i. t_tid (tasks s i)) {i. i < RIX_MAX_TASKS \<and> alive (tasks s i)} \<and>
    dom (thread_map (thread_tab s)) = (\<lambda>i. t_tid (tasks s i)) ` {i. i < RIX_MAX_TASKS \<and> alive (tasks s i)} \<and>
    fst (scheduler_create_kernel_thread e lookup s entry arg) = (if entry = 0 \<or> task_alloc s = None then -1 else 0)"
proof (intro conjI)
  note inv = reachable_inv[OF assms]
  note t = inv_threads[OF inv]
  have tm: "\<exists>st. thread_map (thread_tab s) (t_tid (tasks s i)) = Some (t_process_pid (tasks s i), st)"
    if "i < RIX_MAX_TASKS" "alive (tasks s i)" for i
    using t(2)[OF that] by (auto simp: thread_owner_def)
  show "\<forall>i < RIX_MAX_TASKS. if alive (tasks s i)
        then \<exists>st. thread_map (thread_tab s) (t_tid (tasks s i)) = Some (t_process_pid (tasks s i), st)
        else t_tid (tasks s i) = 0"
    using tm t(3) by auto
  show "inj_on (\<lambda>i. t_tid (tasks s i)) {i. i < RIX_MAX_TASKS \<and> alive (tasks s i)}"
    using t(4) by (auto intro!: inj_onI)
  have "thread_map (thread_tab s) tid \<noteq> None \<Longrightarrow> \<exists>i < RIX_MAX_TASKS. alive (tasks s i) \<and> t_tid (tasks s i) = tid" for tid
    using t(5)[of tid] by (simp add: thread_owner_def)
  then show "dom (thread_map (thread_tab s)) = (\<lambda>i. t_tid (tasks s i)) ` {i. i < RIX_MAX_TASKS \<and> alive (tasks s i)}"
    using tm by (fastforce simp: dom_def)
  obtain tid tt where a: "thread_alloc_locked (\<lambda>pid. map_option pv_state (lookup pid)) (thread_tab s) 0 = (0, Some tid, tt)"
    by (rule thread_alloc_succeeds[OF inv, of "\<lambda>pid. map_option pv_state (lookup pid)" 0]) (simp add: owner_live_def)
  show "fst (scheduler_create_kernel_thread e lookup s entry arg) = (if entry = 0 \<or> task_alloc s = None then -1 else 0)"
  proof (cases "task_alloc s")
    case (Some p)
    obtain i s1 where p: "p = (i, s1)" by (rule prod.exhaust)
    have "thread_tab s1 = thread_tab s" using task_alloc_fields[of s i s1] Some p by simp
    then show ?thesis using a
      by (simp add: scheduler_create_kernel_thread_def Some p task_publish_def task_bind_thread_locked_def task_take_id_def Let_def)
  qed (simp add: scheduler_create_kernel_thread_def)
qed

theorem threads_match_live_tasks_witness:
  "fst (scheduler_create_kernel_thread duo no_processes run_created 8192 0) = 0"
proof -
  have "task_alloc run_created \<noteq> None"
  proof -
    have "2 \<in> set [1..<RIX_MAX_TASKS]" by (simp add: RIX_MAX_TASKS_def)
    then have "find (\<lambda>i. t_state (tasks run_created i) = TASK_UNUSED \<or> t_state (tasks run_created i) = TASK_DEAD) [1..<RIX_MAX_TASKS] \<noteq> None"
      unfolding find_None_iff using run_created_facts(3)[of 2] by force
    then show ?thesis by (simp add: task_alloc_def split: option.split)
  qed
  then show ?thesis
    using threads_match_live_tasks[OF run_created_facts(2), of no_processes 8192 0] by simp
qed



text \<open>The wakeups of the wait queues themselves are never used.  No operation of the scheduler calls
  \<open>rix_waitqueue_block\<close>, so in every reachable state every waiter is ready and none is blocked: waking a queue
  wakes no waiter of the registry, and \<open>scheduler_wait_take\<close> always reports that no wakeup is pending, also
  right after the task was woken.\<close>

theorem wait_take_never_succeeds:
  assumes "sched_reachable e s"
  shows "fst (rix_waitqueue_wake_all (wait_queues s w)) = 0 \<and> fst (scheduler_wait_take s me) = 1"
proof
  have b: "bind_ok s" using reachable_inv[OF assms] by (simp add: sched_inv_def)
  note r = bind_okD(5)[OF b]
  show "fst (rix_waitqueue_wake_all (wait_queues s w)) = 0" using waits_ready_ops(3)[OF r, of w] by simp
  let ?t = "tasks s (cpu_current s me)"
  show "fst (scheduler_wait_take s me) = 1"
  proof (cases "t_wait_wq ?t")
    case (Some v)
    have "wq_owner (wait_queues s v) (t_wait_handle ?t) \<noteq> None"
      using waits_okD(2)[OF bind_okD(4)[OF b] bind_okD(1)[OF b] Some] by simp
    then obtain k where k: "wq_resolve (wait_queues s v) (t_wait_handle ?t) = Some k" by (auto simp: wq_owner_def)
    have "w_state (wq_waiters (wait_queues s v) k) = RIX_WAIT_UNUSED \<or> w_state (wq_waiters (wait_queues s v) k) = RIX_WAIT_READY"
      using r by (simp add: waits_ready_def)
    then have "w_state (wq_waiters (wait_queues s v) k) \<noteq> RIX_WAIT_WOKEN" by auto
    then show ?thesis
      using k Some by (simp add: scheduler_wait_take_def Let_def rix_waitqueue_take_wakeup_def case_prod_beta)
  qed (simp add: scheduler_wait_take_def Let_def)
qed

theorem wait_take_never_succeeds_witness:
  "fst (scheduler_wait_take run_created 0) = 1"
  by (rule wait_take_never_succeeds[OF run_created_facts(2), THEN conjunct2])

lemma yield_outcome:
  assumes inv: "sched_inv e s" and me: "me < SMP_MAX_CPUS"
    and old: "old = cpu_current s me" and y: "scheduler_yield_locked e s me = (out, s')"
    and run: "t_state (tasks s old) = TASK_RUNNING"
  shows "(out = Yield_continue \<and> t_state (tasks s' old) = TASK_RUNNING \<and> cpu_current s' = cpu_current s \<and>
       t_stamp (tasks s' old) = ticks s \<and> t_run_ticks (tasks s' old) = t_run_ticks (tasks s old) + (ticks s - t_stamp (tasks s old))) \<or>
     (\<exists>n. out = Yield_switch old n \<and> n \<noteq> old \<and> t_state (tasks s n) = TASK_RUNNABLE \<and> rq_eligible e s me n \<and>
       t_state (tasks s' n) = TASK_RUNNING \<and> cpu_current s' = (cpu_current s)(me := n) \<and> t_stamp (tasks s' n) = ticks s \<and>
       no_bits s' n \<and> t_state (tasks s' old) = TASK_RUNNABLE \<and>
       t_run_ticks (tasks s' old) = t_run_ticks (tasks s old) + (ticks s - t_stamp (tasks s old)) \<and>
       t_involuntary (tasks s' old) = t_involuntary (tasks s old) + (if cpu_need_resched s me then 1 else 0) \<and>
       t_voluntary (tasks s' old) = t_voluntary (tasks s old) + (if cpu_need_resched s me then 0 else 1))"
proof -
  note oldb = inv_current[OF inv, of me, folded old]
  define s1 where "s1 = yield_flip e (yield_enter s me) old"
  have i1: "sched_inv e s1" unfolding s1_def by (rule yield_flip_inv[OF yield_enter_inv[OF inv] oldb])
  then have v: "rq_verify_locked e s1" and sync1: "rq_sync e s1" by (simp_all add: rq_verify_iff sched_inv_def)
  obtain nxt s2 where p: "sched_pick_locked e s1 me old = (nxt, s2)" by (rule prod.exhaust)
  note pk = inv_pick[OF i1 me p]
  define s3 where "s3 = (if True then yield_reclaim s2 old else s2)"
  have u: "scheduler_yield_locked e s me =
    (if \<not> rq_verify_locked e s1 then (Yield_failstop, s1)
     else if nxt = old then
       (if t_state (tasks s3 old) = TASK_RUNNING then Yield_continue
        else if cpu_idle_valid s3 me then Yield_idle else Yield_stuck, s3)
     else (Yield_switch old nxt, sched_claim (yield_count s2 old True (cpu_need_resched s me)) me nxt))"
    by (rule yield_unfold[OF me old s1_def p _ s3_def]) (simp add: run)
  have t1: "tasks s2 = (tasks s)(old := (tasks s old)\<lparr>t_state := TASK_RUNNABLE,
      t_run_ticks := t_run_ticks (tasks s old) + (ticks s - t_stamp (tasks s old))\<rparr>)" "ticks s2 = ticks s" "cpu_current s2 = cpu_current s"
    using run by (simp_all add: pk s1_def yield_flip_def yield_enter_def)
  show ?thesis
  proof (cases "nxt = old")
    case True
    then have "out = Yield_continue" "s' = yield_reclaim s2 old"
      using y v u t1 by (auto simp: s3_def yield_reclaim_def)
    then show ?thesis using t1 by (simp add: yield_reclaim_def)
  next
    case False
    then have out: "out = Yield_switch old nxt" and s': "s' = sched_claim (yield_count s2 old True (cpu_need_resched s me)) me nxt"
      using y v u by simp_all
    have n: "t_state (tasks s1 nxt) = TASK_RUNNABLE" "rq_eligible e s1 me nxt" "nxt < RIX_MAX_TASKS"
      using False sync1 me p by (auto elim!: sched_pick_cases)
    have "tasks s1 nxt = tasks s nxt" using False by (simp add: s1_def yield_flip_def yield_enter_def)
    then have n': "t_state (tasks s nxt) = TASK_RUNNABLE" "rq_eligible e s me nxt" using n by (simp_all add: rq_eligible_task)
    have "sched_inv e s'" using yield_inv(1)[OF inv me] y by simp
    moreover have r: "t_state (tasks s' nxt) = TASK_RUNNING" by (simp add: s' claim_fields)
    ultimately have nb: "no_bits s' nxt" using n(3) by (intro no_bitsI[of e]) (simp_all add: sched_inv_def)
    have cl: "tasks s' old = tasks (yield_count s2 old True (cpu_need_resched s me)) old" "t_stamp (tasks s' nxt) = ticks s2"
      using False n(3) me by (simp_all add: s' sched_claim_def rq_note_claim_locked_def Let_def)
    show ?thesis
      using False out n' r nb cl t1 by (auto simp: s' claim_fields yield_count_def)
  qed
qed

text \<open>C6: What a yield of a running task does.  In every reachable state the critical section of
  \<open>scheduler_yield\<close> either goes on with the same task, its interval closed and stamped anew, or switches to
  another slot that was runnable and eligible: that slot is now running, current on this CPU, in no mask and
  stamped, and the old task is runnable again with its interval added to its run ticks and the switch counted as
  voluntary or involuntary by the armed flag.\<close>

theorem yield_switches_correctly:
  assumes "sched_reachable e s" "me < SMP_MAX_CPUS" "scheduler_yield_locked e s me = (out, s')"
    "t_state (tasks s (cpu_current s me)) = TASK_RUNNING"
  shows "(out = Yield_continue \<and> t_state (tasks s' (cpu_current s me)) = TASK_RUNNING \<and> cpu_current s' = cpu_current s \<and>
       t_stamp (tasks s' (cpu_current s me)) = ticks s \<and>
       t_run_ticks (tasks s' (cpu_current s me)) =
         t_run_ticks (tasks s (cpu_current s me)) + (ticks s - t_stamp (tasks s (cpu_current s me)))) \<or>
     (\<exists>n. out = Yield_switch (cpu_current s me) n \<and> n \<noteq> cpu_current s me \<and>
       t_state (tasks s n) = TASK_RUNNABLE \<and> rq_eligible e s me n \<and>
       t_state (tasks s' n) = TASK_RUNNING \<and> cpu_current s' = (cpu_current s)(me := n) \<and> t_stamp (tasks s' n) = ticks s \<and>
       no_bits s' n \<and> t_state (tasks s' (cpu_current s me)) = TASK_RUNNABLE \<and>
       t_run_ticks (tasks s' (cpu_current s me)) =
         t_run_ticks (tasks s (cpu_current s me)) + (ticks s - t_stamp (tasks s (cpu_current s me))) \<and>
       t_involuntary (tasks s' (cpu_current s me)) =
         t_involuntary (tasks s (cpu_current s me)) + (if cpu_need_resched s me then 1 else 0) \<and>
       t_voluntary (tasks s' (cpu_current s me)) =
         t_voluntary (tasks s (cpu_current s me)) + (if cpu_need_resched s me then 0 else 1))"
  by (rule yield_outcome[OF reachable_inv[OF assms(1)] assms(2) refl assms(3,4)])

theorem yield_switches_correctly_witness:
  "\<exists>out s'. scheduler_yield_locked duo run_created 0 = (out, s') \<and>
     (out = Yield_continue \<and> cpu_current s' = cpu_current run_created \<or> (\<exists>n. out = Yield_switch 0 n \<and> t_state (tasks s' n) = TASK_RUNNING))"
proof -
  obtain out s' where y: "scheduler_yield_locked duo run_created 0 = (out, s')" by (rule prod.exhaust)
  have c: "cpu_current run_created 0 = 0" by (simp add: run_created_facts)
  have "t_state (tasks run_created (cpu_current run_created 0)) = TASK_RUNNING" by (simp add: run_created_facts)
  from yield_switches_correctly[OF run_created_facts(2) _ y this] y show ?thesis unfolding c by (auto simp: SMP_MAX_CPUS_def)
qed

subsection \<open>The quantum of the boot processor\<close>

definition tick_view :: "sched \<Rightarrow> nat \<Rightarrow> u64 \<times> bool \<times> u32 \<times> (nat \<Rightarrow> rix_task)" where
  "tick_view s c = (cpu_quantum_left s c, cpu_need_resched s c, cpu_preempt_depth s c, tasks s)"

lemma tick_row_other: "d \<noteq> c \<Longrightarrow> tick_view (preempt_tick_row d a s) c = tick_view s c"
  by (simp add: tick_view_def preempt_tick_row_def preempt_arm_cpu_def Let_def)

lemma runnable_count_tasks: "tasks s = tasks s' \<Longrightarrow> scheduler_runnable_count s = scheduler_runnable_count s'"
  by (simp add: scheduler_runnable_count_def)

lemma preempt_tick_view:
  assumes "me < SMP_MAX_CPUS" "int me = smp_bsp_index e"
  shows "tick_view (scheduler_preempt_tick e s me) me = tick_view (preempt_tick_row me False s) me"
proof -
  have "tick_view (fold (\<lambda>c s. if int c = smp_bsp_index e then s
        else if smp_cpu_state e c \<noteq> SMP_CPU_ONLINE then s else preempt_tick_row c True s) cs s) me = tick_view s me" for cs s
    by (induction cs arbitrary: s) (use assms in \<open>auto simp: tick_row_other\<close>)
  then show ?thesis using assms by (simp add: scheduler_preempt_tick_def Let_def)
qed

lemma armed_after:
  assumes "me < SMP_MAX_CPUS" "int me = smp_bsp_index e" "cpu_preempt_depth s me = 0" "2 \<le> scheduler_runnable_count s"
    "unat (cpu_quantum_left s me) \<le> Suc n"
  shows "\<exists>k \<le> Suc n. cpu_need_resched (((\<lambda>s. scheduler_preempt_tick e s me) ^^ k) s) me"
  using assms(3-5)
proof (induction n arbitrary: s)
  case 0
  then have "cpu_quantum_left s me = 0 \<or> cpu_quantum_left s me = 1"
    by (metis One_nat_def le_Suc_eq le_zero_eq unat_1 unat_eq_0 word_unat_eq_iff)
  moreover have "scheduler_runnable_count (s\<lparr>cpu_quantum_left := x\<rparr>) = scheduler_runnable_count s" for x
    by (rule runnable_count_tasks) simp
  ultimately have "cpu_need_resched (preempt_tick_row me False s) me"
    using 0 by (auto simp: preempt_tick_row_def preempt_arm_cpu_def Let_def)
  then have "cpu_need_resched (scheduler_preempt_tick e s me) me"
    using preempt_tick_view[OF assms(1,2), of s] by (simp add: tick_view_def)
  then show ?case by (intro exI[of _ 1]) simp
next
  case (Suc n)
  show ?case
  proof (cases "unat (cpu_quantum_left s me) \<le> Suc n")
    case True
    from Suc.IH[OF Suc.prems(1,2) this] show ?thesis by (meson le_SucI)
  next
    case False
    let ?q = "cpu_quantum_left s me"
    have q0: "?q \<noteq> 0" using False by auto
    have q: "?q \<noteq> 0" "unat (?q - 1) = Suc n" using q0 False Suc.prems(3) unat_minus_1[OF q0] by simp_all
    then have q1: "?q - 1 \<noteq> 0" by auto
    let ?s = "scheduler_preempt_tick e s me"
    have "tick_view (preempt_tick_row me False s) me = (?q - 1, cpu_need_resched s me, cpu_preempt_depth s me, tasks s)"
      using q(1) q1 by (simp add: tick_view_def preempt_tick_row_def Let_def)
    then have "cpu_quantum_left ?s me = ?q - 1" "cpu_preempt_depth ?s me = 0" "tasks ?s = tasks s"
      using preempt_tick_view[OF assms(1,2), of s] Suc.prems(1) by (simp_all add: tick_view_def)
    then have "\<exists>k \<le> Suc n. cpu_need_resched (((\<lambda>s. scheduler_preempt_tick e s me) ^^ k) ?s) me"
      using Suc.prems(2) q(2) by (intro Suc.IH) (simp_all add: runnable_count_tasks[of ?s s])
    then obtain k where "k \<le> Suc n" "cpu_need_resched (((\<lambda>s. scheduler_preempt_tick e s me) ^^ Suc k) s) me"
      by (auto simp: funpow_Suc_right simp del: funpow.simps)
    then show ?thesis by (intro exI[of _ "Suc k"]) simp
  qed
qed

text \<open>C35: The boot processor is armed for preemption within one quantum.  From any state in which its
  quantum holds at most ten ticks, preemption is not disabled there and at least two tasks can run, at most ten
  timer ticks set its need-resched flag, whatever the ticks do for the other processors.\<close>

theorem bsp_armed_within_quantum:
  assumes "me < SMP_MAX_CPUS" "int me = smp_bsp_index e" "cpu_quantum_left s me \<le> RIX_PREEMPT_QUANTUM_TICKS"
    "cpu_preempt_depth s me = 0" "2 \<le> scheduler_runnable_count s"
  shows "\<exists>k \<le> 10. scheduler_need_resched (((\<lambda>s. scheduler_preempt_tick e s me) ^^ k) s) me"
proof -
  have "unat (cpu_quantum_left s me) \<le> Suc 9"
    using assms(3) by (simp add: RIX_PREEMPT_QUANTUM_TICKS_def word_le_nat_alt)
  from armed_after[OF assms(1,2,4,5) this] assms(1) show ?thesis by (simp add: scheduler_need_resched_def)
qed

lemma run_created_quantum: "cpu_quantum_left run_created 0 = 10" "cpu_preempt_depth run_created 0 = 0"
proof -
  obtain tid tt where "scheduler_init no_processes =
    \<lparr>ticks = 0, tasks = (\<lambda>_. init_task)(0 := init_task\<lparr>t_state := TASK_RUNNING, t_tid := tid\<rparr>),
     cpu_current = (\<lambda>_. 0), next_id = 1, cpu_rq = (\<lambda>_. rq_init_locked), cpu_idle_valid = (\<lambda>_. False),
     cpu_preempt_depth = (\<lambda>_. 0), cpu_need_resched = (\<lambda>_. False), cpu_quantum_left = (\<lambda>_. RIX_PREEMPT_QUANTUM_TICKS),
     cpu_in_idle = (\<lambda>_. False), thread_tab = tt, wait_queues = (\<lambda>_. rix_waitqueue_init), ipis = []\<rparr>"
    by (rule scheduler_init_shape)
  then have b: "cpu_quantum_left run_boot 0 = 10" "cpu_preempt_depth run_boot 0 = 0"
    by (simp_all add: run_boot_def RIX_PREEMPT_QUANTUM_TICKS_def)
  have "cpu_quantum_left (snd (snd (scheduler_create_kernel_thread e l s en a))) = cpu_quantum_left s \<and>
    cpu_preempt_depth (snd (snd (scheduler_create_kernel_thread e l s en a))) = cpu_preempt_depth s" for e l s en a
    by (auto simp: scheduler_create_kernel_thread_def task_alloc_def task_take_id_def task_publish_def
        task_bind_thread_locked_def rq_add_eligible_locked_def Let_def split: option.split prod.split)
  then show "cpu_quantum_left run_created 0 = 10" "cpu_preempt_depth run_created 0 = 0"
    by (simp_all add: run_created_def b)
qed

theorem bsp_armed_within_quantum_witness:
  "\<exists>k \<le> 10. scheduler_need_resched (((\<lambda>s. scheduler_preempt_tick duo s 0) ^^ k) run_created) 0"
proof (rule bsp_armed_within_quantum)
  have "filter (\<lambda>i. t_state (tasks run_created i) = TASK_RUNNABLE \<or> t_state (tasks run_created i) = TASK_RUNNING) [0..<RIX_MAX_TASKS] =
    filter (\<lambda>i. i < 2) [0..<RIX_MAX_TASKS]" by (rule filter_cong) (auto simp: run_created_facts)
  also have "\<dots> = [0, 1]" by (simp add: RIX_MAX_TASKS_def upt_rec)
  finally show "2 \<le> scheduler_runnable_count run_created" by (simp add: scheduler_runnable_count_def)
qed (simp_all add: SMP_MAX_CPUS_def duo_def run_created_quantum RIX_PREEMPT_QUANTUM_TICKS_def)

subsection \<open>Where the code departs from its comments\<close>

lemma find_task_first:
  assumes "t_id (tasks s 1) = tsk" "t_state (tasks s 1) \<noteq> TASK_UNUSED"
  shows "find_task s tsk = Some 1"
proof -
  have "[1..<RIX_MAX_TASKS] = 1 # [2..<RIX_MAX_TASKS]" by (simp add: RIX_MAX_TASKS_def upt_rec)
  then show ?thesis using assms by (simp add: find_task_def)
qed

definition run_allowed :: sched where "run_allowed = snd (scheduler_task_allow_ap duo run_created 1)"

lemma run_allowed_facts:
  "sched_reachable duo run_allowed"
  "tasks run_allowed = (tasks run_created)(1 := (tasks run_created 1)\<lparr>t_ap_ok := True\<rparr>)"
  "cpu_current run_allowed = (\<lambda>_. 0)" "next_id run_allowed = 2" "next_tid (thread_tab run_allowed) = 3"
  "wait_queues run_allowed = (\<lambda>_. rix_waitqueue_init)"
proof -
  have f: "find_task run_created 1 = Some 1" by (rule find_task_first) (simp_all add: run_created_facts)
  have n: "next_id (rq_resync_locked e s i) = next_id s" for e s i by (simp add: rq_resync_locked_def Let_def)
  show "sched_reachable duo run_allowed"
    unfolding run_allowed_def by (rule sched_reachable.Step[OF run_created_facts(2) Allow_ap])
  show "tasks run_allowed = (tasks run_created)(1 := (tasks run_created 1)\<lparr>t_ap_ok := True\<rparr>)"
    "cpu_current run_allowed = (\<lambda>_. 0)" "next_id run_allowed = 2" "next_tid (thread_tab run_allowed) = 3"
    "wait_queues run_allowed = (\<lambda>_. rix_waitqueue_init)"
    by (simp_all add: run_allowed_def scheduler_task_allow_ap_def f run_created_facts n)
qed

definition run_pinned :: sched where "run_pinned = snd (scheduler_set_affinity duo run_allowed 1 (one_shl 5))"

text \<open>An affinity mask can strand a task.  On a machine with two processors online, a kernel thread that
  may run on application processors is pinned to CPU 5, which does not exist: \<open>scheduler_set_affinity\<close>
  accepts the mask, and the runnable task is then eligible on no processor that is online, although the
  function is documented to refuse masks that would leave a task never runnable.\<close>

theorem affinity_strands_task:
  "sched_reachable duo run_pinned \<and> fst (scheduler_set_affinity duo run_allowed 1 (one_shl 5)) = 0 \<and>
   t_state (tasks run_pinned 1) = TASK_RUNNABLE \<and>
   {c. smp_cpu_state duo c = SMP_CPU_ONLINE \<and> rq_eligible duo run_pinned c 1} = {}"
proof -
  have f: "find_task run_allowed 1 = Some 1"
    by (rule find_task_first) (simp_all add: run_allowed_facts run_created_facts)
  have m: "(one_shl 5 :: u64) AND - 1 \<noteq> 0" "(one_shl 5 :: u64) \<noteq> 0"
    using bit_one_shl[of 5 5, where 'a = 64] by (auto simp del: bit_one_shl)
  have r: "scheduler_set_affinity duo run_allowed 1 (one_shl 5) =
      (0, rq_resync_locked duo (upd_task run_allowed 1 (t_affinity_update (\<lambda>_. one_shl 5))) 1)"
    using m by (simp add: scheduler_set_affinity_def f run_allowed_facts run_created_facts duo_def SMP_MAX_CPUS_def Let_def)
  have "\<not> bit (one_shl 5 :: u64) c" if "c < 2" for c using that by simp
  then show ?thesis
    using r sched_reachable.Step[OF run_allowed_facts(1) Set_affinity, of 1 "one_shl 5"]
    by (auto simp: run_pinned_def run_allowed_facts run_created_facts rq_eligible_task task_elig_def duo_def split: if_splits)
qed

text \<open>The outcome of the idle loop and of a yield when exactly one slot can be picked.\<close>

lemma pick_only:
  assumes sync: "rq_sync e s" and me: "me < SMP_MAX_CPUS" and p: "sched_pick_locked e s me old = (nxt, s')"
    and only: "t_state (tasks s i) = TASK_RUNNABLE" "rq_eligible e s me i"
      "\<And>j. t_state (tasks s j) = TASK_RUNNABLE \<Longrightarrow> rq_eligible e s me j \<Longrightarrow> j = i"
  obtains q where "s' = s\<lparr>cpu_rq := (cpu_rq s)(me := q)\<rparr>" "nxt = i"
  using sync me p
proof (cases rule: sched_pick_cases)
  case (picked q)
  from that[OF picked(1) only(3)[OF picked(3,4)]] show thesis .
next
  case (none q)
  from none(4)[of i] only(1,2) show thesis by blast
qed

lemma idle_claims_only:
  assumes inv: "sched_inv e s" and me: "me < SMP_MAX_CPUS" and ne: "i \<noteq> cpu_current s me"
    and only: "t_state (tasks s i) = TASK_RUNNABLE" "rq_eligible e s me i"
      "\<And>j. t_state (tasks s j) = TASK_RUNNABLE \<Longrightarrow> rq_eligible e s me j \<Longrightarrow> j = i"
  obtains s1 where "scheduler_ap_idle_locked e s me = (Idle_switch i, sched_claim s1 me i)" "tasks s1 = tasks s"
    "cpu_current s1 = cpu_current s" "next_id s1 = next_id s" "thread_tab s1 = thread_tab s" "wait_queues s1 = wait_queues s"
    "cpu_idle_valid s1 me"
proof -
  let ?s0 = "s\<lparr>cpu_idle_valid := (cpu_idle_valid s)(me := True)\<rparr>"
  have i0: "sched_inv e ?s0" by (rule sched_inv_frame[OF inv]) simp_all
  then have sync: "rq_sync e ?s0" by (simp add: sched_inv_def)
  obtain nxt s1 where p: "sched_pick_locked e ?s0 me (cpu_current s me) = (nxt, s1)" by (rule prod.exhaust)
  have t: "tasks ?s0 = tasks s" by simp
  have el: "rq_eligible e ?s0 = rq_eligible e s" by (intro ext) (simp add: rq_eligible_task)
  obtain q where q: "s1 = ?s0\<lparr>cpu_rq := (cpu_rq ?s0)(me := q)\<rparr>" "nxt = i"
    by (rule pick_only[OF sync me p, unfolded el t, OF only])
  have "scheduler_ap_idle_locked e s me = (Idle_switch i, sched_claim (s1\<lparr>cpu_in_idle := (cpu_in_idle s1)(me := False)\<rparr>) me i)"
    using p q ne only(1) sync by (simp add: scheduler_ap_idle_locked_def Let_def rq_verify_iff)
  then show thesis by (rule that) (simp_all add: q)
qed

lemma yield_claims_only:
  assumes inv: "sched_inv e s" and me: "me < SMP_MAX_CPUS" and ne: "i \<noteq> cpu_current s me"
    and nr: "t_state (tasks s (cpu_current s me)) \<noteq> TASK_RUNNING"
    and only: "t_state (tasks s i) = TASK_RUNNABLE" "rq_eligible e s me i"
      "\<And>j. t_state (tasks s j) = TASK_RUNNABLE \<Longrightarrow> rq_eligible e s me j \<Longrightarrow> j = i"
  obtains s1 where "scheduler_yield_locked e s me = (Yield_switch (cpu_current s me) i, sched_claim s1 me i)" "tasks s1 = tasks s"
    "cpu_current s1 = cpu_current s"
proof -
  let ?old = "cpu_current s me"
  let ?s1 = "yield_flip e (yield_enter s me) ?old"
  have s1: "?s1 = yield_enter s me" using nr by (simp add: yield_flip_def yield_enter_def)
  have i1: "sched_inv e ?s1" unfolding s1 by (rule yield_enter_inv[OF inv])
  then have sync: "rq_sync e ?s1" by (simp add: sched_inv_def)
  obtain nxt s2 where p: "sched_pick_locked e ?s1 me ?old = (nxt, s2)" by (rule prod.exhaust)
  have t: "tasks ?s1 = tasks s" "cpu_current ?s1 = cpu_current s" unfolding s1 by (simp_all add: yield_enter_def)
  have el: "rq_eligible e ?s1 = rq_eligible e s" by (intro ext) (simp add: rq_eligible_task t)
  obtain q where q: "s2 = ?s1\<lparr>cpu_rq := (cpu_rq ?s1)(me := q)\<rparr>" "nxt = i"
    by (rule pick_only[OF sync me p, unfolded el t, OF only])
  have fl: "(t_state (tasks s ?old) = TASK_RUNNING) = False" using nr by simp
  note u = yield_unfold[OF me refl refl p refl refl, unfolded fl]
  have "scheduler_yield_locked e s me =
      (Yield_switch ?old i, sched_claim (yield_count s2 ?old False (cpu_need_resched s me)) me i)"
    using u q(2) ne sync by (simp add: rq_verify_iff)
  then show thesis by (rule that) (simp_all add: q(1) t yield_count_def)
qed

definition run_claimed :: sched where "run_claimed = snd (scheduler_ap_idle_locked duo run_allowed 1)"

lemma run_claimed_facts:
  "sched_reachable duo run_claimed"
  "t_state (tasks run_claimed j) = (if j < 2 then TASK_RUNNING else TASK_UNUSED)"
  "t_id (tasks run_claimed j) = (if j = 1 then 1 else 0)" "t_process_pid (tasks run_claimed j) = 0"
  "t_ap_ok (tasks run_claimed j) = (j = 1)" "t_wait_wq (tasks run_claimed j) = None"
  "cpu_current run_claimed = (\<lambda>_. 0)(1 := 1)" "next_id run_claimed = 2" "next_tid (thread_tab run_claimed) = 3"
  "wait_queues run_claimed = (\<lambda>_. rix_waitqueue_init)" "cpu_idle_valid run_claimed 1"
proof -
  have me: "(1::nat) < SMP_MAX_CPUS" by (simp add: SMP_MAX_CPUS_def)
  have el: "rq_eligible duo run_allowed 1 1"
    by (simp add: rq_eligible_task task_elig_def run_allowed_facts run_created_facts duo_def RIX_MAX_TASKS_def SMP_MAX_CPUS_def)
  have ra: "t_state (tasks run_allowed j) = (if j = 0 then TASK_RUNNING else if j = 1 then TASK_RUNNABLE else TASK_UNUSED)" for j
    by (simp add: run_allowed_facts run_created_facts)
  obtain s1 where "scheduler_ap_idle_locked duo run_allowed 1 = (Idle_switch 1, sched_claim s1 1 1)" "tasks s1 = tasks run_allowed"
    "cpu_current s1 = cpu_current run_allowed" "next_id s1 = next_id run_allowed" "thread_tab s1 = thread_tab run_allowed"
    "wait_queues s1 = wait_queues run_allowed" "cpu_idle_valid s1 1"
    by (rule idle_claims_only[OF reachable_inv[OF run_allowed_facts(1)] me, of 1])
      (use el in \<open>auto simp: run_allowed_facts(3) ra split: if_splits\<close>)
  then show "t_state (tasks run_claimed j) = (if j < 2 then TASK_RUNNING else TASK_UNUSED)"
    "t_id (tasks run_claimed j) = (if j = 1 then 1 else 0)" "t_process_pid (tasks run_claimed j) = 0"
    "t_ap_ok (tasks run_claimed j) = (j = 1)" "t_wait_wq (tasks run_claimed j) = None"
    "cpu_current run_claimed = (\<lambda>_. 0)(1 := 1)" "next_id run_claimed = 2" "next_tid (thread_tab run_claimed) = 3"
    "wait_queues run_claimed = (\<lambda>_. rix_waitqueue_init)" "cpu_idle_valid run_claimed 1"
    by (auto simp: run_claimed_def claim_fields ra run_allowed_facts run_created_facts)
  show "sched_reachable duo run_claimed"
    unfolding run_claimed_def by (rule sched_reachable.Step[OF run_allowed_facts(1) Ap_idle[OF me]])
qed

definition run_dead :: sched where "run_dead = scheduler_exit_current_locked run_claimed 1"
definition run_recycled :: sched where "run_recycled = snd (snd (scheduler_create_kernel_thread duo no_processes run_dead 8192 0))"
definition run_blocked :: sched where "run_blocked = scheduler_block_current run_recycled 0"
definition run_shared :: sched where "run_shared = snd (scheduler_yield_locked duo run_blocked 0)"

lemma run_dead_facts:
  "sched_reachable duo run_dead"
  "t_state (tasks run_dead j) = (if j = 0 then TASK_RUNNING else if j = 1 then TASK_DEAD else TASK_UNUSED)"
  "cpu_current run_dead = (\<lambda>_. 0)(1 := 1)" "next_id run_dead = 2" "next_tid (thread_tab run_dead) = 3"
proof -
  have r: "run_dead = task_mark_dead_locked run_claimed 1"
    by (simp add: run_dead_def scheduler_exit_current_locked_def run_claimed_facts)
  show "sched_reachable duo run_dead"
    unfolding run_dead_def by (rule sched_reachable.Step[OF run_claimed_facts(1) Exit_current])
  obtain x where "tasks run_dead = (tasks run_claimed)(1 := x)" "t_state x = TASK_DEAD" "cpu_current run_dead = cpu_current run_claimed"
    unfolding r by (rule mark_dead_shape[of run_claimed 1])
  then show "t_state (tasks run_dead j) = (if j = 0 then TASK_RUNNING else if j = 1 then TASK_DEAD else TASK_UNUSED)"
    "cpu_current run_dead = (\<lambda>_. 0)(1 := 1)" by (auto simp: run_claimed_facts)
  have "next_id (task_mark_dead_locked s i) = next_id s" for s i
    by (simp add: task_mark_dead_locked_def task_drop_waiter_def Let_def split: option.split)
  then show "next_id run_dead = 2" by (simp add: r run_claimed_facts)
  have "next_tid (thread_tab (task_mark_dead_locked s i)) = next_tid (thread_tab s)" for s i
    by (rule mark_dead_shape[of s i]) (simp add: thread_free_locked_def split: option.split)
  then show "next_tid (thread_tab run_dead) = 3" by (simp add: r run_claimed_facts)
qed

lemma run_recycled_facts:
  "sched_reachable duo run_recycled"
  "t_state (tasks run_recycled j) = (if j = 0 then TASK_RUNNING else if j = 1 then TASK_RUNNABLE else TASK_UNUSED)"
  "\<not> t_ap_ok (tasks run_recycled 1)" "t_affinity (tasks run_recycled 1) = - 1"
  "cpu_current run_recycled = (\<lambda>_. 0)(1 := 1)"
proof -
  note d = run_dead_facts
  show "sched_reachable duo run_recycled"
    unfolding run_recycled_def by (rule sched_reachable.Step[OF d(1) Create_kernel]) (simp add: d)
  obtain s1 where al: "task_alloc run_dead = Some (1, s1)" using task_alloc_first[of run_dead] by (auto simp: d)
  obtain x s' where "scheduler_create_kernel_thread duo no_processes run_dead 8192 0 = (0, Some (next_id run_dead), s')"
    "tasks s' = (tasks run_dead)(1 := x)" "t_state x = TASK_RUNNABLE" "\<not> t_ap_ok x" "t_affinity x = - 1"
    "cpu_current s' = cpu_current run_dead"
    by (rule create_kernel_outcome[OF reachable_inv[OF d(1)] al, where entry = 8192 and lookup = no_processes and arg = 0]) (simp_all add: d)
  then show "t_state (tasks run_recycled j) = (if j = 0 then TASK_RUNNING else if j = 1 then TASK_RUNNABLE else TASK_UNUSED)"
    "\<not> t_ap_ok (tasks run_recycled 1)" "t_affinity (tasks run_recycled 1) = - 1"
    "cpu_current run_recycled = (\<lambda>_. 0)(1 := 1)"
    by (simp_all add: run_recycled_def d)
qed

lemma run_blocked_facts:
  "sched_reachable duo run_blocked"
  "t_state (tasks run_blocked j) = (if j = 0 then TASK_BLOCKED else if j = 1 then TASK_RUNNABLE else TASK_UNUSED)"
  "\<not> t_ap_ok (tasks run_blocked 1)" "t_affinity (tasks run_blocked 1) = - 1"
  "cpu_current run_blocked = (\<lambda>_. 0)(1 := 1)"
  using run_recycled_facts sched_reachable.Step[OF run_recycled_facts(1) Block_current, of 0]
  by (auto simp: run_blocked_def scheduler_block_current_def SMP_MAX_CPUS_def Let_def)

lemma run_shared_facts:
  "sched_reachable duo run_shared" "t_state (tasks run_shared j) = (if j = 0 then TASK_BLOCKED else if j = 1 then TASK_RUNNING else TASK_UNUSED)"
  "\<not> t_ap_ok (tasks run_shared 1)" "cpu_current run_shared = (\<lambda>_. 0)(0 := 1, 1 := 1)"
proof -
  note b = run_blocked_facts
  have me: "(0::nat) < SMP_MAX_CPUS" by (simp add: SMP_MAX_CPUS_def)
  show "sched_reachable duo run_shared"
    unfolding run_shared_def by (rule sched_reachable.Step[OF b(1) Yield[OF me]])
  have el: "rq_eligible duo run_blocked 0 1"
    by (simp add: rq_eligible_task task_elig_def b duo_def rq_cpu_is_bsp_def RIX_MAX_TASKS_def SMP_MAX_CPUS_def del: One_nat_def)
  obtain s1 where "scheduler_yield_locked duo run_blocked 0 = (Yield_switch (cpu_current run_blocked 0) 1, sched_claim s1 0 1)"
    "tasks s1 = tasks run_blocked" "cpu_current s1 = cpu_current run_blocked"
    by (rule yield_claims_only[OF reachable_inv[OF b(1)] me, of 1]) (use el in \<open>auto simp: b split: if_splits\<close>)
  then show "t_state (tasks run_shared j) = (if j = 0 then TASK_BLOCKED else if j = 1 then TASK_RUNNING else TASK_UNUSED)"
    "\<not> t_ap_ok (tasks run_shared 1)" "cpu_current run_shared = (\<lambda>_. 0)(0 := 1, 1 := 1)"
    by (auto simp: run_shared_def claim_fields b simp del: One_nat_def)
qed

text \<open>A slot can be recycled while a processor still stands on it.  A task that exits on an application
  processor stays that processor's current slot until its next yield; in between the slot is dead, and
  another processor may fill it with a new task and run it.  Then both processors have the same running task
  as their current one, and the yield of the first, which belongs to the dead task, finds a running task and
  goes on with it.\<close>

theorem dead_slot_runs_twice:
  "sched_reachable duo run_shared \<and> t_state (tasks run_shared 1) = TASK_RUNNING \<and>
   cpu_current run_shared 0 = 1 \<and> cpu_current run_shared 1 = 1 \<and>
   fst (scheduler_yield_locked duo run_shared 1) = Yield_continue"
proof -
  note b = run_shared_facts
  have me: "(1::nat) < SMP_MAX_CPUS" by (simp add: SMP_MAX_CPUS_def)
  have run: "t_state (tasks run_shared 1) = TASK_RUNNING" by (simp add: b)
  obtain out s' where y: "scheduler_yield_locked duo run_shared 1 = (out, s')" by (rule prod.exhaust)
  have c: "1 = cpu_current run_shared 1" by (simp add: b)
  have no: "\<not> (t_state (tasks run_shared n) = TASK_RUNNABLE \<and> rq_eligible duo run_shared 1 n)" for n
    by (simp add: b)
  have "out = Yield_continue"
    using yield_outcome[OF reachable_inv[OF b(1)] me c y run] no by blast
  then show ?thesis using y b by simp
qed

text \<open>What the wake loop does to the slots.\<close>

lemma wake_slots_tasks:
  "tasks (snd (wake_slots e match is (a, s))) j =
     (if j \<in> set is \<and> t_state (tasks s j) = TASK_BLOCKED \<and> match (tasks s j)
      then (tasks s j)\<lparr>t_state := TASK_RUNNABLE\<rparr> else tasks s j) \<and>
   cpu_current (snd (wake_slots e match is (a, s))) = cpu_current s \<and>
   cpu_idle_valid (snd (wake_slots e match is (a, s))) = cpu_idle_valid s"
proof (induction "is" arbitrary: a s)
  case (Cons i "is")
  let ?s = "rq_add_eligible_locked e (upd_task s i (t_state_update (\<lambda>_. TASK_RUNNABLE))) i"
  show ?case
  proof (cases "t_state (tasks s i) = TASK_BLOCKED \<and> match (tasks s i)")
    case True
    have "wake_slots e match (i # is) (a, s) = wake_slots e match is
        (a \<or> (i \<noteq> 0 \<and> t_process_pid (tasks s i) = 0 \<and> t_ap_ok (tasks s i)), ?s)"
      using True by (simp add: wake_slots_def)
    then show ?thesis using True by (simp add: Cons.IH)
  next
    case False
    then have "wake_slots e match (i # is) (a, s) = wake_slots e match is (a, s)" by (auto simp: wake_slots_def)
    then show ?thesis using False by (auto simp: Cons.IH)
  qed
qed (simp add: wake_slots_def)

definition run_prepared :: sched where "run_prepared = snd (snd (scheduler_wait_prepare run_claimed 1 0))"
definition run_waiting :: sched where "run_waiting = scheduler_block_current run_prepared 1"
definition run_woken :: sched where "run_woken = scheduler_wake_queue duo run_waiting 0"

lemma run_prepared_facts:
  "sched_reachable duo run_prepared" "t_state (tasks run_prepared j) = (if j < 2 then TASK_RUNNING else TASK_UNUSED)"
  "t_wait_wq (tasks run_prepared j) = (if j = 1 then Some 0 else None)" "cpu_current run_prepared = (\<lambda>_. 0)(1 := 1)"
  "cpu_idle_valid run_prepared 1"
proof -
  note c = run_claimed_facts
  show "sched_reachable duo run_prepared"
    unfolding run_prepared_def
    by (rule sched_reachable.Step[OF c(1) Wait_prepare]) (simp_all add: c rix_waitqueue_init_def alive_def)
  have "wq_used rix_waitqueue_init = {}" by (simp add: wq_used_def rix_waitqueue_init_def)
  then obtain h q where p: "rix_waitqueue_prepare rix_waitqueue_init (t_id (tasks run_claimed 1)) = (0, Some h, q)"
    by (rule_tac wq_prepare_cases[of rix_waitqueue_init "t_id (tasks run_claimed 1)"]) (auto simp: RIX_WQ_MAX_WAITERS_def lessThan_empty_iff)
  have r: "run_prepared = upd_task (run_claimed\<lparr>wait_queues := (wait_queues run_claimed)(0 := q)\<rparr>) 1
      (\<lambda>t. t\<lparr>t_wait_wq := Some 0, t_wait_handle := h\<rparr>)"
    using p by (simp add: run_prepared_def scheduler_wait_prepare_def Let_def c SMP_MAX_CPUS_def)
  show "t_state (tasks run_prepared j) = (if j < 2 then TASK_RUNNING else TASK_UNUSED)"
    "t_wait_wq (tasks run_prepared j) = (if j = 1 then Some 0 else None)" "cpu_current run_prepared = (\<lambda>_. 0)(1 := 1)"
    "cpu_idle_valid run_prepared 1"
    unfolding r by (simp_all add: c del: One_nat_def)
qed

lemma run_woken_facts:
  "sched_reachable duo run_woken"
  "t_state (tasks run_woken j) = (if j = 0 then TASK_RUNNING else if j = 1 then TASK_RUNNABLE else TASK_UNUSED)"
  "cpu_current run_woken = (\<lambda>_. 0)(1 := 1)" "cpu_idle_valid run_woken 1"
proof -
  note p = run_prepared_facts
  have w: "t_state (tasks run_waiting j) = (if j = 0 then TASK_RUNNING else if j = 1 then TASK_BLOCKED else TASK_UNUSED)"
    "t_wait_wq (tasks run_waiting j) = (if j = 1 then Some 0 else None)" "cpu_current run_waiting = (\<lambda>_. 0)(1 := 1)"
    "cpu_idle_valid run_waiting 1" for j
    by (simp_all add: run_waiting_def scheduler_block_current_def Let_def p SMP_MAX_CPUS_def del: One_nat_def)
  show "sched_reachable duo run_woken"
    unfolding run_woken_def run_waiting_def
    by (rule sched_reachable.Step[OF sched_reachable.Step[OF p(1) Block_current] Wake_queue])
  show "t_state (tasks run_woken j) = (if j = 0 then TASK_RUNNING else if j = 1 then TASK_RUNNABLE else TASK_UNUSED)"
    "cpu_current run_woken = (\<lambda>_. 0)(1 := 1)" "cpu_idle_valid run_woken 1"
    using wake_slots_tasks by (auto simp: run_woken_def scheduler_wake_queue_def Let_def case_prod_beta w RIX_MAX_TASKS_def simp del: One_nat_def)
qed

text \<open>A task woken between blocking and yielding loses its context on an application processor.  It is
  runnable again when it yields, and the pick returns the yielding slot itself; since the yield did not flip
  its state, the code takes it for a task that cannot run and leaves for the idle stack, although the task is
  runnable and was picked.\<close>

theorem early_wakeup_goes_idle:
  "sched_reachable duo run_woken \<and> t_state (tasks run_woken (cpu_current run_woken 1)) = TASK_RUNNABLE \<and>
   fst (scheduler_yield_locked duo run_woken 1) = Yield_idle"
proof -
  note b = run_woken_facts
  have me: "(1::nat) < SMP_MAX_CPUS" by (simp add: SMP_MAX_CPUS_def)
  have cur: "cpu_current run_woken 1 = 1" by (simp add: b)
  let ?s1 = "yield_flip duo (yield_enter run_woken 1) 1"
  have s1: "?s1 = yield_enter run_woken 1" by (simp add: yield_flip_def yield_enter_def b)
  have i1: "sched_inv duo ?s1" unfolding s1 by (rule yield_enter_inv[OF reachable_inv[OF b(1)]])
  then have sync: "rq_sync duo ?s1" by (simp add: sched_inv_def)
  obtain nxt s2 where p: "sched_pick_locked duo ?s1 1 1 = (nxt, s2)" by (rule prod.exhaust)
  note pk = inv_pick[OF i1 me p]
  have t2: "t_state (tasks s2 j) = (if j = 0 then TASK_RUNNING else if j = 1 then TASK_RUNNABLE else TASK_UNUSED)" for j
    unfolding pk(2) s1 by (simp add: yield_enter_def b)
  have n: "nxt = 1" using pk(5) t2[of nxt] by (auto split: if_splits)
  obtain q where "s2 = ?s1\<lparr>cpu_rq := (cpu_rq ?s1)(1 := q)\<rparr>" using sync me p by (rule sched_pick_keeps)
  then have "cpu_idle_valid s2 = cpu_idle_valid ?s1" by simp
  also have "\<dots> = cpu_idle_valid run_woken" unfolding s1 by (simp add: yield_enter_def)
  finally have idle: "cpu_idle_valid s2 1" using b(4) by simp
  have fl: "(t_state (tasks run_woken 1) = TASK_RUNNING) = False" by (simp add: b)
  note u = yield_unfold[OF me cur[symmetric] refl p refl refl, unfolded fl]
  show ?thesis using u n t2[of 1] idle sync b by (simp add: rq_verify_iff)
qed

end
