(* ===== verification/Locks.thy ===== *)
theory Locks
  imports Rix_Prelude
begin

text \<open>
  The cooperative locks of \<^verbatim>\<open>kernel/sync\<close>: mutex, reader/writer lock, counting semaphore and
  the atomic reference count.  Every function of the first three runs under the guard spinlock and is
  one step; a waiting loop is a recursion over what the other tasks do to the lock during each
  \<open>scheduler_yield\<close>, a list of functions.  The calling process is the argument \<open>self\<close>.  The reference
  count is lock free: its functions are split into their atomic instructions.
\<close>

subsection \<open>Mutex\<close>

record rix_mutex =
  mx_owner :: u64
  mx_locked :: bool

definition rix_mutex_init :: rix_mutex where
  "rix_mutex_init = \<lparr>mx_owner = 0, mx_locked = False\<rparr>"

definition rix_mutex_trylock :: "u64 \<Rightarrow> rix_mutex \<Rightarrow> rc \<times> rix_mutex" where
  "rix_mutex_trylock self m =
     (if \<not> mx_locked m then (0, m\<lparr>mx_locked := True, mx_owner := self\<rparr>)
      else if mx_owner m = self then (-2, m)
      else (1, m))"

text \<open>\<open>None\<close>: still waiting when the list of yields is used up.\<close>

fun rix_mutex_lock :: "u64 \<Rightarrow> (rix_mutex \<Rightarrow> rix_mutex) list \<Rightarrow> rix_mutex \<Rightarrow> rc option \<times> rix_mutex" where
  "rix_mutex_lock self yields m =
     (case rix_mutex_trylock self m of
        (rc, m1) \<Rightarrow>
          if rc = 0 \<or> rc < 0 then (Some rc, m1)
          else case yields of [] \<Rightarrow> (None, m1) | y # ys \<Rightarrow> rix_mutex_lock self ys (y m1))"

text \<open>The interrupt flag is saved and masked first, and restored only when the lock is not taken.\<close>

definition rix_mutex_lock_irqsave ::
  "u64 \<Rightarrow> (rix_mutex \<Rightarrow> rix_mutex) list \<Rightarrow> bool \<Rightarrow> rix_mutex \<Rightarrow> rc option \<times> bool \<times> bool \<times> rix_mutex" where
  "rix_mutex_lock_irqsave self yields irq_on m =
     (let saved = irq_on
      in case rix_mutex_lock self yields m of
           (None, m1) \<Rightarrow> (None, saved, False, m1)
         | (Some rc, m1) \<Rightarrow> (Some rc, saved, (if rc \<noteq> 0 then saved else False), m1))"

definition rix_mutex_unlock :: "u64 \<Rightarrow> rix_mutex \<Rightarrow> rc \<times> rix_mutex" where
  "rix_mutex_unlock self m =
     (if \<not> mx_locked m \<or> mx_owner m \<noteq> self then (-3, m)
      else (0, m\<lparr>mx_locked := False, mx_owner := 0\<rparr>))"

definition rix_mutex_unlock_irqrestore :: "u64 \<Rightarrow> bool \<Rightarrow> rix_mutex \<Rightarrow> rc \<times> bool \<times> rix_mutex" where
  "rix_mutex_unlock_irqrestore self flags m = (case rix_mutex_unlock self m of (rc, m1) \<Rightarrow> (rc, flags, m1))"

definition rix_mutex_owner :: "rix_mutex \<Rightarrow> u64" where
  "rix_mutex_owner m = (if mx_locked m then mx_owner m else 0)"

subsection \<open>Reader/writer lock\<close>

record rix_rwlock =
  rw_readers :: u32
  rw_waiting_writers :: u32
  rw_writer :: u64
  rw_write_locked :: bool

definition rix_rwlock_init :: rix_rwlock where
  "rix_rwlock_init = \<lparr>rw_readers = 0, rw_waiting_writers = 0, rw_writer = 0, rw_write_locked = False\<rparr>"

definition rix_rwlock_read_trylock :: "rix_rwlock \<Rightarrow> rc \<times> rix_rwlock" where
  "rix_rwlock_read_trylock l =
     (if \<not> rw_write_locked l \<and> rw_waiting_writers l = 0 then (0, l\<lparr>rw_readers := rw_readers l + 1\<rparr>)
      else (1, l))"

fun rix_rwlock_read_lock :: "(rix_rwlock \<Rightarrow> rix_rwlock) list \<Rightarrow> rix_rwlock \<Rightarrow> rc option \<times> rix_rwlock" where
  "rix_rwlock_read_lock yields l =
     (case rix_rwlock_read_trylock l of
        (rc, l1) \<Rightarrow>
          if rc = 0 \<or> rc < 0 then (Some rc, l1)
          else case yields of [] \<Rightarrow> (None, l1) | y # ys \<Rightarrow> rix_rwlock_read_lock ys (y l1))"

definition rix_rwlock_read_unlock :: "rix_rwlock \<Rightarrow> rc \<times> rix_rwlock" where
  "rix_rwlock_read_unlock l =
     (if rw_readers l = 0 then (-3, l) else (0, l\<lparr>rw_readers := rw_readers l - 1\<rparr>))"

definition rix_rwlock_write_trylock :: "u64 \<Rightarrow> rix_rwlock \<Rightarrow> rc \<times> rix_rwlock" where
  "rix_rwlock_write_trylock self l =
     (if rw_write_locked l \<and> rw_writer l = self then (-2, l)
      else if \<not> rw_write_locked l \<and> rw_readers l = 0 then (0, l\<lparr>rw_write_locked := True, rw_writer := self\<rparr>)
      else (1, l))"

fun write_lock_loop :: "u64 \<Rightarrow> (rix_rwlock \<Rightarrow> rix_rwlock) list \<Rightarrow> rix_rwlock \<Rightarrow> rc option \<times> rix_rwlock" where
  "write_lock_loop self yields l =
     (case rix_rwlock_write_trylock self l of
        (rc, l1) \<Rightarrow>
          if rc = 0 \<or> rc < 0 then (Some rc, l1\<lparr>rw_waiting_writers := rw_waiting_writers l1 - 1\<rparr>)
          else case yields of [] \<Rightarrow> (None, l1) | y # ys \<Rightarrow> write_lock_loop self ys (y l1))"

definition rix_rwlock_write_lock :: "u64 \<Rightarrow> (rix_rwlock \<Rightarrow> rix_rwlock) list \<Rightarrow> rix_rwlock \<Rightarrow> rc option \<times> rix_rwlock" where
  "rix_rwlock_write_lock self yields l =
     write_lock_loop self yields (l\<lparr>rw_waiting_writers := rw_waiting_writers l + 1\<rparr>)"

definition rix_rwlock_write_unlock :: "u64 \<Rightarrow> rix_rwlock \<Rightarrow> rc \<times> rix_rwlock" where
  "rix_rwlock_write_unlock self l =
     (if \<not> rw_write_locked l \<or> rw_writer l \<noteq> self then (-3, l)
      else (0, l\<lparr>rw_write_locked := False, rw_writer := 0\<rparr>))"

subsection \<open>Semaphore\<close>

record rix_sem =
  sm_count :: u32
  sm_max :: u32

definition rix_sem_init :: "u32 \<Rightarrow> u32 \<Rightarrow> rix_sem" where
  "rix_sem_init initial mx =
     (let initial1 = (if initial > mx then mx else initial);
          mx1 = (if mx \<noteq> 0 then mx else 1)
      in \<lparr>sm_count = (if initial1 > mx1 then mx1 else initial1), sm_max = mx1\<rparr>)"

definition rix_sem_trydown :: "rix_sem \<Rightarrow> rc \<times> rix_sem" where
  "rix_sem_trydown s = (if sm_count s > 0 then (0, s\<lparr>sm_count := sm_count s - 1\<rparr>) else (1, s))"

fun rix_sem_down :: "(rix_sem \<Rightarrow> rix_sem) list \<Rightarrow> rix_sem \<Rightarrow> rc option \<times> rix_sem" where
  "rix_sem_down yields s =
     (case rix_sem_trydown s of
        (rc, s1) \<Rightarrow>
          if rc = 0 \<or> rc < 0 then (Some rc, s1)
          else case yields of [] \<Rightarrow> (None, s1) | y # ys \<Rightarrow> rix_sem_down ys (y s1))"

text \<open>The loop with a deadline: each round reads the clock once after a failed try.\<close>

fun sem_down_until :: "u64 \<Rightarrow> (u64 \<times> (rix_sem \<Rightarrow> rix_sem)) list \<Rightarrow> rix_sem \<Rightarrow> rc option \<times> rix_sem" where
  "sem_down_until deadline rounds s =
     (case rix_sem_trydown s of
        (rc, s1) \<Rightarrow>
          if rc = 0 \<or> rc < 0 then (Some rc, s1)
          else case rounds of
            [] \<Rightarrow> (None, s1)
          | (now, y) # rs \<Rightarrow> if now \<ge> deadline then (Some 1, s1) else sem_down_until deadline rs (y s1))"

definition sem_deadline :: "u64 \<Rightarrow> u64 \<Rightarrow> u64" where
  "sem_deadline start timeout_ns =
     (let deadline = start + timeout_ns in if deadline < start then - 1 else deadline)"

definition rix_sem_down_timeout ::
  "u64 \<Rightarrow> u64 \<Rightarrow> (u64 \<times> (rix_sem \<Rightarrow> rix_sem)) list \<Rightarrow> rix_sem \<Rightarrow> rc option \<times> rix_sem" where
  "rix_sem_down_timeout start timeout_ns rounds s = sem_down_until (sem_deadline start timeout_ns) rounds s"

definition rix_sem_up :: "rix_sem \<Rightarrow> rc \<times> rix_sem" where
  "rix_sem_up s = (if sm_count s \<ge> sm_max s then (-2, s) else (0, s\<lparr>sm_count := sm_count s + 1\<rparr>))"

definition rix_sem_count :: "rix_sem \<Rightarrow> u32" where
  "rix_sem_count s = sm_count s"

declare rix_mutex_lock.simps [simp del]
declare rix_rwlock_read_lock.simps [simp del]
declare write_lock_loop.simps [simp del]
declare rix_sem_down.simps [simp del]
declare sem_down_until.simps [simp del]

subsection \<open>Reference count\<close>

text \<open>The count is one atomic word.  A thread inside \<open>rix_ref_acquire\<close> has loaded a value and is about to
  compare-and-swap; a thread inside \<open>rix_ref_release\<close> whose decrement found zero is about to store zero.\<close>

datatype ref_pc = Ref_idle | Ref_loaded u64 | Ref_underflow

definition ref_init :: u64 where
  "ref_init = 1"

definition ref_load :: "u64 \<Rightarrow> rc option \<times> ref_pc" where
  "ref_load refs = (if refs = 0 then (Some (-1), Ref_idle) else (None, Ref_loaded refs))"

text \<open>A failed exchange leaves the loaded value behind and the loop starts over with a fresh load.\<close>

definition ref_cas :: "u64 \<Rightarrow> u64 \<Rightarrow> rc option \<times> u64 \<times> ref_pc" where
  "ref_cas n refs = (if refs = n then (Some 0, n + 1, Ref_idle) else (None, refs, Ref_idle))"

definition ref_fetch_sub :: "u64 \<Rightarrow> rc option \<times> u64 \<times> ref_pc" where
  "ref_fetch_sub before =
     (if before = 0 then (None, before - 1, Ref_underflow)
      else (Some (if before = 1 then 1 else 0), before - 1, Ref_idle))"

definition ref_store_zero :: "rc option \<times> u64 \<times> ref_pc" where
  "ref_store_zero = (Some (-1), 0, Ref_idle)"

subsection \<open>Exclusive holders\<close>

text \<open>A lock that at most one agent holds: taking it succeeds only when it is free, giving it back only
  for its holder, and nothing else changes the holder.  Then along any run the agents that took the lock
  and have not given it back are exactly the recorded holder.\<close>

datatype ('p, 'a) lock_event = Take 'p | Give 'p | Other 'a

locale exclusive_lock =
  fixes take_op :: "'p \<Rightarrow> 's \<Rightarrow> rc \<times> 's"
    and give_op :: "'p \<Rightarrow> 's \<Rightarrow> rc \<times> 's"
    and other_op :: "'a \<Rightarrow> 's \<Rightarrow> 's"
    and holder :: "'s \<Rightarrow> 'p option"
  assumes take_ok: "take_op p s = (0, s') \<Longrightarrow> holder s = None \<and> holder s' = Some p"
    and take_fail: "take_op p s = (r, s') \<Longrightarrow> r \<noteq> 0 \<Longrightarrow> holder s' = holder s"
    and give_ok: "give_op p s = (0, s') \<Longrightarrow> holder s = Some p \<and> holder s' = None"
    and give_fail: "give_op p s = (r, s') \<Longrightarrow> r \<noteq> 0 \<Longrightarrow> holder s' = holder s"
    and other_keeps: "holder (other_op a s) = holder s"
begin

fun lock_step :: "('p, 'a) lock_event \<Rightarrow> 's \<times> 'p set \<Rightarrow> 's \<times> 'p set" where
  "lock_step (Take p) (s, hs) = (let (r, s') = take_op p s in (s', if r = 0 then insert p hs else hs))"
| "lock_step (Give p) (s, hs) = (let (r, s') = give_op p s in (s', if r = 0 then hs - {p} else hs))"
| "lock_step (Other a) (s, hs) = (other_op a s, hs)"

lemma lock_step_holders:
  assumes "hs = set_option (holder s)" "lock_step ev (s, hs) = (s', hs')"
  shows "hs' = set_option (holder s')"
proof (cases ev)
  case (Take p)
  obtain r s1 where t: "take_op p s = (r, s1)" by (rule prod.exhaust)
  show ?thesis
  proof (cases "r = 0")
    case True
    with take_ok[of p s s1] t assms Take show ?thesis by simp
  next
    case False
    with take_fail[OF t] t assms Take show ?thesis by simp
  qed
next
  case (Give p)
  obtain r s1 where t: "give_op p s = (r, s1)" by (rule prod.exhaust)
  show ?thesis
  proof (cases "r = 0")
    case True
    with give_ok[of p s s1] t assms Give show ?thesis by simp
  next
    case False
    with give_fail[OF t] t assms Give show ?thesis by simp
  qed
next
  case (Other a)
  then show ?thesis using assms other_keeps by auto
qed

lemma lock_run_holders:
  "hs = set_option (holder s) \<Longrightarrow> fold lock_step evs (s, hs) = (s', hs') \<Longrightarrow> hs' = set_option (holder s')"
proof (induction evs arbitrary: s hs)
  case (Cons ev evs)
  obtain s1 hs1 where st: "lock_step ev (s, hs) = (s1, hs1)" by (rule prod.exhaust)
  have "fold lock_step evs (s1, hs1) = (s', hs')" using Cons.prems(2) st by simp
  with Cons.IH[OF lock_step_holders[OF Cons.prems(1) st]] show ?case .
qed simp

end

definition mutex_holder :: "rix_mutex \<Rightarrow> u64 option" where
  "mutex_holder m = (if mx_locked m then Some (mx_owner m) else None)"

interpretation mx: exclusive_lock rix_mutex_trylock rix_mutex_unlock "\<lambda>(_ :: unit) m. m" mutex_holder
  by unfold_locales (auto simp: rix_mutex_trylock_def rix_mutex_unlock_def mutex_holder_def split: if_splits)

text \<open>The other steps on a reader/writer lock: readers come and go, writers queue and leave the queue.\<close>

datatype rw_other = Read_try | Read_unlock | Writer_queues | Writer_leaves

fun rw_other_step :: "rw_other \<Rightarrow> rix_rwlock \<Rightarrow> rix_rwlock" where
  "rw_other_step Read_try l = snd (rix_rwlock_read_trylock l)"
| "rw_other_step Read_unlock l = snd (rix_rwlock_read_unlock l)"
| "rw_other_step Writer_queues l = l\<lparr>rw_waiting_writers := rw_waiting_writers l + 1\<rparr>"
| "rw_other_step Writer_leaves l = l\<lparr>rw_waiting_writers := rw_waiting_writers l - 1\<rparr>"

definition rw_holder :: "rix_rwlock \<Rightarrow> u64 option" where
  "rw_holder l = (if rw_write_locked l then Some (rw_writer l) else None)"

interpretation rw: exclusive_lock rix_rwlock_write_trylock rix_rwlock_write_unlock rw_other_step rw_holder
proof
  show "rw_holder (rw_other_step a l) = rw_holder l" for a l
    by (cases a) (simp_all add: rw_holder_def rix_rwlock_read_trylock_def rix_rwlock_read_unlock_def)
qed (auto simp: rix_rwlock_write_trylock_def rix_rwlock_write_unlock_def rw_holder_def split: if_splits)

subsection \<open>Readers and writers\<close>

text \<open>A run that also counts the readers inside: granted reads less the reads given back.\<close>

fun rw_step :: "(u64, rw_other) lock_event \<Rightarrow> rix_rwlock \<times> u64 set \<times> nat \<Rightarrow> rix_rwlock \<times> u64 set \<times> nat" where
  "rw_step (Take p) (l, ws, n) = (let (r, l') = rix_rwlock_write_trylock p l in (l', if r = 0 then insert p ws else ws, n))"
| "rw_step (Give p) (l, ws, n) = (let (r, l') = rix_rwlock_write_unlock p l in (l', if r = 0 then ws - {p} else ws, n))"
| "rw_step (Other Read_try) (l, ws, n) = (let (r, l') = rix_rwlock_read_trylock l in (l', ws, if r = 0 then n + 1 else n))"
| "rw_step (Other Read_unlock) (l, ws, n) = (let (r, l') = rix_rwlock_read_unlock l in (l', ws, if r = 0 then n - 1 else n))"
| "rw_step (Other Writer_queues) (l, ws, n) = (rw_other_step Writer_queues l, ws, n)"
| "rw_step (Other Writer_leaves) (l, ws, n) = (rw_other_step Writer_leaves l, ws, n)"

definition rw_inv :: "rix_rwlock \<times> u64 set \<times> nat \<Rightarrow> bool" where
  "rw_inv s \<longleftrightarrow> (case s of (l, ws, n) \<Rightarrow>
     ws = set_option (rw_holder l) \<and> unat (rw_readers l) = n \<and> (rw_write_locked l \<longrightarrow> n = 0))"

lemma rw_step_lock:
  "(case rw_step ev (l, ws, n) of (l', ws', n') \<Rightarrow> (l', ws')) = rw.lock_step ev (l, ws)"
proof (cases ev)
  case (Other a)
  then show ?thesis by (cases a) (simp_all add: case_prod_beta Let_def)
qed (simp_all add: case_prod_beta Let_def)

lemma rw_step_inv:
  assumes "rw_inv (l, ws, n)" "n < 2 ^ 32 - 1"
  shows "rw_inv (rw_step ev (l, ws, n)) \<and> snd (snd (rw_step ev (l, ws, n))) \<le> n + 1"
proof -
  obtain l' ws' n' where st: "rw_step ev (l, ws, n) = (l', ws', n')" by (rule prod_cases3)
  have ws: "ws' = set_option (rw_holder l')"
    using rw.lock_step_holders[of ws l ev l' ws'] rw_step_lock[of ev l ws n] st assms(1) by (simp add: rw_inv_def)
  have n: "unat (rw_readers l) = n" "rw_write_locked l \<longrightarrow> n = 0" using assms(1) by (simp_all add: rw_inv_def)
  have up: "unat (rw_readers l + 1) = n + 1" using n(1) assms(2) unat_plus_1_small[of "rw_readers l"] by simp
  have down: "rw_readers l \<noteq> 0 \<Longrightarrow> unat (rw_readers l - 1) = n - 1" using n(1) unat_minus_1[of "rw_readers l"] by simp
  have zero: "rw_readers l = 0 \<longleftrightarrow> n = 0" using n(1) by (metis unat_0 unat_eq_0)
  have "unat (rw_readers l') = n' \<and> (rw_write_locked l' \<longrightarrow> n' = 0) \<and> n' \<le> n + 1"
  proof (cases ev)
    case (Other a)
    then show ?thesis
      using st n up down zero
      by (cases a) (auto simp: rix_rwlock_read_trylock_def rix_rwlock_read_unlock_def split: if_splits)
  qed (use st n zero in \<open>auto simp: rix_rwlock_write_trylock_def rix_rwlock_write_unlock_def split: if_splits\<close>)
  with ws show ?thesis by (simp add: st rw_inv_def)
qed

lemma rw_run_inv:
  "rw_inv (l, ws, n) \<Longrightarrow> n + length evs < 2 ^ 32 \<Longrightarrow> rw_inv (fold rw_step evs (l, ws, n))"
proof (induction evs arbitrary: l ws n)
  case (Cons ev evs)
  obtain l' ws' n' where st: "rw_step ev (l, ws, n) = (l', ws', n')" by (rule prod_cases3)
  have "n < 2 ^ 32 - 1" using Cons.prems(2) by simp
  from rw_step_inv[OF Cons.prems(1) this, of ev] st have "rw_inv (l', ws', n')" "n' \<le> n + 1" by simp_all
  then show ?case using Cons.IH[of l' ws' n'] Cons.prems(2) st by simp
qed simp

lemma write_lock_waiting:
  assumes "write_lock_loop self ys l = (Some r, l')" "\<forall>y \<in> set ys. \<forall>x. rw_waiting_writers (y x) = rw_waiting_writers x"
  shows "rw_waiting_writers l' = rw_waiting_writers l - 1"
  using assms
proof (induction ys arbitrary: l)
  case Nil
  then show ?case
    by (simp add: write_lock_loop.simps[of _ "[]"] rix_rwlock_write_trylock_def split: if_splits) auto
next
  case (Cons y ys)
  obtain rc l1 where t: "rix_rwlock_write_trylock self l = (rc, l1)" by (rule prod.exhaust)
  have l1: "rw_waiting_writers l1 = rw_waiting_writers l"
    using t by (auto simp: rix_rwlock_write_trylock_def split: if_splits)
  show ?case
  proof (cases "rc = 0 \<or> rc < 0")
    case True
    then show ?thesis using Cons.prems(1) t l1 by (auto simp: write_lock_loop.simps[of _ "y # ys"])
  next
    case False
    then have "write_lock_loop self ys (y l1) = (Some r, l')"
      using Cons.prems(1) t by (simp add: write_lock_loop.simps[of _ "y # ys"])
    with Cons.IH[OF this] Cons.prems(2) l1 show ?thesis by simp
  qed
qed

text \<open>C38: The reader/writer lock excludes.  Along any sequence of fewer than \<open>2 ^ 32\<close> steps of any processes
  on a fresh lock, at most one writer is inside and it is the recorded one, the reader count is the number of
  readers inside, no reader is inside together with a writer, and while a writer waits no reader is let in.\<close>

theorem rwlock_excludes:
  assumes "length evs < 2 ^ 32" "fold rw_step evs (rix_rwlock_init, {}, 0) = (l, ws, n)"
  shows "ws = (if rw_write_locked l then {rw_writer l} else {}) \<and> unat (rw_readers l) = n \<and>
    (ws = {} \<or> n = 0) \<and> (if rw_waiting_writers l = 0 then True else rix_rwlock_read_trylock l = (1, l))"
proof -
  have "rw_inv (rix_rwlock_init, {}, 0)" by (simp add: rw_inv_def rix_rwlock_init_def rw_holder_def)
  from rw_run_inv[OF this, of evs] assms have "rw_inv (l, ws, n)" by simp
  then show ?thesis by (auto simp: rw_inv_def rw_holder_def rix_rwlock_read_trylock_def)
qed

theorem rwlock_excludes_witness:
  "fold rw_step [Other Read_try, Take 7, Other Read_unlock, Take 7, Other Read_try] (rix_rwlock_init, {}, 0) =
     (\<lparr>rw_readers = 0, rw_waiting_writers = 0, rw_writer = 7, rw_write_locked = True\<rparr>, {7}, 0) \<and>
   unat (rw_readers \<lparr>rw_readers = 0, rw_waiting_writers = 0, rw_writer = 7, rw_write_locked = True\<rparr>) = 0"
proof
  show e: "fold rw_step [Other Read_try, Take 7, Other Read_unlock, Take 7, Other Read_try] (rix_rwlock_init, {}, 0) =
     (\<lparr>rw_readers = 0, rw_waiting_writers = 0, rw_writer = 7, rw_write_locked = True\<rparr>, {7}, 0)"
    by (simp add: rix_rwlock_init_def rix_rwlock_read_trylock_def rix_rwlock_write_trylock_def rix_rwlock_read_unlock_def)
  show "unat (rw_readers \<lparr>rw_readers = 0, rw_waiting_writers = 0, rw_writer = 7, rw_write_locked = True\<rparr>) = 0"
    using rwlock_excludes[OF _ e] by simp
qed

subsection \<open>Tokens of a semaphore\<close>

datatype sem_event = Sem_down | Sem_up

fun sem_step :: "sem_event \<Rightarrow> rix_sem \<times> nat \<times> nat \<Rightarrow> rix_sem \<times> nat \<times> nat" where
  "sem_step Sem_down (s, downs, ups) = (let (r, s') = rix_sem_trydown s in (s', if r = 0 then downs + 1 else downs, ups))"
| "sem_step Sem_up (s, downs, ups) = (let (r, s') = rix_sem_up s in (s', downs, if r = 0 then ups + 1 else ups))"

definition sem_inv :: "nat \<Rightarrow> u32 \<Rightarrow> rix_sem \<times> nat \<times> nat \<Rightarrow> bool" where
  "sem_inv k mx st \<longleftrightarrow> (case st of (s, downs, ups) \<Rightarrow>
     sm_max s = mx \<and> sm_count s \<le> mx \<and> unat (sm_count s) + downs = k + ups)"

lemma sem_step_inv:
  assumes "sem_inv k mx st"
  shows "sem_inv k mx (sem_step ev st)"
proof -
  obtain s d u where st: "st = (s, d, u)" by (rule prod_cases3)
  have i: "sm_max s = mx" "unat (sm_count s) \<le> unat mx" "unat (sm_count s) + d = k + u"
    using assms by (simp_all add: sem_inv_def st word_le_nat_alt)
  show ?thesis
  proof (cases ev)
    case Sem_down
    show ?thesis
    proof (cases "sm_count s = 0")
      case False
      from unat_minus_1[OF False] have "unat (sm_count s - 1) = unat (sm_count s) - 1" "unat (sm_count s) > 0"
        using False by (simp_all add: unat_gt_0)
      then show ?thesis using i Sem_down False
        by (simp add: st sem_inv_def rix_sem_trydown_def word_gt_0 word_le_nat_alt)
    qed (use i Sem_down in \<open>simp add: st sem_inv_def rix_sem_trydown_def word_le_nat_alt\<close>)
  next
    case Sem_up
    show ?thesis
    proof (cases "sm_max s \<le> sm_count s")
      case False
      then have lt: "unat (sm_count s) < unat mx" using i(1) by (simp add: word_le_nat_alt not_le)
      have "unat mx < 2 ^ 32" by (rule order_less_le_trans[OF unsigned_less]) simp
      with lt have "unat (sm_count s) < 2 ^ 32 - 1" by simp
      then have "unat (sm_count s + 1) = unat (sm_count s) + 1" using unat_plus_1_small[of "sm_count s"] by simp
      then show ?thesis using i lt Sem_up False by (simp add: st sem_inv_def rix_sem_up_def word_le_nat_alt)
    qed (use i Sem_up in \<open>simp add: st sem_inv_def rix_sem_up_def word_le_nat_alt\<close>)
  qed
qed

lemma sem_run_inv: "sem_inv k mx st \<Longrightarrow> sem_inv k mx (fold sem_step evs st)"
  by (induction evs arbitrary: st) (simp_all add: sem_step_inv)

lemma sem_init_bounds:
  "sm_count (rix_sem_init i mx) \<le> sm_max (rix_sem_init i mx)" "sm_max (rix_sem_init i mx) \<noteq> 0"
  by (auto simp: rix_sem_init_def Let_def)

lemma sem_deadline_saturates: "unat (sem_deadline a t) = min (unat a + unat t) (2 ^ 64 - 1)"
proof (cases "unat a + unat t < 2 ^ 64")
  case True
  then have "unat (a + t) = unat a + unat t" by (simp add: unat_word_ariths)
  then show ?thesis using True by (simp add: sem_deadline_def Let_def word_less_nat_alt)
next
  case False
  have "unat a < 2 ^ 64" "unat t < 2 ^ 64" by (rule order_less_le_trans[OF unsigned_less]; simp)+
  then have "unat (a + t) = unat a + unat t - 2 ^ 64" "unat (a + t) < unat a"
    using False by (simp_all add: unat_word_ariths mod_nat_eqI le_mod_geq)
  then show ?thesis using False
    by (simp add: sem_deadline_def Let_def word_less_nat_alt unsigned_minus_1_eq_mask mask_eq_exp_minus_1)
qed

text \<open>With a deadline the loop ends at the latest in the first round whose clock reading has reached it,
  and reports expiry only then.\<close>

lemma sem_down_until_ends:
  assumes "\<exists>r \<in> set rounds. deadline \<le> fst r"
  shows "fst (sem_down_until deadline rounds s) \<noteq> None"
  using assms
proof (induction rounds arbitrary: s)
  case (Cons r rounds)
  then show ?case
    by (cases r) (auto simp: sem_down_until.simps[of _ "_ # _"] case_prod_beta)
qed simp

lemma sem_down_until_expiry:
  "sem_down_until deadline rounds s = (Some 1, s') \<Longrightarrow> \<exists>r \<in> set rounds. deadline \<le> fst r"
proof (induction rounds arbitrary: s)
  case Nil
  then show ?case by (auto simp: sem_down_until.simps[of _ "[]"] rix_sem_trydown_def split: if_splits)
next
  case (Cons r rounds)
  obtain now y where r: "r = (now, y)" by (rule prod.exhaust)
  from Cons show ?case
    by (auto simp: sem_down_until.simps[of _ "_ # _"] r rix_sem_trydown_def split: if_splits)
qed

text \<open>A semaphore neither loses nor invents tokens.  Along any sequence of tries and ups on a semaphore,
  whatever it was initialised with, the count stays within its maximum and equals the initial count plus the
  successful ups less the successful downs.  A timed wait ends once a clock reading has reached its
  deadline, which saturates instead of wrapping around.\<close>

theorem semaphore_conserves_tokens:
  assumes "fold sem_step evs (rix_sem_init initial mx, 0, 0) = (s, downs, ups)"
  shows "unat (sm_count s) + downs = unat (sm_count (rix_sem_init initial mx)) + ups \<and> sm_count s \<le> sm_max s \<and>
    sm_max s = sm_max (rix_sem_init initial mx) \<and>
    unat (sem_deadline start timeout_ns) = min (unat start + unat timeout_ns) (2 ^ 64 - 1) \<and>
    (if \<exists>r \<in> set rounds. sem_deadline start timeout_ns \<le> fst r
     then fst (rix_sem_down_timeout start timeout_ns rounds x) \<noteq> None
     else fst (rix_sem_down_timeout start timeout_ns rounds x) \<noteq> Some 1)"
proof -
  have "sem_inv (unat (sm_count (rix_sem_init initial mx))) (sm_max (rix_sem_init initial mx)) (rix_sem_init initial mx, 0, 0)"
    using sem_init_bounds(1)[of initial mx] by (simp add: sem_inv_def)
  from sem_run_inv[OF this, of evs] assms
  have "sem_inv (unat (sm_count (rix_sem_init initial mx))) (sm_max (rix_sem_init initial mx)) (s, downs, ups)" by simp
  moreover have "fst (rix_sem_down_timeout start timeout_ns rounds x) \<noteq> Some 1"
    if "\<not> (\<exists>r \<in> set rounds. sem_deadline start timeout_ns \<le> fst r)"
    using that sem_down_until_expiry[of "sem_deadline start timeout_ns" rounds x]
    by (auto simp: rix_sem_down_timeout_def) (metis prod.collapse)
  ultimately show ?thesis
    using sem_down_until_ends[of rounds "sem_deadline start timeout_ns" x] sem_deadline_saturates[of start timeout_ns]
    by (auto simp: sem_inv_def rix_sem_down_timeout_def)
qed

theorem semaphore_conserves_tokens_witness:
  "fold sem_step [Sem_up, Sem_down, Sem_down, Sem_up] (rix_sem_init 5 1, 0, 0) = (\<lparr>sm_count = 1, sm_max = 1\<rparr>, 1, 1) \<and>
   sm_count \<lparr>sm_count = 1, sm_max = 1\<rparr> \<le> sm_max \<lparr>sm_count = 1, sm_max = 1 :: u32\<rparr>"
proof
  show e: "fold sem_step [Sem_up, Sem_down, Sem_down, Sem_up] (rix_sem_init 5 1, 0, 0) = (\<lparr>sm_count = 1, sm_max = 1\<rparr>, 1, 1)"
    by code_simp
  show "sm_count \<lparr>sm_count = 1, sm_max = 1\<rparr> \<le> sm_max \<lparr>sm_count = 1, sm_max = 1 :: u32\<rparr>"
    using semaphore_conserves_tokens[OF e] by blast
qed

subsection \<open>Interleaved reference counting\<close>

text \<open>Threads (numbered) run the instructions of acquire and release in any order; \<open>rs_held\<close> counts the
  references each thread owns.\<close>

record ref_state =
  rs_refs :: u64
  rs_pc :: "nat \<Rightarrow> ref_pc"
  rs_held :: "nat \<Rightarrow> nat"

datatype ref_act = Act_load nat | Act_cas nat | Act_release nat | Act_store nat

fun ref_exec :: "ref_act \<Rightarrow> ref_state \<Rightarrow> rc option \<times> ref_state" where
  "ref_exec (Act_load t) s = (case ref_load (rs_refs s) of (r, pc) \<Rightarrow> (r, s\<lparr>rs_pc := (rs_pc s)(t := pc)\<rparr>))"
| "ref_exec (Act_cas t) s =
     (case rs_pc s t of
        Ref_loaded n \<Rightarrow>
          (case ref_cas n (rs_refs s) of
             (r, refs, pc) \<Rightarrow> (r, s\<lparr>rs_refs := refs, rs_pc := (rs_pc s)(t := pc),
                                  rs_held := (rs_held s)(t := rs_held s t + (if r = Some 0 then 1 else 0))\<rparr>))
      | _ \<Rightarrow> (None, s))"
| "ref_exec (Act_release t) s =
     (case ref_fetch_sub (rs_refs s) of
        (r, refs, pc) \<Rightarrow> (r, s\<lparr>rs_refs := refs, rs_pc := (rs_pc s)(t := pc), rs_held := (rs_held s)(t := rs_held s t - 1)\<rparr>))"
| "ref_exec (Act_store t) s =
     (case rs_pc s t of
        Ref_underflow \<Rightarrow> (case ref_store_zero of (r, refs, pc) \<Rightarrow> (r, s\<lparr>rs_refs := refs, rs_pc := (rs_pc s)(t := pc)\<rparr>))
      | _ \<Rightarrow> (None, s))"

text \<open>Runs of the threads below \<open>k\<close> in which a thread starts an operation only when it is idle and releases
  only what it owns.\<close>

definition ref_start :: "nat \<Rightarrow> ref_state" where
  "ref_start t = \<lparr>rs_refs = ref_init, rs_pc = (\<lambda>_. Ref_idle), rs_held = (\<lambda>_. 0)(t := 1)\<rparr>"

fun ref_allowed :: "nat \<Rightarrow> ref_state \<Rightarrow> ref_act \<Rightarrow> bool" where
  "ref_allowed k s (Act_load t) \<longleftrightarrow> t < k \<and> rs_pc s t = Ref_idle"
| "ref_allowed k s (Act_cas t) \<longleftrightarrow> t < k \<and> (\<exists>n. rs_pc s t = Ref_loaded n)"
| "ref_allowed k s (Act_release t) \<longleftrightarrow> t < k \<and> rs_pc s t = Ref_idle \<and> 0 < rs_held s t"
| "ref_allowed k s (Act_store t) \<longleftrightarrow> t < k \<and> rs_pc s t = Ref_underflow"

inductive ref_reachable :: "nat \<Rightarrow> nat \<Rightarrow> ref_state \<Rightarrow> bool" for k where
  Start: "t < k \<Longrightarrow> ref_reachable k 0 (ref_start t)"
| Act: "ref_reachable k n s \<Longrightarrow> ref_allowed k s a \<Longrightarrow> ref_reachable k (Suc n) (snd (ref_exec a s))"

definition total_held :: "nat \<Rightarrow> ref_state \<Rightarrow> nat" where
  "total_held k s = (\<Sum>t<k. rs_held s t)"

definition ref_ok :: "nat \<Rightarrow> nat \<Rightarrow> ref_state \<Rightarrow> bool" where
  "ref_ok k n s \<longleftrightarrow> unat (rs_refs s) = total_held k s \<and> total_held k s \<le> Suc n \<and>
     (\<forall>t < k. rs_pc s t \<noteq> Ref_underflow \<and> rs_pc s t \<noteq> Ref_loaded 0)"

lemma sum_upd_one:
  fixes k :: nat
  assumes "t < k"
  shows "(\<Sum>i<k. (f(t := x)) i) + f t = (\<Sum>i<k. f i) + (x :: nat)"
proof -
  have "(\<Sum>i<k. (f(t := x)) i) = x + sum f ({..<k} - {t})"
    using assms by (subst sum.remove[where x = t]) (auto intro: sum.cong)
  moreover have "(\<Sum>i<k. f i) = f t + sum f ({..<k} - {t})"
    using assms by (intro sum.remove) auto
  ultimately show ?thesis by simp
qed

lemma ref_step_ok:
  assumes ok: "ref_ok k n s" and al: "ref_allowed k s a" and n: "Suc n < 2 ^ 64 - 1"
  shows "ref_ok k (Suc n) (snd (ref_exec a s))"
proof (cases a)
  case (Act_load t)
  then show ?thesis using ok by (auto simp: ref_ok_def ref_load_def total_held_def)
next
  case (Act_cas t)
  with al obtain m where t: "t < k" "rs_pc s t = Ref_loaded m" by auto
  show ?thesis
  proof (cases "rs_refs s = m")
    case True
    have "unat (rs_refs s) < 2 ^ 64 - 1" using ok n by (simp add: ref_ok_def)
    then have "unat (rs_refs s + 1) = unat (rs_refs s) + 1" using unat_plus_1_small[of "rs_refs s"] by simp
    then show ?thesis using ok Act_cas t True sum_upd_one[OF t(1), of "rs_held s" "Suc (rs_held s t)"]
      by (simp add: ref_ok_def ref_cas_def total_held_def)
  next
    case False
    then show ?thesis using ok Act_cas t by (simp add: ref_ok_def ref_cas_def total_held_def)
  qed
next
  case (Act_release t)
  with al have t: "t < k" "0 < rs_held s t" by auto
  have "rs_held s t \<le> total_held k s" unfolding total_held_def using t(1) by (intro member_le_sum) auto
  then have nz: "rs_refs s \<noteq> 0" using t(2) ok by (auto simp: ref_ok_def)
  from unat_minus_1[OF nz] show ?thesis
    using ok Act_release t nz sum_upd_one[OF t(1), of "rs_held s" "rs_held s t - 1"]
    by (auto simp: ref_ok_def ref_fetch_sub_def total_held_def)
next
  case (Act_store t)
  then show ?thesis using ok al by (auto simp: ref_ok_def)
qed

lemma ref_reachable_ok:
  "ref_reachable k n s \<Longrightarrow> n < 2 ^ 64 - 2 \<Longrightarrow> ref_ok k n s"
proof (induction rule: ref_reachable.induct)
  case (Start t)
  have "(\<Sum>i<k. ((\<lambda>_. 0)(t := 1 :: nat)) i) = 1" using sum_upd_one[OF Start(1), of "\<lambda>_. 0" 1] by simp
  then show ?case by (simp add: ref_ok_def ref_start_def ref_init_def total_held_def)
next
  case (Act n s a)
  then show ?case by (intro ref_step_ok) auto
qed

text \<open>C39: The reference count is exact under any interleaving.  As long as threads release only references
  they own, after any fewer than \<open>2 ^ 64 - 2\<close> atomic steps the counter is the number of references held, the
  underflow branch is never entered, and a release by a thread that owns a reference reports 1, which hands
  over the teardown, exactly when it drops the last one.\<close>

theorem refcount_exact:
  assumes "ref_reachable k n s" "n < 2 ^ 64 - 2"
  shows "unat (rs_refs s) = total_held k s \<and> {t. t < k \<and> rs_pc s t = Ref_underflow} = {} \<and>
    (if ref_allowed k s (Act_release t)
     then fst (ref_exec (Act_release t) s) = Some (if total_held k (snd (ref_exec (Act_release t) s)) = 0 then 1 else 0)
     else True)"
proof -
  note ok = ref_reachable_ok[OF assms]
  have "fst (ref_exec (Act_release t) s) = Some (if total_held k (snd (ref_exec (Act_release t) s)) = 0 then 1 else 0)"
    if al: "ref_allowed k s (Act_release t)"
  proof -
    have t: "t < k" "0 < rs_held s t" using al by auto
    have "rs_held s t \<le> total_held k s" unfolding total_held_def using t(1) by (intro member_le_sum) auto
    then have nz: "rs_refs s \<noteq> 0" using t(2) ok by (auto simp: ref_ok_def)
    have h: "total_held k (snd (ref_exec (Act_release t) s)) = total_held k s - 1"
      using sum_upd_one[OF t(1), of "rs_held s" "rs_held s t - 1"] t(2)
      by (simp add: total_held_def ref_fetch_sub_def nz)
    have "rs_refs s = 1 \<longleftrightarrow> total_held k s = 1" using ok unfolding ref_ok_def by (metis unat_1 word_unat_eq_iff)
    moreover have "total_held k s \<noteq> 0" using nz ok unfolding ref_ok_def by (metis unat_eq_zero)
    ultimately show ?thesis unfolding h using nz by (auto simp: ref_fetch_sub_def)
  qed
  then show ?thesis using ok by (auto simp: ref_ok_def)
qed

theorem refcount_exact_witness:
  "unat (rs_refs (snd (ref_exec (Act_load 1) (ref_start 0)))) = total_held 2 (snd (ref_exec (Act_load 1) (ref_start 0)))"
proof -
  have "ref_reachable 2 (Suc 0) (snd (ref_exec (Act_load 1) (ref_start 0)))"
    by (rule ref_reachable.Act[OF ref_reachable.Start]) (simp_all add: ref_start_def)
  from refcount_exact[OF this, of 0] show ?thesis by simp
qed

text \<open>An unbalanced release lets a dead object be acquired.  The header promises that underflow is
  reported and never wraps and that a zero count cannot be acquired; but the release decrements first and
  repairs the counter afterwards, and an acquire that runs in between sees a non-zero count and succeeds.\<close>

theorem refcount_underflow_resurrects:
  "fst (ref_exec (Act_cas 2)
      (snd (ref_exec (Act_load 2)
        (snd (ref_exec (Act_release 1) \<lparr>rs_refs = 0, rs_pc = (\<lambda>_. Ref_idle), rs_held = (\<lambda>_. 0)\<rparr>))))) = Some 0"
  by (simp add: ref_load_def ref_cas_def ref_fetch_sub_def)

end
