(* ===== verification/Lockdep.thy ===== *)
theory Lockdep
  imports Rix_Prelude
begin

text \<open>
  The lock-order checker of \<^verbatim>\<open>kernel/sync/lockdep.c\<close>: the class registry, the per-CPU stack of held
  classes and the violation counter.  The processor number \<open>lockdep_cpu_index()\<close> is the argument \<open>me\<close>; the
  serial warning is not modelled, its counter is.
\<close>

definition RIX_LOCKDEP_MAX_CLASSES :: nat where [simp]: "RIX_LOCKDEP_MAX_CLASSES = 32"
definition RIX_LOCKDEP_MAX_DEPTH :: nat where [simp]: "RIX_LOCKDEP_MAX_DEPTH = 8"
definition RIX_LOCKDEP_CPUS :: nat where [simp]: "RIX_LOCKDEP_CPUS = 64"
definition RIX_LOCKDEP_UNTRACKED :: nat where [simp]: "RIX_LOCKDEP_UNTRACKED = 0"

record lockdep =
  class_names :: "nat \<Rightarrow> string option"
  class_ranks :: "nat \<Rightarrow> nat"
  class_count :: nat
  violations :: u32
  held_stack :: "nat \<Rightarrow> nat \<Rightarrow> nat"
  held_depth :: "nat \<Rightarrow> nat"

definition lockdep_boot :: lockdep where
  "lockdep_boot = \<lparr>class_names = (\<lambda>_. None), class_ranks = (\<lambda>_. 0), class_count = 1, violations = 0,
     held_stack = (\<lambda>_ _. 0), held_depth = (\<lambda>_. 0)\<rparr>"

definition cpu_slot :: "int \<Rightarrow> nat" where
  "cpu_slot me = (if me < 0 \<or> nat me \<ge> RIX_LOCKDEP_CPUS then 0 else nat me)"

definition warn_order :: "lockdep \<Rightarrow> lockdep" where
  "warn_order s = s\<lparr>violations := violations s + 1\<rparr>"

definition rix_lockdep_register :: "string \<Rightarrow> nat \<Rightarrow> lockdep \<Rightarrow> rc \<times> nat option \<times> lockdep" where
  "rix_lockdep_register name rank s =
     (if name = [] then (-1, None, s)
      else if class_count s \<ge> RIX_LOCKDEP_MAX_CLASSES then (-1, None, s)
      else let i = class_count s
           in (0, Some i, s\<lparr>class_count := i + 1, class_names := (class_names s)(i := Some name),
                             class_ranks := (class_ranks s)(i := rank)\<rparr>))"

definition push_held :: "nat \<Rightarrow> nat \<Rightarrow> lockdep \<Rightarrow> lockdep" where
  "push_held cpu klass s =
     s\<lparr>held_stack := (held_stack s)(cpu := (held_stack s cpu)(held_depth s cpu := klass)),
       held_depth := (held_depth s)(cpu := held_depth s cpu + 1)\<rparr>"

definition rix_lockdep_acquire :: "int \<Rightarrow> nat \<Rightarrow> lockdep \<Rightarrow> rc \<times> lockdep" where
  "rix_lockdep_acquire me klass s =
     (if klass = RIX_LOCKDEP_UNTRACKED then (0, s)
      else if klass \<ge> RIX_LOCKDEP_MAX_CLASSES \<or> class_names s klass = None then (-1, s)
      else let cpu = cpu_slot me
           in if held_depth s cpu \<ge> RIX_LOCKDEP_MAX_DEPTH then (-2, warn_order s)
              else if held_depth s cpu > 0
              then let top = held_stack s cpu (held_depth s cpu - 1)
                   in if top \<ge> RIX_LOCKDEP_MAX_CLASSES \<or> class_names s top = None \<or>
                         class_ranks s klass \<le> class_ranks s top
                      then (-2, warn_order s)
                      else (0, push_held cpu klass s)
              else (0, push_held cpu klass s))"

definition rix_lockdep_release :: "int \<Rightarrow> nat \<Rightarrow> lockdep \<Rightarrow> rc \<times> lockdep" where
  "rix_lockdep_release me klass s =
     (if klass = RIX_LOCKDEP_UNTRACKED then (0, s)
      else if klass \<ge> RIX_LOCKDEP_MAX_CLASSES \<or> class_names s klass = None then (-1, s)
      else let cpu = cpu_slot me
           in if held_depth s cpu = 0 \<or> held_stack s cpu (held_depth s cpu - 1) \<noteq> klass
              then (-2, warn_order s)
              else (0, s\<lparr>held_depth := (held_depth s)(cpu := held_depth s cpu - 1)\<rparr>))"

definition rix_lockdep_violations :: "lockdep \<Rightarrow> u32" where
  "rix_lockdep_violations s = violations s"

definition rix_lockdep_name :: "nat \<Rightarrow> lockdep \<Rightarrow> string" where
  "rix_lockdep_name klass s =
     (if klass < RIX_LOCKDEP_MAX_CLASSES then (case class_names s klass of Some n \<Rightarrow> n | None \<Rightarrow> ''?'') else ''?'')"

subsection \<open>The held stacks\<close>

text \<open>The classes processor slot \<open>cpu\<close> holds, outermost first.\<close>

definition held :: "lockdep \<Rightarrow> nat \<Rightarrow> nat list" where
  "held s cpu = map (held_stack s cpu) [0..<held_depth s cpu]"

definition registered :: "lockdep \<Rightarrow> nat \<Rightarrow> bool" where
  "registered s k \<longleftrightarrow> 0 < k \<and> k < RIX_LOCKDEP_MAX_CLASSES \<and> class_names s k \<noteq> None"

definition names_ok :: "lockdep \<Rightarrow> bool" where
  "names_ok s \<longleftrightarrow> 0 < class_count s \<and> class_count s \<le> RIX_LOCKDEP_MAX_CLASSES \<and>
     (\<forall>k. class_names s k \<noteq> None \<longleftrightarrow> 0 < k \<and> k < class_count s)"

definition stack_ok :: "lockdep \<Rightarrow> nat list \<Rightarrow> bool" where
  "stack_ok s xs \<longleftrightarrow> length xs \<le> RIX_LOCKDEP_MAX_DEPTH \<and> list_all (registered s) xs \<and>
     sorted_wrt (\<lambda>a b. class_ranks s a < class_ranks s b) xs"

definition ld_inv :: "lockdep \<Rightarrow> bool" where
  "ld_inv s \<longleftrightarrow> names_ok s \<and> (\<forall>cpu. stack_ok s (held s cpu))"

lemma held_push [simp]: "held (push_held cpu k s) c = (if c = cpu then held s cpu @ [k] else held s c)"
  by (auto simp: held_def push_held_def)

lemma held_warn [simp]: "held (warn_order s) = held s"
  by (simp add: held_def warn_order_def fun_eq_iff)

lemma held_pop: "held (s\<lparr>held_depth := (held_depth s)(cpu := held_depth s cpu - 1)\<rparr>) c =
  (if c = cpu then butlast (held s cpu) else held s c)"
  by (cases "held_depth s cpu") (auto simp: held_def)

lemma held_empty_iff [simp]: "held s cpu = [] \<longleftrightarrow> held_depth s cpu = 0"
  by (simp add: held_def)

lemma last_held: "0 < held_depth s cpu \<Longrightarrow> last (held s cpu) = held_stack s cpu (held_depth s cpu - 1)"
  by (simp add: held_def last_conv_nth)

lemma fields_warn_push [simp]:
  "class_names (warn_order s) = class_names s" "class_ranks (warn_order s) = class_ranks s"
  "class_count (warn_order s) = class_count s" "held_depth (warn_order s) = held_depth s"
  "class_names (push_held c k s) = class_names s" "class_ranks (push_held c k s) = class_ranks s"
  "class_count (push_held c k s) = class_count s" "violations (push_held c k s) = violations s"
  "held_depth (push_held c k s) = (held_depth s)(c := held_depth s c + 1)"
  by (simp_all add: warn_order_def push_held_def)

lemma registered_warn_push [simp]:
  "registered (warn_order s) = registered s" "registered (push_held c k s) = registered s"
  by (simp_all add: registered_def fun_eq_iff)

lemma sorted_last_less:
  assumes "sorted_wrt (\<lambda>a b. r a < (r b :: nat)) xs" "xs \<noteq> []" "r (last xs) < r k" "x \<in> set xs"
  shows "r x < r k"
proof (cases "x = last xs")
  case False
  then have "x \<in> set (butlast xs)" using assms(2,4) by (metis append_butlast_last_id Un_iff in_set_conv_decomp list.set(1)
    empty_iff rotate1.simps(2) set_ConsD set_append set_rotate1)
  moreover have "sorted_wrt (\<lambda>a b. r a < r b) (butlast xs @ [last xs])" using assms(1,2) by simp
  ultimately have "r x < r (last xs)" unfolding sorted_wrt_append by simp
  then show ?thesis using assms(3) by simp
qed (use assms in simp)

lemma ld_inv_names: "ld_inv s \<Longrightarrow> class_names s k \<noteq> None \<longleftrightarrow> 0 < k \<and> k < class_count s"
  unfolding ld_inv_def names_ok_def by blast

lemma ld_inv_held: "ld_inv s \<Longrightarrow> x \<in> set (held s cpu) \<Longrightarrow> registered s x"
  unfolding ld_inv_def stack_ok_def list_all_iff by blast

lemma ld_inv_sorted: "ld_inv s \<Longrightarrow> sorted_wrt (\<lambda>a b. class_ranks s a < class_ranks s b) (held s cpu)"
  unfolding ld_inv_def stack_ok_def by blast

lemma ok_warn_push [simp]:
  "names_ok (warn_order s) = names_ok s" "stack_ok (warn_order s) = stack_ok s"
  "names_ok (push_held c k s) = names_ok s" "stack_ok (push_held c k s) = stack_ok s"
  by (simp_all add: names_ok_def stack_ok_def fun_eq_iff)

text \<open>An acquisition is accepted exactly when its class is registered, the stack has room and its rank is
  above the rank of everything held.\<close>

lemma acquire_accepted_iff:
  assumes inv: "ld_inv s" and reg: "registered s k"
  shows "fst (rix_lockdep_acquire me k s) = 0 \<longleftrightarrow>
    length (held s (cpu_slot me)) < RIX_LOCKDEP_MAX_DEPTH \<and>
    (\<forall>h \<in> set (held s (cpu_slot me)). class_ranks s h < class_ranks s k)"
proof -
  let ?c = "cpu_slot me"
  have so: "sorted_wrt (\<lambda>a b. class_ranks s a < class_ranks s b) (held s ?c)"
    by (rule ld_inv_sorted[OF inv])
  show ?thesis
  proof (cases "held_depth s ?c = 0")
    case True
    then show ?thesis using reg by (simp add: rix_lockdep_acquire_def registered_def held_def)
  next
    case False
    let ?t = "last (held s ?c)"
    have t: "?t \<in> set (held s ?c)" using False by simp
    have "registered s ?t" by (rule ld_inv_held[OF inv t])
    moreover have "(\<forall>h \<in> set (held s ?c). class_ranks s h < class_ranks s k) \<longleftrightarrow> class_ranks s ?t < class_ranks s k"
      using t sorted_last_less[OF so] False by auto
    moreover have "length (held s ?c) = held_depth s ?c" by (simp add: held_def)
    ultimately show ?thesis using reg False
      by (auto simp: rix_lockdep_acquire_def registered_def last_held Let_def)
  qed
qed

lemma acquire_outcomes:
  "rix_lockdep_acquire me k s \<in>
     (if k = RIX_LOCKDEP_UNTRACKED then {(0, s)}
      else {(-1, s), (-2, warn_order s), (0, push_held (cpu_slot me) k s)})"
  unfolding rix_lockdep_acquire_def Let_def by simp

lemma acquire_state:
  "snd (rix_lockdep_acquire me k s) =
     (if fst (rix_lockdep_acquire me k s) = 0 \<and> k \<noteq> RIX_LOCKDEP_UNTRACKED then push_held (cpu_slot me) k s
      else if fst (rix_lockdep_acquire me k s) = -2 then warn_order s else s)"
  using acquire_outcomes[of me k s] by (auto split: if_splits)

lemma ld_inv_boot: "ld_inv lockdep_boot"
  by (auto simp: ld_inv_def names_ok_def stack_ok_def lockdep_boot_def held_def)

lemma ld_inv_register_room:
  assumes inv: "ld_inv s" and room: "class_count s < RIX_LOCKDEP_MAX_CLASSES"
  shows "ld_inv (s\<lparr>class_count := class_count s + 1, class_names := (class_names s)(class_count s := Some name),
      class_ranks := (class_ranks s)(class_count s := rank)\<rparr>)" (is "ld_inv ?s")
proof -
  have h: "held ?s = held s" by (simp add: held_def fun_eq_iff)
  have ne: "x \<noteq> class_count s" if "x \<in> set (held s cpu)" for x cpu
    using ld_inv_held[OF inv that] ld_inv_names[OF inv, of x] by (auto simp: registered_def)
  have "sorted_wrt (\<lambda>a b. class_ranks ?s a < class_ranks ?s b) (held s cpu)" for cpu
    by (rule sorted_wrt_mono_rel[OF _ ld_inv_sorted[OF inv]]) (simp add: ne)
  moreover have "list_all (registered ?s) (held s cpu)" for cpu
    using ld_inv_held[OF inv] by (auto simp: registered_def list_all_iff)
  moreover have "\<forall>k. class_names ?s k \<noteq> None \<longleftrightarrow> 0 < k \<and> k < class_count ?s"
    using ld_inv_names[OF inv] inv by (simp add: less_Suc_eq ld_inv_def names_ok_def)
  ultimately show ?thesis using inv room unfolding ld_inv_def h names_ok_def stack_ok_def by simp
qed

lemma ld_inv_register: "ld_inv s \<Longrightarrow> ld_inv (snd (snd (rix_lockdep_register name rank s)))"
  unfolding rix_lockdep_register_def Let_def using ld_inv_register_room[where s = s and name = name and rank = rank] by simp

lemma ld_inv_acquire:
  assumes inv: "ld_inv s"
  shows "ld_inv (snd (rix_lockdep_acquire me k s))"
proof (cases "fst (rix_lockdep_acquire me k s) = 0 \<and> k \<noteq> RIX_LOCKDEP_UNTRACKED")
  case True
  then have reg: "registered s k" by (auto simp: rix_lockdep_acquire_def registered_def split: if_splits)
  have eq: "snd (rix_lockdep_acquire me k s) = push_held (cpu_slot me) k s"
    using True by (subst acquire_state) simp
  have acc: "length (held s (cpu_slot me)) < 8" "\<forall>h \<in> set (held s (cpu_slot me)). class_ranks s h < class_ranks s k"
    using acquire_accepted_iff[OF inv reg, of me] True by auto
  then have "stack_ok s (held s (cpu_slot me) @ [k])"
    using inv reg by (simp add: ld_inv_def stack_ok_def sorted_wrt_append)
  then show ?thesis using inv unfolding eq by (simp add: ld_inv_def)
next
  case False
  then show ?thesis using inv by (subst acquire_state) (auto simp: ld_inv_def)
qed

lemma stack_ok_butlast: "stack_ok s xs \<Longrightarrow> stack_ok s (butlast xs)"
  by (auto simp: stack_ok_def list_all_iff butlast_conv_take sorted_wrt_take dest: in_set_takeD)

lemma ld_inv_release:
  assumes inv: "ld_inv s"
  shows "ld_inv (snd (rix_lockdep_release me k s))"
proof -
  have "names_ok (s\<lparr>held_depth := d\<rparr>) = names_ok s" "stack_ok (s\<lparr>held_depth := d\<rparr>) = stack_ok s" for d
    by (simp_all add: names_ok_def stack_ok_def registered_def fun_eq_iff cong: list.pred_cong)
  then have "ld_inv (s\<lparr>held_depth := (held_depth s)(c := held_depth s c - 1)\<rparr>)" for c
    using inv unfolding ld_inv_def held_pop by (simp add: stack_ok_butlast)
  moreover have "ld_inv (warn_order s)" using inv by (simp add: ld_inv_def)
  ultimately show ?thesis using inv by (simp add: rix_lockdep_release_def Let_def)
qed

inductive ld_reachable :: "lockdep \<Rightarrow> bool" where
  Boot: "ld_reachable lockdep_boot"
| Register: "ld_reachable s \<Longrightarrow> ld_reachable (snd (snd (rix_lockdep_register name rank s)))"
| Acquire: "ld_reachable s \<Longrightarrow> ld_reachable (snd (rix_lockdep_acquire me k s))"
| Release: "ld_reachable s \<Longrightarrow> ld_reachable (snd (rix_lockdep_release me k s))"

lemma ld_reachable_inv: "ld_reachable s \<Longrightarrow> ld_inv s"
  by (induction rule: ld_reachable.induct) (auto intro: ld_inv_boot ld_inv_register ld_inv_acquire ld_inv_release)

subsection \<open>No deadlock among checked locks\<close>

text \<open>Processor \<open>c\<close> wants a class that the checker accepts for it and that processor \<open>d\<close> holds.\<close>

definition waits_for :: "lockdep \<Rightarrow> (nat \<Rightarrow> nat option) \<Rightarrow> (nat \<times> nat) set" where
  "waits_for s want = {(c, d). \<exists>k. c < RIX_LOCKDEP_CPUS \<and> want c = Some k \<and> registered s k \<and>
     fst (rix_lockdep_acquire (int c) k s) = 0 \<and> k \<in> set (held s d)}"

lemma cpu_slot_int [simp]: "c < RIX_LOCKDEP_CPUS \<Longrightarrow> cpu_slot (int c) = c"
  by (simp add: cpu_slot_def)

lemma waits_for_rank:
  assumes inv: "ld_inv s" and cd: "(c, d) \<in> waits_for s want" and de: "(d, e) \<in> waits_for s want"
  shows "class_ranks s (the (want c)) < class_ranks s (the (want d))"
proof -
  obtain k where k: "want c = Some k" "k \<in> set (held s d)" using cd by (auto simp: waits_for_def)
  obtain l where l: "want d = Some l" "registered s l" "fst (rix_lockdep_acquire (int d) l s) = 0" "d < RIX_LOCKDEP_CPUS"
    using de by (auto simp: waits_for_def)
  show ?thesis using acquire_accepted_iff[OF inv l(2), of "int d"] l k by simp
qed

lemma waits_for_chain:
  assumes inv: "ld_inv s" and cd: "(c, d) \<in> (waits_for s want)\<^sup>+"
  shows "(d, e) \<in> waits_for s want \<Longrightarrow> class_ranks s (the (want c)) < class_ranks s (the (want d))"
  using cd
proof (induction arbitrary: e rule: trancl_induct)
  case (base d)
  then show ?case using waits_for_rank[OF inv] by blast
next
  case (step d d')
  then show ?case using waits_for_rank[OF inv step(2) step(4)] step(3)[OF step(2)] by simp
qed

text \<open>C20: Lock-order checking rules out deadlock.  After any sequence of registrations, acquisitions and
  releases on any processors, every held stack has strictly increasing ranks and at most eight entries, an
  acquisition is accepted exactly when its rank is above everything held and the stack has room, and the
  processors whose wanted classes the checker accepts never wait for each other in a cycle.\<close>

theorem lockdep_no_deadlock:
  assumes "ld_reachable s"
  shows "sorted_wrt (\<lambda>a b. class_ranks s a < class_ranks s b) (held s cpu) \<and> length (held s cpu) \<le> RIX_LOCKDEP_MAX_DEPTH \<and>
    (if registered s k
     then fst (rix_lockdep_acquire me k s) = 0 \<longleftrightarrow>
       length (held s (cpu_slot me)) < RIX_LOCKDEP_MAX_DEPTH \<and>
       set (held s (cpu_slot me)) \<subseteq> {h. class_ranks s h < class_ranks s k}
     else True) \<and>
    acyclic (waits_for s want)"
proof -
  note inv = ld_reachable_inv[OF assms]
  have "acyclic (waits_for s want)"
  proof (rule acyclicI, rule allI, rule notI)
    fix c
    assume c: "(c, c) \<in> (waits_for s want)\<^sup>+"
    then obtain e where "(c, e) \<in> waits_for s want" by (auto dest: tranclD)
    then show False using waits_for_chain[OF inv c] by blast
  qed
  moreover have "stack_ok s (held s cpu)" using inv by (simp add: ld_inv_def)
  moreover have "if registered s k
     then fst (rix_lockdep_acquire me k s) = 0 \<longleftrightarrow>
       length (held s (cpu_slot me)) < RIX_LOCKDEP_MAX_DEPTH \<and>
       set (held s (cpu_slot me)) \<subseteq> {h. class_ranks s h < class_ranks s k}
     else True"
    using acquire_accepted_iff[OF inv, of k me] by (simp add: subset_eq)
  ultimately show ?thesis by (simp add: stack_ok_def)
qed

text \<open>The allocator's nesting: the heap (rank 20) calls the page allocator (rank 30) with its lock held.\<close>

definition lockdep_mm :: lockdep where
  "lockdep_mm = snd (rix_lockdep_acquire 0 2 (snd (snd (rix_lockdep_register ''heap'' 20
     (snd (snd (rix_lockdep_register ''pmm'' 30 lockdep_boot)))))))"

lemma ld_reachable_mm: "ld_reachable lockdep_mm"
  unfolding lockdep_mm_def by (intro ld_reachable.intros)

theorem lockdep_no_deadlock_witness:
  "held lockdep_mm 0 = [2] \<and> registered lockdep_mm 1 \<and> registered lockdep_mm 2 \<and>
   fst (rix_lockdep_acquire 0 1 lockdep_mm) = 0 \<and> fst (rix_lockdep_acquire 0 2 lockdep_mm) = -2"
proof -
  have h: "held lockdep_mm 0 = [2]" "registered lockdep_mm 1" "registered lockdep_mm 2"
    and r: "class_ranks lockdep_mm 2 = 20" "class_ranks lockdep_mm 1 = 30"
    by (simp_all add: lockdep_mm_def lockdep_boot_def rix_lockdep_register_def rix_lockdep_acquire_def
        push_held_def held_def registered_def cpu_slot_def)
  have "fst (rix_lockdep_acquire 0 1 lockdep_mm) = 0" "fst (rix_lockdep_acquire 0 2 lockdep_mm) \<noteq> 0"
    using lockdep_no_deadlock[OF ld_reachable_mm, of 0 1 0 "\<lambda>_. None"]
      lockdep_no_deadlock[OF ld_reachable_mm, of 0 2 0 "\<lambda>_. None"]
    by (simp_all add: h r cpu_slot_def del: One_nat_def)
  moreover have "fst (rix_lockdep_acquire 0 2 lockdep_mm) \<in> {-1, -2, 0}"
    using acquire_outcomes[of 0 2 lockdep_mm] by auto
  moreover have "fst (rix_lockdep_acquire 0 2 lockdep_mm) \<noteq> -1"
    using h(3) by (simp add: rix_lockdep_acquire_def registered_def Let_def)
  ultimately show ?thesis using h by auto
qed

end
