(* ===== verification/Ipc.thy ===== *)
theory Ipc
  imports Rix_Prelude
begin

text \<open>
  Byte channels and pipes: \<^verbatim>\<open>kernel/ipc/channel.c\<close>, a ring buffer of 4096 bytes copied in at most two
  pieces, and \<^verbatim>\<open>kernel/ipc/pipe.c\<close>, which adds counted ends.  A caller's buffer is a function from
  offsets to bytes, or \<open>None\<close> for the null pointer.  Each channel operation runs under the channel's lock and
  is one step.
\<close>

subsection \<open>The channel\<close>









subsection \<open>The pipe\<close>









subsection \<open>The channel is a bounded queue of bytes\<close>











subsection \<open>Pipes carry the byte stream in order\<close>
















end
