(* ===== verification/Klog.thy ===== *)
theory Klog
  imports Rix_Prelude
begin

text \<open>
  The kernel message ring of \<^verbatim>\<open>kernel/log/klog.c\<close>: 64 KiB of bytes addressed by an ever increasing
  sequence number, filled by writers that never wait.  \<open>kl_locked\<close> is the state of the ring's spinlock as the
  caller's single \<open>rix_spin_trylock\<close> finds it; a call that gets the lock releases it before it returns, with
  interrupts masked, and is one step.
\<close>

definition KLOG_SIZE :: u64 where "KLOG_SIZE = 65536"

record klog =
  klog_ring :: "nat \<Rightarrow> u8"
  klog_seq :: u64
  klog_drop :: u64
  kl_locked :: bool
  klog_ready :: bool

definition klog_boot :: klog where
  "klog_boot = \<lparr>klog_ring = (\<lambda>_. 0), klog_seq = 0, klog_drop = 0, kl_locked = False, klog_ready = False\<rparr>"

definition klog_ensure :: "klog \<Rightarrow> klog" where
  "klog_ensure k = (if klog_ready k then k else k\<lparr>kl_locked := False, klog_ready := True\<rparr>)"

primrec klog_put :: "u8 list \<Rightarrow> klog \<Rightarrow> klog" where
  "klog_put [] k = k"
| "klog_put (b # bs) k =
     klog_put bs (k\<lparr>klog_ring := (klog_ring k)(unat (klog_seq k mod KLOG_SIZE) := b), klog_seq := klog_seq k + 1\<rparr>)"

definition klog_push :: "u8 list \<Rightarrow> klog \<Rightarrow> klog" where
  "klog_push data k =
     (if data = [] then k
      else let k1 = klog_ensure k
           in if kl_locked k1 then k1\<lparr>klog_drop := klog_drop k1 + of_nat (length data)\<rparr>
              else klog_put data k1)"

definition klog_write_seq :: "klog \<Rightarrow> u64 \<times> klog" where
  "klog_write_seq k = (let k1 = klog_ensure k in (klog_seq k1, k1))"

definition klog_oldest :: "klog \<Rightarrow> u64 \<times> klog" where
  "klog_oldest k = (case klog_write_seq k of (s, k1) \<Rightarrow> (if s > KLOG_SIZE then s - KLOG_SIZE else 0, k1))"

primrec klog_copy_loop :: "(nat \<Rightarrow> u8) \<Rightarrow> u64 \<Rightarrow> (nat \<Rightarrow> u8) \<Rightarrow> nat \<Rightarrow> nat \<Rightarrow> u8" where
  "klog_copy_loop ring start dst 0 = dst"
| "klog_copy_loop ring start dst (Suc i) =
     (klog_copy_loop ring start dst i)(i := ring (unat ((start + of_nat i) mod KLOG_SIZE)))"

text \<open>The number of bytes copied, the destination buffer and the ring.\<close>

definition klog_copy :: "u64 \<Rightarrow> (nat \<Rightarrow> u8) \<Rightarrow> u64 \<Rightarrow> klog \<Rightarrow> u64 \<times> (nat \<Rightarrow> u8) \<times> klog" where
  "klog_copy start dst count k =
     (if count = 0 then (0, dst, k)
      else let k1 = klog_ensure k
           in if kl_locked k1 then (0, dst, k1)
              else let sq = klog_seq k1;
                       oldest = (if sq > KLOG_SIZE then sq - KLOG_SIZE else 0);
                       start1 = (if start < oldest then oldest else start)
                   in if start1 \<ge> sq then (0, dst, k1)
                      else let avail = sq - start1;
                               n = (if count > avail then avail else count)
                           in (n, klog_copy_loop (klog_ring k1) start1 dst (unat n), k1))"

definition klog_dropped :: "klog \<Rightarrow> u64" where
  "klog_dropped k = klog_drop k"

subsection \<open>The ring holds the end of the stream\<close>

text \<open>\<open>klog_run k bs n\<close>: the ring after any sequence of pushes, while other processors take and release the lock;
  \<open>bs\<close> is everything that was accepted and \<open>n\<close> the number of bytes refused.\<close>

inductive klog_run :: "klog \<Rightarrow> u8 list \<Rightarrow> nat \<Rightarrow> bool" where
  Boot: "klog_run klog_boot [] 0"
| Push: "klog_run k bs n \<Longrightarrow> \<not> kl_locked (klog_ensure k) \<Longrightarrow> klog_run (klog_push data k) (bs @ data) n"
| Push_contended: "klog_run k bs n \<Longrightarrow> kl_locked (klog_ensure k) \<Longrightarrow> klog_run (klog_push data k) bs (n + length data)"
| Ensure: "klog_run k bs n \<Longrightarrow> klog_run (klog_ensure k) bs n"
| Other: "klog_run k bs n \<Longrightarrow> klog_run (k\<lparr>kl_locked := b\<rparr>) bs n"

definition klog_holds :: "klog \<Rightarrow> u8 list \<Rightarrow> bool" where
  "klog_holds k bs \<longleftrightarrow> klog_seq k = of_nat (length bs) \<and>
     (\<forall>i < length bs. length bs \<le> i + 65536 \<longrightarrow> klog_ring k (i mod 65536) = bs ! i)"

lemma unat_mod_KLOG: "unat (of_nat n mod KLOG_SIZE) = n mod 65536"
proof -
  have "unat (of_nat n mod KLOG_SIZE) = n mod 18446744073709551616 mod 65536"
    by (simp add: KLOG_SIZE_def unat_mod_distrib unat_of_nat)
  then show ?thesis by (simp add: mod_mod_cancel)
qed

lemma klog_holds_put: "klog_holds k bs \<Longrightarrow> klog_holds (klog_put data k) (bs @ data)"
proof (induction data arbitrary: k bs)
  case (Cons b data)
  let ?k = "k\<lparr>klog_ring := (klog_ring k)(unat (klog_seq k mod KLOG_SIZE) := b), klog_seq := klog_seq k + 1\<rparr>"
  have s: "unat (klog_seq k mod KLOG_SIZE) = length bs mod 65536"
    using Cons.prems unat_mod_KLOG[of "length bs"] by (simp add: klog_holds_def)
  have ne: "i mod 65536 \<noteq> length bs mod 65536" if "i < length bs" "length bs < i + 65536" for i
  proof
    assume "i mod 65536 = length bs mod 65536"
    then have "65536 dvd length bs - i" using that mod_eq_dvd_iff_nat[of i "length bs" 65536] by simp
    then have "65536 \<le> length bs - i" using that by (intro dvd_imp_le) auto
    then show False using that by simp
  qed
  have "klog_holds ?k (bs @ [b])"
    using Cons.prems ne unfolding klog_holds_def by (auto simp: s unat_mod_KLOG nth_append less_Suc_eq)
  from Cons.IH[OF this] show ?case by simp
qed simp

lemma klog_holds_cong:
  "klog_seq k' = klog_seq k \<Longrightarrow> klog_ring k' = klog_ring k \<Longrightarrow> klog_holds k' bs = klog_holds k bs"
  by (simp add: klog_holds_def)

lemma klog_ensure_fields [simp]:
  "klog_seq (klog_ensure k) = klog_seq k" "klog_ring (klog_ensure k) = klog_ring k" "klog_drop (klog_ensure k) = klog_drop k"
  by (simp_all add: klog_ensure_def)

lemma klog_put_drop [simp]: "klog_drop (klog_put bs k) = klog_drop k"
  by (induction bs arbitrary: k) simp_all

lemma klog_run_holds: "klog_run k bs n \<Longrightarrow> klog_holds k bs \<and> klog_drop k = of_nat n"
proof (induction rule: klog_run.induct)
  case (Push k bs n data)
  then have "klog_holds (klog_ensure k) bs" using klog_holds_cong[of "klog_ensure k" k bs] by simp
  from klog_holds_put[OF this, of data] show ?case using Push by (simp add: klog_push_def Let_def)
next
  case (Push_contended k bs n data)
  then show ?case using klog_holds_cong[of "klog_push data k" k bs] by (simp add: klog_push_def Let_def)
next
  case (Ensure k bs n)
  then show ?case using klog_holds_cong[of "klog_ensure k" k bs] by simp
next
  case (Other k bs n b)
  then show ?case using klog_holds_cong[of "k\<lparr>kl_locked := b\<rparr>" k bs] by simp
qed (simp add: klog_holds_def klog_boot_def)

lemma klog_copy_loop_nth:
  "klog_copy_loop ring start dst n i = (if i < n then ring (unat ((start + of_nat i) mod KLOG_SIZE)) else dst i)"
  by (induction n) auto

text \<open>C27: The message ring returns what was logged.  After any sequence of pushes, contended ones included,
  fewer than \<open>2 ^ 64\<close> bytes in all, a copy that gets the lock delivers exactly the requested part of the
  logged stream, starting at the first byte the ring still has, leaves the rest of the caller's buffer alone,
  and the drop counter is the number of bytes refused.\<close>

theorem klog_copy_returns_stream:
  assumes run: "klog_run k bs lost" and free: "\<not> kl_locked (klog_ensure k)" and small: "length bs < 2 ^ 64"
    and cp: "klog_copy start dst count k = (n, dst', k')"
  defines "first \<equiv> max (unat start) (length bs - 65536)"
  shows "unat n = min (unat count) (length bs - first) \<and>
    map dst' [0..<unat n] = take (unat n) (drop first bs) \<and>
    (\<lambda>i. dst' (unat n + i)) = (\<lambda>i. dst (unat n + i)) \<and>
    unat (fst (klog_oldest k)) = length bs - 65536 \<and> klog_dropped k' = of_nat lost"
proof -
  have h: "klog_seq k = of_nat (length bs)" "klog_drop k = of_nat lost"
    and ring: "\<And>i. i < length bs \<Longrightarrow> length bs \<le> i + 65536 \<Longrightarrow> klog_ring k (i mod 65536) = bs ! i"
    using klog_run_holds[OF run] by (auto simp: klog_holds_def)
  have us: "unat (klog_seq k) = length bs" using h(1) small by (simp add: unat_of_nat_small)
  define old where "old = (if klog_seq k > KLOG_SIZE then klog_seq k - KLOG_SIZE else 0)"
  have uo: "unat old = length bs - 65536" using us
    by (auto simp: old_def KLOG_SIZE_def word_less_nat_alt unat_sub_if')
  define st where "st = (if start < old then old else start)"
  have ust: "unat st = first" using uo by (auto simp: st_def first_def word_less_nat_alt)
  have n: "n = (if st \<ge> klog_seq k then 0 else if count > klog_seq k - st then klog_seq k - st else count)"
    and d: "dst' = klog_copy_loop (klog_ring k) st dst (unat n)" and k': "klog_drop k' = klog_drop k"
    using cp free by (auto simp: klog_copy_def Let_def old_def st_def split: if_splits)
  have un: "unat n = min (unat count) (length bs - first)"
    using n us ust by (auto simp: word_less_nat_alt word_le_nat_alt unat_sub_if' min_def split: if_splits)
  have "dst' i = bs ! (first + i)" if i: "i < unat n" for i
  proof -
    have lt: "first + i < length bs" using i un by linarith
    have "st + of_nat i = of_nat (first + i)" using ust by (metis of_nat_add of_nat_unat ucast_id)
    then have "unat ((st + of_nat i) mod KLOG_SIZE) = (first + i) mod 65536" using unat_mod_KLOG[of "first + i"] by simp
    moreover have "length bs \<le> first + i + 65536" by (simp add: first_def)
    ultimately show ?thesis using ring[OF lt] i by (simp add: d klog_copy_loop_nth)
  qed
  then have "map dst' [0..<unat n] = take (unat n) (drop first bs)"
    using un by (intro nth_equalityI) (auto simp: add.commute)
  moreover have "unat (fst (klog_oldest k)) = length bs - 65536"
    using uo by (simp add: klog_oldest_def klog_write_seq_def Let_def old_def)
  moreover have "(\<lambda>i. dst' (unat n + i)) = (\<lambda>i. dst (unat n + i))" by (simp add: d klog_copy_loop_nth)
  moreover have "klog_dropped k' = of_nat lost" using h k' by (simp add: klog_dropped_def)
  ultimately show ?thesis using un by blast
qed

theorem klog_copy_returns_stream_witness:
  "\<exists>n dst' k'. klog_copy 1 (\<lambda>_. 0) 5 (klog_push [72, 105, 33] klog_boot) = (n, dst', k') \<and> unat n = 2 \<and>
     map dst' [0..<unat n] = [105, 33]"
proof -
  let ?k = "klog_push [72, 105, 33] klog_boot"
  have free: "\<not> kl_locked (klog_ensure klog_boot)" "\<not> kl_locked (klog_ensure ?k)"
    by (simp_all add: klog_push_def klog_ensure_def klog_boot_def)
  have run: "klog_run ?k [72, 105, 33] 0" using klog_run.Push[OF klog_run.Boot free(1)] by simp
  obtain n dst' k' where cp: "klog_copy 1 (\<lambda>_. 0) 5 ?k = (n, dst', k')" by (rule prod_cases3)
  have "length [72, 105, 33 :: u8] < 2 ^ 64" by simp
  note r = klog_copy_returns_stream[OF run free(2) this cp]
  have "unat n = 2" using r by simp
  moreover have "map dst' [0..<unat n] = [105, 33]"
  proof -
    have "max (unat (1 :: u64)) (length [72, 105, 33 :: u8] - 65536) = 1" by simp
    then have "map dst' [0..<unat n] = take (unat n) (drop 1 [72, 105, 33])" using r by metis
    also have "\<dots> = [105, 33]" using \<open>unat n = 2\<close> by simp
    finally show ?thesis .
  qed
  ultimately show ?thesis using cp by (intro exI[of _ n] exI[of _ dst'] exI[of _ k'] conjI)
qed

end
