(* ===== verification/Pmm.thy ===== *)
theory Pmm
  imports Rix_Prelude
begin

text \<open>
  The physical page allocator, \<^verbatim>\<open>kernel/mm/pmm.c\<close>: three bitmaps of 64-bit words over 32 Mi pages
  (unavailable, managed, reserved) with their counters, the scan of the firmware memory map, first-fit
  allocation and the saved map.  The firmware map is an address with its bytes.  Every operation after
  \<open>pmm_init\<close> runs under \<open>pmm_lock\<close> and is one step; the lock checker's calls around it change nothing here.
\<close>

subsection \<open>Constants and state\<close>

definition RIXURI_PAGE_SIZE :: u64 where "RIXURI_PAGE_SIZE = 4096"
definition RIXURI_MAX_PHYS_BYTES :: u64 where "RIXURI_MAX_PHYS_BYTES = 137438953472"
definition RIXURI_MAX_PAGES :: nat where "RIXURI_MAX_PAGES = 33554432"
definition RIXURI_BITMAP_WORDS :: nat where "RIXURI_BITMAP_WORDS = 524288"
definition EFI_DESCRIPTOR_MIN_SIZE :: u64 where "EFI_DESCRIPTOR_MIN_SIZE = 40"
definition UINT64_MAX :: u64 where "UINT64_MAX = -1"

type_synonym bitmap = "nat \<Rightarrow> u64"

record efi_map =
  map_addr :: u64
  map_bytes :: "nat \<Rightarrow> u8"

record pmm =
  page_bitmap :: bitmap
  managed_bitmap :: bitmap
  reserved_bitmap :: bitmap
  total_pages_count :: u64
  free_pages_count :: u64
  reserved_pages_count :: u64
  saved_map :: "efi_map option"
  saved_map_size :: u64
  saved_desc_size :: u64

text \<open>\<open>bm[p >> 6] & (1 << (p & 63))\<close> and the two updates.\<close>

definition pg_bit :: "bitmap \<Rightarrow> nat \<Rightarrow> bool" where
  "pg_bit bm p \<longleftrightarrow> bm (p div 64) AND one_shl (p mod 64) \<noteq> 0"

definition pg_set :: "bitmap \<Rightarrow> nat \<Rightarrow> bitmap" where
  "pg_set bm p = bm(p div 64 := bm (p div 64) OR one_shl (p mod 64))"

definition pg_clear :: "bitmap \<Rightarrow> nat \<Rightarrow> bitmap" where
  "pg_clear bm p = bm(p div 64 := bm (p div 64) AND NOT (one_shl (p mod 64)))"

definition usable_type :: "u32 \<Rightarrow> bool" where
  "usable_type type \<longleftrightarrow> type = 1 \<or> type = 2 \<or> type = 3 \<or> type = 4 \<or> type = 7"

definition align_up_page :: "u64 \<Rightarrow> u64" where
  "align_up_page v =
     (if v > UINT64_MAX - (RIXURI_PAGE_SIZE - 1) then UINT64_MAX
      else (v + RIXURI_PAGE_SIZE - 1) AND NOT (RIXURI_PAGE_SIZE - 1))"

subsection \<open>Initialisation\<close>

text \<open>The body of the loop of \<open>mark_range\<close>.\<close>

definition mark_page :: "bool \<Rightarrow> nat \<Rightarrow> pmm \<Rightarrow> pmm" where
  "mark_page freeable p s =
     (if freeable
      then let s1 = (if \<not> pg_bit (managed_bitmap s) p
                     then s\<lparr>managed_bitmap := pg_set (managed_bitmap s) p, total_pages_count := total_pages_count s + 1\<rparr>
                     else s)
           in if pg_bit (page_bitmap s1) p
              then s1\<lparr>page_bitmap := pg_clear (page_bitmap s1) p, free_pages_count := free_pages_count s1 + 1\<rparr>
              else s1
      else let s1 = (if \<not> pg_bit (reserved_bitmap s) p
                     then s\<lparr>reserved_bitmap := pg_set (reserved_bitmap s) p, reserved_pages_count := reserved_pages_count s + 1\<rparr>
                     else s)
           in if \<not> pg_bit (page_bitmap s1) p
              then s1\<lparr>page_bitmap := pg_set (page_bitmap s1) p,
                      free_pages_count := (if free_pages_count s1 \<noteq> 0 then free_pages_count s1 - 1 else free_pages_count s1)\<rparr>
              else s1)"

definition mark_range :: "u64 \<Rightarrow> u64 \<Rightarrow> bool \<Rightarrow> pmm \<Rightarrow> pmm" where
  "mark_range base pages freeable s =
     (if pages = 0 \<or> base \<ge> RIXURI_MAX_PHYS_BYTES then s
      else let first_addr = align_up_page base
           in if first_addr = UINT64_MAX \<or> first_addr \<ge> RIXURI_MAX_PHYS_BYTES then s
              else let first = first_addr div RIXURI_PAGE_SIZE;
                       max_pages = (RIXURI_MAX_PHYS_BYTES - first_addr) div RIXURI_PAGE_SIZE;
                       pages1 = (if pages > max_pages then max_pages else pages);
                       last = first + pages1
                   in fold (mark_page freeable) [unat first..<unat last] s)"

definition mark_byte_range :: "u64 \<Rightarrow> u64 \<Rightarrow> bool \<Rightarrow> pmm \<Rightarrow> pmm" where
  "mark_byte_range base sz freeable s =
     (if sz = 0 \<or> base > UINT64_MAX - sz then s
      else let offset = base AND (RIXURI_PAGE_SIZE - 1)
           in if sz > UINT64_MAX - offset - (RIXURI_PAGE_SIZE - 1) then s
              else mark_range base ((sz + offset + RIXURI_PAGE_SIZE - 1) div RIXURI_PAGE_SIZE) freeable s)"

text \<open>Little-endian loads, the \<open>memcpy\<close> of a descriptor field.\<close>

primrec load_le :: "(nat \<Rightarrow> u8) \<Rightarrow> nat \<Rightarrow> nat \<Rightarrow> nat" where
  "load_le m off 0 = 0"
| "load_le m off (Suc k) = unat (m off) + 256 * load_le m (off + 1) k"

definition desc_type :: "(nat \<Rightarrow> u8) \<Rightarrow> nat \<Rightarrow> u32" where "desc_type m off = of_nat (load_le m off 4)"
definition desc_base :: "(nat \<Rightarrow> u8) \<Rightarrow> nat \<Rightarrow> u64" where "desc_base m off = of_nat (load_le m (off + 8) 8)"
definition desc_pages :: "(nat \<Rightarrow> u8) \<Rightarrow> nat \<Rightarrow> u64" where "desc_pages m off = of_nat (load_le m (off + 24) 8)"

definition map_descriptor :: "u32 \<Rightarrow> u64 \<Rightarrow> u64 \<Rightarrow> pmm \<Rightarrow> pmm" where
  "map_descriptor type base pages s =
     (if usable_type type \<and> pages \<noteq> 0 \<and> base < RIXURI_MAX_PHYS_BYTES
      then let max_pages = (RIXURI_MAX_PHYS_BYTES - base) div RIXURI_PAGE_SIZE;
               pages1 = (if pages > max_pages then max_pages else pages)
           in mark_range base pages1 True s
      else s)"

text \<open>The descriptor loop; \<open>pmm_init\<close> enters it with a descriptor size of at least 40, the test against 0 only
  makes the function total.\<close>

function map_scan :: "(nat \<Rightarrow> u8) \<Rightarrow> nat \<Rightarrow> nat \<Rightarrow> nat \<Rightarrow> pmm \<Rightarrow> pmm" where
  "map_scan m sz desc offset s =
     (if desc = 0 \<or> sz < desc \<or> sz - desc < offset then s
      else map_scan m sz desc (offset + desc)
             (map_descriptor (desc_type m offset) (desc_base m offset) (desc_pages m offset) s))"
  by pat_completeness auto
termination
  by (relation "measure (\<lambda>(m, sz, desc, offset, s). Suc sz - offset)") auto

declare map_scan.simps [simp del]

definition pmm_init :: "efi_map option \<Rightarrow> u64 \<Rightarrow> u64 \<Rightarrow> u64 \<Rightarrow> u64 \<Rightarrow> u64 \<Rightarrow> u64 \<Rightarrow> pmm" where
  "pmm_init memory_map memory_map_size descriptor_size kernel_base kernel_end boot_info boot_info_size =
     (let s0 = \<lparr>page_bitmap = (\<lambda>_. UINT64_MAX), managed_bitmap = (\<lambda>_. 0), reserved_bitmap = (\<lambda>_. 0),
                total_pages_count = 0, free_pages_count = 0, reserved_pages_count = 0,
                saved_map = None, saved_map_size = 0, saved_desc_size = 0\<rparr>
      in case memory_map of
           None \<Rightarrow> s0
         | Some m \<Rightarrow>
             if descriptor_size < EFI_DESCRIPTOR_MIN_SIZE \<or> descriptor_size > 4096 \<or> memory_map_size < descriptor_size then s0
             else let s1 = s0\<lparr>saved_map := Some m, saved_map_size := memory_map_size, saved_desc_size := descriptor_size\<rparr>;
                      s2 = map_scan (map_bytes m) (unat memory_map_size) (unat descriptor_size) 0 s1;
                      s3 = mark_range 0 (0x100000 div RIXURI_PAGE_SIZE) False s2;
                      s4 = (if kernel_end > kernel_base then mark_byte_range kernel_base (kernel_end - kernel_base) False s3 else s3);
                      s5 = mark_byte_range boot_info boot_info_size False s4
                  in mark_byte_range (map_addr m) memory_map_size False s5)"

subsection \<open>Allocation and release\<close>

text \<open>\<open>__builtin_ctzll\<close>; the code calls it on a non-zero word only.\<close>

definition ctzll :: "u64 \<Rightarrow> nat" where
  "ctzll w = (case find (bit w) [0..<64] of Some i \<Rightarrow> i | None \<Rightarrow> 64)"

definition limit_mask :: "nat \<Rightarrow> u64" where
  "limit_mask limit = (if limit mod 64 = 63 then UINT64_MAX else one_shl (limit mod 64 + 1) - 1)"

definition candidates :: "pmm \<Rightarrow> nat \<Rightarrow> nat \<Rightarrow> u64" where
  "candidates s limit w =
     (let c = managed_bitmap s w AND NOT (page_bitmap s w)
      in if w = limit div 64 then c AND limit_mask limit else c)"

text \<open>The word loop from word \<open>w\<close> on: the page found.\<close>

function alloc_scan :: "pmm \<Rightarrow> nat \<Rightarrow> nat \<Rightarrow> nat option" where
  "alloc_scan s limit w =
     (if w \<ge> RIXURI_BITMAP_WORDS \<or> w * 64 > limit then None
      else let c = candidates s limit w
           in if c = 0 then alloc_scan s limit (w + 1)
              else let page = w * 64 + ctzll c
                   in if page \<ge> RIXURI_MAX_PAGES \<or> page > limit then alloc_scan s limit (w + 1)
                      else Some page)"
  by pat_completeness auto
termination
  by (relation "measure (\<lambda>(s, limit, w). RIXURI_BITMAP_WORDS - w)") auto

declare alloc_scan.simps [simp del]

definition pmm_alloc_page_below :: "u64 \<Rightarrow> pmm \<Rightarrow> u64 \<times> pmm" where
  "pmm_alloc_page_below max_exclusive s =
     (let mx = (if max_exclusive > RIXURI_MAX_PHYS_BYTES then RIXURI_MAX_PHYS_BYTES else max_exclusive)
      in if mx < RIXURI_PAGE_SIZE then (0, s)
         else case alloc_scan s (unat ((mx - 1) div RIXURI_PAGE_SIZE)) 0 of
                None \<Rightarrow> (0, s)
              | Some page \<Rightarrow>
                  (of_nat page * RIXURI_PAGE_SIZE,
                   s\<lparr>page_bitmap := pg_set (page_bitmap s) page,
                     free_pages_count := (if free_pages_count s \<noteq> 0 then free_pages_count s - 1 else free_pages_count s)\<rparr>))"

definition pmm_alloc_page :: "pmm \<Rightarrow> u64 \<times> pmm" where
  "pmm_alloc_page s = pmm_alloc_page_below RIXURI_MAX_PHYS_BYTES s"

definition run_available :: "pmm \<Rightarrow> nat \<Rightarrow> nat \<Rightarrow> bool" where
  "run_available s count start =
     list_all (\<lambda>i. \<not> (\<not> pg_bit (managed_bitmap s) (start + i) \<or> pg_bit (page_bitmap s) (start + i))) [0..<count]"

definition pmm_alloc_pages :: "u64 \<Rightarrow> pmm \<Rightarrow> u64 \<times> pmm" where
  "pmm_alloc_pages count s =
     (if count = 0 \<or> unat count > RIXURI_MAX_PAGES then (0, s)
      else case find (run_available s (unat count)) [0..<RIXURI_MAX_PAGES - unat count + 1] of
             None \<Rightarrow> (0, s)
           | Some start \<Rightarrow>
               (of_nat start * RIXURI_PAGE_SIZE,
                s\<lparr>page_bitmap := fold (\<lambda>i bm. pg_set bm (start + i)) [0..<unat count] (page_bitmap s),
                  free_pages_count := free_pages_count s - count\<rparr>))"

definition pmm_reserve_page :: "u64 \<Rightarrow> pmm \<Rightarrow> pmm" where
  "pmm_reserve_page pa s =
     (if pa AND (RIXURI_PAGE_SIZE - 1) \<noteq> 0 then s
      else let page = unat (pa div RIXURI_PAGE_SIZE)
           in if page \<ge> RIXURI_MAX_PAGES then s
              else if \<not> pg_bit (managed_bitmap s) page then s
              else let s1 = (if \<not> pg_bit (reserved_bitmap s) page
                             then s\<lparr>reserved_bitmap := pg_set (reserved_bitmap s) page,
                                    reserved_pages_count := reserved_pages_count s + 1\<rparr>
                             else s)
                   in if \<not> pg_bit (page_bitmap s1) page
                      then s1\<lparr>page_bitmap := pg_set (page_bitmap s1) page,
                              free_pages_count := (if free_pages_count s1 \<noteq> 0 then free_pages_count s1 - 1 else free_pages_count s1)\<rparr>
                      else s1)"

definition pmm_free_page :: "u64 \<Rightarrow> pmm \<Rightarrow> pmm" where
  "pmm_free_page pa s =
     (if pa AND (RIXURI_PAGE_SIZE - 1) \<noteq> 0 then s
      else let page = unat (pa div RIXURI_PAGE_SIZE)
           in if page \<ge> RIXURI_MAX_PAGES then s
              else if \<not> pg_bit (managed_bitmap s) page \<or> \<not> pg_bit (page_bitmap s) page \<or> pg_bit (reserved_bitmap s) page then s
              else s\<lparr>page_bitmap := pg_clear (page_bitmap s) page, free_pages_count := free_pages_count s + 1\<rparr>)"

definition pmm_free_page_range :: "u64 \<Rightarrow> u64 \<Rightarrow> pmm \<Rightarrow> pmm" where
  "pmm_free_page_range pa count s =
     (if count = 0 \<or> pa AND (RIXURI_PAGE_SIZE - 1) \<noteq> 0 then s
      else if count - 1 > (UINT64_MAX - pa) div RIXURI_PAGE_SIZE then s
      else fold (\<lambda>i. pmm_free_page (pa + of_nat i * RIXURI_PAGE_SIZE)) [0..<unat count] s)"

subsection \<open>Queries\<close>

definition pmm_total_pages :: "pmm \<Rightarrow> u64" where "pmm_total_pages s = total_pages_count s"
definition pmm_free_pages :: "pmm \<Rightarrow> u64" where "pmm_free_pages s = free_pages_count s"
definition pmm_reserved_pages :: "pmm \<Rightarrow> u64" where "pmm_reserved_pages s = reserved_pages_count s"

definition pmm_query :: "bitmap \<Rightarrow> u64 \<Rightarrow> bool" where
  "pmm_query bm pa =
     (if pa AND (RIXURI_PAGE_SIZE - 1) \<noteq> 0 then False
      else let page = unat (pa div RIXURI_PAGE_SIZE) in if page \<ge> RIXURI_MAX_PAGES then False else pg_bit bm page)"

definition pmm_is_managed :: "u64 \<Rightarrow> pmm \<Rightarrow> bool" where "pmm_is_managed pa s = pmm_query (managed_bitmap s) pa"
definition pmm_is_in_use :: "u64 \<Rightarrow> pmm \<Rightarrow> bool" where "pmm_is_in_use pa s = pmm_query (page_bitmap s) pa"
definition pmm_is_reserved :: "u64 \<Rightarrow> pmm \<Rightarrow> bool" where "pmm_is_reserved pa s = pmm_query (reserved_bitmap s) pa"

text \<open>The region found, as base, exclusive end, type and usability; the return codes are 0, 1 and -1.\<close>

function region_scan :: "(nat \<Rightarrow> u8) \<Rightarrow> nat \<Rightarrow> nat \<Rightarrow> u64 \<Rightarrow> nat \<Rightarrow> rc \<times> u64 \<times> u64 \<times> u32 \<times> bool" where
  "region_scan m sz desc pa offset =
     (if desc = 0 \<or> sz < desc \<or> sz - desc < offset then (1, 0, 0, 0, False)
      else let type = desc_type m offset; base = desc_base m offset; pages = desc_pages m offset; span = pages * RIXURI_PAGE_SIZE
           in if pages \<noteq> 0 \<and> base < RIXURI_MAX_PHYS_BYTES \<and> pa \<ge> base \<and> span div RIXURI_PAGE_SIZE = pages \<and>
                 base \<le> UINT64_MAX - span \<and> pa < base + span
              then (0, base, base + span, type, usable_type type)
              else region_scan m sz desc pa (offset + desc))"
  by pat_completeness auto
termination
  by (relation "measure (\<lambda>(m, sz, desc, pa, offset). Suc sz - offset)") auto

declare region_scan.simps [simp del]

definition pmm_region_info :: "u64 \<Rightarrow> pmm \<Rightarrow> rc \<times> u64 \<times> u64 \<times> u32 \<times> bool" where
  "pmm_region_info pa s =
     (case saved_map s of
        None \<Rightarrow> (-1, 0, 0, 0, False)
      | Some m \<Rightarrow>
          if saved_desc_size s < EFI_DESCRIPTOR_MIN_SIZE \<or> saved_desc_size s > 4096 \<or> saved_map_size s < saved_desc_size s
          then (-1, 0, 0, 0, False)
          else region_scan (map_bytes m) (unat (saved_map_size s)) (unat (saved_desc_size s)) pa 0)"

end
