(* ===== verification/Pmm_Invariants.thy ===== *)
theory Pmm_Invariants
  imports Pmm
begin

text \<open>
  The page allocator's bitmaps as sets of managed, free and reserved pages: the invariant that ties the
  counters to them and keeps free pages managed and unreserved, the first-fit scan, what boot establishes and
  that every operation keeps the invariant.
\<close>

subsection \<open>Bitmaps as sets of pages\<close>

lemma pg_bit_iff: "pg_bit bm p \<longleftrightarrow> bit (bm (p div 64)) (p mod 64)"
  by (simp add: pg_bit_def)

lemma page_index_eq: "p div 64 = q div 64 \<Longrightarrow> p mod 64 = q mod 64 \<Longrightarrow> p = q" for p q :: nat
  by (metis div_mod_decomp)

lemma pg_bit_set [simp]: "pg_bit (pg_set bm p) q \<longleftrightarrow> q = p \<or> pg_bit bm q"
  using page_index_eq[of q p] by (auto simp: pg_bit_iff pg_set_def)

lemma pg_bit_clear [simp]: "pg_bit (pg_clear bm p) q \<longleftrightarrow> q \<noteq> p \<and> pg_bit bm q"
  using page_index_eq[of q p] by (auto simp: pg_bit_iff pg_clear_def bit_and_iff bit_not_iff)

definition managed :: "pmm \<Rightarrow> nat set" where
  "managed s = {p. p < RIXURI_MAX_PAGES \<and> pg_bit (managed_bitmap s) p}"

definition free_set :: "pmm \<Rightarrow> nat set" where
  "free_set s = {p. p < RIXURI_MAX_PAGES \<and> \<not> pg_bit (page_bitmap s) p}"

definition reserved :: "pmm \<Rightarrow> nat set" where
  "reserved s = {p. p < RIXURI_MAX_PAGES \<and> pg_bit (reserved_bitmap s) p}"

lemma finite_pages [simp]: "finite (managed s)" "finite (free_set s)" "finite (reserved s)"
  by (simp_all add: managed_def free_set_def reserved_def)

lemma card_pages_le: "A \<subseteq> {p. p < RIXURI_MAX_PAGES} \<Longrightarrow> card A \<le> RIXURI_MAX_PAGES"
  using card_mono[of "{p. p < RIXURI_MAX_PAGES}" A] by simp

lemma pages_bound: "managed s \<subseteq> {p. p < RIXURI_MAX_PAGES}" "free_set s \<subseteq> {p. p < RIXURI_MAX_PAGES}"
  "reserved s \<subseteq> {p. p < RIXURI_MAX_PAGES}"
  by (auto simp: managed_def free_set_def reserved_def)

definition counts_ok :: "pmm \<Rightarrow> bool" where
  "counts_ok s \<longleftrightarrow> total_pages_count s = of_nat (card (managed s)) \<and> free_pages_count s = of_nat (card (free_set s)) \<and>
     reserved_pages_count s = of_nat (card (reserved s)) \<and> free_set s \<subseteq> managed s"

lemma of_nat_pages:
  assumes "A \<subseteq> {p. p < RIXURI_MAX_PAGES}"
  shows "unat (of_nat (card A) :: u64) = card A" "(of_nat (card A) :: u64) = 0 \<longleftrightarrow> card A = 0"
proof -
  have "card A < 2 ^ LENGTH(64)" using card_pages_le[OF assms] by (simp add: RIXURI_MAX_PAGES_def)
  then show u: "unat (of_nat (card A) :: u64) = card A" by (rule unat_of_nat_small)
  show "(of_nat (card A) :: u64) = 0 \<longleftrightarrow> card A = 0" unfolding unat_eq_zero[symmetric] u ..
qed

lemma card_insert_word: "finite A \<Longrightarrow> p \<notin> A \<Longrightarrow> (of_nat (card (insert p A)) :: u64) = of_nat (card A) + 1"
  by simp

lemma card_remove_word: "finite A \<Longrightarrow> p \<in> A \<Longrightarrow> (of_nat (card (A - {p})) :: u64) = of_nat (card A) - 1"
  by (metis add_diff_cancel_right' card.remove of_nat_Suc add.commute)

text \<open>The decrement guarded against 0 takes one page off the count of free pages.\<close>

lemma free_count_dec:
  assumes "counts_ok s" "p \<in> free_set s"
  shows "(if free_pages_count s \<noteq> 0 then free_pages_count s - 1 else free_pages_count s) = of_nat (card (free_set s - {p}))"
proof -
  have "card (free_set s) \<noteq> 0" using assms(2) by auto
  then have "free_pages_count s \<noteq> 0" using assms(1) of_nat_pages(2)[OF pages_bound(2), of s] by (simp add: counts_ok_def)
  then show ?thesis using assms card_remove_word[of "free_set s" p] by (simp add: counts_ok_def)
qed

subsection \<open>Marking\<close>

lemma mark_page_sets:
  assumes "p < RIXURI_MAX_PAGES"
  shows "managed (mark_page f p s) = (if f then insert p (managed s) else managed s)"
    "free_set (mark_page f p s) = (if f then insert p (free_set s) else free_set s - {p})"
    "reserved (mark_page f p s) = (if f then reserved s else insert p (reserved s))"
  using assms by (auto simp: mark_page_def managed_def free_set_def reserved_def Let_def)

lemma mark_page_counts:
  assumes ok: "counts_ok s" and p: "p < RIXURI_MAX_PAGES"
  shows "counts_ok (mark_page f p s)"
proof -
  let ?s = "mark_page f p s"
  have sub: "free_set ?s \<subseteq> managed ?s" using ok by (auto simp: mark_page_sets[OF p] counts_ok_def)
  have tot: "total_pages_count ?s = of_nat (card (managed ?s))"
  proof (cases "f \<and> p \<notin> managed s")
    case True
    then have "total_pages_count ?s = total_pages_count s + 1" using p by (simp add: mark_page_def Let_def managed_def)
    then show ?thesis using True ok by (simp add: mark_page_sets[OF p] counts_ok_def)
  next
    case False
    then have "total_pages_count ?s = total_pages_count s" "managed ?s = managed s"
      using p by (auto simp: mark_page_def Let_def managed_def)
    then show ?thesis using ok by (simp add: counts_ok_def)
  qed
  have res: "reserved_pages_count ?s = of_nat (card (reserved ?s))"
  proof (cases "\<not> f \<and> p \<notin> reserved s")
    case True
    then have "reserved_pages_count ?s = reserved_pages_count s + 1" using p by (simp add: mark_page_def Let_def reserved_def)
    then show ?thesis using True ok by (simp add: mark_page_sets[OF p] counts_ok_def)
  next
    case False
    then have "reserved_pages_count ?s = reserved_pages_count s" "reserved ?s = reserved s"
      using p by (auto simp: mark_page_def Let_def reserved_def)
    then show ?thesis using ok by (simp add: counts_ok_def)
  qed
  have "free_pages_count ?s = of_nat (card (free_set ?s))"
  proof (cases f)
    case True
    then have "free_pages_count ?s = (if p \<in> free_set s then free_pages_count s else free_pages_count s + 1)"
      using p by (simp add: mark_page_def Let_def free_set_def)
    then show ?thesis using True ok by (simp add: mark_page_sets[OF p] counts_ok_def insert_absorb)
  next
    case False
    then have "free_pages_count ?s = (if p \<in> free_set s then (if free_pages_count s \<noteq> 0 then free_pages_count s - 1 else free_pages_count s) else free_pages_count s)"
      using p by (simp add: mark_page_def Let_def free_set_def)
    then show ?thesis using False ok free_count_dec[OF ok, of p] by (simp add: mark_page_sets[OF p] counts_ok_def)
  qed
  then show ?thesis using sub tot res by (simp add: counts_ok_def)
qed

text \<open>A range of pages marked one by one.\<close>

lemma upt_Suc_insert: "a \<le> b \<Longrightarrow> {a..<Suc b} = insert b {a..<b}" for a b :: nat
  by auto

lemma mark_fold_managed:
  "b \<le> RIXURI_MAX_PAGES \<Longrightarrow> managed (fold (mark_page f) [a..<b] s) = (if f then managed s \<union> {a..<b} else managed s)"
proof (induction b)
  case (Suc b)
  then show ?case by (cases f; cases "a \<le> b") (simp_all add: mark_page_sets upt_Suc_insert)
qed simp

lemma mark_fold_free:
  "b \<le> RIXURI_MAX_PAGES \<Longrightarrow>
   free_set (fold (mark_page f) [a..<b] s) = (if f then free_set s \<union> {a..<b} else free_set s - {a..<b})"
proof (induction b)
  case (Suc b)
  then show ?case by (cases f; cases "a \<le> b") (simp_all add: mark_page_sets upt_Suc_insert Diff_insert[of _ _ "{a..<b}"])
qed simp

lemma mark_fold_reserved:
  "b \<le> RIXURI_MAX_PAGES \<Longrightarrow> reserved (fold (mark_page f) [a..<b] s) = (if f then reserved s else reserved s \<union> {a..<b})"
proof (induction b)
  case (Suc b)
  then show ?case by (cases f; cases "a \<le> b") (simp_all add: mark_page_sets upt_Suc_insert)
qed simp

lemmas mark_fold_sets = mark_fold_managed mark_fold_free mark_fold_reserved

lemma mark_fold_counts:
  "b \<le> RIXURI_MAX_PAGES \<Longrightarrow> counts_ok s \<Longrightarrow> counts_ok (fold (mark_page f) [a..<b] s)"
proof (induction b)
  case (Suc b)
  then show ?case by (cases "a \<le> b") (simp_all add: mark_page_counts)
qed simp

subsection \<open>Page arithmetic\<close>

lemma unat_add_small: "unat a + unat b < 2 ^ LENGTH('a) \<Longrightarrow> unat (a + b) = unat a + unat b" for a b :: "'a::len word"
  using unat_add_lem[of a b] by blast

lemma unat_and_not_mask: "unat (x AND NOT (mask n)) = unat x - unat x mod 2 ^ n" for x :: "'a::len word"
proof -
  have "(x AND NOT (mask n)) OR (x AND mask n) = x"
    by (rule bit_word_eqI) (auto simp: bit_or_iff bit_and_iff bit_not_iff)
  moreover have "(x AND NOT (mask n)) + (x AND mask n) = (x AND NOT (mask n)) OR (x AND mask n)"
    by (rule disjunctive_add) (auto simp: bit_and_iff bit_not_iff)
  ultimately have "(x AND NOT (mask n)) + (x AND mask n) = x" by simp
  then have "x AND NOT (mask n) = x - take_bit n x" by (metis add_diff_cancel_right' take_bit_eq_mask)
  moreover have "unat (take_bit n x) = unat x mod 2 ^ n"
    unfolding unsigned_take_bit_eq by (simp add: take_bit_eq_mod)
  moreover have "take_bit n x \<le> x" by (simp add: word_le_nat_alt \<open>unat (take_bit n x) = _\<close>)
  ultimately show ?thesis by (simp add: unat_sub)
qed

lemma unat_UINT64_MAX: "unat UINT64_MAX = 18446744073709551615"
  by (simp add: UINT64_MAX_def unsigned_minus_1_eq_mask mask_eq_exp_minus_1)

lemma unat_UINT64_MAX_minus: "unat (UINT64_MAX - x) = 18446744073709551615 - unat x"
proof -
  have "x \<le> UINT64_MAX" by (simp add: UINT64_MAX_def)
  then show ?thesis using unat_sub[of x UINT64_MAX] unat_UINT64_MAX by simp
qed

lemma page_mask: "RIXURI_PAGE_SIZE - 1 = mask 12"
  by (simp add: RIXURI_PAGE_SIZE_def mask_eq_exp_minus_1)

lemma page_aligned_iff: "x AND (RIXURI_PAGE_SIZE - 1) = 0 \<longleftrightarrow> unat x mod 4096 = 0"
proof -
  have "unat (x AND mask 12) = unat x mod 4096"
    by (simp add: take_bit_eq_mask[symmetric] unsigned_take_bit_eq take_bit_eq_mod unat_mod_distrib)
  then show ?thesis unfolding page_mask by (metis unat_eq_zero)
qed

lemma unat_page_offset: "unat (x AND (RIXURI_PAGE_SIZE - 1)) = unat x mod 4096"
  unfolding page_mask by (simp add: take_bit_eq_mask[symmetric] unsigned_take_bit_eq take_bit_eq_mod unat_mod_distrib)

lemma unat_div_page: "unat (x div RIXURI_PAGE_SIZE) = unat x div 4096"
  by (simp add: RIXURI_PAGE_SIZE_def unat_div_distrib)

lemma unat_MAX_PHYS: "unat RIXURI_MAX_PHYS_BYTES = 4096 * RIXURI_MAX_PAGES"
  by (simp add: RIXURI_MAX_PHYS_BYTES_def RIXURI_MAX_PAGES_def)

lemma unat_align_up_page:
  assumes "unat v < 2 ^ 64 - 4096"
  shows "unat (align_up_page v) = (unat v + 4095) div 4096 * 4096"
proof -
  have p: "v + RIXURI_PAGE_SIZE - 1 = v + 4095" by (simp add: RIXURI_PAGE_SIZE_def)
  have "unat (v + 4095) = unat v + 4095" using assms by (subst unat_add_lem[THEN iffD1]) auto
  moreover have "\<not> v > UINT64_MAX - (RIXURI_PAGE_SIZE - 1)"
    using assms by (simp add: UINT64_MAX_def RIXURI_PAGE_SIZE_def word_less_nat_alt)
  ultimately show ?thesis unfolding align_up_page_def p page_mask
    by (simp add: unat_and_not_mask minus_mod_eq_div_mult)
qed

text \<open>The pages \<open>mark_range\<close> touches.\<close>

lemma mark_range_eq:
  "mark_range base pages f s =
     (let a = (unat base + 4095) div 4096 in fold (mark_page f) [a..<min (a + unat pages) RIXURI_MAX_PAGES] s)"
proof (cases "pages = 0 \<or> base \<ge> RIXURI_MAX_PHYS_BYTES")
  case True
  then show ?thesis
  proof
    assume "RIXURI_MAX_PHYS_BYTES \<le> base"
    then have "RIXURI_MAX_PAGES \<le> (unat base + 4095) div 4096" by (simp add: word_le_nat_alt unat_MAX_PHYS)
    then show ?thesis using True by (simp add: mark_range_def Let_def)
  qed (simp add: mark_range_def)
next
  case False
  let ?a = "(unat base + 4095) div 4096"
  have b: "unat base < 4096 * RIXURI_MAX_PAGES" using False by (simp add: word_le_nat_alt unat_MAX_PHYS not_le)
  have fa: "unat (align_up_page base) = ?a * 4096"
    using b by (intro unat_align_up_page) (simp add: RIXURI_MAX_PAGES_def)
  have nm: "align_up_page base \<noteq> UINT64_MAX"
  proof
    assume "align_up_page base = UINT64_MAX"
    then have "unat (align_up_page base) = unat UINT64_MAX" by simp
    then show False using unat_UINT64_MAX fa b by (simp add: RIXURI_MAX_PAGES_def)
  qed
  show ?thesis
  proof (cases "?a < RIXURI_MAX_PAGES")
    case True
    let ?m = "(RIXURI_MAX_PHYS_BYTES - align_up_page base) div RIXURI_PAGE_SIZE"
    let ?p = "if pages > ?m then ?m else pages"
    have lt: "align_up_page base < RIXURI_MAX_PHYS_BYTES" using True fa by (simp add: word_less_nat_alt unat_MAX_PHYS)
    have m: "unat ?m = RIXURI_MAX_PAGES - ?a"
      using lt fa by (simp add: unat_div_page unat_sub word_less_nat_alt word_le_nat_alt unat_MAX_PHYS
          diff_mult_distrib2[symmetric] mult.commute)
    have first: "unat (align_up_page base div RIXURI_PAGE_SIZE) = ?a" using fa by (simp add: unat_div_page)
    have p: "unat ?p = min (unat pages) (RIXURI_MAX_PAGES - ?a)" using m by (auto simp: word_less_nat_alt min_def)
    have "unat (align_up_page base div RIXURI_PAGE_SIZE + ?p) = ?a + unat ?p"
      using first p True by (subst unat_add_lem[THEN iffD1]) (auto simp: RIXURI_MAX_PAGES_def)
    then have "unat (align_up_page base div RIXURI_PAGE_SIZE + ?p) = min (?a + unat pages) RIXURI_MAX_PAGES"
      using p True by (auto simp: min_def)
    then show ?thesis using False nm lt unfolding mark_range_def Let_def not_less[symmetric] by (simp add: first del: not_less)
  next
    case False': False
    then have "RIXURI_MAX_PHYS_BYTES \<le> align_up_page base" using fa by (simp add: word_le_nat_alt unat_MAX_PHYS)
    then show ?thesis using False False' unfolding mark_range_def Let_def by simp
  qed
qed

lemma mark_byte_range_eq:
  assumes "sz \<noteq> 0" "unat base + unat sz + 4095 < 2 ^ 64" "unat sz + 2 * 4095 < 2 ^ 64"
  shows "mark_byte_range base sz f s =
    (let a = (unat base + 4095) div 4096; n = (unat sz + unat base mod 4096 + 4095) div 4096
     in fold (mark_page f) [a..<min (a + n) RIXURI_MAX_PAGES] s)"
proof -
  let ?o = "base AND (RIXURI_PAGE_SIZE - 1)"
  have o: "unat ?o = unat base mod 4096" by (rule unat_page_offset)
  have ol: "unat base mod 4096 < 4096" by simp
  have g1: "\<not> base > UINT64_MAX - sz" using assms(2) by (simp add: word_less_nat_alt unat_UINT64_MAX_minus)
  have g2: "\<not> sz > UINT64_MAX - ?o - (RIXURI_PAGE_SIZE - 1)"
  proof -
    have u: "unat (UINT64_MAX - ?o) = 18446744073709551615 - unat base mod 4096"
      using o by (simp add: unat_UINT64_MAX_minus)
    have v: "unat (RIXURI_PAGE_SIZE - 1) = 4095" by (simp add: RIXURI_PAGE_SIZE_def)
    have "RIXURI_PAGE_SIZE - 1 \<le> UINT64_MAX - ?o" unfolding word_le_nat_alt u v using ol by simp
    then have "unat (UINT64_MAX - ?o - (RIXURI_PAGE_SIZE - 1)) = 18446744073709551615 - unat base mod 4096 - 4095"
      using unat_sub u v by metis
    then show ?thesis unfolding word_less_nat_alt using assms(3) ol by simp
  qed
  have "unat (sz + ?o + RIXURI_PAGE_SIZE - 1) = unat sz + unat base mod 4096 + 4095"
  proof -
    have e: "sz + ?o + RIXURI_PAGE_SIZE - 1 = sz + ?o + 4095" by (simp add: RIXURI_PAGE_SIZE_def)
    have "unat (sz + ?o) = unat sz + unat base mod 4096"
      using o assms(3) ol by (subst unat_add_lem[THEN iffD1]) auto
    moreover have "unat sz < 18446744073709543426" using assms(3) by simp
    then have "unat sz + unat base mod 4096 < 18446744073709547521" using ol by linarith
    ultimately show ?thesis unfolding e using unat_add_small[of "sz + ?o" 4095] by simp
  qed
  then have "unat ((sz + ?o + RIXURI_PAGE_SIZE - 1) div RIXURI_PAGE_SIZE) =
      (unat sz + unat base mod 4096 + 4095) div 4096" by (simp add: unat_div_page)
  then show ?thesis using g1 g2 assms(1) unfolding mark_byte_range_def mark_range_eq Let_def by simp
qed

subsection \<open>First fit\<close>

definition avail :: "pmm \<Rightarrow> nat \<Rightarrow> nat \<Rightarrow> nat set" where
  "avail s limit w = {p \<in> managed s \<inter> free_set s. p \<le> limit \<and> w * 64 \<le> p}"

lemma bit_limit_mask: "i < 64 \<Longrightarrow> bit (limit_mask limit) i \<longleftrightarrow> i \<le> limit mod 64"
proof -
  assume i: "i < 64"
  have m: "limit mod 64 < 64" by simp
  have "one_shl (limit mod 64 + 1) - 1 = (mask (limit mod 64 + 1) :: u64)"
    by (simp add: one_shl_def mask_eq_exp_minus_1 push_bit_of_1)
  then show ?thesis using i m by (auto simp: limit_mask_def UINT64_MAX_def bit_mask_iff less_Suc_eq_le)
qed

lemma bit_candidates:
  assumes "i < 64" "w < RIXURI_BITMAP_WORDS" "w * 64 \<le> limit"
  shows "bit (candidates s limit w) i \<longleftrightarrow> w * 64 + i \<in> avail s limit w"
proof -
  have p: "(w * 64 + i) div 64 = w" "(w * 64 + i) mod 64 = i" using assms(1) by simp_all
  have mx: "w * 64 + i < RIXURI_MAX_PAGES" using assms(1,2) by (simp add: RIXURI_MAX_PAGES_def RIXURI_BITMAP_WORDS_def)
  have lim: "w * 64 + i \<le> limit" if "w \<noteq> limit div 64"
  proof -
    have "w < limit div 64" using that assms(3) by (simp add: less_eq_div_iff_mult_less_eq le_neq_implies_less)
    then show ?thesis using assms(1) by (simp add: div_less_iff_less_mult less_eq_div_iff_mult_less_eq Suc_le_eq[symmetric])
  qed
  have lim2: "w * 64 + i \<le> limit \<longleftrightarrow> i \<le> limit mod 64" if "w = limit div 64"
    using that div_mult_mod_eq[of limit 64] by linarith
  have "bit (managed_bitmap s w AND NOT (page_bitmap s w)) i \<longleftrightarrow> w * 64 + i \<in> managed s \<inter> free_set s"
    using assms(1) mx p by (simp add: managed_def free_set_def pg_bit_iff bit_and_iff bit_not_iff)
  then show ?thesis using lim lim2 assms(1)
    by (auto simp: candidates_def avail_def bit_and_iff bit_limit_mask Let_def)
qed

lemma ctzll_least:
  assumes "w \<noteq> 0"
  shows "ctzll w < 64" "bit w (ctzll w)" "\<And>j. j < ctzll w \<Longrightarrow> \<not> bit w j"
proof -
  obtain n where n: "n < 64" "bit w n" using assms unfolding word_nonzero_bit by auto
  have "find (bit w) [0..<64] \<noteq> None" unfolding find_upt_None using n by blast
  then obtain m where m: "find (bit w) [0..<64] = Some m" by blast
  then have e: "ctzll w = m" by (simp add: ctzll_def)
  show "ctzll w < 64" "bit w (ctzll w)" "\<And>j. j < ctzll w \<Longrightarrow> \<not> bit w j"
    unfolding e using find_upt_SomeD[OF m] by auto
qed

lemma avail_step:
  assumes "w < RIXURI_BITMAP_WORDS" "w * 64 \<le> limit"
  shows "avail s limit w = (\<lambda>i. w * 64 + i) ` {i. i < 64 \<and> bit (candidates s limit w) i} \<union> avail s limit (w + 1)"
proof (rule set_eqI)
  fix q
  show "q \<in> avail s limit w \<longleftrightarrow>
    q \<in> (\<lambda>i. w * 64 + i) ` {i. i < 64 \<and> bit (candidates s limit w) i} \<union> avail s limit (w + 1)"
  proof (cases "w * 64 \<le> q \<and> q < (w + 1) * 64")
    case True
    then obtain i where q: "q = w * 64 + i" "i < 64" using le_Suc_ex by fastforce
    have "q \<in> (\<lambda>i. w * 64 + i) ` {i. i < 64 \<and> bit (candidates s limit w) i} \<longleftrightarrow> bit (candidates s limit w) i"
      using q by auto
    moreover have "q \<notin> avail s limit (w + 1)" using True by (auto simp: avail_def)
    ultimately show ?thesis using bit_candidates[OF q(2) assms, of s] q(1) by simp
  next
    case False
    then show ?thesis by (auto simp: avail_def)
  qed
qed

lemma alloc_scan_first_fit:
  "case alloc_scan s limit w of
     None \<Rightarrow> avail s limit w = {}
   | Some p \<Rightarrow> p \<in> avail s limit w \<and> (\<forall>q \<in> avail s limit w. p \<le> q)"
proof (induction s limit w rule: alloc_scan.induct)
  case (1 s limit w)
  note eq = alloc_scan.simps[of s limit w]
  show ?case
  proof (cases "w \<ge> RIXURI_BITMAP_WORDS \<or> w * 64 > limit")
    case True
    then have "avail s limit w = {}"
      by (auto simp: avail_def managed_def RIXURI_MAX_PAGES_def RIXURI_BITMAP_WORDS_def)
    then show ?thesis using True eq by simp
  next
    case False
    then have w: "w < RIXURI_BITMAP_WORDS" "w * 64 \<le> limit" by auto
    show ?thesis
    proof (cases "candidates s limit w = 0")
      case True
      then have "avail s limit w = avail s limit (w + 1)" using avail_step[OF w, of s] by auto
      moreover have "alloc_scan s limit w = alloc_scan s limit (w + 1)" using True eq w by simp
      ultimately show ?thesis using 1(1)[OF False refl True] by (simp only:)
    next
      case nz: False
      let ?p = "w * 64 + ctzll (candidates s limit w)"
      have p: "?p \<in> avail s limit w" using ctzll_least[OF nz] bit_candidates[OF _ w] by simp
      have least: "?p \<le> q" if "q \<in> avail s limit w" for q
        using that ctzll_least(1,3)[OF nz] unfolding avail_step[OF w, of s]
        by (auto simp: avail_def not_less[symmetric])
      have "\<not> (?p \<ge> RIXURI_MAX_PAGES \<or> ?p > limit)" using p by (auto simp: avail_def managed_def)
      then have "alloc_scan s limit w = Some ?p" using eq nz w by (simp add: Let_def)
      then show ?thesis using p least by simp
    qed
  qed
qed

subsection \<open>The invariant of the running allocator\<close>

definition pmm_inv :: "pmm \<Rightarrow> bool" where
  "pmm_inv s \<longleftrightarrow> counts_ok s \<and> free_set s \<inter> reserved s = {} \<and> managed s \<inter> {..<256} \<subseteq> reserved s"

definition page_addr :: "nat \<Rightarrow> u64" where
  "page_addr p = of_nat p * RIXURI_PAGE_SIZE"

lemma unat_page_addr: "p < RIXURI_MAX_PAGES \<Longrightarrow> unat (page_addr p) = 4096 * p"
proof -
  assume p: "p < RIXURI_MAX_PAGES"
  have "page_addr p = of_nat (4096 * p)" by (simp add: page_addr_def RIXURI_PAGE_SIZE_def)
  moreover have "4096 * p < 2 ^ LENGTH(64)" using p by (simp add: RIXURI_MAX_PAGES_def)
  ultimately show ?thesis using unat_of_nat_small by metis
qed

lemma page_addr_page: "p < RIXURI_MAX_PAGES \<Longrightarrow> unat (page_addr p div RIXURI_PAGE_SIZE) = p"
  by (simp add: unat_div_page unat_page_addr)

lemma page_addr_aligned: "p < RIXURI_MAX_PAGES \<Longrightarrow> page_addr p AND (RIXURI_PAGE_SIZE - 1) = 0"
  by (simp add: page_aligned_iff unat_page_addr)

lemma page_addr_of_aligned: "a AND (RIXURI_PAGE_SIZE - 1) = 0 \<Longrightarrow> page_addr (unat (a div RIXURI_PAGE_SIZE)) = a"
proof -
  assume "a AND (RIXURI_PAGE_SIZE - 1) = 0"
  then have "4096 * (unat a div 4096) = unat a" unfolding page_aligned_iff by (simp add: mult.commute mod_0_imp_dvd)
  then have "of_nat (4096 * (unat a div 4096)) = a" using word_of_unat[of a] by metis
  then show ?thesis unfolding page_addr_def unat_div_page by (simp add: RIXURI_PAGE_SIZE_def mult.commute)
qed

text \<open>Taking free pages out and putting one back.\<close>

lemma take_page:
  assumes ok: "counts_ok s" and p: "p \<in> free_set s"
  defines "s' \<equiv> s\<lparr>page_bitmap := pg_set (page_bitmap s) p,
      free_pages_count := (if free_pages_count s \<noteq> 0 then free_pages_count s - 1 else free_pages_count s)\<rparr>"
  shows "managed s' = managed s" "reserved s' = reserved s" "free_set s' = free_set s - {p}" "counts_ok s'"
proof -
  show m: "managed s' = managed s" and r: "reserved s' = reserved s" and f: "free_set s' = free_set s - {p}"
    by (auto simp: s'_def managed_def reserved_def free_set_def)
  have "free_pages_count s' = of_nat (card (free_set s'))" unfolding f using free_count_dec[OF ok p] by (simp add: s'_def)
  then show "counts_ok s'" using ok m r f by (auto simp: counts_ok_def s'_def)
qed

lemma free_page_sets:
  assumes "a AND (RIXURI_PAGE_SIZE - 1) = 0" "unat (a div RIXURI_PAGE_SIZE) = p" "p \<in> managed s - free_set s - reserved s"
    and ok: "counts_ok s"
  shows "managed (pmm_free_page a s) = managed s" "reserved (pmm_free_page a s) = reserved s"
    "free_set (pmm_free_page a s) = insert p (free_set s)" "counts_ok (pmm_free_page a s)"
proof -
  have "p < RIXURI_MAX_PAGES" "\<not> (\<not> pg_bit (managed_bitmap s) p \<or> \<not> pg_bit (page_bitmap s) p \<or> pg_bit (reserved_bitmap s) p)"
    using assms(3) by (auto simp: managed_def free_set_def reserved_def)
  then have eq: "pmm_free_page a s = s\<lparr>page_bitmap := pg_clear (page_bitmap s) p, free_pages_count := free_pages_count s + 1\<rparr>"
    using assms(1,2) by (simp add: pmm_free_page_def Let_def)
  show m: "managed (pmm_free_page a s) = managed s" and r: "reserved (pmm_free_page a s) = reserved s"
    and f: "free_set (pmm_free_page a s) = insert p (free_set s)"
    using \<open>p < RIXURI_MAX_PAGES\<close> by (auto simp: eq managed_def reserved_def free_set_def)
  have "of_nat (card (insert p (free_set s))) = (of_nat (card (free_set s)) :: u64) + 1"
    using assms(3) by (intro card_insert_word) auto
  then show "counts_ok (pmm_free_page a s)" using ok assms(3) unfolding counts_ok_def m r f by (simp add: eq)
qed

lemma free_page_other:
  assumes "\<not> (a AND (RIXURI_PAGE_SIZE - 1) = 0 \<and> unat (a div RIXURI_PAGE_SIZE) \<in> managed s - free_set s - reserved s)"
  shows "pmm_free_page a s = s"
  using assms by (auto simp: pmm_free_page_def Let_def managed_def free_set_def reserved_def)

lemma reserve_page_sets:
  assumes ok: "counts_ok s"
  shows "managed (pmm_reserve_page a s) = managed s" "reserved s \<subseteq> reserved (pmm_reserve_page a s)"
    "free_set (pmm_reserve_page a s) \<subseteq> free_set s"
    "free_set s \<inter> reserved s = {} \<Longrightarrow> free_set (pmm_reserve_page a s) \<inter> reserved (pmm_reserve_page a s) = {}"
    "counts_ok (pmm_reserve_page a s)"
proof -
  let ?p = "unat (a div RIXURI_PAGE_SIZE)"
  have "pmm_reserve_page a s = (if a AND (RIXURI_PAGE_SIZE - 1) = 0 \<and> ?p \<in> managed s then mark_page False ?p s else s)"
    by (auto simp: pmm_reserve_page_def mark_page_def managed_def Let_def)
  moreover have "?p < RIXURI_MAX_PAGES" if "?p \<in> managed s" using that by (simp add: managed_def)
  ultimately show "managed (pmm_reserve_page a s) = managed s" "reserved s \<subseteq> reserved (pmm_reserve_page a s)"
    "free_set (pmm_reserve_page a s) \<subseteq> free_set s"
    "free_set s \<inter> reserved s = {} \<Longrightarrow> free_set (pmm_reserve_page a s) \<inter> reserved (pmm_reserve_page a s) = {}"
    "counts_ok (pmm_reserve_page a s)"
    using ok by (auto simp: mark_page_sets mark_page_counts)
qed

lemma alloc_below_cases:
  fixes max_exclusive :: u64
  assumes inv: "pmm_inv s"
  defines "mx \<equiv> (if max_exclusive > RIXURI_MAX_PHYS_BYTES then RIXURI_MAX_PHYS_BYTES else max_exclusive)"
  defines "limit \<equiv> unat ((mx - 1) div RIXURI_PAGE_SIZE)"
  obtains (none) "pmm_alloc_page_below max_exclusive s = (0, s)" "mx < RIXURI_PAGE_SIZE \<or> (\<forall>q \<in> free_set s. limit < q)"
  | (page) p s' where "pmm_alloc_page_below max_exclusive s = (page_addr p, s')" "page_addr p \<noteq> 0"
      "\<not> mx < RIXURI_PAGE_SIZE" "p \<in> free_set s" "p \<le> limit"
      "\<forall>q \<in> free_set s. p \<le> q" "managed s' = managed s" "reserved s' = reserved s" "free_set s' = free_set s - {p}" "pmm_inv s'"
proof (cases "mx < RIXURI_PAGE_SIZE")
  case True
  then show ?thesis by (intro none) (simp_all add: pmm_alloc_page_below_def mx_def Let_def)
next
  case False
  have ok: "counts_ok s" and sub: "free_set s \<subseteq> managed s" using inv by (auto simp: pmm_inv_def counts_ok_def)
  have av: "avail s limit 0 = {q \<in> free_set s. q \<le> limit}" using sub by (auto simp: avail_def)
  show ?thesis
  proof (cases "alloc_scan s limit 0")
    case None
    then have "pmm_alloc_page_below max_exclusive s = (0, s)"
      using False by (simp add: pmm_alloc_page_below_def mx_def limit_def Let_def)
    then show ?thesis using alloc_scan_first_fit[of s limit 0] None av by (intro none) (auto simp: not_le)
  next
    case (Some p)
    let ?s = "s\<lparr>page_bitmap := pg_set (page_bitmap s) p,
      free_pages_count := (if free_pages_count s \<noteq> 0 then free_pages_count s - 1 else free_pages_count s)\<rparr>"
    have p: "p \<in> free_set s" "p \<le> limit" and least: "\<forall>q \<in> free_set s. p \<le> q"
      using alloc_scan_first_fit[of s limit 0] Some unfolding av by (auto simp: not_le)
    note tk = take_page[OF ok p(1)]
    have "256 \<le> p" using inv p(1) sub by (auto simp: pmm_inv_def not_less[symmetric])
    moreover have "p < RIXURI_MAX_PAGES" using p(1) by (simp add: free_set_def)
    ultimately have "page_addr p \<noteq> 0" using unat_page_addr[of p] by auto
    moreover have "pmm_inv ?s" using inv tk by (auto simp: pmm_inv_def)
    moreover have "pmm_alloc_page_below max_exclusive s = (page_addr p, ?s)"
      using False Some by (simp add: pmm_alloc_page_below_def mx_def limit_def Let_def page_addr_def)
    ultimately show ?thesis using tk(1-3) p least False by (intro page)
  qed
qed

lemma fold_pg_set: "pg_bit (fold (\<lambda>i bm. pg_set bm (a + i)) [0..<n] bm) q \<longleftrightarrow> (a \<le> q \<and> q < a + n) \<or> pg_bit bm q"
  by (induction n) auto

lemma run_available_iff:
  "start + n \<le> RIXURI_MAX_PAGES \<Longrightarrow> run_available s n start \<longleftrightarrow> {start..<start + n} \<subseteq> managed s \<inter> free_set s"
proof
  assume n: "start + n \<le> RIXURI_MAX_PAGES" and r: "run_available s n start"
  show "{start..<start + n} \<subseteq> managed s \<inter> free_set s"
  proof
    fix q assume "q \<in> {start..<start + n}"
    then obtain i where "q = start + i" "i < n" using le_Suc_ex by fastforce
    then show "q \<in> managed s \<inter> free_set s"
      using r n by (auto simp: run_available_def managed_def free_set_def list_all_iff)
  qed
qed (auto simp: run_available_def managed_def free_set_def list_all_iff subset_eq)

lemma alloc_pages_cases:
  fixes count :: u64
  assumes inv: "pmm_inv s"
  obtains (none) "pmm_alloc_pages count s = (0, s)"
      "count = 0 \<or> unat count > RIXURI_MAX_PAGES \<or> \<not> (\<exists>b. {b..<b + unat count} \<subseteq> free_set s)"
  | (run) b s' where "pmm_alloc_pages count s = (page_addr b, s')" "page_addr b \<noteq> 0" "count \<noteq> 0"
      "{b..<b + unat count} \<subseteq> free_set s" "\<forall>c. {c..<c + unat count} \<subseteq> free_set s \<longrightarrow> b \<le> c"
      "managed s' = managed s" "reserved s' = reserved s" "free_set s' = free_set s - {b..<b + unat count}" "pmm_inv s'"
proof (cases "count = 0 \<or> unat count > RIXURI_MAX_PAGES")
  case True
  then show ?thesis by (intro none) (auto simp: pmm_alloc_pages_def)
next
  case False
  let ?n = "unat count"
  have pos: "0 < ?n" using False by (simp add: unat_gt_0)
  have ok: "counts_ok s" and sub: "free_set s \<subseteq> managed s" using inv by (auto simp: pmm_inv_def counts_ok_def)
  have fits: "b + ?n \<le> RIXURI_MAX_PAGES" if "{b..<b + ?n} \<subseteq> free_set s" for b
  proof -
    have "b + ?n - 1 \<in> free_set s" using that pos by (intro subsetD[OF that]) auto
    then have "b + ?n - 1 < RIXURI_MAX_PAGES" by (simp add: free_set_def)
    then show ?thesis using pos by linarith
  qed
  have av: "run_available s ?n b \<longleftrightarrow> {b..<b + ?n} \<subseteq> free_set s" if "b + ?n \<le> RIXURI_MAX_PAGES" for b
    using run_available_iff[OF that, of s] sub by auto
  show ?thesis
  proof (cases "find (run_available s ?n) [0..<RIXURI_MAX_PAGES - ?n + 1]")
    case None
    then have "\<not> (\<exists>b. {b..<b + ?n} \<subseteq> free_set s)" unfolding find_upt_None using fits av by fastforce
    then show ?thesis using None False by (intro none) (simp_all add: pmm_alloc_pages_def)
  next
    case (Some b)
    note fd = find_upt_SomeD[OF Some]
    have bn: "b + ?n \<le> RIXURI_MAX_PAGES" using fd(2) False by linarith
    have rn: "{b..<b + ?n} \<subseteq> free_set s" using fd(3) av[OF bn] by simp
    have least: "\<forall>c. {c..<c + ?n} \<subseteq> free_set s \<longrightarrow> b \<le> c"
      using fd(4) av fits by (metis le0 not_less)
    let ?s = "s\<lparr>page_bitmap := fold (\<lambda>i bm. pg_set bm (b + i)) [0..<?n] (page_bitmap s),
      free_pages_count := free_pages_count s - count\<rparr>"
    have m: "managed ?s = managed s" and r: "reserved ?s = reserved s" and f: "free_set ?s = free_set s - {b..<b + ?n}"
      by (auto simp: managed_def reserved_def free_set_def fold_pg_set)
    have "card (free_set s - {b..<b + ?n}) = card (free_set s) - ?n" using rn by (simp add: card_Diff_subset)
    moreover have "?n \<le> card (free_set s)" using card_mono[OF _ rn] by simp
    ultimately have "(of_nat (card (free_set ?s)) :: u64) = of_nat (card (free_set s)) - count"
      unfolding f by (simp add: of_nat_diff)
    then have "counts_ok ?s" using ok sub unfolding counts_ok_def m r f by auto
    then have "pmm_inv ?s" using inv unfolding pmm_inv_def m r f by auto
    moreover have "256 \<le> b"
    proof -
      have "b \<in> free_set s" using rn pos by auto
      then show ?thesis using inv sub by (auto simp: pmm_inv_def not_less[symmetric])
    qed
    then have "page_addr b \<noteq> 0" using unat_page_addr[of b] bn pos by auto
    moreover have "pmm_alloc_pages count s = (page_addr b, ?s)"
      using Some False by (simp add: pmm_alloc_pages_def page_addr_def)
    ultimately show ?thesis using m r f rn least False by (intro run) auto
  qed
qed

text \<open>States of a running allocator.\<close>

inductive pmm_reachable :: "pmm \<Rightarrow> pmm \<Rightarrow> bool" for s0 where
  Init: "pmm_reachable s0 s0"
| Alloc: "pmm_reachable s0 s \<Longrightarrow> pmm_reachable s0 (snd (pmm_alloc_page_below mx s))"
| Alloc_pages: "pmm_reachable s0 s \<Longrightarrow> pmm_reachable s0 (snd (pmm_alloc_pages n s))"
| Free: "pmm_reachable s0 s \<Longrightarrow> pmm_reachable s0 (pmm_free_page a s)"
| Free_range: "pmm_reachable s0 s \<Longrightarrow> pmm_reachable s0 (pmm_free_page_range a n s)"
| Reserve: "pmm_reachable s0 s \<Longrightarrow> pmm_reachable s0 (pmm_reserve_page a s)"

text \<open>What every operation keeps: the invariant, the managed pages and the reservations.\<close>

definition pmm_keeps :: "pmm \<Rightarrow> pmm \<Rightarrow> bool" where
  "pmm_keeps s0 s \<longleftrightarrow> pmm_inv s \<and> managed s = managed s0 \<and> reserved s0 \<subseteq> reserved s"

lemma keeps_alloc: "pmm_keeps s0 s \<Longrightarrow> pmm_keeps s0 (snd (pmm_alloc_page_below mx s))"
proof -
  assume k: "pmm_keeps s0 s"
  then have "pmm_inv s" by (simp add: pmm_keeps_def)
  then show ?thesis by (cases rule: alloc_below_cases[of s mx]) (use k in \<open>auto simp: pmm_keeps_def\<close>)
qed

lemma keeps_alloc_pages: "pmm_keeps s0 s \<Longrightarrow> pmm_keeps s0 (snd (pmm_alloc_pages n s))"
proof -
  assume k: "pmm_keeps s0 s"
  then have "pmm_inv s" by (simp add: pmm_keeps_def)
  then show ?thesis by (cases rule: alloc_pages_cases[of s n]) (use k in \<open>auto simp: pmm_keeps_def\<close>)
qed

lemma keeps_free: "pmm_keeps s0 s \<Longrightarrow> pmm_keeps s0 (pmm_free_page a s)"
proof (cases "a AND (RIXURI_PAGE_SIZE - 1) = 0 \<and> unat (a div RIXURI_PAGE_SIZE) \<in> managed s - free_set s - reserved s")
  case True
  assume k: "pmm_keeps s0 s"
  then have ok: "counts_ok s" by (simp add: pmm_keeps_def pmm_inv_def)
  note f = free_page_sets[OF _ refl _ ok, of a]
  show ?thesis using f True k by (auto simp: pmm_keeps_def pmm_inv_def)
qed (simp add: free_page_other)

lemma keeps_free_range: "pmm_keeps s0 s \<Longrightarrow> pmm_keeps s0 (pmm_free_page_range a n s)"
proof -
  have "pmm_keeps s0 (fold (\<lambda>i. pmm_free_page (f i)) xs s)" if "pmm_keeps s0 s" for f :: "nat \<Rightarrow> u64" and xs s
    using that by (induction xs arbitrary: s) (simp_all add: keeps_free)
  then show "pmm_keeps s0 s \<Longrightarrow> ?thesis" by (simp add: pmm_free_page_range_def)
qed

lemma keeps_reserve: "pmm_keeps s0 s \<Longrightarrow> pmm_keeps s0 (pmm_reserve_page a s)"
  using reserve_page_sets[of s a] by (auto simp: pmm_keeps_def pmm_inv_def)

lemmas pmm_keeps_intros [rix_inv] = keeps_alloc keeps_alloc_pages keeps_free keeps_free_range keeps_reserve

lemma pmm_reachable_keeps: "pmm_reachable s0 s \<Longrightarrow> pmm_inv s0 \<Longrightarrow> pmm_keeps s0 s"
  by (induction rule: pmm_reachable.induct) (simp_all add: rix_inv, simp add: pmm_keeps_def)

subsection \<open>Boot\<close>

lemma mark_range_sets:
  fixes base pages :: u64
  defines "R \<equiv> {(unat base + 4095) div 4096..<min ((unat base + 4095) div 4096 + unat pages) RIXURI_MAX_PAGES}"
  shows "managed (mark_range base pages f s) = (if f then managed s \<union> R else managed s)"
    "free_set (mark_range base pages f s) = (if f then free_set s \<union> R else free_set s - R)"
    "reserved (mark_range base pages f s) = (if f then reserved s else reserved s \<union> R)"
    "counts_ok s \<Longrightarrow> counts_ok (mark_range base pages f s)"
  unfolding mark_range_eq Let_def R_def by (intro mark_fold_sets mark_fold_counts; simp)+

text \<open>A reservation keeps the counters and keeps free and reserved pages apart.\<close>

definition boot_ok :: "pmm \<Rightarrow> bool" where
  "boot_ok s \<longleftrightarrow> counts_ok s \<and> free_set s \<inter> reserved s = {}"

lemma mark_range_reserve:
  "boot_ok s \<Longrightarrow> boot_ok (mark_range base pages False s)" "reserved s \<subseteq> reserved (mark_range base pages False s)"
  using mark_range_sets[where base = base and pages = pages and f = False and s = s] by (auto simp: boot_ok_def)

lemma mark_byte_range_reserve:
  "boot_ok s \<Longrightarrow> boot_ok (mark_byte_range base sz False s)" "reserved s \<subseteq> reserved (mark_byte_range base sz False s)"
  unfolding mark_byte_range_def Let_def using mark_range_reserve by simp_all

lemma map_scan_ok: "counts_ok s \<Longrightarrow> counts_ok (map_scan m sz desc off s) \<and> reserved (map_scan m sz desc off s) = reserved s"
proof (induction m sz desc off s rule: map_scan.induct)
  case (1 m sz desc off s)
  let ?d = "map_descriptor (desc_type m off) (desc_base m off) (desc_pages m off) s"
  have "counts_ok ?d" "reserved ?d = reserved s"
    using 1(2) mark_range_sets by (auto simp: map_descriptor_def Let_def)
  then show ?case using 1 by (subst (1 2) map_scan.simps) simp
qed

lemma low_pages_reserved: "{..<256} \<subseteq> reserved (mark_range 0 (0x100000 div RIXURI_PAGE_SIZE) False s)"
proof -
  have "unat (0x100000 div RIXURI_PAGE_SIZE) = 256" by (simp add: unat_div_page)
  then show ?thesis using mark_range_sets(3)[where base = 0 and pages = "0x100000 div RIXURI_PAGE_SIZE" and f = False and s = s] by (auto simp: RIXURI_MAX_PAGES_def)
qed

text \<open>The stages of \<open>pmm_init\<close> on an accepted map.\<close>

lemma pmm_init_stages:
  assumes "pmm_init memory_map msz dsz kb ke bi bisz = s" "memory_map = Some m"
    "\<not> (dsz < EFI_DESCRIPTOR_MIN_SIZE \<or> dsz > 4096 \<or> msz < dsz)"
  obtains s3 where "boot_ok s3" "{..<256} \<subseteq> reserved s3"
    "s = mark_byte_range (map_addr m) msz False (mark_byte_range bi bisz False
       (if ke > kb then mark_byte_range kb (ke - kb) False s3 else s3))"
proof -
  let ?s1 = "\<lparr>page_bitmap = (\<lambda>_. UINT64_MAX), managed_bitmap = (\<lambda>_. 0), reserved_bitmap = (\<lambda>_. 0),
                total_pages_count = 0, free_pages_count = 0, reserved_pages_count = 0,
                saved_map = None, saved_map_size = 0, saved_desc_size = 0\<rparr>
      \<lparr>saved_map := Some m, saved_map_size := msz, saved_desc_size := dsz\<rparr>"
  let ?s2 = "map_scan (map_bytes m) (unat msz) (unat dsz) 0 ?s1"
  have "counts_ok ?s1" "reserved ?s1 = {}"
    by (simp_all add: counts_ok_def managed_def free_set_def reserved_def pg_bit_iff UINT64_MAX_def)
  then have "boot_ok ?s2" using map_scan_ok[of ?s1] by (simp add: boot_ok_def)
  then show thesis using assms
    by (intro that[of "mark_range 0 (0x100000 div RIXURI_PAGE_SIZE) False ?s2"])
      (simp_all add: mark_range_reserve low_pages_reserved pmm_init_def Let_def)
qed

lemma pmm_init_refused:
  assumes "memory_map = None \<or> dsz < EFI_DESCRIPTOR_MIN_SIZE \<or> dsz > 4096 \<or> msz < dsz"
  shows "managed (pmm_init memory_map msz dsz kb ke bi bisz) = {}" "boot_ok (pmm_init memory_map msz dsz kb ke bi bisz)"
proof -
  have "pmm_init memory_map msz dsz kb ke bi bisz = \<lparr>page_bitmap = (\<lambda>_. UINT64_MAX), managed_bitmap = (\<lambda>_. 0),
      reserved_bitmap = (\<lambda>_. 0), total_pages_count = 0, free_pages_count = 0, reserved_pages_count = 0,
      saved_map = None, saved_map_size = 0, saved_desc_size = 0\<rparr>"
    using assms by (auto simp: pmm_init_def Let_def split: option.splits)
  then show "managed (pmm_init memory_map msz dsz kb ke bi bisz) = {}" "boot_ok (pmm_init memory_map msz dsz kb ke bi bisz)"
    by (simp_all add: boot_ok_def counts_ok_def managed_def free_set_def reserved_def pg_bit_iff UINT64_MAX_def)
qed

lemma pmm_init_inv: "pmm_inv (pmm_init memory_map msz dsz kb ke bi bisz)"
proof (cases "memory_map = None \<or> dsz < EFI_DESCRIPTOR_MIN_SIZE \<or> dsz > 4096 \<or> msz < dsz")
  case True
  then show ?thesis using pmm_init_refused[OF True, of kb ke bi bisz] by (simp add: pmm_inv_def boot_ok_def)
next
  case False
  then obtain m where m: "memory_map = Some m" by auto
  obtain s3 where s3: "boot_ok s3" "{..<256} \<subseteq> reserved s3" "pmm_init memory_map msz dsz kb ke bi bisz =
      mark_byte_range (map_addr m) msz False (mark_byte_range bi bisz False (if ke > kb then mark_byte_range kb (ke - kb) False s3 else s3))"
    using pmm_init_stages[OF refl m] False by blast
  have "boot_ok (pmm_init memory_map msz dsz kb ke bi bisz) \<and> {..<256} \<subseteq> reserved (pmm_init memory_map msz dsz kb ke bi bisz)"
    unfolding s3(3) using s3(1,2) mark_byte_range_reserve by (auto split: if_split) blast+
  then show ?thesis by (auto simp: pmm_inv_def boot_ok_def)
qed

lemma pmm_running: "pmm_reachable (pmm_init mm msz dsz kb ke bi bisz) s \<Longrightarrow> pmm_keeps (pmm_init mm msz dsz kb ke bi bisz) s"
  using pmm_reachable_keeps pmm_init_inv by blast

end
