(* ===== verification/Pmm_Properties.thy ===== *)
theory Pmm_Properties
  imports Pmm_Invariants
begin

text \<open>
  What the page allocator promises: exact counters, first-fit allocation of single pages and of runs, the
  protection of boot memory, and the contract \<open>page_source\<close> its clients rely on.
\<close>

subsection \<open>Properties\<close>

lemma keeps_counters:
  assumes "pmm_keeps s0 s"
  shows "unat (pmm_total_pages s) = card (managed s)" "unat (pmm_free_pages s) = card (free_set s)"
    "unat (pmm_reserved_pages s) = card (reserved s)" "free_set s \<subseteq> managed s - reserved s"
proof -
  have "counts_ok s" "free_set s \<inter> reserved s = {}" using assms by (auto simp: pmm_keeps_def pmm_inv_def)
  then show "unat (pmm_total_pages s) = card (managed s)" "unat (pmm_free_pages s) = card (free_set s)"
    "unat (pmm_reserved_pages s) = card (reserved s)" "free_set s \<subseteq> managed s - reserved s"
    using of_nat_pages(1)[OF pages_bound(1)] of_nat_pages(1)[OF pages_bound(2)] of_nat_pages(1)[OF pages_bound(3)]
    by (auto simp: counts_ok_def pmm_total_pages_def pmm_free_pages_def pmm_reserved_pages_def simp del: unat_of_nat)
qed

lemma below_limit:
  fixes mx :: u64
  assumes "p < RIXURI_MAX_PAGES"
  defines "m \<equiv> (if mx > RIXURI_MAX_PHYS_BYTES then RIXURI_MAX_PHYS_BYTES else mx)"
  assumes "\<not> m < RIXURI_PAGE_SIZE"
  shows "p \<le> unat ((m - 1) div RIXURI_PAGE_SIZE) \<longleftrightarrow> 4096 * p < unat mx"
proof -
  have m: "unat m = min (unat mx) (4096 * RIXURI_MAX_PAGES)" by (auto simp: m_def word_less_nat_alt unat_MAX_PHYS min_def)
  have "m \<noteq> 0" using assms(3) by (auto simp: RIXURI_PAGE_SIZE_def)
  then have "unat ((m - 1) div RIXURI_PAGE_SIZE) = (unat m - 1) div 4096" "0 < unat m"
    using unat_minus_1[of m] by (simp_all add: unat_div_page unat_gt_0)
  then have "p \<le> unat ((m - 1) div RIXURI_PAGE_SIZE) \<longleftrightarrow> 4096 * p < unat m"
    by (auto simp: less_eq_div_iff_mult_less_eq mult.commute)
  then show ?thesis using m assms(1) by auto
qed

text \<open>A machine with sixteen usable pages above the first megabyte: one descriptor of type 7.\<close>

definition demo_map :: efi_map where
  "demo_map = \<lparr>map_addr = 0x2000, map_bytes = (\<lambda>i. if i = 0 then 7 else if i = 10 then 16 else if i = 24 then 16 else 0)\<rparr>"

definition demo_pmm :: pmm where
  "demo_pmm = pmm_init (Some demo_map) 40 40 0 0 0 0"

lemma load_le_numeral: "load_le m off (numeral k) = unat (m off) + 256 * load_le m (off + 1) (pred_numeral k)"
  by (subst numeral_eq_Suc[of k]) (rule load_le.simps)

lemma demo_desc: "desc_type (map_bytes demo_map) 0 = 7" "desc_base (map_bytes demo_map) 0 = 0x100000"
    "desc_pages (map_bytes demo_map) 0 = 16"
  by (simp_all add: desc_type_def desc_base_def desc_pages_def demo_map_def load_le_numeral)

lemma demo_scan: "map_scan (map_bytes demo_map) 40 40 0 s = mark_range 0x100000 16 True s"
proof -
  have "map_descriptor 7 0x100000 16 s = mark_range 0x100000 16 True s"
    by (simp add: map_descriptor_def usable_type_def RIXURI_MAX_PHYS_BYTES_def RIXURI_PAGE_SIZE_def Let_def)
  then show ?thesis by (simp add: map_scan.simps demo_desc)
qed

lemma demo_free: "free_set demo_pmm = {256..<272}"
proof -
  have e: "mark_byte_range 0x2000 40 False s = mark_range 0x2000 1 False s" for s
    by (simp add: mark_byte_range_def RIXURI_PAGE_SIZE_def UINT64_MAX_def)
  have z: "mark_byte_range 0 0 False s = s" for s by (simp add: mark_byte_range_def)
  have l: "unat (0x100000 div RIXURI_PAGE_SIZE) = 256" by (simp add: unat_div_page)
  let ?s = "\<lparr>page_bitmap = (\<lambda>_. UINT64_MAX), managed_bitmap = (\<lambda>_. 0), reserved_bitmap = (\<lambda>_. 0),
      total_pages_count = 0, free_pages_count = 0, reserved_pages_count = 0,
      saved_map = Some demo_map, saved_map_size = 40, saved_desc_size = 40\<rparr>"
  have f: "free_set ?s = {}" by (simp add: free_set_def pg_bit_iff UINT64_MAX_def)
  have d: "demo_pmm = mark_range 0x2000 1 False (mark_range 0 (0x100000 div RIXURI_PAGE_SIZE) False (mark_range 0x100000 16 True ?s))"
    by (simp add: demo_pmm_def pmm_init_def EFI_DESCRIPTOR_MIN_SIZE_def demo_scan z)
       (simp add: demo_map_def e)
  show ?thesis unfolding d mark_range_sets(2) f l by (auto simp: RIXURI_MAX_PAGES_def)
qed

text \<open>C11: Page allocation is first fit and exact.  In every state a running allocator can reach from any
  firmware map, the three counters are the sizes of the three page sets and free pages are managed and not
  reserved; an allocation below a limit returns 0 and changes nothing exactly when no free page starts below
  the limit, and otherwise takes the lowest free page and nothing else.\<close>

theorem pmm_alloc_first_fit:
  fixes mx :: u64
  assumes "pmm_reachable (pmm_init mm msz dsz kb ke bi bisz) s"
  defines "F \<equiv> {p \<in> free_set s. 4096 * p < unat mx}"
  shows "unat (pmm_total_pages s) = card (managed s) \<and> unat (pmm_free_pages s) = card (free_set s) \<and>
    unat (pmm_reserved_pages s) = card (reserved s) \<and> free_set s \<subseteq> managed s - reserved s \<and>
    (case pmm_alloc_page_below mx s of
       (a, s') \<Rightarrow> if F = {} then a = 0 \<and> s' = s
                  else a \<noteq> 0 \<and> unat a = 4096 * Min F \<and> managed s' = managed s \<and> reserved s' = reserved s \<and>
                       free_set s' = free_set s - {Min F})"
proof -
  note k = pmm_running[OF assms(1)]
  have inv: "pmm_inv s" using k by (simp add: pmm_keeps_def)
  have b: "p < RIXURI_MAX_PAGES" if "p \<in> free_set s" for p using that by (simp add: free_set_def)
  have nz: "p \<noteq> 0" if "p \<in> free_set s" for p
    using that inv keeps_counters(4)[OF k] by (auto simp: pmm_inv_def)
  have "case pmm_alloc_page_below mx s of
       (a, s') \<Rightarrow> if F = {} then a = 0 \<and> s' = s
                  else a \<noteq> 0 \<and> unat a = 4096 * Min F \<and> managed s' = managed s \<and> reserved s' = reserved s \<and>
                       free_set s' = free_set s - {Min F}"
  proof (cases rule: alloc_below_cases[OF inv, of mx, case_names none page])
    case none
    have "F = {}"
    proof (rule ccontr)
      assume "F \<noteq> {}"
      then obtain p where p: "p \<in> free_set s" "4096 * p < unat mx" by (auto simp: F_def)
      have "4096 \<le> unat mx" using p nz[OF p(1)] by linarith
      then have "\<not> (if mx > RIXURI_MAX_PHYS_BYTES then RIXURI_MAX_PHYS_BYTES else mx) < RIXURI_PAGE_SIZE"
        by (auto simp: word_less_nat_alt RIXURI_PAGE_SIZE_def RIXURI_MAX_PHYS_BYTES_def)
      from none(2) below_limit[OF b[OF p(1)] this] this p show False by auto
    qed
    then show ?thesis using none(1) by simp
  next
    case (page p s')
    have p: "p \<in> F" using page(4,5) below_limit[OF b[OF page(4)] page(3)] by (simp add: F_def)
    have "finite F" by (simp add: F_def)
    then have "Min F = p" using p page(6) by (intro Min_eqI) (auto simp: F_def)
    then show ?thesis using page p unat_page_addr[OF b[OF page(4)]] by auto
  qed
  then show ?thesis using keeps_counters[OF k] by blast
qed

theorem pmm_alloc_first_fit_witness:
  "case pmm_alloc_page_below 0x101000 demo_pmm of
     (a, s') \<Rightarrow> unat a = 0x100000 \<and> free_set s' = {257..<272} \<and> unat (pmm_free_pages demo_pmm) = 16"
proof -
  have F: "{p \<in> free_set demo_pmm. 4096 * p < unat (0x101000 :: u64)} = {256}" by (auto simp: demo_free)
  have "pmm_reachable (pmm_init (Some demo_map) 40 40 0 0 0 0) demo_pmm"
    unfolding demo_pmm_def by (rule pmm_reachable.Init)
  from pmm_alloc_first_fit[OF this, of "0x101000"] show ?thesis unfolding F by (auto simp: demo_free split: prod.splits)
qed

text \<open>C36: Contiguous allocation is first fit.  It returns 0 and changes nothing exactly when the count is 0 or
  no run of that many free pages exists, and otherwise takes the lowest such run and nothing else.\<close>

theorem pmm_alloc_pages_first_fit:
  fixes n :: u64
  assumes "pmm_reachable (pmm_init mm msz dsz kb ke bi bisz) s"
  defines "B \<equiv> {b. {b..<b + unat n} \<subseteq> free_set s}"
  shows "case pmm_alloc_pages n s of
       (a, s') \<Rightarrow> if n = 0 \<or> B = {} then a = 0 \<and> s' = s
                  else a \<noteq> 0 \<and> unat a = 4096 * (LEAST b. b \<in> B) \<and> managed s' = managed s \<and> reserved s' = reserved s \<and>
                       free_set s' = free_set s - {LEAST b. b \<in> B..<(LEAST b. b \<in> B) + unat n}"
proof -
  have inv: "pmm_inv s" using pmm_running[OF assms(1)] by (simp add: pmm_keeps_def)
  show ?thesis
  proof (cases rule: alloc_pages_cases[OF inv, of n, case_names none run])
    case none
    have "n = 0 \<or> B = {}"
    proof (rule ccontr)
      assume c: "\<not> (n = 0 \<or> B = {})"
      then obtain b where b: "{b..<b + unat n} \<subseteq> free_set s" by (auto simp: B_def)
      then have "unat n \<le> card (free_set s)" using card_mono[OF _ b] by simp
      then have "unat n \<le> RIXURI_MAX_PAGES" using card_pages_le[OF pages_bound(2), of s] by simp
      then show False using none(2) c b by auto
    qed
    then show ?thesis using none(1) by auto
  next
    case (run b s')
    have least: "(LEAST b. b \<in> B) = b" using run(4,5) by (intro Least_equality) (auto simp: B_def)
    have "b \<in> free_set s" using run(3,4) by (auto simp: unat_gt_0 word_gt_0)
    then have "unat (page_addr b) = 4096 * b" by (intro unat_page_addr) (simp add: free_set_def)
    moreover have "B \<noteq> {}" using run(4) by (auto simp: B_def)
    ultimately show ?thesis using run(1,2,3,6,7,8) least by simp
  qed
qed

theorem pmm_alloc_pages_first_fit_witness:
  "case pmm_alloc_pages 16 demo_pmm of (a, s') \<Rightarrow> unat a = 0x100000 \<and> free_set s' = {}"
proof -
  have B: "{b. {b..<b + unat (16 :: u64)} \<subseteq> free_set demo_pmm} = {256}"
    by (auto simp: demo_free atLeastLessThan_subset_iff)
  have L: "(LEAST b. b = (256 :: nat)) = 256" by (rule Least_equality) auto
  have "pmm_reachable (pmm_init (Some demo_map) 40 40 0 0 0 0) demo_pmm"
    unfolding demo_pmm_def by (rule pmm_reachable.Init)
  from pmm_alloc_pages_first_fit[OF this, of 16] show ?thesis unfolding B by (auto simp: demo_free L split: prod.splits)
qed

text \<open>The pages of a byte range that starts at a page boundary.\<close>

lemma mark_byte_range_aligned:
  assumes "kb < ke" "unat kb mod 4096 = 0" "unat ke + 8190 < 2 ^ 64"
  shows "{p. p < RIXURI_MAX_PAGES \<and> unat kb div 4096 \<le> p \<and> 4096 * p < unat ke} \<subseteq> reserved (mark_byte_range kb (ke - kb) False s)"
proof -
  have d: "unat (ke - kb) = unat ke - unat kb" "unat kb < unat ke" using assms(1) by (simp_all add: unat_sub word_less_nat_alt word_le_nat_alt less_imp_le)
  have nz: "ke - kb \<noteq> 0" using assms(1) by auto
  have "mark_byte_range kb (ke - kb) False s = (let a = (unat kb + 4095) div 4096; n = (unat (ke - kb) + unat kb mod 4096 + 4095) div 4096
     in fold (mark_page False) [a..<min (a + n) RIXURI_MAX_PAGES] s)"
    using assms(3) d by (intro mark_byte_range_eq nz) auto
  moreover obtain k where k: "unat kb = 4096 * k" using assms(2) by (metis dvd_def mod_0_imp_dvd)
  ultimately have res: "reserved (mark_byte_range kb (ke - kb) False s) =
      reserved s \<union> {k..<min (k + (unat ke - 4096 * k + 4095) div 4096) RIXURI_MAX_PAGES}"
    using d by (simp add: mark_fold_sets Let_def)
  show ?thesis
  proof (rule subsetI)
    fix p assume "p \<in> {p. p < RIXURI_MAX_PAGES \<and> unat kb div 4096 \<le> p \<and> 4096 * p < unat ke}"
    then have p: "p < RIXURI_MAX_PAGES" "k \<le> p" "4096 * p < unat ke" unfolding k by simp_all
    have "4096 * (p - k) + 1 \<le> unat ke - 4096 * k" using p(2,3) by linarith
    then have "(4096 * (p - k) + 1 + 4095) div 4096 \<le> (unat ke - 4096 * k + 4095) div 4096" by (intro div_le_mono add_right_mono)
    moreover have "(4096 * (p - k) + 1 + 4095) div 4096 = p - k + 1" by simp
    ultimately have "p < k + (unat ke - 4096 * k + 4095) div 4096" using p(2) by linarith
    then show "p \<in> reserved (mark_byte_range kb (ke - kb) False s)"
      unfolding res Un_iff atLeastLessThan_iff min_less_iff_conj using p(1,2) by blast
  qed
qed

text \<open>C37: Boot memory is never handed out.  Once a firmware map is accepted, in every later state the first
  megabyte and every page of a kernel image that starts at a page boundary are reserved, so no allocation
  returns them and no release makes them free.\<close>

theorem pmm_boot_memory_protected:
  assumes run: "pmm_reachable (pmm_init (Some m) msz dsz kb ke bi bisz) s"
    and map: "40 \<le> dsz" "dsz \<le> 4096" "dsz \<le> msz"
    and kernel: "kb < ke" "unat kb mod 4096 = 0" "unat ke + 8190 < 2 ^ 64"
  defines "K \<equiv> {p. p < RIXURI_MAX_PAGES \<and> (p < 256 \<or> unat kb div 4096 \<le> p \<and> 4096 * p < unat ke)}"
  shows "K \<subseteq> reserved s \<and> K \<inter> free_set s = {} \<and> unat (fst (pmm_alloc_page_below mx s)) \<notin> (*) 4096 ` (K - {0}) \<and>
    K \<inter> free_set (pmm_free_page a s) = {}"
proof -
  let ?i = "pmm_init (Some m) msz dsz kb ke bi bisz"
  have "\<not> (dsz < EFI_DESCRIPTOR_MIN_SIZE \<or> dsz > 4096 \<or> msz < dsz)"
    unfolding EFI_DESCRIPTOR_MIN_SIZE_def not_less de_Morgan_disj using map by blast
  then obtain s3 where s3: "{..<256} \<subseteq> reserved s3" "?i = mark_byte_range (map_addr m) msz False
      (mark_byte_range bi bisz False (if ke > kb then mark_byte_range kb (ke - kb) False s3 else s3))"
    by (rule pmm_init_stages[OF refl refl])
  have "K \<subseteq> {..<256} \<union> {p. p < RIXURI_MAX_PAGES \<and> unat kb div 4096 \<le> p \<and> 4096 * p < unat ke}" by (auto simp: K_def)
  also have "\<dots> \<subseteq> reserved (mark_byte_range kb (ke - kb) False s3)"
    by (intro Un_least order_trans[OF s3(1) mark_byte_range_reserve(2)] mark_byte_range_aligned[OF kernel])
  finally have "K \<subseteq> reserved (mark_byte_range kb (ke - kb) False s3)" .
  moreover have "reserved (mark_byte_range kb (ke - kb) False s3) \<subseteq> reserved ?i"
    unfolding s3(2) if_P[OF kernel(1)] by (intro order_trans[OF mark_byte_range_reserve(2) mark_byte_range_reserve(2)])
  ultimately have "K \<subseteq> reserved ?i" by (rule order_trans)
  moreover have k: "pmm_keeps ?i s" by (rule pmm_running[OF run])
  ultimately have K: "K \<subseteq> reserved s'" if "pmm_keeps ?i s'" for s' using that by (auto simp: pmm_keeps_def)
  have dis: "K \<inter> free_set s' = {}" if "pmm_keeps ?i s'" for s'
    using K[OF that] keeps_counters(4)[OF that] by auto
  have inv: "pmm_inv s" using k by (simp add: pmm_keeps_def)
  have "unat (fst (pmm_alloc_page_below mx s)) \<notin> (*) 4096 ` (K - {0})"
  proof (cases rule: alloc_below_cases[OF inv, of mx, case_names none page])
    case (page p s')
    then have "p \<notin> K" "unat (page_addr p) = 4096 * p" using dis[OF k] by (auto simp: unat_page_addr free_set_def)
    then show ?thesis using page(1) by auto
  qed auto
  then show ?thesis using K[OF k] dis[OF k] dis[OF keeps_free[OF k]] by blast
qed

theorem pmm_boot_memory_protected_witness:
  "\<exists>s. pmm_reachable (pmm_init (Some demo_map) 40 40 0x100000 0x102000 0 0) s \<and> 257 \<in> reserved s"
proof -
  let ?s = "pmm_init (Some demo_map) 40 40 0x100000 0x102000 0 0"
  have r: "pmm_reachable ?s ?s" by (rule pmm_reachable.Init)
  show ?thesis using pmm_boot_memory_protected[OF r] r by (auto simp: RIXURI_MAX_PAGES_def subset_eq)
qed

text \<open>A boot object that does not start at a page boundary loses its first page.  The byte range is turned
  into a page count from the start of its first page but \<open>mark_range\<close> counts from the next boundary: the page
  that holds the first bytes stays as free as it was, and a page beyond the object is reserved instead.\<close>

theorem mark_byte_range_misses_first_page:
  assumes "unat base mod 4096 \<noteq> 0" "sz \<noteq> 0" "unat base + unat sz + 8190 < 2 ^ 64"
  defines "p \<equiv> unat base div 4096" and "n \<equiv> (unat sz + unat base mod 4096 + 4095) div 4096"
  shows "free_set (mark_byte_range base sz False s) = free_set s - {p + 1..<min (p + 1 + n) RIXURI_MAX_PAGES} \<and>
    (p \<in> free_set (mark_byte_range base sz False s) \<longleftrightarrow> p \<in> free_set s) \<and> unat base + unat sz \<le> 4096 * (p + n)"
proof -
  have a: "(unat base + 4095) div 4096 = p + 1"
  proof -
    have "unat base = 4096 * p + unat base mod 4096" by (simp add: p_def)
    moreover have "0 < unat base mod 4096" "unat base mod 4096 < 4096" using assms(1) by auto
    ultimately show ?thesis by linarith
  qed
  have "free_set (mark_byte_range base sz False s) = free_set s - {p + 1..<min (p + 1 + n) RIXURI_MAX_PAGES}"
    using assms(2,3) by (subst mark_byte_range_eq) (simp_all add: mark_fold_sets Let_def a n_def)
  moreover have "unat base + unat sz \<le> 4096 * (p + n)"
  proof -
    have "unat sz + unat base mod 4096 \<le> 4096 * n" unfolding n_def by linarith
    moreover have "unat base = 4096 * p + unat base mod 4096" by (simp add: p_def)
    moreover have "4096 * (p + n) = 4096 * p + 4096 * n" by simp
    ultimately show ?thesis by linarith
  qed
  ultimately show ?thesis by auto
qed

theorem mark_byte_range_misses_first_page_witness:
  "257 \<in> free_set (mark_byte_range 0x101010 32 False demo_pmm) \<and> 258 \<notin> free_set (mark_byte_range 0x101010 32 False demo_pmm)"
  using mark_byte_range_misses_first_page[where base = "0x101010" and sz = 32 and s = demo_pmm] by (simp add: demo_free RIXURI_MAX_PAGES_def)

subsection \<open>The contract of a page source\<close>

text \<open>What a client of single pages relies on: pages are aligned, inside the identity-mapped range, handed out
  once until they are released, and a release of anything else is ignored.\<close>

locale page_source =
  fixes alloc :: "'s \<Rightarrow> u64 \<times> 's" and release :: "u64 \<Rightarrow> 's \<Rightarrow> 's" and owned :: "'s \<Rightarrow> u64 set" and ok :: "'s \<Rightarrow> bool"
  assumes alloc_page: "ok s \<Longrightarrow> alloc s = (a, s') \<Longrightarrow> a \<noteq> 0 \<Longrightarrow> a \<notin> owned s \<and> owned s' = insert a (owned s) \<and> ok s'"
    and alloc_none: "ok s \<Longrightarrow> alloc s = (0, s') \<Longrightarrow> s' = s"
    and release_page: "ok s \<Longrightarrow> a \<in> owned s \<Longrightarrow> owned (release a s) = owned s - {a} \<and> ok (release a s)"
    and release_other: "ok s \<Longrightarrow> a \<notin> owned s \<Longrightarrow> release a s = s"
    and owned_page: "ok s \<Longrightarrow> a \<in> owned s \<Longrightarrow> unat a \<noteq> 0 \<and> unat a mod 4096 = 0 \<and> unat a + 4096 \<le> 2 ^ 37"
begin

lemma ok_alloc: "ok s \<Longrightarrow> alloc s = (a, s') \<Longrightarrow> ok s'"
  by (cases "a = 0") (use alloc_page[of s a s'] alloc_none[of s s'] in simp_all)

lemma alloc_owned: "ok s \<Longrightarrow> alloc s = (a, s') \<Longrightarrow> owned s' = (if a = 0 then owned s else insert a (owned s))"
  by (cases "a = 0") (use alloc_page[of s a s'] alloc_none[of s s'] in simp_all)

lemma owned_apart:
  assumes "ok s" "a \<in> owned s" "b \<in> owned s" "a \<noteq> b"
  shows "unat a + 4096 \<le> unat b \<or> unat b + 4096 \<le> unat a"
proof -
  have "unat a mod 4096 = 0" "unat b mod 4096 = 0" "unat a \<noteq> unat b"
    using owned_page assms by (auto simp: word_unat_eq_iff)
  then obtain k l where "unat a = 4096 * k" "unat b = 4096 * l" "k \<noteq> l" by (metis mod_0_imp_dvd dvdE)
  then show ?thesis by linarith
qed

lemma release_ok: "ok s \<Longrightarrow> ok (release a s)"
  by (cases "a \<in> owned s") (use release_page[of s a] release_other[of s a] in simp_all)

end

definition owned_pages :: "pmm \<Rightarrow> u64 set" where
  "owned_pages s = page_addr ` (managed s - free_set s - reserved s)"

lemma owned_pages_iff:
  "a \<in> owned_pages s \<longleftrightarrow> a AND (RIXURI_PAGE_SIZE - 1) = 0 \<and> unat (a div RIXURI_PAGE_SIZE) \<in> managed s - free_set s - reserved s"
proof
  assume "a \<in> owned_pages s"
  then obtain p where "a = page_addr p" "p \<in> managed s - free_set s - reserved s" "p < RIXURI_MAX_PAGES"
    by (auto simp: owned_pages_def managed_def)
  then show "a AND (RIXURI_PAGE_SIZE - 1) = 0 \<and> unat (a div RIXURI_PAGE_SIZE) \<in> managed s - free_set s - reserved s"
    by (simp add: page_addr_page page_addr_aligned)
qed (metis image_eqI owned_pages_def page_addr_of_aligned)

lemma inj_page_addr: "inj_on page_addr {p. p < RIXURI_MAX_PAGES}"
  by (rule inj_on_inverseI[of _ "\<lambda>a. unat (a div RIXURI_PAGE_SIZE)"]) (simp add: page_addr_page)

interpretation pg: page_source pmm_alloc_page pmm_free_page owned_pages pmm_inv
proof
  fix s a s'
  assume inv: "pmm_inv s" and al: "pmm_alloc_page s = (a, s')"
  have sub: "free_set s \<subseteq> managed s - reserved s" using inv by (auto simp: pmm_inv_def counts_ok_def)
  show "a \<notin> owned_pages s \<and> owned_pages s' = insert a (owned_pages s) \<and> pmm_inv s'" if "a \<noteq> 0"
  proof (cases rule: alloc_below_cases[OF inv, of RIXURI_MAX_PHYS_BYTES, case_names none page])
    case (page p t)
    have eq: "a = page_addr p" "s' = t" using al page(1) by (auto simp: pmm_alloc_page_def)
    have p: "p < RIXURI_MAX_PAGES" "p \<in> managed s" "p \<notin> reserved s" using page(4) sub by (auto simp: managed_def)
    have "a \<notin> owned_pages s" using page(4) p(1) by (simp add: owned_pages_iff eq page_addr_page)
    moreover have "managed s' - free_set s' - reserved s' = insert p (managed s - free_set s - reserved s)"
      using page(7,8,9) p sub page(4) eq(2) by auto
    ultimately show ?thesis using page(10) eq by (simp add: owned_pages_def)
  qed (use al that in \<open>simp add: pmm_alloc_page_def\<close>)
next
  fix s s'
  assume inv: "pmm_inv s" and al: "pmm_alloc_page s = (0, s')"
  show "s' = s"
    by (cases rule: alloc_below_cases[OF inv, of RIXURI_MAX_PHYS_BYTES, case_names none page])
      (use al in \<open>auto simp: pmm_alloc_page_def\<close>)
next
  fix s a
  assume inv: "pmm_inv s" and a: "a \<in> owned_pages s"
  let ?p = "unat (a div RIXURI_PAGE_SIZE)"
  have p: "a AND (RIXURI_PAGE_SIZE - 1) = 0" "?p \<in> managed s - free_set s - reserved s" using a by (auto simp: owned_pages_iff)
  have ok: "counts_ok s" using inv by (simp add: pmm_inv_def)
  note f = free_page_sets[OF p(1) refl p(2) ok]
  have "pmm_inv (pmm_free_page a s)" using inv f p(2) by (auto simp: pmm_inv_def)
  moreover have "owned_pages (pmm_free_page a s) = owned_pages s - {a}"
    by (rule set_eqI) (use f p page_addr_of_aligned in \<open>auto simp: owned_pages_iff\<close>, metis page_addr_of_aligned)
  ultimately show "owned_pages (pmm_free_page a s) = owned_pages s - {a} \<and> pmm_inv (pmm_free_page a s)" by simp
next
  fix s a
  assume "a \<notin> owned_pages s"
  then show "pmm_free_page a s = s" by (intro free_page_other) (simp add: owned_pages_iff)
next
  fix s a
  assume inv: "pmm_inv s" and "a \<in> owned_pages s"
  then obtain p where p: "a = page_addr p" "p \<in> managed s" "p \<notin> reserved s" by (auto simp: owned_pages_def)
  then have "256 \<le> p" "p < RIXURI_MAX_PAGES" using inv by (auto simp: pmm_inv_def managed_def not_less[symmetric])
  then show "unat a \<noteq> 0 \<and> unat a mod 4096 = 0 \<and> unat a + 4096 \<le> 2 ^ 37"
    using unat_page_addr[of p] p(1) by (auto simp: RIXURI_MAX_PAGES_def)
qed

end
