(* ===== verification/Heap.thy ===== *)
theory Heap
  imports Pmm_Properties
begin

text \<open>
  The kernel heap, \<^verbatim>\<open>kernel/mm/heap.c\<close>: a table of 256 allocation records over pages taken from the page
  allocator, with first-fit reuse of freed blocks and a bump pointer in the current page.  The page allocator
  is the one of \<^verbatim>\<open>kernel/mm/pmm.c\<close>; the proofs use only its contract \<open>page_source\<close>.
\<close>

subsection \<open>State and operations\<close>

definition HEAP_PAGE_SIZE :: u64 where [simp]: "HEAP_PAGE_SIZE = 4096"
definition HEAP_MAX_ALIGNMENT :: u64 where [simp]: "HEAP_MAX_ALIGNMENT = 4096"
definition HEAP_MAX_ALLOCS :: nat where "HEAP_MAX_ALLOCS = 256"
definition HEAP_MIN_SPLIT :: u64 where "HEAP_MIN_SPLIT = 16"
definition UINTPTR_MAX :: u64 where "UINTPTR_MAX = -1"

record heap_allocation =
  ha_page :: u64
  ha_ptr :: u64
  ha_size :: u64
  ha_active :: bool

record heap =
  current_page :: u64
  current_offset :: u64
  allocations :: "nat \<Rightarrow> heap_allocation"

definition empty_record :: heap_allocation where
  "empty_record = \<lparr>ha_page = 0, ha_ptr = 0, ha_size = 0, ha_active = False\<rparr>"

definition align_ptr :: "u64 \<Rightarrow> u64 \<Rightarrow> u64" where
  "align_ptr value alignment =
     (let msk = alignment - 1 in if value > UINTPTR_MAX - msk then UINTPTR_MAX else (value + msk) AND NOT msk)"

definition page_has_live_allocations :: "(nat \<Rightarrow> heap_allocation) \<Rightarrow> u64 \<Rightarrow> bool" where
  "page_has_live_allocations as page = list_ex (\<lambda>i. ha_active (as i) \<and> ha_page (as i) = page) [0..<HEAP_MAX_ALLOCS]"

definition find_empty_record :: "heap \<Rightarrow> nat option" where
  "find_empty_record h = find (\<lambda>i. \<not> ha_active (allocations h i) \<and> ha_ptr (allocations h i) = 0) [0..<HEAP_MAX_ALLOCS]"

definition block_fits :: "u64 \<Rightarrow> u64 \<Rightarrow> heap_allocation \<Rightarrow> bool" where
  "block_fits sz alignment r \<longleftrightarrow>
     \<not> (ha_active r \<or> ha_ptr r = 0) \<and>
     (let aligned = align_ptr (ha_ptr r) alignment
      in \<not> (aligned = UINTPTR_MAX \<or> aligned \<noteq> ha_ptr r) \<and>
         \<not> (aligned + sz < aligned \<or> aligned + sz > ha_ptr r + ha_size r))"

definition find_free_block :: "heap \<Rightarrow> u64 \<Rightarrow> u64 \<Rightarrow> (nat \<times> u64) option" where
  "find_free_block h sz alignment =
     map_option (\<lambda>i. (i, align_ptr (ha_ptr (allocations h i)) alignment))
       (find (\<lambda>i. block_fits sz alignment (allocations h i)) [0..<HEAP_MAX_ALLOCS])"

definition heap_init :: heap where
  "heap_init = \<lparr>current_page = 0, current_offset = 0, allocations = (\<lambda>_. empty_record)\<rparr>"

text \<open>The reuse path of \<open>kmalloc\<close>: split off the tail where it is worth a record, then claim the block.\<close>

definition kmalloc_reuse :: "u64 \<Rightarrow> nat \<Rightarrow> u64 \<Rightarrow> heap \<Rightarrow> heap" where
  "kmalloc_reuse sz i reuse_at h =
     (let b = allocations h i;
          tail = (ha_ptr b + ha_size b) - (reuse_at + sz);
          as1 = (if tail \<ge> HEAP_MIN_SPLIT
                 then (case find_empty_record h of
                         Some j \<Rightarrow> (allocations h)(j := \<lparr>ha_page = ha_page b, ha_ptr = reuse_at + sz, ha_size = tail, ha_active = False\<rparr>)
                       | None \<Rightarrow> allocations h)
                 else allocations h)
      in h\<lparr>allocations := as1(i := (as1 i)\<lparr>ha_ptr := reuse_at, ha_size := sz, ha_active := True\<rparr>)\<rparr>)"

text \<open>The end of the bump path: fill the record and move the bump offset.\<close>

definition kmalloc_record :: "u64 \<Rightarrow> nat \<Rightarrow> u64 \<Rightarrow> heap \<Rightarrow> heap" where
  "kmalloc_record sz r aligned h =
     h\<lparr>allocations := (allocations h)(r := \<lparr>ha_page = current_page h, ha_ptr = aligned, ha_size = sz, ha_active = True\<rparr>),
       current_offset := aligned + sz - current_page h\<rparr>"

definition span_misfit :: "u64 \<Rightarrow> u64 \<Rightarrow> u64 \<Rightarrow> bool" where
  "span_misfit base aligned sz \<longleftrightarrow> aligned = UINTPTR_MAX \<or> aligned + sz < aligned \<or> aligned + sz > base + HEAP_PAGE_SIZE"

definition kmalloc :: "u64 \<Rightarrow> u64 \<Rightarrow> heap \<Rightarrow> pmm \<Rightarrow> u64 \<times> heap \<times> pmm" where
  "kmalloc sz alignment0 h s =
     (if sz = 0 then (0, h, s)
      else let alignment = (if alignment0 = 0 then 8 else alignment0)
      in if alignment AND (alignment - 1) \<noteq> 0 \<or> alignment > HEAP_MAX_ALIGNMENT then (0, h, s)
      else case find_free_block h sz alignment of
        Some (i, reuse_at) \<Rightarrow> (reuse_at, kmalloc_reuse sz i reuse_at h, s)
      | None \<Rightarrow>
          (case find_empty_record h of
             None \<Rightarrow> (0, h, s)
           | Some r \<Rightarrow>
               let base = current_page h; aligned = align_ptr (base + current_offset h) alignment
               in if current_page h = 0 \<or> span_misfit base aligned sz
                  then (case pmm_alloc_page s of
                          (phys, s1) \<Rightarrow>
                            if phys = 0 then (0, h, s1)
                            else let h1 = h\<lparr>current_page := phys, current_offset := 0\<rparr>; aligned2 = align_ptr phys alignment
                                 in if span_misfit phys aligned2 sz
                                    then (0, h1\<lparr>current_page := 0, current_offset := 0\<rparr>, pmm_free_page phys s1)
                                    else (aligned2, kmalloc_record sz r aligned2 h1, s1))
                  else (aligned, kmalloc_record sz r aligned h, s)))"

definition kfree :: "u64 \<Rightarrow> heap \<Rightarrow> pmm \<Rightarrow> heap \<times> pmm" where
  "kfree ptr h s =
     (if ptr = 0 then (h, s)
      else case find (\<lambda>i. \<not> (\<not> ha_active (allocations h i) \<or> ha_ptr (allocations h i) \<noteq> ptr)) [0..<HEAP_MAX_ALLOCS] of
        None \<Rightarrow> (h, s)
      | Some i \<Rightarrow>
          let page = ha_page (allocations h i);
              as1 = (allocations h)(i := (allocations h i)\<lparr>ha_active := False\<rparr>)
          in if \<not> page_has_live_allocations as1 page
             then let h1 = (if current_page h = page then h\<lparr>current_page := 0, current_offset := 0\<rparr> else h)
                  in (h1\<lparr>allocations := (\<lambda>j. if j < HEAP_MAX_ALLOCS \<and> ha_page (as1 j) = page then empty_record else as1 j)\<rparr>,
                      pmm_free_page page s)
             else (h\<lparr>allocations := as1\<rparr>, s))"

subsection \<open>Blocks\<close>

definition blk :: "heap \<Rightarrow> nat \<Rightarrow> bool" where
  "blk h i \<longleftrightarrow> i < HEAP_MAX_ALLOCS \<and> ha_ptr (allocations h i) \<noteq> 0"

definition in_page :: "heap_allocation \<Rightarrow> bool" where
  "in_page r \<longleftrightarrow> unat (ha_page r) \<le> unat (ha_ptr r) \<and> 0 < unat (ha_size r) \<and>
     unat (ha_ptr r) + unat (ha_size r) \<le> unat (ha_page r) + 4096"

definition apart :: "heap_allocation \<Rightarrow> heap_allocation \<Rightarrow> bool" where
  "apart r q \<longleftrightarrow> unat (ha_ptr r) + unat (ha_size r) \<le> unat (ha_ptr q) \<or> unat (ha_ptr q) + unat (ha_size q) \<le> unat (ha_ptr r)"

definition live_on :: "heap \<Rightarrow> u64 \<Rightarrow> bool" where
  "live_on h page \<longleftrightarrow> (\<exists>j. blk h j \<and> ha_active (allocations h j) \<and> ha_page (allocations h j) = page)"

definition heap_inv :: "heap \<Rightarrow> u64 set \<Rightarrow> bool" where
  "heap_inv h P \<longleftrightarrow>
     (\<forall>i. blk h i \<longrightarrow> in_page (allocations h i) \<and> ha_page (allocations h i) \<in> P \<and> live_on h (ha_page (allocations h i))) \<and>
     (\<forall>i j. blk h i \<longrightarrow> blk h j \<longrightarrow> i \<noteq> j \<longrightarrow> apart (allocations h i) (allocations h j)) \<and>
     (\<forall>i < HEAP_MAX_ALLOCS. ha_active (allocations h i) \<longrightarrow> ha_ptr (allocations h i) \<noteq> 0) \<and>
     (current_page h \<noteq> 0 \<longrightarrow>
        current_page h \<in> P \<and> live_on h (current_page h) \<and> unat (current_offset h) \<le> 4096 \<and>
        (\<forall>i. blk h i \<longrightarrow> ha_page (allocations h i) = current_page h \<longrightarrow>
             unat (ha_ptr (allocations h i)) + unat (ha_size (allocations h i)) \<le> unat (current_page h) + unat (current_offset h)))"

text \<open>The live allocations, as start and size.\<close>

definition live :: "heap \<Rightarrow> (u64 \<times> u64) set" where
  "live h = {(ha_ptr (allocations h i), ha_size (allocations h i)) | i. i < HEAP_MAX_ALLOCS \<and> ha_active (allocations h i)}"

definition heap_pages :: "heap \<Rightarrow> u64 set" where
  "heap_pages h = {ha_page (allocations h i) | i. blk h i} \<union> ({current_page h} - {0})"

end
