(* ===== verification/Heap_Properties.thy ===== *)
theory Heap_Properties
  imports Heap
begin

text \<open>
  Correctness of the kernel heap over the contract of the page allocator: blocks stay inside their pages and
  apart from each other, every page the heap keeps has a live allocation, and what \<open>kmalloc\<close> and \<open>kfree\<close> do to
  the set of live allocations.
\<close>

subsection \<open>Alignment\<close>

lemma nat_pow2_odd: "0 < n \<Longrightarrow> \<exists>k q. n = 2 ^ k * q \<and> odd q" for n :: nat
proof (induction n rule: less_induct)
  case (less n)
  show ?case
  proof (cases "odd n")
    case True
    then show ?thesis by (intro exI[of _ 0] exI[of _ n]) simp
  next
    case False
    then obtain m where m: "n = 2 * m" by (auto elim: evenE)
    then obtain k q where "m = 2 ^ k * q" "odd q" using less.IH[of m] less.prems by auto
    then show ?thesis using m by (intro exI[of _ "Suc k"] exI[of _ q]) simp
  qed
qed

lemma nat_and_minus_1:
  fixes n :: nat
  assumes "n AND (n - 1) = 0" "0 < n"
  shows "\<exists>k. n = 2 ^ k"
proof -
  obtain k q where n: "n = 2 ^ k * q" "odd q" using nat_pow2_odd[OF assms(2)] by blast
  obtain t where q: "q = 2 * t + 1" using n(2) by (auto elim: oddE)
  have e: "n = 2 ^ Suc k * t + 2 ^ k" "n - 1 = 2 ^ Suc k * t + (2 ^ k - 1)" using n(1) q by (simp_all add: algebra_simps)
  have d: "(2 ^ Suc k * t + r) div 2 ^ Suc k = t" if "r < 2 ^ Suc k" for r using that by simp
  have "n div 2 ^ Suc k = t" by (subst e(1), rule d) simp
  moreover have "(n - 1) div 2 ^ Suc k = t" by (subst e(2), rule d) (simp add: less_imp_diff_less)
  ultimately have "drop_bit (Suc k) n AND drop_bit (Suc k) (n - 1) = t" by (simp only: drop_bit_eq_div and.idem)
  then have "drop_bit (Suc k) (n AND (n - 1)) = t" by (simp only: drop_bit_and)
  then have "t = 0" unfolding assms(1) by simp
  then show ?thesis using n(1) q by auto
qed

lemma word_pow2:
  fixes x :: "'a::len word"
  assumes "x AND (x - 1) = 0" "x \<noteq> 0"
  shows "\<exists>k. unat x = 2 ^ k"
proof -
  have "unat x AND unat (x - 1) = 0" using assms(1) by (metis unsigned_and_eq unsigned_0)
  moreover have "unat (x - 1) = unat x - 1" by (rule unat_minus_1[OF assms(2)])
  ultimately show ?thesis using assms(2) by (intro nat_and_minus_1) (simp_all add: unat_gt_0)
qed

lemma align_ptr_spec:
  assumes al: "unat al = 2 ^ k" "k \<le> 12" and v: "unat v + 4096 \<le> 2 ^ 64"
  shows "unat v \<le> unat (align_ptr v al)" "unat (align_ptr v al) mod unat al = 0" "unat (align_ptr v al) < unat v + unat al"
proof -
  have "al = of_nat (2 ^ k)" using al(1) word_of_unat[of al] by metis
  then have msk: "al - 1 = mask k" by (simp add: mask_eq_exp_minus_1)
  have p: "(2 :: nat) ^ k \<le> 2 ^ 12" using al(2) by (intro power_increasing) auto
  have "al \<noteq> 0" using al(1) by (metis power_not_zero unat_0 zero_neq_numeral)
  then have um: "unat (al - 1) = 2 ^ k - 1" using al(1) unat_minus_1[of al] by simp
  have "unat (v + (al - 1)) = unat v + (2 ^ k - 1)" using unat_add_small[of v "al - 1"] v p um by simp
  moreover have "\<not> v > UINTPTR_MAX - (al - 1)"
    using unat_UINT64_MAX_minus[of "al - 1"] v p um by (simp add: word_less_nat_alt UINTPTR_MAX_def UINT64_MAX_def)
  then have "align_ptr v al = (v + (al - 1)) AND NOT (mask k)"
    using msk unfolding align_ptr_def Let_def by simp
  ultimately have u: "unat (align_ptr v al) = (unat v + (2 ^ k - 1)) div 2 ^ k * 2 ^ k"
    by (simp only: unat_and_not_mask minus_mod_eq_div_mult)
  define M where "M = (2 :: nat) ^ k"
  have M: "0 < M" by (simp add: M_def)
  have "(unat v + (M - 1)) mod M < M" using M by simp
  moreover have "(unat v + (M - 1)) div M * M = unat v + (M - 1) - (unat v + (M - 1)) mod M"
    by (rule minus_mod_eq_div_mult[symmetric])
  ultimately show "unat v \<le> unat (align_ptr v al)" "unat (align_ptr v al) < unat v + unat al"
    unfolding u al(1) M_def[symmetric] using M by linarith+
  show "unat (align_ptr v al) mod unat al = 0" unfolding u al(1) by simp
qed

subsection \<open>Preservation of the block structure\<close>

lemma heap_invD:
  assumes "heap_inv h P"
  shows "blk h i \<Longrightarrow> in_page (allocations h i)" "blk h i \<Longrightarrow> ha_page (allocations h i) \<in> P"
    "blk h i \<Longrightarrow> live_on h (ha_page (allocations h i))"
    "blk h i \<Longrightarrow> blk h j \<Longrightarrow> i \<noteq> j \<Longrightarrow> apart (allocations h i) (allocations h j)"
    "i < HEAP_MAX_ALLOCS \<Longrightarrow> ha_active (allocations h i) \<Longrightarrow> blk h i"
  using assms unfolding heap_inv_def blk_def by blast+

lemma heap_invI:
  assumes "\<And>i. blk h i \<Longrightarrow> in_page (allocations h i) \<and> ha_page (allocations h i) \<in> P \<and> live_on h (ha_page (allocations h i))"
    and "\<And>i j. blk h i \<Longrightarrow> blk h j \<Longrightarrow> i \<noteq> j \<Longrightarrow> apart (allocations h i) (allocations h j)"
    and "\<And>i. i < HEAP_MAX_ALLOCS \<Longrightarrow> ha_active (allocations h i) \<Longrightarrow> ha_ptr (allocations h i) \<noteq> 0"
    and "current_page h \<noteq> 0 \<Longrightarrow> current_page h \<in> P \<and> live_on h (current_page h) \<and> unat (current_offset h) \<le> 4096"
    and "\<And>i. current_page h \<noteq> 0 \<Longrightarrow> blk h i \<Longrightarrow> ha_page (allocations h i) = current_page h \<Longrightarrow>
       unat (ha_ptr (allocations h i)) + unat (ha_size (allocations h i)) \<le> unat (current_page h) + unat (current_offset h)"
  shows "heap_inv h P"
  unfolding heap_inv_def using assms by blast

lemma heap_inv_current:
  assumes "heap_inv h P" "current_page h \<noteq> 0"
  shows "current_page h \<in> P" "live_on h (current_page h)" "unat (current_offset h) \<le> 4096"
    "blk h i \<Longrightarrow> ha_page (allocations h i) = current_page h \<Longrightarrow>
       unat (ha_ptr (allocations h i)) + unat (ha_size (allocations h i)) \<le> unat (current_page h) + unat (current_offset h)"
  using assms unfolding heap_inv_def by blast+

definition within :: "heap_allocation \<Rightarrow> heap_allocation \<Rightarrow> bool" where
  "within r q \<longleftrightarrow> ha_page r = ha_page q \<and> unat (ha_ptr q) \<le> unat (ha_ptr r) \<and> 0 < unat (ha_size r) \<and>
     unat (ha_ptr r) + unat (ha_size r) \<le> unat (ha_ptr q) + unat (ha_size q)"

lemma within_refl [simp]: "in_page r \<Longrightarrow> within r r"
  by (simp add: within_def in_page_def)

text \<open>A table whose blocks are parts of the old blocks is well formed again.\<close>

lemma heap_inv_refine:
  assumes inv: "heap_inv h P"
    and part: "\<And>x. blk h' x \<Longrightarrow> blk h (f x) \<and> within (allocations h' x) (allocations h (f x))"
    and pages: "\<And>x. blk h' x \<Longrightarrow> ha_page (allocations h' x) \<in> P' \<and> live_on h' (ha_page (allocations h' x))"
    and same: "\<And>x y. blk h' x \<Longrightarrow> blk h' y \<Longrightarrow> x \<noteq> y \<Longrightarrow> f x = f y \<Longrightarrow> apart (allocations h' x) (allocations h' y)"
    and act: "\<And>x. x < HEAP_MAX_ALLOCS \<Longrightarrow> ha_active (allocations h' x) \<Longrightarrow> ha_ptr (allocations h' x) \<noteq> 0"
    and cur: "current_page h' = 0 \<or> (current_page h' = current_page h \<and> current_offset h' = current_offset h \<and>
        current_page h \<in> P' \<and> live_on h' (current_page h))"
  shows "heap_inv h' P'"
proof -
  have ip: "in_page (allocations h' x)" if "blk h' x" for x
    using part[OF that] heap_invD(1)[OF inv, of "f x"] by (auto simp: within_def in_page_def)
  have ap: "apart (allocations h' x) (allocations h' y)" if xy: "blk h' x" "blk h' y" "x \<noteq> y" for x y
  proof (cases "f x = f y")
    case False
    then have "apart (allocations h (f x)) (allocations h (f y))" using heap_invD(4)[OF inv] part xy by blast
    then show ?thesis using part[OF xy(1)] part[OF xy(2)] by (auto simp: within_def apart_def)
  qed (use same xy in blast)
  have en: "unat (ha_ptr (allocations h' i)) + unat (ha_size (allocations h' i)) \<le> unat (current_page h') + unat (current_offset h')"
    if c: "current_page h' \<noteq> 0" and i: "blk h' i" "ha_page (allocations h' i) = current_page h'" for i
    using part[OF i(1)] heap_inv_current(4)[OF inv, of "f i"] c cur i(2) by (auto simp: within_def)
  show ?thesis
  proof (rule heap_invI)
    show "current_page h' \<in> P' \<and> live_on h' (current_page h') \<and> unat (current_offset h') \<le> 4096" if "current_page h' \<noteq> 0"
      using that cur heap_inv_current(3)[OF inv] by auto
  qed (use ip ap en pages act in blast)+
qed

text \<open>A new live block at the end of a page.\<close>

lemma heap_inv_add:
  assumes inv: "heap_inv h P" and sub: "P \<subseteq> P'" and r: "r < HEAP_MAX_ALLOCS" "\<not> blk h r"
    and q: "in_page q" "ha_page q \<in> P'" "ha_active q" "ha_ptr q \<noteq> 0"
    and sep: "\<And>i. blk h i \<Longrightarrow> apart (allocations h i) q"
    and off: "unat off \<le> 4096" "unat (ha_ptr q) + unat (ha_size q) \<le> unat (ha_page q) + unat off"
      "\<And>i. blk h i \<Longrightarrow> ha_page (allocations h i) = ha_page q \<Longrightarrow>
         unat (ha_ptr (allocations h i)) + unat (ha_size (allocations h i)) \<le> unat (ha_page q) + unat off"
  shows "heap_inv (h\<lparr>allocations := (allocations h)(r := q), current_page := ha_page q, current_offset := off\<rparr>) P'"
    (is "heap_inv ?h P'")
proof -
  have b: "blk ?h i \<longleftrightarrow> i = r \<or> blk h i" for i using r q(4) by (auto simp: blk_def)
  have l: "live_on ?h (ha_page q)" unfolding live_on_def using b q by (intro exI[of _ r]) simp
  have l': "live_on ?h p" if lp: "live_on h p" for p
  proof -
    obtain j where j: "blk h j" "ha_active (allocations h j)" "ha_page (allocations h j) = p" using lp by (auto simp: live_on_def)
    then show ?thesis unfolding live_on_def using b r(2) by (intro exI[of _ j]) auto
  qed
  have ap: "apart (allocations ?h i) (allocations ?h j)" if "blk ?h i" "blk ?h j" "i \<noteq> j" for i j
    using that sep[of i] sep[of j] heap_invD(4)[OF inv, of i j] unfolding b by (auto simp: apart_def)
  have ip: "in_page (allocations ?h i) \<and> ha_page (allocations ?h i) \<in> P' \<and> live_on ?h (ha_page (allocations ?h i))"
    if "blk ?h i" for i using that heap_invD(1-3)[OF inv, of i] sub q l l' unfolding b by auto
  have ac: "ha_ptr (allocations ?h i) \<noteq> 0" if "i < HEAP_MAX_ALLOCS" "ha_active (allocations ?h i)" for i
    using heap_invD(5)[OF inv that(1)] that(2) q(4) by (auto simp: blk_def split: if_splits)
  have en: "unat (ha_ptr (allocations ?h i)) + unat (ha_size (allocations ?h i)) \<le> unat (ha_page q) + unat off"
    if "blk ?h i" "ha_page (allocations ?h i) = ha_page q" for i
    using that off r(2) unfolding b by (cases "i = r") auto
  show ?thesis
  proof (rule heap_invI)
    show "current_page ?h \<in> P' \<and> live_on ?h (current_page ?h) \<and> unat (current_offset ?h) \<le> 4096"
      using q(2) l off(1) by simp
    show "unat (ha_ptr (allocations ?h i)) + unat (ha_size (allocations ?h i)) \<le> unat (current_page ?h) + unat (current_offset ?h)"
      if "blk ?h i" "ha_page (allocations ?h i) = current_page ?h" for i using en[OF that(1)] that(2) by simp
  qed (use ap ip ac in blast)+
qed

subsection \<open>Allocation\<close>

text \<open>Everything the heap uses of a set of owned pages.\<close>

definition pages_ok :: "u64 set \<Rightarrow> bool" where
  "pages_ok P \<longleftrightarrow> (\<forall>a \<in> P. unat a \<noteq> 0 \<and> unat a mod 4096 = 0 \<and> unat a + 4096 \<le> 2 ^ 37) \<and>
     (\<forall>a \<in> P. \<forall>b \<in> P. a \<noteq> b \<longrightarrow> unat a + 4096 \<le> unat b \<or> unat b + 4096 \<le> unat a)"

lemma pages_ok_owned: "pmm_inv s \<Longrightarrow> pages_ok (owned_pages s)"
  unfolding pages_ok_def using pg.owned_page pg.owned_apart by blast

lemma pages_okD:
  assumes "pages_ok P" "a \<in> P"
  shows "unat a \<noteq> 0" "unat a mod 4096 = 0" "unat a + 4096 \<le> 2 ^ 37"
  using assms unfolding pages_ok_def by blast+

lemma find_empty_recordD:
  assumes "find_empty_record h = Some r"
  shows "r < HEAP_MAX_ALLOCS" "\<not> blk h r" "\<not> ha_active (allocations h r)"
  using find_upt_SomeD[OF assms[unfolded find_empty_record_def]] by (auto simp: blk_def)

lemma live_image:
  "live h = (\<lambda>x. (ha_ptr (allocations h x), ha_size (allocations h x))) ` {x. x < HEAP_MAX_ALLOCS \<and> ha_active (allocations h x)}"
  by (auto simp: live_def)

lemma live_upd:
  assumes "r < HEAP_MAX_ALLOCS" "\<not> ha_active (allocations h r)" "ha_active q"
  shows "live (h\<lparr>allocations := (allocations h)(r := q)\<rparr>) = insert (ha_ptr q, ha_size q) (live h)"
  using assms by (auto simp: live_def)

lemma live_fields [simp]: "live (h\<lparr>current_page := c, current_offset := d\<rparr>) = live h"
  by (simp add: live_def)

lemma live_apart:
  assumes "heap_inv h P" "\<And>i. blk h i \<Longrightarrow> apart (allocations h i) q" "(a, n) \<in> live h"
  shows "unat a + unat n \<le> unat (ha_ptr q) \<or> unat (ha_ptr q) + unat (ha_size q) \<le> unat a"
proof -
  obtain i where "i < HEAP_MAX_ALLOCS" "ha_active (allocations h i)" "a = ha_ptr (allocations h i)" "n = ha_size (allocations h i)"
    using assms(3) by (auto simp: live_def)
  then show ?thesis using assms(2)[OF heap_invD(5)[OF assms(1)]] by (auto simp: apart_def)
qed

text \<open>The three facts about a block handed out.\<close>

definition handed_out :: "heap \<Rightarrow> u64 set \<Rightarrow> u64 \<Rightarrow> u64 \<Rightarrow> bool" where
  "handed_out h P a n \<longleftrightarrow> a \<noteq> 0 \<and> (\<exists>g \<in> P. unat g \<le> unat a \<and> unat a + unat n \<le> unat g + 4096) \<and>
     (\<forall>(b, m) \<in> live h. unat b + unat m \<le> unat a \<or> unat a + unat n \<le> unat b)"

lemma heap_inv_bump:
  fixes e :: u64
  assumes inv: "heap_inv h P" and sub: "P \<subseteq> P'" and ok: "pages_ok P'" and r: "find_empty_record h = Some r"
    and c: "c \<in> P'" and sz: "sz \<noteq> 0"
    and lo: "unat c + unat d \<le> unat a" "a \<noteq> UINTPTR_MAX" and fit: "\<not> span_misfit c a sz"
    and low: "\<And>i. blk h i \<Longrightarrow> ha_page (allocations h i) = c \<Longrightarrow>
        unat (ha_ptr (allocations h i)) + unat (ha_size (allocations h i)) \<le> unat c + unat d"
  defines "h' \<equiv> kmalloc_record sz r a (h\<lparr>current_page := c, current_offset := e\<rparr>)"
  shows "heap_inv h' P'" "live h' = insert (a, sz) (live h)" "handed_out h P' a sz"
proof -
  let ?q = "\<lparr>ha_page = c, ha_ptr = a, ha_size = sz, ha_active = True\<rparr>"
  note pc = pages_okD[OF ok c]
  have nw: "a \<le> a + sz" "\<not> a + sz > c + HEAP_PAGE_SIZE" using fit by (auto simp: span_misfit_def not_less)
  have us: "unat (a + sz) = unat a + unat sz" using nw(1) by (simp add: unat_plus_simple)
  have uc: "unat (c + HEAP_PAGE_SIZE) = unat c + 4096" using pc(3) unat_add_small[of c 4096] by simp
  have en: "unat a + unat sz \<le> unat c + 4096" using nw(2) us uc by (simp add: word_less_nat_alt not_less)
  have "c \<le> a + sz" using us lo(1) by (simp add: word_le_nat_alt)
  then have uo: "unat (a + sz - c) = unat a + unat sz - unat c" using us by (simp add: unat_sub)
  have az: "a \<noteq> 0" using lo(1) pc(1) by auto
  have sep: "apart (allocations h i) ?q" if i: "blk h i" for i
  proof (cases "ha_page (allocations h i) = c")
    case True
    then show ?thesis using low[OF i] lo(1) by (simp add: apart_def)
  next
    case False
    have "ha_page (allocations h i) \<in> P'" using heap_invD(2)[OF inv i] sub by auto
    then have "unat c + 4096 \<le> unat (ha_page (allocations h i)) \<or> unat (ha_page (allocations h i)) + 4096 \<le> unat c"
      using ok c False unfolding pages_ok_def by metis
    then show ?thesis using heap_invD(1)[OF inv i] lo(1) en unfolding apart_def in_page_def by auto
  qed
  note rd = find_empty_recordD[OF r]
  have "heap_inv (h\<lparr>allocations := (allocations h)(r := ?q), current_page := ha_page ?q, current_offset := a + sz - c\<rparr>) P'"
  proof (rule heap_inv_add[OF inv sub rd(1,2)])
    show "in_page ?q" using lo(1) en sz by (simp add: in_page_def unat_gt_0)
    show "unat (a + sz - c) \<le> 4096" "unat (ha_ptr ?q) + unat (ha_size ?q) \<le> unat (ha_page ?q) + unat (a + sz - c)"
      using en lo(1) unfolding uo by simp_all
    show "unat (ha_ptr (allocations h i)) + unat (ha_size (allocations h i)) \<le> unat (ha_page ?q) + unat (a + sz - c)"
      if "blk h i" "ha_page (allocations h i) = ha_page ?q" for i
      using low[OF that(1)] that(2) lo(1) unfolding uo by simp
  qed (use c az sep in simp_all)
  moreover have "h' = h\<lparr>allocations := (allocations h)(r := ?q), current_page := ha_page ?q, current_offset := a + sz - c\<rparr>"
    by (simp add: h'_def kmalloc_record_def)
  ultimately show "heap_inv h' P'" by simp
  have "live h' = live (h\<lparr>allocations := (allocations h)(r := ?q)\<rparr>)" by (simp add: h'_def kmalloc_record_def live_def)
  then show "live h' = insert (a, sz) (live h)" using live_upd[OF rd(1,3), of ?q] by simp
  have "\<exists>g \<in> P'. unat g \<le> unat a \<and> unat a + unat sz \<le> unat g + 4096" using c lo(1) en by (intro bexI[of _ c]) auto
  moreover have "\<forall>(b, m) \<in> live h. unat b + unat m \<le> unat a \<or> unat a + unat sz \<le> unat b"
    using live_apart[OF inv, of ?q] sep by auto
  ultimately show "handed_out h P' a sz" using az by (simp add: handed_out_def)
qed

text \<open>The reuse path: a free block is cut in two.\<close>

lemma find_free_blockD:
  assumes inv: "heap_inv h P" and ok: "pages_ok P" and al: "unat al = 2 ^ k" "k \<le> 12"
    and f: "find_free_block h sz al = Some (i, a)"
  shows "blk h i" "\<not> ha_active (allocations h i)" "a = ha_ptr (allocations h i)" "unat a mod unat al = 0"
    "unat (a + sz) = unat a + unat sz" "unat sz \<le> unat (ha_size (allocations h i))"
    "unat (ha_ptr (allocations h i) + ha_size (allocations h i)) = unat a + unat (ha_size (allocations h i))"
proof -
  let ?b = "allocations h i"
  have fd: "find (\<lambda>i. block_fits sz al (allocations h i)) [0..<HEAP_MAX_ALLOCS] = Some i" "a = align_ptr (ha_ptr ?b) al"
    using f by (auto simp: find_free_block_def)
  have bf: "block_fits sz al ?b" "i < HEAP_MAX_ALLOCS" using find_upt_SomeD[OF fd(1)] by auto
  show b: "blk h i" and "\<not> ha_active ?b" and e: "a = ha_ptr ?b"
    using bf fd(2) by (auto simp: block_fits_def blk_def Let_def)
  have ip: "in_page ?b" "ha_page ?b \<in> P" using heap_invD(1,2)[OF inv b] by auto
  have bound: "unat a + unat (ha_size ?b) \<le> 2 ^ 37" using pages_okD(3)[OF ok ip(2)] ip(1) e by (simp add: in_page_def)
  have "unat (ha_ptr ?b) + 4096 \<le> 2 ^ 64" using bound e by simp
  from align_ptr_spec(2)[OF al this] show "unat a mod unat al = 0" using fd(2) by simp
  have nw: "a \<le> a + sz" "a + sz \<le> ha_ptr ?b + ha_size ?b" using bf(1) fd(2) e by (auto simp: block_fits_def Let_def not_less)
  show us: "unat (a + sz) = unat a + unat sz" using nw(1) by (simp add: unat_plus_simple)
  show up: "unat (ha_ptr ?b + ha_size ?b) = unat a + unat (ha_size ?b)"
    using bound e unat_add_small[of "ha_ptr ?b" "ha_size ?b"] by simp
  show "unat sz \<le> unat (ha_size ?b)" using nw(2) us up by (simp add: word_le_nat_alt)
qed

lemma heap_inv_reuse:
  assumes inv: "heap_inv h P" and ok: "pages_ok P" and al: "unat al = 2 ^ k" "k \<le> 12" and sz: "sz \<noteq> 0"
    and f: "find_free_block h sz al = Some (i, a)"
  defines "h' \<equiv> kmalloc_reuse sz i a h"
  shows "heap_inv h' P" "live h' = insert (a, sz) (live h)" "handed_out h P a sz"
proof -
  let ?b = "allocations h i"
  let ?tail = "(ha_ptr ?b + ha_size ?b) - (a + sz)"
  note fd = find_free_blockD[OF inv ok al f]
  have ip: "in_page ?b" "ha_page ?b \<in> P" using heap_invD(1,2)[OF inv fd(1)] by auto
  have ii: "i < HEAP_MAX_ALLOCS" "ha_ptr ?b \<noteq> 0" using fd(1) by (auto simp: blk_def)
  have "a + sz \<le> ha_ptr ?b + ha_size ?b" using fd(5,6,7) by (simp add: word_le_nat_alt)
  then have ut: "unat ?tail = unat (ha_size ?b) - unat sz" using fd(5,7) by (simp add: unat_sub)
  define J where "J = (if ?tail \<ge> HEAP_MIN_SPLIT then find_empty_record h else None)"
  let ?new = "?b\<lparr>ha_ptr := a, ha_size := sz, ha_active := True\<rparr>"
  let ?rest = "\<lparr>ha_page = ha_page ?b, ha_ptr = a + sz, ha_size = ?tail, ha_active = False\<rparr>"
  have Jd: "j < HEAP_MAX_ALLOCS" "\<not> blk h j" "\<not> ha_active (allocations h j)" "j \<noteq> i" "16 \<le> unat ?tail" if "J = Some j" for j
  proof -
    have "find_empty_record h = Some j" "?tail \<ge> HEAP_MIN_SPLIT" using that by (auto simp: J_def split: if_splits)
    then show "j < HEAP_MAX_ALLOCS" "\<not> blk h j" "\<not> ha_active (allocations h j)" "j \<noteq> i" "16 \<le> unat ?tail"
      using find_empty_recordD[of h j] fd(1) by (auto simp: word_le_nat_alt HEAP_MIN_SPLIT_def)
  qed
  have A: "allocations h' x = (if x = i then ?new else if J = Some x then ?rest else allocations h x)" for x
    using Jd(4) by (auto simp: h'_def kmalloc_reuse_def J_def Let_def split: option.splits)
  have B: "blk h' x \<Longrightarrow> x = i \<or> J = Some x \<or> (x \<noteq> i \<and> J \<noteq> Some x \<and> blk h x)" for x by (auto simp: blk_def A split: if_splits)
  have cur: "current_page h' = current_page h" "current_offset h' = current_offset h"
    by (simp_all add: h'_def kmalloc_reuse_def Let_def)
  have lv: "live_on h' p" if lp: "live_on h p" for p
  proof -
    obtain j where j: "blk h j" "ha_active (allocations h j)" "ha_page (allocations h j) = p" using lp by (auto simp: live_on_def)
    then have "j \<noteq> i" "J \<noteq> Some j" using fd(2) Jd(3) by auto
    then show ?thesis unfolding live_on_def using j by (intro exI[of _ j]) (simp add: blk_def A)
  qed
  have new: "within ?new ?b" and rest: "J = Some x \<Longrightarrow> within ?rest ?b" for x
    using fd(3,5,6) sz ut Jd(5)[of x] by (auto simp: within_def unat_gt_0)
  show "heap_inv h' P"
  proof (rule heap_inv_refine[OF inv, where f = "\<lambda>x. if J = Some x then i else x"])
    fix x assume x: "blk h' x"
    show "blk h (if J = Some x then i else x) \<and> within (allocations h' x) (allocations h (if J = Some x then i else x))"
      using B[OF x] fd(1) Jd(4) new rest heap_invD(1)[OF inv] by (auto simp: A)
    show "ha_page (allocations h' x) \<in> P \<and> live_on h' (ha_page (allocations h' x))"
      using B[OF x] ip(2) lv heap_invD(2,3)[OF inv] fd(1) by (auto simp: A)
  next
    fix x y
    assume xy: "blk h' x" "blk h' y" "x \<noteq> y" "(if J = Some x then i else x) = (if J = Some y then i else y)"
    then have "(x = i \<and> J = Some y) \<or> (y = i \<and> J = Some x)" by (auto split: if_splits)
    moreover have "apart ?new ?rest" "apart ?rest ?new" using fd(5) by (simp_all add: apart_def)
    ultimately show "apart (allocations h' x) (allocations h' y)" using Jd(4) by (auto simp: A)
  next
    fix x assume "x < HEAP_MAX_ALLOCS" "ha_active (allocations h' x)"
    then show "ha_ptr (allocations h' x) \<noteq> 0" using ii(2) fd(3) heap_invD(5)[OF inv, of x] by (auto simp: A blk_def split: if_splits)
  qed (use cur lv heap_inv_current(1,2)[OF inv] in auto)
  have "{x. x < HEAP_MAX_ALLOCS \<and> ha_active (allocations h' x)} = insert i {x. x < HEAP_MAX_ALLOCS \<and> ha_active (allocations h x)}"
    using Jd(3) ii(1) by (auto simp: A split: if_splits)
  then have "live h' = (\<lambda>x. (ha_ptr (allocations h' x), ha_size (allocations h' x))) `
      insert i {x. x < HEAP_MAX_ALLOCS \<and> ha_active (allocations h x)}" by (simp only: live_image)
  also have "\<dots> = insert (a, sz) (live h)"
    unfolding image_insert live_image[of h]
    by (intro arg_cong2[where f = insert] image_cong) (use Jd(3) fd(2) in \<open>auto simp: A\<close>)
  finally show "live h' = insert (a, sz) (live h)" .
  have "\<forall>(b, m) \<in> live h. unat b + unat m \<le> unat a \<or> unat a + unat sz \<le> unat b"
  proof clarify
    fix b m assume bm: "(b, m) \<in> live h" and no: "\<not> unat a + unat sz \<le> unat b"
    obtain j where j: "j < HEAP_MAX_ALLOCS" "ha_active (allocations h j)" "b = ha_ptr (allocations h j)" "m = ha_size (allocations h j)"
      using bm by (auto simp: live_def)
    then have "apart (allocations h j) ?b" using heap_invD(4)[OF inv heap_invD(5)[OF inv] fd(1)] fd(2) by auto
    then show "unat b + unat m \<le> unat a" using j no fd(3,6) by (auto simp: apart_def)
  qed
  moreover have "\<exists>g \<in> P. unat g \<le> unat a \<and> unat a + unat sz \<le> unat g + 4096"
    using ip fd(3,6) by (intro bexI[of _ "ha_page ?b"]) (auto simp: in_page_def)
  ultimately show "handed_out h P a sz" using ii(2) fd(3) by (simp add: handed_out_def)
qed

text \<open>All of \<open>kmalloc\<close>.\<close>

definition heap_ok :: "heap \<Rightarrow> pmm \<Rightarrow> bool" where
  "heap_ok h s \<longleftrightarrow> pmm_inv s \<and> heap_inv h (owned_pages s)"

lemma heap_inv_mono_cur:
  assumes "heap_inv h P" "P \<subseteq> P'"
  shows "heap_inv (h\<lparr>current_page := 0, current_offset := d\<rparr>) P'"
proof -
  have e: "blk (h\<lparr>current_page := 0, current_offset := d\<rparr>) = blk h"
    "live_on (h\<lparr>current_page := 0, current_offset := d\<rparr>) = live_on h" by (simp_all add: blk_def live_on_def fun_eq_iff)
  show ?thesis
    by (rule heap_inv_refine[OF assms(1), where f = "\<lambda>x. x"]) (use heap_invD[OF assms(1)] assms(2) in \<open>auto simp: e blk_def\<close>)
qed

lemma span_misfit_fresh: "unat c + 4096 \<le> 2 ^ 37 \<Longrightarrow> unat v \<le> unat c + 4096 \<Longrightarrow> v \<noteq> UINTPTR_MAX"
  using unat_UINT64_MAX by (auto simp: UINTPTR_MAX_def UINT64_MAX_def)

lemma bump_current:
  assumes inv: "heap_inv h P" and ok: "pages_ok P" and al: "unat al = 2 ^ k" "k \<le> 12" and sz: "sz \<noteq> 0"
    and r: "find_empty_record h = Some r"
  defines "v \<equiv> align_ptr (current_page h + current_offset h) al"
  assumes fit: "current_page h \<noteq> 0" "\<not> span_misfit (current_page h) v sz"
  shows "heap_inv (kmalloc_record sz r v h) P" "live (kmalloc_record sz r v h) = insert (v, sz) (live h)"
    "handed_out h P v sz" "unat v mod unat al = 0"
proof -
  note cu = heap_inv_current[OF inv fit(1)]
  note pc = pages_okD[OF ok cu(1)]
  have u: "unat (current_page h + current_offset h) = unat (current_page h) + unat (current_offset h)"
    using pc(3) cu(3) by (intro unat_add_small) simp
  then have "unat (current_page h + current_offset h) + 4096 \<le> 2 ^ 64" using pc(3) cu(3) by simp
  note as = align_ptr_spec[OF al this, folded v_def]
  have lo: "unat (current_page h) + unat (current_offset h) \<le> unat v" using as(1) u by simp
  have nm: "v \<noteq> UINTPTR_MAX" using fit(2) by (auto simp: span_misfit_def)
  have hh: "h\<lparr>current_page := current_page h, current_offset := current_offset h\<rparr> = h" by simp
  note hb = heap_inv_bump[OF inv subset_refl ok r cu(1) sz lo nm fit(2) cu(4)]
  show "heap_inv (kmalloc_record sz r v h) P" by (rule hb(1)[where e = "current_offset h", unfolded hh])
  show "live (kmalloc_record sz r v h) = insert (v, sz) (live h)" by (rule hb(2)[where e = "current_offset h", unfolded hh])
  show "handed_out h P v sz" by (rule hb(3))
  show "unat v mod unat al = 0" by (rule as(2))
qed

lemma bump_fresh:
  assumes inv: "heap_inv h P" and ok: "pages_ok (insert c P)" and al: "unat al = 2 ^ k" "k \<le> 12" and sz: "sz \<noteq> 0"
    and r: "find_empty_record h = Some r" and c: "c \<notin> P"
  defines "v \<equiv> align_ptr c al" and "h' \<equiv> kmalloc_record sz r (align_ptr c al) (h\<lparr>current_page := c, current_offset := 0\<rparr>)"
  assumes fit: "\<not> span_misfit c v sz"
  shows "heap_inv h' (insert c P)" "live h' = insert (v, sz) (live h)" "handed_out h (insert c P) v sz" "unat v mod unat al = 0"
proof -
  have "unat c + 4096 \<le> 2 ^ 64" using pages_okD(3)[OF ok insertI1] by simp
  note as = align_ptr_spec[OF al this, folded v_def]
  have lo: "unat c + unat (0 :: u64) \<le> unat v" using as(1) by simp
  have nm: "v \<noteq> UINTPTR_MAX" using fit by (auto simp: span_misfit_def)
  have none: "unat (ha_ptr (allocations h i)) + unat (ha_size (allocations h i)) \<le> unat c + unat (0 :: u64)"
    if "blk h i" "ha_page (allocations h i) = c" for i using heap_invD(2)[OF inv that(1)] that(2) c by simp
  show "heap_inv h' (insert c P)" "live h' = insert (v, sz) (live h)" "handed_out h (insert c P) v sz"
    unfolding h'_def v_def[symmetric]
    by (rule heap_inv_bump[OF inv subset_insertI ok r insertI1 sz lo nm fit none]; assumption)+
  show "unat v mod unat al = 0" by (rule as(2))
qed

lemma alignment_pow2:
  assumes "al AND (al - 1) = 0" "\<not> al > HEAP_MAX_ALIGNMENT" "al \<noteq> 0"
  obtains k where "unat al = 2 ^ k" "k \<le> 12"
proof -
  obtain k where k: "unat al = 2 ^ k" using word_pow2[OF assms(1,3)] by blast
  have "unat al \<le> 4096" using assms(2) by (simp add: word_less_nat_alt not_less)
  then have "(2 :: nat) ^ k \<le> 2 ^ 12" using k by simp
  then have "k \<le> 12" by (subst (asm) power_increasing_iff) auto
  then show thesis using k that by blast
qed

lemma kmalloc_spec:
  assumes hok: "heap_ok h s" and km: "kmalloc sz al0 h s = (a, h', s')"
  defines "al \<equiv> (if al0 = 0 then 8 else al0)"
  shows "heap_ok h' s' \<and>
    (if a = 0 then live h' = live h
     else sz \<noteq> 0 \<and> unat a mod unat al = 0 \<and> live h' = insert (a, sz) (live h) \<and> handed_out h (owned_pages s') a sz)"
proof -
  have inv: "heap_inv h (owned_pages s)" and ps: "pmm_inv s" using hok by (auto simp: heap_ok_def)
  have ok: "pages_ok (owned_pages s)" by (rule pages_ok_owned[OF ps])
  note def = km[unfolded kmalloc_def al_def[symmetric] Let_def]
  have given: ?thesis if "heap_inv h' (owned_pages s')" "pmm_inv s'" "live h' = insert (a, sz) (live h)"
      "handed_out h (owned_pages s') a sz" "unat a mod unat al = 0" "sz \<noteq> 0"
    using that by (simp add: heap_ok_def handed_out_def)
  show ?thesis
  proof (cases "sz = 0 \<or> al AND (al - 1) \<noteq> 0 \<or> al > HEAP_MAX_ALIGNMENT")
    case True
    then show ?thesis using def hok by (auto split: if_splits)
  next
    case False
    then have sz: "sz \<noteq> 0" by simp
    have "al \<noteq> 0" by (simp add: al_def)
    then obtain k where k: "unat al = 2 ^ k" "k \<le> 12" using False alignment_pow2[of al] by blast
    consider (reuse) i b where "find_free_block h sz al = Some (i, b)"
      | (full) "find_free_block h sz al = None" "find_empty_record h = None"
      | (bump) r where "find_free_block h sz al = None" "find_empty_record h = Some r"
      by (metis not_None_eq surj_pair)
    then show ?thesis
    proof cases
      case reuse
      then have "a = b" "h' = kmalloc_reuse sz i b h" "s' = s" using def False by (auto split: if_splits)
      then show ?thesis
        using heap_inv_reuse[OF inv ok k sz reuse] find_free_blockD(4)[OF inv ok k reuse] ps sz by (intro given) auto
    next
      case full
      then show ?thesis using def False hok by (auto split: if_splits)
    next
      case bump
      let ?v = "align_ptr (current_page h + current_offset h) al"
      show ?thesis
      proof (cases "current_page h = 0 \<or> span_misfit (current_page h) ?v sz")
        case cur: False
        then have "a = ?v" "h' = kmalloc_record sz r ?v h" "s' = s" using def False bump by (auto split: if_splits)
        then show ?thesis using bump_current[OF inv ok k sz bump(2)] cur ps sz by (intro given) auto
      next
        case fresh: True
        obtain c s1 where al1: "pmm_alloc_page s = (c, s1)" by (cases "pmm_alloc_page s")
        show ?thesis
        proof (cases "c = 0")
          case True
          then have "a = 0" "h' = h" "s' = s1" using def False bump fresh al1 by (auto split: if_splits)
          then show ?thesis using pg.alloc_none[OF ps, of s1] al1 True hok by simp
        next
          case pn: False
          have own: "c \<notin> owned_pages s" "owned_pages s1 = insert c (owned_pages s)" "pmm_inv s1"
            using pg.alloc_page[OF ps al1 pn] by auto
          show ?thesis
          proof (cases "span_misfit c (align_ptr c al) sz")
            case True
            then have e: "a = 0" "h' = h\<lparr>current_page := 0, current_offset := 0\<rparr>" "s' = pmm_free_page c s1"
              using def False bump fresh al1 pn by (auto split: if_splits)
            have "owned_pages s' = owned_pages s" "pmm_inv s'" using pg.release_page[OF own(3), of c] own e(3) by auto
            then show ?thesis using heap_inv_mono_cur[OF inv subset_refl] e by (simp add: heap_ok_def)
          next
            case fit: False
            then have "a = align_ptr c al" "s' = s1"
              "h' = kmalloc_record sz r (align_ptr c al) (h\<lparr>current_page := c, current_offset := 0\<rparr>)"
              using def False bump fresh al1 pn by (auto split: if_splits)
            then show ?thesis using bump_fresh[OF inv pages_ok_owned[OF own(3), unfolded own(2)] k sz bump(2) own(1) fit] own(2,3) sz
              by (intro given) auto
          qed
        qed
      qed
    qed
  qed
qed

subsection \<open>Release\<close>

lemma live_ptr_inj:
  assumes inv: "heap_inv h P" and "i < HEAP_MAX_ALLOCS" "ha_active (allocations h i)" "j < HEAP_MAX_ALLOCS"
    "ha_active (allocations h j)" "ha_ptr (allocations h i) = ha_ptr (allocations h j)"
  shows "i = j"
proof (rule ccontr)
  assume "i \<noteq> j"
  moreover have b: "blk h i" "blk h j" using heap_invD(5)[OF inv] assms by auto
  ultimately have "apart (allocations h i) (allocations h j)" using heap_invD(4)[OF inv] by blast
  then show False using heap_invD(1)[OF inv b(1)] heap_invD(1)[OF inv b(2)] assms(6) by (auto simp: apart_def in_page_def)
qed

lemma live_remove:
  assumes inv: "heap_inv h P" and i: "i < HEAP_MAX_ALLOCS" "ha_active (allocations h i)"
    and act: "\<And>x. x < HEAP_MAX_ALLOCS \<Longrightarrow> ha_active (allocations h' x) \<longleftrightarrow> x \<noteq> i \<and> ha_active (allocations h x)"
    and same: "\<And>x. x < HEAP_MAX_ALLOCS \<Longrightarrow> ha_active (allocations h' x) \<Longrightarrow> allocations h' x = allocations h x"
  shows "live h' = live h - {(ha_ptr (allocations h i), ha_size (allocations h i))}"
proof -
  let ?A = "{x. x < HEAP_MAX_ALLOCS \<and> ha_active (allocations h x)}"
  let ?g = "\<lambda>x. (ha_ptr (allocations h x), ha_size (allocations h x))"
  have "{x. x < HEAP_MAX_ALLOCS \<and> ha_active (allocations h' x)} = ?A - {i}" using act by auto
  then have "live h' = (\<lambda>x. (ha_ptr (allocations h' x), ha_size (allocations h' x))) ` (?A - {i})" by (simp only: live_image)
  also have "\<dots> = ?g ` (?A - {i})" using act same by (intro image_cong) auto
  also have "\<dots> = ?g ` ?A - ?g ` {i}"
    using live_ptr_inj[OF inv] i by (intro inj_on_image_set_diff[of ?g ?A]) (auto intro!: inj_onI)
  finally show ?thesis by (simp add: live_image[of h])
qed

lemma live_on_iff:
  assumes inv: "heap_inv h P"
  shows "live_on h page \<longleftrightarrow> page_has_live_allocations (allocations h) page"
  unfolding live_on_def page_has_live_allocations_def list_ex_iff using heap_invD(5)[OF inv] by (auto simp: blk_def)

lemma kfree_unknown: "p \<notin> fst ` live h \<Longrightarrow> kfree p h s = (h, s)"
proof -
  assume "p \<notin> fst ` live h"
  then have "find (\<lambda>i. \<not> (\<not> ha_active (allocations h i) \<or> ha_ptr (allocations h i) \<noteq> p)) [0..<HEAP_MAX_ALLOCS] = None"
    unfolding find_upt_None by (force simp: live_def)
  then show ?thesis by (simp add: kfree_def)
qed

lemma kfree_spec:
  assumes hok: "heap_ok h s" and l: "(p, n) \<in> live h" and kf: "kfree p h s = (h', s')"
  shows "heap_ok h' s' \<and> live h' = live h - {(p, n)}"
proof -
  have inv: "heap_inv h (owned_pages s)" and ps: "pmm_inv s" using hok by (auto simp: heap_ok_def)
  obtain i where i: "i < HEAP_MAX_ALLOCS" "ha_active (allocations h i)" "p = ha_ptr (allocations h i)" "n = ha_size (allocations h i)"
    using l by (auto simp: live_def)
  have bi: "blk h i" by (rule heap_invD(5)[OF inv i(1,2)])
  then have pz: "p \<noteq> 0" using i(3) by (simp add: blk_def)
  let ?Q = "\<lambda>i. \<not> (\<not> ha_active (allocations h i) \<or> ha_ptr (allocations h i) \<noteq> p)"
  have "find ?Q [0..<HEAP_MAX_ALLOCS] \<noteq> None" unfolding find_upt_None using i by auto
  then obtain j where j: "find ?Q [0..<HEAP_MAX_ALLOCS] = Some j" by blast
  have "j = i" using live_ptr_inj[OF inv _ _ i(1,2), of j] find_upt_SomeD[OF j] i(3) by auto
  note fi = j[unfolded this]
  let ?page = "ha_page (allocations h i)"
  let ?as = "(allocations h)(i := (allocations h i)\<lparr>ha_active := False\<rparr>)"
  have pgl: "page_has_live_allocations ?as g \<longleftrightarrow> (\<exists>x < HEAP_MAX_ALLOCS. x \<noteq> i \<and> ha_active (allocations h x) \<and> ha_page (allocations h x) = g)" for g
    by (auto simp: page_has_live_allocations_def list_ex_iff)
  have lo: "live_on h g \<longleftrightarrow> (\<exists>x < HEAP_MAX_ALLOCS. ha_active (allocations h x) \<and> ha_page (allocations h x) = g)" for g
    unfolding live_on_iff[OF inv] by (auto simp: page_has_live_allocations_def list_ex_iff)
  show ?thesis
  proof (cases "page_has_live_allocations ?as ?page")
    case True
    then have e: "h' = h\<lparr>allocations := ?as\<rparr>" "s' = s" using kf pz fi by (simp_all add: kfree_def Let_def)
    have b: "blk h' x \<longleftrightarrow> blk h x" for x by (auto simp: e blk_def)
    have lv: "live_on h' g" if "live_on h g" for g
    proof -
      have "page_has_live_allocations ?as g" using that True unfolding lo pgl by blast
      then obtain x where x: "x < HEAP_MAX_ALLOCS" "x \<noteq> i" "ha_active (allocations h x)" "ha_page (allocations h x) = g" unfolding pgl by blast
      then have "allocations h' x = allocations h x" by (simp add: e)
      then show ?thesis unfolding live_on_def using heap_invD(5)[OF inv x(1,3)] x by (intro exI[of _ x]) (simp add: b)
    qed
    have "heap_inv h' (owned_pages s)"
    proof (rule heap_inv_refine[OF inv, where f = "\<lambda>x. x"])
      show "blk h x \<and> within (allocations h' x) (allocations h x)" if "blk h' x" for x
        using that heap_invD(1)[OF inv, of x] unfolding b by (auto simp: e within_def in_page_def)
      show "ha_page (allocations h' x) \<in> owned_pages s \<and> live_on h' (ha_page (allocations h' x))" if "blk h' x" for x
        using that heap_invD(2,3)[OF inv, of x] lv unfolding b by (auto simp: e)
      show "ha_ptr (allocations h' x) \<noteq> 0" if "x < HEAP_MAX_ALLOCS" "ha_active (allocations h' x)" for x
        using that heap_invD(5)[OF inv, of x] by (auto simp: e blk_def split: if_splits)
    qed (use lv heap_inv_current(1,2)[OF inv] in \<open>auto simp: e\<close>)
    moreover have "live h' = live h - {(p, n)}" unfolding i(3,4) by (rule live_remove[OF inv i(1,2)]) (auto simp: e)
    ultimately show ?thesis using ps e by (simp add: heap_ok_def)
  next
    case False
    let ?A = "\<lambda>j. if j < HEAP_MAX_ALLOCS \<and> ha_page (?as j) = ?page then empty_record else ?as j"
    have e: "allocations h' = ?A" "s' = pmm_free_page ?page s"
      "current_page h' = (if current_page h = ?page then 0 else current_page h)"
      "current_page h \<noteq> ?page \<Longrightarrow> current_offset h' = current_offset h"
      using kf pz fi False by (auto simp: kfree_def Let_def)
    have own: "owned_pages s' = owned_pages s - {?page}" "pmm_inv s'"
      using pg.release_page[OF ps heap_invD(2)[OF inv bi]] e(2) by auto
    have b: "blk h' x \<longleftrightarrow> blk h x \<and> ha_page (allocations h x) \<noteq> ?page" for x by (auto simp: blk_def e(1) empty_record_def)
    have A: "ha_page (allocations h x) \<noteq> ?page \<Longrightarrow> allocations h' x = allocations h x" for x by (auto simp: e(1))
    have lv: "live_on h' g" if g: "live_on h g" "g \<noteq> ?page" for g
    proof -
      obtain x where x: "blk h x" "ha_active (allocations h x)" "ha_page (allocations h x) = g" using g(1) by (auto simp: live_on_def)
      then show ?thesis unfolding live_on_def using g(2) A[of x] by (intro exI[of _ x]) (simp add: b)
    qed
    have "heap_inv h' (owned_pages s - {?page})"
    proof (rule heap_inv_refine[OF inv, where f = "\<lambda>x. x"])
      show "blk h x \<and> within (allocations h' x) (allocations h x)" if "blk h' x" for x
        using that heap_invD(1)[OF inv, of x] A[of x] unfolding b by simp
      show "ha_page (allocations h' x) \<in> owned_pages s - {?page} \<and> live_on h' (ha_page (allocations h' x))" if "blk h' x" for x
        using that heap_invD(2,3)[OF inv, of x] lv A[of x] unfolding b by auto
      show "ha_ptr (allocations h' x) \<noteq> 0" if "x < HEAP_MAX_ALLOCS" "ha_active (allocations h' x)" for x
        using that heap_invD(5)[OF inv, of x] by (auto simp: e(1) blk_def empty_record_def split: if_splits)
    qed (use lv heap_inv_current(1,2)[OF inv] e(3,4) in auto)
    moreover have "live h' = live h - {(p, n)}" unfolding i(3,4)
    proof (rule live_remove[OF inv i(1,2)])
      fix x assume x: "x < HEAP_MAX_ALLOCS"
      show "ha_active (allocations h' x) \<longleftrightarrow> x \<noteq> i \<and> ha_active (allocations h x)"
        using False x unfolding pgl by (auto simp: e(1) empty_record_def)
      show "allocations h' x = allocations h x" if "ha_active (allocations h' x)"
        using that x by (auto simp: e(1) empty_record_def split: if_splits)
    qed
    ultimately show ?thesis using own by (simp add: heap_ok_def)
  qed
qed

subsection \<open>Properties\<close>

text \<open>Runs of the heap: allocations and releases in any order, while other clients use the page allocator without
  touching the heap's pages.\<close>

inductive heap_run :: "heap \<Rightarrow> pmm \<Rightarrow> bool" where
  Boot: "pmm_inv s \<Longrightarrow> heap_run heap_init s"
| Malloc: "heap_run h s \<Longrightarrow> kmalloc sz al h s = (a, h', s') \<Longrightarrow> heap_run h' s'"
| Free: "heap_run h s \<Longrightarrow> kfree p h s = (h', s') \<Longrightarrow> heap_run h' s'"
| Others: "heap_run h s \<Longrightarrow> pmm_inv s' \<Longrightarrow> heap_pages h \<subseteq> owned_pages s' \<Longrightarrow> heap_run h s'"

lemma heap_inv_pages: "heap_inv h P \<Longrightarrow> heap_pages h \<subseteq> P' \<Longrightarrow> heap_inv h P'"
proof -
  assume inv: "heap_inv h P" and sub: "heap_pages h \<subseteq> P'"
  have "ha_page (allocations h x) \<in> P'" if "blk h x" for x using that sub by (auto simp: heap_pages_def)
  moreover have "current_page h \<in> P'" if "current_page h \<noteq> 0" using that sub by (auto simp: heap_pages_def)
  ultimately show ?thesis
    by (intro heap_inv_refine[OF inv, where f = "\<lambda>x. x"])
      (use heap_invD[OF inv] heap_inv_current(2)[OF inv] in \<open>auto simp: blk_def\<close>)
qed

lemma heap_run_ok: "heap_run h s \<Longrightarrow> heap_ok h s"
proof (induction rule: heap_run.induct)
  case (Boot s)
  then show ?case by (simp add: heap_ok_def heap_inv_def heap_init_def blk_def empty_record_def)
next
  case (Malloc h s sz al a h' s')
  then show ?case using kmalloc_spec by blast
next
  case (Free h s p h' s')
  show ?case
  proof (cases "p \<in> fst ` live h")
    case True
    then show ?thesis using kfree_spec[OF Free.IH _ Free.hyps(2)] by force
  next
    case False
    then show ?thesis using kfree_unknown[OF False, of s] Free by simp
  qed
next
  case (Others h s s')
  then show ?case using heap_inv_pages by (auto simp: heap_ok_def)
qed

text \<open>C2: \<open>kmalloc\<close> hands out memory nobody else has.  In any run, a call either returns 0 and leaves the live
  allocations as they were, or returns an address with the requested alignment (8 by default) whose bytes lie
  in one page owned from the page allocator and overlap no live allocation, and makes exactly this block
  live.\<close>

theorem kmalloc_sound:
  assumes "heap_run h s" "kmalloc sz al h s = (a, h', s')"
  shows "if a = 0 then live h' = live h
    else sz \<noteq> 0 \<and> unat a mod unat (if al = 0 then 8 else al) = 0 \<and> live h' = insert (a, sz) (live h) \<and>
         {g \<in> owned_pages s'. unat g \<le> unat a \<and> unat a + unat sz \<le> unat g + 4096} \<noteq> {} \<and>
         {(b, m) \<in> live h. unat b < unat a + unat sz \<and> unat a < unat b + unat m} = {}"
  using kmalloc_spec[OF heap_run_ok[OF assms(1)] assms(2)] by (fastforce simp: handed_out_def)

lemma heap_run_demo: "heap_run heap_init demo_pmm"
  by (rule heap_run.Boot) (simp add: demo_pmm_def pmm_init_inv)

lemma demo_alloc: "\<exists>s. pmm_alloc_page demo_pmm = (0x100000, s)"
proof -
  have "pmm_reachable (pmm_init (Some demo_map) 40 40 0 0 0 0) demo_pmm" unfolding demo_pmm_def by (rule pmm_reachable.Init)
  then have inv: "pmm_inv demo_pmm" by (simp add: demo_pmm_def pmm_init_inv)
  show ?thesis
  proof (cases rule: alloc_below_cases[OF inv, of RIXURI_MAX_PHYS_BYTES, case_names none page])
    case none
    have "256 \<in> free_set demo_pmm" by (simp add: demo_free)
    then show ?thesis using none(2) by (auto simp: RIXURI_MAX_PHYS_BYTES_def RIXURI_PAGE_SIZE_def)
  next
    case (page p s')
    then have "p = 256" by (auto simp: demo_free intro: le_antisym)
    then show ?thesis using page(1) by (auto simp: pmm_alloc_page_def page_addr_def RIXURI_PAGE_SIZE_def)
  qed
qed

lemma demo_kmalloc: "\<exists>h' s'. kmalloc 24 0 heap_init demo_pmm = (0x100000, h', s')"
proof -
  obtain s where s: "pmm_alloc_page demo_pmm = (0x100000, s)" using demo_alloc by blast
  have nb: "find_free_block heap_init 24 8 = None"
    by (simp add: find_free_block_def heap_init_def block_fits_def empty_record_def find_None_iff)
  have er: "find_empty_record heap_init = Some 0"
    by (simp add: find_empty_record_def heap_init_def empty_record_def HEAP_MAX_ALLOCS_def upt_rec)
  have al: "align_ptr 0x100000 8 = 0x100000" "\<not> span_misfit 0x100000 0x100000 24"
    by (simp_all add: align_ptr_def span_misfit_def UINTPTR_MAX_def)
  show ?thesis using nb er s al by (simp add: kmalloc_def heap_init_def)
qed

theorem kmalloc_sound_witness:
  "\<exists>h' s'. kmalloc 24 0 heap_init demo_pmm = (0x100000, h', s') \<and> live h' = {(0x100000, 24)}"
proof -
  obtain h' s' where km: "kmalloc 24 0 heap_init demo_pmm = (0x100000, h', s')" using demo_kmalloc by blast
  have "live heap_init = {}" by (simp add: live_def heap_init_def empty_record_def)
  then show ?thesis using kmalloc_sound[OF heap_run_demo km] km by simp
qed

text \<open>C10: \<open>kfree\<close> releases exactly the block it is given and the heap keeps no page without a live block.  In any
  run, freeing a live allocation removes it and no other; freeing any other address changes nothing; and the
  pages the heap holds are exactly those with a live allocation, so once everything is freed every page is
  back in the page allocator.\<close>

theorem kfree_exact_no_leak:
  assumes run: "heap_run h s" and kf: "kfree p h s = (h', s')"
  shows "(if p \<in> fst ` live h then live h' = {(q, n) \<in> live h. q \<noteq> p} else h' = h \<and> s' = s) \<and>
    unat ` heap_pages h' = (\<lambda>(q, n). unat q div 4096 * 4096) ` live h' \<and> heap_pages h' \<subseteq> owned_pages s'"
proof -
  have hok: "heap_ok h s" by (rule heap_run_ok[OF run])
  then have inv: "heap_inv h (owned_pages s)" by (simp add: heap_ok_def)
  have ok': "heap_ok h' s'" using heap_run_ok[OF heap_run.Free[OF run kf]] .
  then have inv': "heap_inv h' (owned_pages s')" and po: "pages_ok (owned_pages s')" by (auto simp: heap_ok_def pages_ok_owned)
  have one: "if p \<in> fst ` live h then live h' = {(q, n) \<in> live h. q \<noteq> p} else h' = h \<and> s' = s"
  proof (cases "p \<in> fst ` live h")
    case True
    then obtain n where n: "(p, n) \<in> live h" by force
    have "m = n" if "(p, m) \<in> live h" for m
      using that n live_ptr_inj[OF inv] by (auto simp: live_def)
    then have "live h - {(p, n)} = {(q, n) \<in> live h. q \<noteq> p}" by auto
    then show ?thesis using kfree_spec[OF hok n kf] True by simp
  qed (use kf kfree_unknown in auto)
  have sub: "heap_pages h' \<subseteq> owned_pages s'"
    using heap_invD(2)[OF inv'] heap_inv_current(1)[OF inv'] by (auto simp: heap_pages_def)
  have pg: "unat (ha_page (allocations h' i)) = unat (ha_ptr (allocations h' i)) div 4096 * 4096" if i: "blk h' i" for i
  proof -
    obtain k where k: "unat (ha_page (allocations h' i)) = 4096 * k"
      using pages_okD(2)[OF po heap_invD(2)[OF inv' i]] by (metis mod_0_imp_dvd dvdE)
    have "4096 * k \<le> unat (ha_ptr (allocations h' i))" "unat (ha_ptr (allocations h' i)) < 4096 * k + 4096"
      using heap_invD(1)[OF inv' i] k by (auto simp: in_page_def)
    then have "unat (ha_ptr (allocations h' i)) div 4096 = k" by (intro div_nat_eqI) auto
    then show ?thesis using k by simp
  qed
  have "heap_pages h' = {ha_page (allocations h' i) | i. i < HEAP_MAX_ALLOCS \<and> ha_active (allocations h' i)}" (is "_ = ?R")
  proof
    have "g \<in> ?R" if "live_on h' g" for g using that by (auto simp: live_on_def blk_def)
    then show "heap_pages h' \<subseteq> ?R" using heap_invD(3)[OF inv'] heap_inv_current(2)[OF inv'] by (auto simp: heap_pages_def)
    show "?R \<subseteq> heap_pages h'" using heap_invD(5)[OF inv'] by (auto simp: heap_pages_def)
  qed
  then have "unat ` heap_pages h' = (\<lambda>i. unat (ha_page (allocations h' i))) ` {i. i < HEAP_MAX_ALLOCS \<and> ha_active (allocations h' i)}"
    by auto
  also have "\<dots> = (\<lambda>i. unat (ha_ptr (allocations h' i)) div 4096 * 4096) ` {i. i < HEAP_MAX_ALLOCS \<and> ha_active (allocations h' i)}"
    using pg heap_invD(5)[OF inv'] by (intro image_cong) auto
  also have "\<dots> = (\<lambda>(q, n). unat q div 4096 * 4096) ` live h'" by (simp add: live_image image_image)
  finally show ?thesis using one sub by blast
qed

theorem kfree_exact_no_leak_witness:
  "\<exists>h s h' s'. heap_run h s \<and> live h = {(0x100000, 24)} \<and> kfree 0x100000 h s = (h', s') \<and> live h' = {} \<and> heap_pages h' = {}"
proof -
  obtain h s where km: "kmalloc 24 0 heap_init demo_pmm = (0x100000, h, s)" using demo_kmalloc by blast
  have run: "heap_run h s" by (rule heap_run.Malloc[OF heap_run_demo km])
  have "live heap_init = {}" by (simp add: live_def heap_init_def empty_record_def)
  then have l: "live h = {(0x100000, 24)}" using kmalloc_spec[OF heap_run_ok[OF heap_run_demo] km] by simp
  obtain h' s' where kf: "kfree 0x100000 h s = (h', s')" by (cases "kfree 0x100000 h s")
  have "live h' = {}" "unat ` heap_pages h' = (\<lambda>(q, n). unat q div 4096 * 4096) ` live h'"
    using kfree_exact_no_leak[OF run kf] l by auto
  then show ?thesis using run l kf by auto
qed

end
