(* ===== verification/Net.thy ===== *)
theory Net
  imports Rix_Prelude
begin

text \<open>
  Packet buffers, the Internet checksum and Ethernet framing: \<^verbatim>\<open>kernel/net/net.c\<close> and
  \<^verbatim>\<open>kernel/net/ethernet.c\<close>, with the byte-order helpers every protocol file repeats.  A frame buffer is a
  function from offsets to bytes with a start and a length; a pointer into it is an offset.  A function that
  reads through \<open>rix_net_packet_data\<close> reads at the start of the packet, which is what that pointer is while the
  packet lies inside its buffer.
\<close>

subsection \<open>Sizes\<close>

text \<open>Subtraction of \<open>size_t\<close> values.\<close>

definition sub64 :: "nat \<Rightarrow> nat \<Rightarrow> nat" where
  "sub64 a b = nat ((int a - int b) mod 2 ^ 64)"

lemma sub64_le: "b \<le> a \<Longrightarrow> a < 2 ^ 64 \<Longrightarrow> sub64 a b = a - b"
  by (simp add: sub64_def)

definition RIX_NET_HEADROOM :: nat where [simp]: "RIX_NET_HEADROOM = 64"
definition RIX_NET_MTU :: nat where [simp]: "RIX_NET_MTU = 1500"
definition RIX_NET_TAILROOM :: nat where [simp]: "RIX_NET_TAILROOM = 16"
definition RIX_NET_FRAME_CAPACITY :: nat where "RIX_NET_FRAME_CAPACITY = RIX_NET_HEADROOM + RIX_NET_MTU + RIX_NET_TAILROOM"

lemma frame_capacity [simp]: "RIX_NET_FRAME_CAPACITY = 1580"
  by (simp add: RIX_NET_FRAME_CAPACITY_def)

subsection \<open>Packet buffers\<close>

record rix_net_packet =
  pk_bytes :: "nat \<Rightarrow> u8"
  pk_start :: nat
  pk_length :: nat

definition rix_net_packet_init :: "rix_net_packet \<Rightarrow> rix_net_packet" where
  "rix_net_packet_init p = p\<lparr>pk_start := RIX_NET_HEADROOM, pk_length := 0\<rparr>"

text \<open>\<open>push\<close> yields the new start, \<open>put\<close> the old end, \<open>pull\<close> the old start as the caller's pointer.\<close>

definition rix_net_packet_push :: "rix_net_packet \<Rightarrow> nat \<Rightarrow> rc \<times> nat \<times> rix_net_packet" where
  "rix_net_packet_push p n =
     (if n > pk_start p then (-1, 0, p)
      else let p1 = p\<lparr>pk_start := pk_start p - n, pk_length := pk_length p + n\<rparr> in (0, pk_start p1, p1))"

definition rix_net_packet_put :: "rix_net_packet \<Rightarrow> nat \<Rightarrow> rc \<times> nat \<times> rix_net_packet" where
  "rix_net_packet_put p n =
     (if pk_start p > RIX_NET_FRAME_CAPACITY \<or> n > sub64 (sub64 RIX_NET_FRAME_CAPACITY (pk_start p)) (pk_length p)
      then (-1, 0, p)
      else (0, pk_start p + pk_length p, p\<lparr>pk_length := pk_length p + n\<rparr>))"

definition rix_net_packet_pull :: "rix_net_packet \<Rightarrow> nat \<Rightarrow> rc \<times> nat \<times> rix_net_packet" where
  "rix_net_packet_pull p n =
     (if n > pk_length p then (-1, 0, p)
      else (0, pk_start p, p\<lparr>pk_start := pk_start p + n, pk_length := pk_length p - n\<rparr>))"

definition rix_net_packet_data :: "rix_net_packet \<Rightarrow> nat option" where
  "rix_net_packet_data p =
     (if pk_start p > RIX_NET_FRAME_CAPACITY \<or> pk_length p > RIX_NET_FRAME_CAPACITY - pk_start p then None
      else Some (pk_start p))"

definition rix_net_packet_length :: "rix_net_packet \<Rightarrow> nat" where
  "rix_net_packet_length p = pk_length p"

definition pk_at :: "rix_net_packet \<Rightarrow> nat \<Rightarrow> u8" where
  "pk_at p i = pk_bytes p (pk_start p + i)"

subsection \<open>Byte order\<close>

definition be16 :: "u16 \<Rightarrow> u16" where
  "be16 v = push_bit 8 v OR drop_bit 8 v"

definition be32 :: "u32 \<Rightarrow> u32" where
  "be32 v = drop_bit 24 (v AND 0xff000000) OR drop_bit 8 (v AND 0x00ff0000) OR
            push_bit 8 (v AND 0x0000ff00) OR push_bit 24 (v AND 0x000000ff)"

text \<open>A 16- or 32-bit store and load of the little-endian machine.\<close>

definition store16 :: "(nat \<Rightarrow> u8) \<Rightarrow> nat \<Rightarrow> u16 \<Rightarrow> nat \<Rightarrow> u8" where
  "store16 b off v = b(off := ucast v, off + 1 := ucast (drop_bit 8 v))"

definition store32 :: "(nat \<Rightarrow> u8) \<Rightarrow> nat \<Rightarrow> u32 \<Rightarrow> nat \<Rightarrow> u8" where
  "store32 b off v = b(off := ucast v, off + 1 := ucast (drop_bit 8 v), off + 2 := ucast (drop_bit 16 v), off + 3 := ucast (drop_bit 24 v))"

definition load16 :: "(nat \<Rightarrow> u8) \<Rightarrow> nat \<Rightarrow> u16" where
  "load16 b off = ucast (b off) OR push_bit 8 (ucast (b (off + 1)))"

definition load32 :: "(nat \<Rightarrow> u8) \<Rightarrow> nat \<Rightarrow> u32" where
  "load32 b off = ucast (b off) OR push_bit 8 (ucast (b (off + 1))) OR push_bit 16 (ucast (b (off + 2))) OR push_bit 24 (ucast (b (off + 3)))"

definition put_be16 :: "(nat \<Rightarrow> u8) \<Rightarrow> nat \<Rightarrow> u16 \<Rightarrow> nat \<Rightarrow> u8" where
  "put_be16 b off v = b(off := ucast (drop_bit 8 v), off + 1 := ucast v)"

definition put_be32 :: "(nat \<Rightarrow> u8) \<Rightarrow> nat \<Rightarrow> u32 \<Rightarrow> nat \<Rightarrow> u8" where
  "put_be32 b off v = b(off := ucast (drop_bit 24 v), off + 1 := ucast (drop_bit 16 v), off + 2 := ucast (drop_bit 8 v), off + 3 := ucast v)"

definition get_be16 :: "(nat \<Rightarrow> u8) \<Rightarrow> nat \<Rightarrow> u16" where
  "get_be16 b off = push_bit 8 (ucast (b off)) OR ucast (b (off + 1))"

definition get_be32 :: "(nat \<Rightarrow> u8) \<Rightarrow> nat \<Rightarrow> u32" where
  "get_be32 b off = push_bit 24 (ucast (b off)) OR push_bit 16 (ucast (b (off + 1))) OR push_bit 8 (ucast (b (off + 2))) OR ucast (b (off + 3))"

text \<open>A copy of consecutive bytes into a buffer.\<close>

primrec store_bytes :: "(nat \<Rightarrow> u8) \<Rightarrow> nat \<Rightarrow> u8 list \<Rightarrow> nat \<Rightarrow> u8" where
  "store_bytes b off [] = b"
| "store_bytes b off (x # xs) = store_bytes (b(off := x)) (off + 1) xs"

type_synonym mac = "u8 list"

definition copy_mac :: "(nat \<Rightarrow> u8) \<Rightarrow> nat \<Rightarrow> mac \<Rightarrow> nat \<Rightarrow> u8" where
  "copy_mac b off m = store_bytes b off (map ((!) m) [0..<6])"

subsection \<open>Checksum\<close>

function fold_sum :: "u32 \<Rightarrow> u32" where
  "fold_sum s = (if drop_bit 16 s \<noteq> 0 then fold_sum ((s AND 0xffff) + drop_bit 16 s) else s)"
  by pat_completeness auto

lemma unat_and_ffff: "unat (s AND 0xffff) = unat s mod 65536" for s :: u32
proof -
  have m: "(0xffff :: u32) = mask 16" by (simp add: mask_eq_exp_minus_1)
  show ?thesis unfolding m take_bit_eq_mask[symmetric] unsigned_take_bit_eq by (simp add: take_bit_eq_mod)
qed

lemma unat_drop_16: "unat (drop_bit 16 s) = unat s div 65536" for s :: u32
  by (simp add: drop_bit_eq_div unat_div_distrib)

lemma u32_bound: "unat s < 4294967296" for s :: u32
  using unsigned_less[of s] by simp

lemma unat_fold_step: "unat ((s AND 0xffff) + drop_bit 16 s) = unat s mod 65536 + unat s div 65536" for s :: u32
proof -
  have "unat s div 65536 < 65536" using u32_bound[of s] by (simp add: div_less_iff_less_mult)
  moreover have "unat s mod 65536 < 65536" by simp
  ultimately have "unat (s AND 0xffff) + unat (drop_bit 16 s) < 2 ^ LENGTH(32)"
    unfolding unat_and_ffff unat_drop_16 by simp
  then show ?thesis using unat_add_lem[of "s AND 0xffff" "drop_bit 16 s"] by (simp add: unat_and_ffff unat_drop_16)
qed

termination fold_sum
proof (relation "measure unat")
  fix s :: u32
  assume "drop_bit 16 s \<noteq> 0"
  then have "unat s div 65536 \<noteq> 0" using unat_drop_16[of s] by (metis unat_eq_zero)
  moreover have "unat s = 65536 * (unat s div 65536) + unat s mod 65536" by simp
  ultimately have "unat s mod 65536 + unat s div 65536 < unat s" by linarith
  then show "((s AND 0xffff) + drop_bit 16 s, s) \<in> measure unat" by (simp add: unat_fold_step)
qed simp

declare fold_sum.simps [simp del]

definition rix_net_checksum_add :: "u32 \<Rightarrow> u16" where
  "rix_net_checksum_add s = NOT (ucast (fold_sum s))"

text \<open>The loop over 16-bit groups from offset \<open>off\<close> on.\<close>

fun sum_words :: "(nat \<Rightarrow> u8) \<Rightarrow> nat \<Rightarrow> nat \<Rightarrow> u32 \<Rightarrow> u32" where
  "sum_words b off n s =
     (if n \<ge> 2 then sum_words b (off + 2) (n - 2) (s + (push_bit 8 (ucast (b off)) OR ucast (b (off + 1))))
      else if n \<noteq> 0 then s + push_bit 8 (ucast (b off)) else s)"

declare sum_words.simps [simp del]

definition rix_net_checksum :: "(nat \<Rightarrow> u8) \<Rightarrow> nat \<Rightarrow> nat \<Rightarrow> u16" where
  "rix_net_checksum b off n = rix_net_checksum_add (sum_words b off n 0)"

subsection \<open>Ethernet\<close>

definition RIX_NET_ETHERTYPE_IPV4 :: u16 where "RIX_NET_ETHERTYPE_IPV4 = 0x0800"
definition RIX_NET_ETHERTYPE_ARP :: u16 where "RIX_NET_ETHERTYPE_ARP = 0x0806"
definition RIX_NET_ETHERTYPE_IPV6 :: u16 where "RIX_NET_ETHERTYPE_IPV6 = 0x86dd"

record rix_net_eth_header =
  eth_destination :: mac
  eth_source :: mac
  eth_type :: u16

definition rix_net_ethertype_supported :: "u16 \<Rightarrow> bool" where
  "rix_net_ethertype_supported t \<longleftrightarrow> t = RIX_NET_ETHERTYPE_IPV4 \<or> t = RIX_NET_ETHERTYPE_ARP \<or> t = RIX_NET_ETHERTYPE_IPV6"

definition rix_net_eth_push :: "rix_net_packet \<Rightarrow> mac \<Rightarrow> mac \<Rightarrow> u16 \<Rightarrow> rc \<times> rix_net_packet" where
  "rix_net_eth_push p destination source ethertype =
     (if \<not> rix_net_ethertype_supported ethertype then (-1, p)
      else case rix_net_packet_push p 14 of
        (rc, h, p1) \<Rightarrow>
          if rc \<noteq> 0 then (-1, p1)
          else let b1 = copy_mac (pk_bytes p1) h destination;
                   b2 = copy_mac b1 (h + 6) source;
                   b3 = store16 b2 (h + 12) (be16 ethertype)
               in (0, p1\<lparr>pk_bytes := b3\<rparr>))"

definition rix_net_eth_pull :: "rix_net_packet \<Rightarrow> rc \<times> rix_net_eth_header option \<times> rix_net_packet" where
  "rix_net_eth_pull p =
     (if rix_net_packet_length p < 14 then (-1, None, p)
      else case rix_net_packet_pull p 14 of
        (rc, w, p1) \<Rightarrow>
          if rc \<noteq> 0 then (-1, None, p1)
          else let header = \<lparr>eth_destination = map (\<lambda>i. pk_bytes p1 (w + i)) [0..<6],
                             eth_source = map (\<lambda>i. pk_bytes p1 (w + 6 + i)) [0..<6],
                             eth_type = be16 (load16 (pk_bytes p1) (w + 12))\<rparr>
               in (if rix_net_ethertype_supported (eth_type header) then 0 else -2, Some header, p1))"

subsection \<open>The bytes of a packet\<close>

definition pk_view :: "rix_net_packet \<Rightarrow> u8 list" where
  "pk_view p = map (pk_bytes p) [pk_start p ..< pk_start p + pk_length p]"

text \<open>The packet lies inside its buffer.\<close>

definition packet_ok :: "rix_net_packet \<Rightarrow> bool" where
  "packet_ok p \<longleftrightarrow> pk_start p + pk_length p \<le> RIX_NET_FRAME_CAPACITY"

lemma length_pk_view [simp]: "length (pk_view p) = pk_length p"
  by (simp add: pk_view_def)

lemma pk_view_nth: "i < pk_length p \<Longrightarrow> pk_bytes p (pk_start p + i) = pk_view p ! i"
  by (simp add: pk_view_def)

lemma packet_data_ok: "packet_ok p \<Longrightarrow> rix_net_packet_data p = Some (pk_start p)"
  by (auto simp: packet_ok_def rix_net_packet_data_def)

lemma packet_ok_init: "packet_ok (rix_net_packet_init p)"
  by (simp add: packet_ok_def rix_net_packet_init_def)

lemma pk_view_init: "pk_view (rix_net_packet_init p) = []"
  by (simp add: pk_view_def rix_net_packet_init_def)

subsubsection \<open>Stores\<close>

lemma store_bytes_at: "store_bytes b off xs j = (if off \<le> j \<and> j < off + length xs then xs ! (j - off) else b j)"
  by (induction xs arbitrary: b off) (auto simp: nth_Cons' Suc_diff_le)

lemma store_bytes_append: "store_bytes (store_bytes b off xs) (off + length xs) ys = store_bytes b off (xs @ ys)"
  by (rule ext) (auto simp: store_bytes_at nth_append)

lemma store_bytes_extend: "off' = off + length xs \<Longrightarrow> store_bytes (store_bytes b off xs) off' ys = store_bytes b off (xs @ ys)"
  by (simp add: store_bytes_append)

lemma store_bytes_over:
  assumes "off' = off + length xs" "length zs = length ys"
  shows "store_bytes (store_bytes b off (xs @ ys @ ws)) off' zs = store_bytes b off (xs @ zs @ ws)"
  by (rule ext) (use assms in \<open>auto simp: store_bytes_at nth_append\<close>)

lemma fun_upd_store: "b(off := x) = store_bytes b off [x]"
  by simp

definition bytes16 :: "u16 \<Rightarrow> u8 list" where
  "bytes16 v = [ucast (drop_bit 8 v), ucast v]"

definition bytes32 :: "u32 \<Rightarrow> u8 list" where
  "bytes32 v = [ucast (drop_bit 24 v), ucast (drop_bit 16 v), ucast (drop_bit 8 v), ucast v]"

definition word16 :: "u8 \<Rightarrow> u8 \<Rightarrow> u16" where
  "word16 a b = push_bit 8 (ucast a) OR ucast b"

definition word32 :: "u8 \<Rightarrow> u8 \<Rightarrow> u8 \<Rightarrow> u8 \<Rightarrow> u32" where
  "word32 a b c d = push_bit 24 (ucast a) OR push_bit 16 (ucast b) OR push_bit 8 (ucast c) OR ucast d"

lemma length_bytes16 [simp]: "length (bytes16 v) = 2" and length_bytes32 [simp]: "length (bytes32 w) = 4"
  by (simp_all add: bytes16_def bytes32_def)

lemma put_be16_store: "put_be16 b off v = store_bytes b off (bytes16 v)"
  by (simp add: put_be16_def bytes16_def)

lemma put_be32_store: "put_be32 b off v = store_bytes b off (bytes32 v)"
  by (simp add: put_be32_def bytes32_def numeral_3_eq_3 numeral_2_eq_2)

lemma ucast_be16: "ucast (be16 v) = (ucast (drop_bit 8 v) :: u8)" "ucast (drop_bit 8 (be16 v)) = (ucast v :: u8)"
  by (rule bit_word_eqI; auto simp: be16_def bit_simps)+

lemma store16_be16: "store16 b off (be16 v) = store_bytes b off (bytes16 v)"
  by (simp add: store16_def bytes16_def ucast_be16)

lemma be32_masks: "be32 v = drop_bit 24 v OR (drop_bit 8 v AND push_bit 8 (mask 8)) OR (push_bit 8 v AND push_bit 16 (mask 8)) OR push_bit 24 v"
proof -
  have e: "be32 v = drop_bit 24 (v AND push_bit 24 (mask 8)) OR drop_bit 8 (v AND push_bit 16 (mask 8)) OR
            push_bit 8 (v AND push_bit 8 (mask 8)) OR push_bit 24 (v AND mask 8)"
    by (simp add: be32_def mask_eq_exp_minus_1 push_bit_eq_mult)
  show ?thesis unfolding e
    by (rule bit_word_eqI) (auto simp: bit_simps simp del: mask_numeral dest: bit_imp_le_length)
qed

lemma ucast_be32:
  "ucast (be32 v) = (ucast (drop_bit 24 v) :: u8)" "ucast (drop_bit 8 (be32 v)) = (ucast (drop_bit 16 v) :: u8)"
  "ucast (drop_bit 16 (be32 v)) = (ucast (drop_bit 8 v) :: u8)" "ucast (drop_bit 24 (be32 v)) = (ucast v :: u8)"
  by (rule bit_word_eqI; auto simp: be32_masks bit_simps simp del: mask_numeral)+

lemma store32_be32: "store32 b off (be32 v) = store_bytes b off (bytes32 v)"
  by (simp add: store32_def bytes32_def ucast_be32 numeral_3_eq_3 numeral_2_eq_2)

subsubsection \<open>Loads\<close>

lemma word16_bytes16 [simp]: "word16 (ucast (drop_bit 8 v)) (ucast v) = v"
  by (rule bit_word_eqI) (auto simp: word16_def bit_simps)

lemma word32_bytes32 [simp]: "word32 (ucast (drop_bit 24 v)) (ucast (drop_bit 16 v)) (ucast (drop_bit 8 v)) (ucast v) = v"
proof (rule bit_word_eqI)
  fix n
  show "bit (word32 (ucast (drop_bit 24 v)) (ucast (drop_bit 16 v)) (ucast (drop_bit 8 v)) (ucast v)) n = bit v n" if "n < LENGTH(32)"
    using that by (cases "n < 8"; cases "n < 16"; cases "n < 24"; auto simp: word32_def bit_simps)
qed

lemma bit_u8: "bit w n \<Longrightarrow> n < 8" for w :: u8
  using bit_imp_le_length[of w n] by simp

lemma get_be16_word: "get_be16 b off = word16 (b off) (b (off + 1))"
  by (simp add: get_be16_def word16_def)

lemma get_be32_word: "get_be32 b off = word32 (b off) (b (off + 1)) (b (off + 2)) (b (off + 3))"
  by (simp add: get_be32_def word32_def)

lemma be16_load16: "be16 (load16 b off) = word16 (b off) (b (off + 1))"
  by (rule bit_word_eqI) (auto simp: be16_def load16_def word16_def bit_simps dest: bit_u8)

lemma be32_load32: "be32 (load32 b off) = word32 (b off) (b (off + 1)) (b (off + 2)) (b (off + 3))"
proof (rule bit_word_eqI)
  fix n
  show "bit (be32 (load32 b off)) n = bit (word32 (b off) (b (off + 1)) (b (off + 2)) (b (off + 3))) n" if "n < LENGTH(32)"
    using that by (cases "n < 8"; cases "n < 16"; cases "n < 24"; auto simp: be32_masks load32_def word32_def bit_simps simp del: mask_numeral dest: bit_u8)
qed

subsubsection \<open>Packet operations on the bytes\<close>

lemma push_eq:
  assumes "n \<le> pk_start p"
  shows "rix_net_packet_push p n = (0, pk_start p - n, p\<lparr>pk_start := pk_start p - n, pk_length := pk_length p + n\<rparr>)"
  using assms by (simp add: rix_net_packet_push_def Let_def)

lemma push_view:
  assumes "n \<le> pk_start p" "length hs = n"
  shows "pk_view (p\<lparr>pk_start := pk_start p - n, pk_length := pk_length p + n,
                   pk_bytes := store_bytes (pk_bytes p) (pk_start p - n) hs\<rparr>) = hs @ pk_view p"
  by (rule nth_equalityI) (use assms in \<open>auto simp: pk_view_def nth_append store_bytes_at\<close>)

lemma put_guard: "packet_ok p \<Longrightarrow> sub64 (sub64 RIX_NET_FRAME_CAPACITY (pk_start p)) (pk_length p) = 1580 - pk_start p - pk_length p"
  by (simp add: sub64_le packet_ok_def)

lemma put_eq:
  assumes "packet_ok p" "pk_start p + pk_length p + n \<le> RIX_NET_FRAME_CAPACITY"
  shows "rix_net_packet_put p n = (0, pk_start p + pk_length p, p\<lparr>pk_length := pk_length p + n\<rparr>)"
  using assms put_guard[OF assms(1)] by (auto simp: rix_net_packet_put_def)

lemma put_view:
  "pk_view (p\<lparr>pk_length := pk_length p + length xs,
              pk_bytes := store_bytes (pk_bytes p) (pk_start p + pk_length p) xs\<rparr>) = pk_view p @ xs"
  by (rule nth_equalityI) (auto simp: pk_view_def nth_append store_bytes_at)

lemma pull_eq:
  assumes "n \<le> pk_length p"
  shows "rix_net_packet_pull p n = (0, pk_start p, p\<lparr>pk_start := pk_start p + n, pk_length := pk_length p - n\<rparr>)"
  using assms by (simp add: rix_net_packet_pull_def)

lemma pull_view:
  assumes "n + m \<le> pk_length p"
  shows "pk_view (p\<lparr>pk_start := pk_start p + n, pk_length := m\<rparr>) = take m (drop n (pk_view p))"
  by (rule nth_equalityI) (use assms in \<open>auto simp: pk_view_def ac_simps\<close>)

text \<open>The three buffer operations keep a packet inside its buffer.\<close>

lemma packet_ok_push: "packet_ok p \<Longrightarrow> packet_ok (snd (snd (rix_net_packet_push p n)))"
  by (auto simp: packet_ok_def rix_net_packet_push_def Let_def)

lemma packet_ok_pull: "packet_ok p \<Longrightarrow> packet_ok (snd (snd (rix_net_packet_pull p n)))"
  by (auto simp: packet_ok_def rix_net_packet_pull_def)

lemma packet_ok_put: "packet_ok p \<Longrightarrow> packet_ok (snd (snd (rix_net_packet_put p n)))"
  using put_guard[of p] by (auto simp: packet_ok_def rix_net_packet_put_def)

subsection \<open>One's complement sums\<close>

text \<open>The sum of the 16-bit groups of a byte string, a last odd byte padded with zero.\<close>

fun wsum :: "u8 list \<Rightarrow> nat" where
  "wsum (a # b # xs) = 256 * unat a + unat b + wsum xs"
| "wsum [a] = 256 * unat a"
| "wsum [] = 0"

lemma u8_bound: "unat a < 256" for a :: u8
  using unsigned_less[of a] by simp

lemma u16_bound: "unat a < 65536" for a :: u16
  using unsigned_less[of a] by simp

lemma wsum_bound: "2 * wsum xs \<le> 65535 * (length xs + 1)"
proof (induction xs rule: wsum.induct)
  case (1 a b xs)
  have "256 * unat a + unat b \<le> 65535" using u8_bound[of a] u8_bound[of b] by linarith
  with 1 show ?case by simp
next
  case (2 a)
  then show ?case using u8_bound[of a] by simp
qed simp

lemma wsum_append: "even (length xs) \<Longrightarrow> wsum (xs @ ys) = wsum xs + wsum ys"
  by (induction xs rule: wsum.induct) auto

lemma unat_push8: "unat (push_bit 8 (ucast a) :: u32) = 256 * unat a" for a :: u8
proof -
  have "256 * unat a < 2 ^ LENGTH(32)" using u8_bound[of a] by simp
  moreover have "(push_bit 8 (ucast a) :: u32) = of_nat (256 * unat a)" by (simp add: push_bit_eq_mult)
  ultimately show ?thesis by (metis unat_of_nat_small)
qed

lemma or_eq_pair: "(push_bit 8 (ucast a) OR ucast b :: u32) = of_nat (256 * unat a + unat b)" for a b :: u8
proof -
  have "(push_bit 8 (ucast a) OR ucast b :: u32) = push_bit 8 (ucast a) + ucast b"
    by (rule disjunctive_add[symmetric]) (auto simp: bit_simps dest: bit_u8)
  also have "\<dots> = of_nat (256 * unat a + unat b)" by (simp add: push_bit_eq_mult)
  finally show ?thesis .
qed

lemma unat_word16: "unat (word16 a b) = 256 * unat a + unat b"
proof -
  have "word16 a b = push_bit 8 (ucast a) + ucast b"
    unfolding word16_def by (rule disjunctive_add[symmetric]) (auto simp: bit_simps dest: bit_u8)
  also have "\<dots> = of_nat (256 * unat a + unat b)" by (simp add: push_bit_eq_mult)
  finally have e: "word16 a b = of_nat (256 * unat a + unat b)" .
  have "256 * unat a + unat b < 2 ^ LENGTH(16)" using u8_bound[of a] u8_bound[of b] by simp
  then show ?thesis unfolding e by (rule unat_of_nat_small)
qed

lemma wsum_bytes16 [simp]: "wsum (bytes16 v) = unat v"
  using unat_word16[of "ucast (drop_bit 8 v)" "ucast v"] by (simp add: bytes16_def)

lemma map_upt_two: "map b [off..<off + Suc (Suc m)] = b off # b (off + 1) # map b [off + 2..<off + 2 + m]"
  by (simp add: upt_conv_Cons del: upt_Suc)

lemma sum_words_eq: "sum_words b off n s = s + of_nat (wsum (map b [off..<off + n]))"
proof (induction b off n s rule: sum_words.induct)
  case (1 b off n s)
  consider m where "n = Suc (Suc m)" | "n = 1" | "n = 0" by (metis One_nat_def not0_implies_Suc)
  then show ?case
  proof cases
    case (1 m)
    have "sum_words b off n s = sum_words b (off + 2) m (s + (push_bit 8 (ucast (b off)) OR ucast (b (off + 1))))"
      using 1 by (subst sum_words.simps) simp
    also have "\<dots> = s + (push_bit 8 (ucast (b off)) OR ucast (b (off + 1))) + of_nat (wsum (map b [off + 2..<off + 2 + m]))"
      using "1.IH" 1 by simp
    finally show ?thesis unfolding 1 map_upt_two wsum.simps or_eq_pair by (simp add: ac_simps)
  next
    case 2
    then show ?thesis by (subst sum_words.simps) (simp add: push_bit_eq_mult)
  next
    case 3
    then show ?thesis by (subst sum_words.simps) simp
  qed
qed

end
