(* ===== verification/Net_Layers.thy ===== *)
theory Net_Layers
  imports Net
begin

text \<open>
  What the Internet checksum of \<^verbatim>\<open>kernel/net/net.c\<close> computes, the contracts a framing layer, a network layer
  and a transport layer of the stack keep, and the theorem that the three stacked on each other deliver a
  payload unchanged.  Ethernet (\<^verbatim>\<open>kernel/net/ethernet.c\<close>) is shown to be a framing layer here; the other
  protocols follow in their own theories.
\<close>

subsection \<open>The checksum as a one's complement sum\<close>

text \<open>The representative of a sum in one's complement arithmetic: zero only for the sum zero.\<close>

definition oc_norm :: "nat \<Rightarrow> nat" where
  "oc_norm n = (if n = 0 then 0 else Suc ((n - 1) mod 65535))"

text \<open>RFC 1071: addition with end-around carry, over the 16-bit groups one after the other.\<close>

definition oc_add :: "nat \<Rightarrow> nat \<Rightarrow> nat" where
  "oc_add a b = (if a + b > 65535 then a + b - 65535 else a + b)"

fun oc_sum :: "u8 list \<Rightarrow> nat" where
  "oc_sum (a # b # xs) = oc_add (256 * unat a + unat b) (oc_sum xs)"
| "oc_sum [a] = 256 * unat a"
| "oc_sum [] = 0"

lemma oc_norm_small: "n \<le> 65535 \<Longrightarrow> oc_norm n = n"
  by (auto simp: oc_norm_def)

lemma oc_norm_le: "oc_norm n \<le> 65535"
  using mod_less_divisor[of 65535 "n - 1"] by (auto simp: oc_norm_def simp del: mod_less_divisor)

lemma oc_norm_shift: "0 < a \<Longrightarrow> oc_norm (a + 65535 * k) = oc_norm a"
  by (cases a) (simp_all add: oc_norm_def)

lemma oc_norm_eq_ffff: "oc_norm n = 65535 \<longleftrightarrow> n \<noteq> 0 \<and> n mod 65535 = 0"
proof (cases n)
  case (Suc m)
  have "Suc (m mod 65535) = 65535 \<longleftrightarrow> Suc m mod 65535 = 0" by (simp add: mod_Suc)
  then show ?thesis using Suc by (simp add: oc_norm_def)
qed (simp add: oc_norm_def)

lemma oc_norm_mod: "oc_norm n mod 65535 = n mod 65535"
  by (cases n) (simp_all add: oc_norm_def mod_Suc_eq)

lemma oc_add_norm:
  assumes "x \<le> 65535"
  shows "oc_add x (oc_norm m) = oc_norm (x + m)"
proof (cases "m = 0")
  case True
  then show ?thesis using assms by (simp add: oc_add_def oc_norm_small oc_norm_def[of 0])
next
  case False
  define r where "r = (m - 1) mod 65535"
  have r: "r < 65535" by (simp add: r_def)
  have m: "oc_norm m = Suc r" using False by (simp add: oc_norm_def r_def)
  define k where "k = (m - 1) div 65535"
  have e: "x + m = (x + Suc r) + 65535 * k" using False mult_div_mod_eq[of 65535 "m - 1"] unfolding r_def k_def by linarith
  have "oc_norm (x + m) = oc_norm (x + Suc r)" unfolding e by (rule oc_norm_shift) simp
  moreover have "oc_add x (Suc r) = oc_norm (x + Suc r)"
  proof (cases "x + Suc r > 65535")
    case True
    have "x + Suc r = (x + Suc r - 65535) + 65535 * 1" using True by simp
    then have "oc_norm (x + Suc r) = oc_norm (x + Suc r - 65535)" using oc_norm_shift[of "x + Suc r - 65535" 1] True by simp
    then show ?thesis using True assms r by (simp add: oc_add_def oc_norm_small)
  qed (simp add: oc_add_def oc_norm_small)
  ultimately show ?thesis unfolding m by simp
qed

lemma oc_sum_norm: "oc_sum xs = oc_norm (wsum xs)"
proof (induction xs rule: oc_sum.induct)
  case (1 a b xs)
  have "256 * unat a + unat b \<le> 65535" using u8_bound[of a] u8_bound[of b] by linarith
  then show ?case using 1 oc_add_norm by simp
next
  case (2 a)
  then show ?case using u8_bound[of a] by (simp add: oc_norm_small)
qed (simp add: oc_norm_def)

lemma fold_sum_norm: "unat (fold_sum s) = oc_norm (unat s)"
proof (induction s rule: fold_sum.induct)
  case (1 s)
  show ?case
  proof (cases "drop_bit 16 s = 0")
    case True
    then have "unat s div 65536 = 0" using unat_drop_16[of s] by simp
    then have "unat s \<le> 65535" by (simp add: div_eq_0_iff)
    then show ?thesis using True by (subst fold_sum.simps) (simp add: oc_norm_small)
  next
    case False
    then have k: "unat s div 65536 \<noteq> 0" using unat_drop_16[of s] by (metis unat_eq_zero)
    have "unat s = (unat s mod 65536 + unat s div 65536) + 65535 * (unat s div 65536)"
      using mult_div_mod_eq[of 65536 "unat s"] by linarith
    then have "oc_norm (unat s) = oc_norm (unat s mod 65536 + unat s div 65536)"
      using oc_norm_shift[of "unat s mod 65536 + unat s div 65536" "unat s div 65536"] k by simp
    then show ?thesis using 1[OF False] False by (subst fold_sum.simps) (simp add: unat_fold_step)
  qed
qed

lemma unat_not16: "unat (NOT w) = 65535 - unat w" for w :: u16
proof -
  have "NOT w = - 1 - w" by (simp add: not_eq_complement)
  moreover have "unat (- 1 - w) = unat (- 1 :: u16) - unat w" by (rule unat_sub) simp
  moreover have "unat (- 1 :: u16) = 65535" by (simp add: unsigned_minus_1_eq_mask mask_eq_exp_minus_1)
  ultimately show ?thesis by simp
qed

lemma checksum_add_eq: "unat (rix_net_checksum_add s) = 65535 - oc_norm (unat s)"
proof -
  have "unat (ucast (fold_sum s) :: u16) = unat (fold_sum s)"
    using oc_norm_le[of "unat s"] by (simp add: fold_sum_norm unsigned_ucast_eq take_bit_nat_eq_self)
  then show ?thesis by (simp add: rix_net_checksum_add_def unat_not16 fold_sum_norm)
qed

lemma checksum_add_zero: "rix_net_checksum_add s = 0 \<longleftrightarrow> unat s \<noteq> 0 \<and> unat s mod 65535 = 0"
proof -
  have "rix_net_checksum_add s = 0 \<longleftrightarrow> oc_norm (unat s) = 65535"
    using checksum_add_eq[of s] oc_norm_le[of "unat s"] by (simp add: unat_eq_zero[symmetric] del: unat_eq_zero unsigned_0 unsigned_eq_0_iff)
  then show ?thesis by (simp add: oc_norm_eq_ffff)
qed

text \<open>Storing the complement of a sum, or for the sum \<open>0xffff\<close> its other representative, makes the whole verify.\<close>

lemma checksum_add_completes:
  assumes "c = rix_net_checksum_add s \<or> c = (if rix_net_checksum_add s = 0 then 0xffff else rix_net_checksum_add s)"
  shows "(unat s + unat c) mod 65535 = 0" "unat s + unat c \<noteq> 0"
proof -
  have e: "unat (rix_net_checksum_add s) = 65535 - oc_norm (unat s)" by (rule checksum_add_eq)
  have le: "oc_norm (unat s) \<le> 65535" by (rule oc_norm_le)
  have c: "unat c mod 65535 = (65535 - oc_norm (unat s)) mod 65535"
    using assms e by (cases "rix_net_checksum_add s = 0") auto
  have "(unat s + unat c) mod 65535 = (oc_norm (unat s) mod 65535 + (65535 - oc_norm (unat s)) mod 65535) mod 65535"
    by (metis c mod_add_eq oc_norm_mod)
  also have "\<dots> = (oc_norm (unat s) + (65535 - oc_norm (unat s))) mod 65535" by (rule mod_add_eq)
  also have "\<dots> = 0" using le by simp
  finally show "(unat s + unat c) mod 65535 = 0" .
  show "unat s + unat c \<noteq> 0"
  proof
    assume z: "unat s + unat c = 0"
    then have "unat (rix_net_checksum_add s) = 65535" using e by (simp add: oc_norm_def)
    then have "unat c = 65535" using assms by (auto split: if_splits)
    then show False using z by simp
  qed
qed

lemma unat_plus_wsum:
  assumes "unat s0 + wsum xs < 2 ^ 32"
  shows "unat (s0 + of_nat (wsum xs) :: u32) = unat s0 + wsum xs"
proof -
  have "unat (of_nat (wsum xs) :: u32) = wsum xs" using assms by (intro unat_of_nat_small) simp
  then show ?thesis using unat_add_lem[of s0 "of_nat (wsum xs)"] assms by simp
qed

text \<open>A sum over a pseudo header and the bytes of a packet: what verification accepts.\<close>

definition sum_ok :: "nat \<Rightarrow> bool" where
  "sum_ok n \<longleftrightarrow> n \<noteq> 0 \<and> n mod 65535 = 0"

lemma checksum_verifies:
  assumes "unat s0 + wsum xs < 2 ^ 32"
  shows "rix_net_checksum_add (s0 + of_nat (wsum xs)) = 0 \<longleftrightarrow> sum_ok (unat s0 + wsum xs)"
  using unat_plus_wsum[OF assms] by (simp add: checksum_add_zero sum_ok_def)

lemma checksum_inserted:
  assumes "unat s0 + wsum (xs @ [0, 0] @ ys) < 2 ^ 32" "even (length xs)"
    and "c = rix_net_checksum_add (s0 + of_nat (wsum (xs @ [0, 0] @ ys))) \<or>
         c = (if rix_net_checksum_add (s0 + of_nat (wsum (xs @ [0, 0] @ ys))) = 0 then 0xffff
              else rix_net_checksum_add (s0 + of_nat (wsum (xs @ [0, 0] @ ys))))"
  shows "sum_ok (unat s0 + wsum (xs @ bytes16 c @ ys))"
proof -
  have "wsum (xs @ bytes16 c @ ys) = wsum (xs @ [0, 0] @ ys) + unat c"
    using assms(2) wsum_append[of "bytes16 c" ys] by (simp add: wsum_append)
  then show ?thesis
    using checksum_add_completes[OF assms(3)] unat_plus_wsum[OF assms(1)] by (simp add: sum_ok_def ac_simps)
qed

text \<open>Two strings that differ in one byte never both verify.\<close>

lemma wsum_update:
  assumes "i < length xs"
  shows "wsum (xs[i := v]) + (if even i then 256 else 1) * unat (xs ! i) = wsum xs + (if even i then 256 else 1) * unat v"
  using assms
proof (induction xs arbitrary: i rule: wsum.induct)
  case (1 a b xs)
  consider "i = 0" | "i = 1" | j where "i = Suc (Suc j)" by (metis One_nat_def not0_implies_Suc)
  then show ?case
  proof cases
    case (3 j)
    then show ?thesis using 1(1)[of j] 1(2) by simp
  qed auto
qed auto

lemma sum_ok_single_byte:
  assumes "sum_ok (s + wsum xs)" "i < length xs" "v \<noteq> xs ! i"
  shows "\<not> sum_ok (s + wsum (xs[i := v]))"
proof
  assume "sum_ok (s + wsum (xs[i := v]))"
  then obtain k where k: "s + wsum (xs[i := v]) = 65535 * k" by (auto simp: sum_ok_def)
  obtain l where l: "s + wsum xs = 65535 * l" using assms(1) by (auto simp: sum_ok_def)
  define f where "f = (if even i then 256 else (1::nat))"
  have f: "f = 256 \<or> f = 1" by (simp add: f_def)
  have "65535 * k + f * unat (xs ! i) = 65535 * l + f * unat v"
    using wsum_update[OF assms(2), of v] k l unfolding f_def by linarith
  then have "(65535 * k + f * unat (xs ! i)) mod 65535 = (65535 * l + f * unat v) mod 65535" by simp
  moreover have "f * unat (xs ! i) < 65535" "f * unat v < 65535"
    using f u8_bound[of "xs ! i"] u8_bound[of v] by auto
  ultimately have "f * unat (xs ! i) = f * unat v" by simp
  then have "unat (xs ! i) = unat v" using f by auto
  then show False using assms(3) by (metis word_unat_eq_iff)
qed

subsection \<open>Stores and sums over packets\<close>

lemma map_store_bytes [simp]: "length hs = n \<Longrightarrow> map (store_bytes b off hs) [off..<off + n] = hs"
  by (rule nth_equalityI) (auto simp: store_bytes_at)

lemma bytes16_0: "bytes16 0 = [0, 0]"
  by (simp add: bytes16_def)

lemma store16_0: "store16 b off 0 = store_bytes b off (bytes16 0)"
  by (simp add: store16_def bytes16_0)

declare store_bytes.simps [simp del]

lemmas stores = fun_upd_store store16_be16 store32_be32 store16_0 put_be16_store put_be32_store

lemma sum_words_view: "n \<le> pk_length p \<Longrightarrow> sum_words (pk_bytes p) (pk_start p) n s = s + of_nat (wsum (take n (pk_view p)))"
  by (simp add: sum_words_eq pk_view_def take_map)

lemma wsum_short:
  assumes "length xs \<le> 60000"
  shows "wsum xs \<le> 1966100000"
proof -
  have "65535 * (length xs + 1) \<le> 65535 * 60001" using assms by (intro mult_left_mono) simp_all
  then show ?thesis using wsum_bound[of xs] by simp
qed

text \<open>A payload appended to a packet, then room made for a header of \<open>n\<close> bytes before it.\<close>

lemma put_push:
  assumes "packet_ok p" "n \<le> pk_start p" "pk_start p + pk_length p + length xs \<le> RIX_NET_FRAME_CAPACITY"
  obtains body p1 w p3 where
    "rix_net_packet_put p (length xs) = (0, body, p1)"
    "rix_net_packet_push (p1\<lparr>pk_bytes := store_bytes (pk_bytes p1) body xs\<rparr>) n = (0, w, p3)"
    "pk_start p3 = w" "w = pk_start p - n" "pk_length p3 = n + pk_length p + length xs" "packet_ok p3"
    "\<And>hs. length hs = n \<Longrightarrow> pk_view (p3\<lparr>pk_bytes := store_bytes (pk_bytes p3) w hs\<rparr>) = hs @ pk_view p @ xs"
    "\<And>hs s. length hs = n \<Longrightarrow> sum_words (store_bytes (pk_bytes p3) w hs) w (pk_length p3) s = s + of_nat (wsum (hs @ pk_view p @ xs))"
proof -
  define p2 where "p2 = p\<lparr>pk_length := pk_length p + length xs, pk_bytes := store_bytes (pk_bytes p) (pk_start p + pk_length p) xs\<rparr>"
  define p3 where "p3 = p2\<lparr>pk_start := pk_start p2 - n, pk_length := pk_length p2 + n\<rparr>"
  have v2: "pk_view p2 = pk_view p @ xs" unfolding p2_def by (rule put_view)
  have st: "pk_start p2 = pk_start p" by (simp add: p2_def)
  have v3: "pk_view (p3\<lparr>pk_bytes := store_bytes (pk_bytes p3) (pk_start p3) hs\<rparr>) = hs @ pk_view p @ xs" if "length hs = n" for hs
    using push_view[of n p2 hs] assms(2) that by (simp add: v2 p3_def st)
  have s3: "sum_words (store_bytes (pk_bytes p3) (pk_start p3) hs) (pk_start p3) (pk_length p3) s = s + of_nat (wsum (hs @ pk_view p @ xs))"
    if "length hs = n" for hs s
    using sum_words_view[of "pk_length p3" "p3\<lparr>pk_bytes := store_bytes (pk_bytes p3) (pk_start p3) hs\<rparr>" s] v3[OF that] that
    by (simp add: p3_def p2_def)
  show thesis
  proof (rule that[of "pk_start p + pk_length p" "p\<lparr>pk_length := pk_length p + length xs\<rparr>" "pk_start p3" p3])
    show "rix_net_packet_put p (length xs) = (0, pk_start p + pk_length p, p\<lparr>pk_length := pk_length p + length xs\<rparr>)"
      by (rule put_eq) (use assms in simp_all)
    show "rix_net_packet_push (p\<lparr>pk_length := pk_length p + length xs,
            pk_bytes := store_bytes (pk_bytes (p\<lparr>pk_length := pk_length p + length xs\<rparr>)) (pk_start p + pk_length p) xs\<rparr>) n = (0, pk_start p3, p3)"
      using push_eq[of n p2] assms(2) by (simp add: p3_def) (simp add: p2_def)
    show "pk_start p3 = pk_start p - n" "pk_length p3 = n + pk_length p + length xs" "packet_ok p3"
      using assms by (simp_all add: p3_def p2_def packet_ok_def)
  qed (use v3 s3 in simp_all)
qed

subsection \<open>Layers\<close>

text \<open>
  A layer puts a header before the bytes of a packet and takes it off again: \<open>enc\<close> is its wire format, \<open>hdr\<close> the
  header structure the receiver fills in, \<open>valid\<close> what the sender has to keep.
\<close>

locale layer =
  fixes push :: "'h \<Rightarrow> rix_net_packet \<Rightarrow> rc \<times> rix_net_packet"
    and pull :: "rix_net_packet \<Rightarrow> rc \<times> 'r option \<times> rix_net_packet"
    and enc :: "'h \<Rightarrow> u8 list \<Rightarrow> u8 list"
    and hdr :: "'h \<Rightarrow> u8 list \<Rightarrow> 'r"
    and hlen :: nat
    and valid :: "'h \<Rightarrow> u8 list \<Rightarrow> bool"
  assumes push_enc: "\<lbrakk>packet_ok p; hlen \<le> pk_start p; valid h (pk_view p)\<rbrakk> \<Longrightarrow>
      \<exists>p'. push h p = (0, p') \<and> packet_ok p' \<and> pk_start p' = pk_start p - hlen \<and> pk_view p' = enc h (pk_view p)"
    and pull_enc: "\<lbrakk>packet_ok q; valid h xs; pk_view q = enc h xs\<rbrakk> \<Longrightarrow>
      \<exists>q'. pull q = (0, Some (hdr h xs), q') \<and> packet_ok q' \<and> pk_view q' = xs"
begin

lemma push_pull:
  assumes "packet_ok p" "hlen \<le> pk_start p" "valid h (pk_view p)"
  shows "\<exists>p' q'. push h p = (0, p') \<and> pull p' = (0, Some (hdr h (pk_view p)), q') \<and> pk_view q' = pk_view p"
  using push_enc[OF assms] pull_enc assms(3) by metis

end

text \<open>A framing layer carries bytes that follow the frame along; a trimming layer knows its length and drops them.\<close>

locale framing_layer = layer +
  assumes enc_tail: "enc h (xs @ pad) = enc h xs @ pad"
    and valid_tail: "valid h (xs @ pad) \<longleftrightarrow> valid h xs"

locale trimming_layer = layer +
  assumes pull_trim: "\<lbrakk>packet_ok q; valid h xs; pk_view q = enc h xs @ pad\<rbrakk> \<Longrightarrow>
      \<exists>q'. pull q = (0, Some (hdr h xs), q') \<and> packet_ok q' \<and> pk_view q' = xs"

text \<open>
  A transport puts a payload and its own header into an empty packet; its checksum covers the addresses \<open>'a\<close> of
  the network layer, which the receiver takes from the network header.
\<close>

locale transport =
  fixes tpush :: "'a \<Rightarrow> 't \<Rightarrow> u8 list \<Rightarrow> rix_net_packet \<Rightarrow> rc \<times> rix_net_packet"
    and tpull :: "'a \<Rightarrow> rix_net_packet \<Rightarrow> rc \<times> 's option \<times> rix_net_packet"
    and tenc :: "'a \<Rightarrow> 't \<Rightarrow> u8 list \<Rightarrow> u8 list"
    and thdr :: "'a \<Rightarrow> 't \<Rightarrow> u8 list \<Rightarrow> 's"
    and tlen :: nat
    and tvalid :: "'a \<Rightarrow> 't \<Rightarrow> bool"
  assumes tpush_enc: "\<lbrakk>packet_ok p; pk_length p = 0; tlen \<le> pk_start p; tvalid a t;
        pk_start p + tlen + length xs \<le> RIX_NET_FRAME_CAPACITY; length xs \<le> RIX_NET_MTU - tlen\<rbrakk> \<Longrightarrow>
      \<exists>p'. tpush a t xs p = (0, p') \<and> packet_ok p' \<and> pk_start p' = pk_start p - tlen \<and> pk_view p' = tenc a t xs"
    and tpull_enc: "\<lbrakk>packet_ok q; tvalid a t; pk_view q = tenc a t xs\<rbrakk> \<Longrightarrow>
      \<exists>q'. tpull a q = (0, Some (thdr a t xs), q') \<and> packet_ok q' \<and> pk_view q' = xs"

text \<open>A frame that carries a network packet that carries a transport payload.\<close>

locale encapsulation =
  framing_layer fpush fpull fenc fhdr flen fvalid +
  net: trimming_layer npush npull nenc nhdr nlen nvalid +
  transport tpush tpull tenc thdr tlen tvalid
  for fpush :: "'f \<Rightarrow> rix_net_packet \<Rightarrow> rc \<times> rix_net_packet"
    and fpull :: "rix_net_packet \<Rightarrow> rc \<times> 'fr option \<times> rix_net_packet"
    and fenc fhdr flen fvalid
    and npush :: "'n \<Rightarrow> rix_net_packet \<Rightarrow> rc \<times> rix_net_packet"
    and npull :: "rix_net_packet \<Rightarrow> rc \<times> 'nr option \<times> rix_net_packet"
    and nenc nhdr nlen nvalid
    and tpush :: "'a \<Rightarrow> 't \<Rightarrow> u8 list \<Rightarrow> rix_net_packet \<Rightarrow> rc \<times> rix_net_packet"
    and tpull :: "'a \<Rightarrow> rix_net_packet \<Rightarrow> rc \<times> 's option \<times> rix_net_packet"
    and tenc thdr tlen tvalid
begin

lemma delivered:
  assumes headroom: "flen + nlen + tlen \<le> RIX_NET_HEADROOM" and room: "length xs \<le> RIX_NET_MTU - tlen"
    and t: "tvalid a t" and n: "nvalid n (tenc a t xs)" and f: "fvalid f (nenc n (tenc a t xs))"
  obtains p1 p2 p3 where "tpush a t xs (rix_net_packet_init p) = (0, p1)" "npush n p1 = (0, p2)" "fpush f p2 = (0, p3)" "packet_ok p3"
    "\<And>q pad. \<lbrakk>packet_ok q; pk_view q = pk_view p3 @ pad\<rbrakk> \<Longrightarrow>
       \<exists>q1 q2 q3. fpull q = (0, Some (fhdr f (nenc n (tenc a t xs) @ pad)), q1) \<and>
         npull q1 = (0, Some (nhdr n (tenc a t xs)), q2) \<and> tpull a q2 = (0, Some (thdr a t xs), q3) \<and> pk_view q3 = xs"
proof -
  define p0 where "p0 = rix_net_packet_init p"
  have p0: "packet_ok p0" "pk_start p0 = 64" "pk_length p0 = 0"
    by (simp_all add: p0_def packet_ok_init) (simp_all add: rix_net_packet_init_def)
  have sp: "tlen + length xs \<le> 1516" using room headroom by simp
  have hr: "nlen \<le> 64 - tlen" "flen \<le> 64 - tlen - nlen" using headroom by simp_all
  obtain p1 where p1: "tpush a t xs p0 = (0, p1)" "packet_ok p1" "pk_start p1 = 64 - tlen" "pk_view p1 = tenc a t xs"
    using tpush_enc[of p0 a t xs] p0 headroom room sp t by auto
  obtain p2 where p2: "npush n p1 = (0, p2)" "packet_ok p2" "pk_start p2 = 64 - tlen - nlen" "pk_view p2 = nenc n (tenc a t xs)"
    using net.push_enc[of p1 n] p1 hr n by auto
  obtain p3 where p3: "fpush f p2 = (0, p3)" "packet_ok p3" "pk_view p3 = fenc f (nenc n (tenc a t xs))"
    using push_enc[of p2 f] p2 hr f by auto
  have "\<exists>q1 q2 q3. fpull q = (0, Some (fhdr f (nenc n (tenc a t xs) @ pad)), q1) \<and>
          npull q1 = (0, Some (nhdr n (tenc a t xs)), q2) \<and> tpull a q2 = (0, Some (thdr a t xs), q3) \<and> pk_view q3 = xs"
    if q: "packet_ok q" "pk_view q = pk_view p3 @ pad" for q pad
  proof -
    have e: "pk_view q = fenc f (nenc n (tenc a t xs) @ pad)" using q(2) p3(3) by (simp add: enc_tail)
    have fv: "fvalid f (nenc n (tenc a t xs) @ pad)" using f by (simp add: valid_tail)
    obtain q1 where q1: "fpull q = (0, Some (fhdr f (nenc n (tenc a t xs) @ pad)), q1)" "packet_ok q1"
        "pk_view q1 = nenc n (tenc a t xs) @ pad"
      using pull_enc[OF q(1) fv e] by blast
    obtain q2 where q2: "npull q1 = (0, Some (nhdr n (tenc a t xs)), q2)" "packet_ok q2" "pk_view q2 = tenc a t xs"
      using net.pull_trim[OF q1(2) n q1(3)] by blast
    obtain q3 where "tpull a q2 = (0, Some (thdr a t xs), q3)" "pk_view q3 = xs"
      using tpull_enc[OF q2(2) t q2(3)] by blast
    then show ?thesis using q1(1) q2(1) by auto
  qed
  then show thesis using that p1(1) p2(1) p3(1,2) unfolding p0_def by blast
qed

end

subsection \<open>Ethernet is a framing layer\<close>

lemma length6: "length m = 6 \<Longrightarrow> \<exists>a b c d e f. m = [a, b, c, d, e, f]"
  by (auto simp: numeral_eq_Suc length_Suc_conv)

lemma map_nth6 [simp]: "length m = 6 \<Longrightarrow> map ((!) m) [0..<6] = m"
  using map_nth[of m] by simp

definition eth_enc :: "mac \<times> mac \<times> u16 \<Rightarrow> u8 list \<Rightarrow> u8 list" where
  "eth_enc = (\<lambda>(destination, source, ethertype) xs. destination @ source @ bytes16 ethertype @ xs)"

definition eth_hdr :: "mac \<times> mac \<times> u16 \<Rightarrow> u8 list \<Rightarrow> rix_net_eth_header" where
  "eth_hdr = (\<lambda>(destination, source, ethertype) xs.
     \<lparr>eth_destination = destination, eth_source = source, eth_type = ethertype\<rparr>)"

definition eth_valid :: "mac \<times> mac \<times> u16 \<Rightarrow> u8 list \<Rightarrow> bool" where
  "eth_valid = (\<lambda>(destination, source, ethertype) xs.
     length destination = 6 \<and> length source = 6 \<and> rix_net_ethertype_supported ethertype)"

definition eth_push' :: "mac \<times> mac \<times> u16 \<Rightarrow> rix_net_packet \<Rightarrow> rc \<times> rix_net_packet" where
  "eth_push' = (\<lambda>(destination, source, ethertype) p. rix_net_eth_push p destination source ethertype)"

lemma eth_push_view:
  assumes "packet_ok p" "14 \<le> pk_start p" "length d = 6" "length s = 6" "rix_net_ethertype_supported t"
  shows "\<exists>p'. rix_net_eth_push p d s t = (0, p') \<and> packet_ok p' \<and> pk_start p' = pk_start p - 14 \<and>
           pk_view p' = d @ s @ bytes16 t @ pk_view p"
proof -
  let ?p1 = "p\<lparr>pk_start := pk_start p - 14, pk_length := pk_length p + 14\<rparr>"
  let ?p' = "?p1\<lparr>pk_bytes := store_bytes (pk_bytes p) (pk_start p - 14) (d @ s @ bytes16 t)\<rparr>"
  have "rix_net_eth_push p d s t = (0, ?p')"
    using assms by (simp add: rix_net_eth_push_def push_eq copy_mac_def store16_be16 store_bytes_extend Let_def)
  moreover have "pk_view ?p' = (d @ s @ bytes16 t) @ pk_view p"
    by (rule push_view) (use assms in simp_all)
  moreover have "packet_ok ?p'" using assms by (simp add: packet_ok_def)
  ultimately show ?thesis by auto
qed

lemma pk_bytes_nth: "\<lbrakk>pk_view q = ys; i < length ys\<rbrakk> \<Longrightarrow> pk_bytes q (pk_start q + i) = ys ! i"
  using pk_view_nth[of i q] length_pk_view[of q] by simp

lemma pk_prefix_nth: "\<lbrakk>pk_view q = hs @ ys; i < length hs\<rbrakk> \<Longrightarrow> pk_bytes q (pk_start q + i) = hs ! i"
  using pk_bytes_nth[of q "hs @ ys" i] by (simp add: nth_append)

text \<open>Fields of a header at the start of a packet.\<close>

lemma header_get16:
  "\<lbrakk>pk_view q = hs @ ys; j + 1 < length hs\<rbrakk> \<Longrightarrow> get_be16 (pk_bytes q) (pk_start q + j) = word16 (hs ! j) (hs ! (j + 1))"
  using pk_prefix_nth[of q hs ys j] pk_prefix_nth[of q hs ys "j + 1"] by (simp add: get_be16_word)

lemma header_get32:
  "\<lbrakk>pk_view q = hs @ ys; j + 3 < length hs\<rbrakk> \<Longrightarrow>
     get_be32 (pk_bytes q) (pk_start q + j) = word32 (hs ! j) (hs ! (j + 1)) (hs ! (j + 2)) (hs ! (j + 3))"
  using pk_prefix_nth[of q hs ys j] pk_prefix_nth[of q hs ys "j + 1"] pk_prefix_nth[of q hs ys "j + 2"]
    pk_prefix_nth[of q hs ys "j + 3"]
  by (simp add: get_be32_word ac_simps)

lemma eth_pull_view:
  assumes "packet_ok q" "pk_view q = d @ s @ bytes16 t @ xs" "length d = 6" "length s = 6"
  shows "\<exists>q'. rix_net_eth_pull q = (if rix_net_ethertype_supported t then 0 else -2,
             Some \<lparr>eth_destination = d, eth_source = s, eth_type = t\<rparr>, q') \<and> packet_ok q' \<and> pk_view q' = xs"
proof -
  let ?q' = "q\<lparr>pk_start := pk_start q + 14, pk_length := pk_length q - 14\<rparr>"
  have len: "pk_length q = 14 + length xs" using assms(2-4) length_pk_view[of q] by simp
  have b: "pk_bytes q (pk_start q + i) = (d @ s @ bytes16 t @ xs) ! i" if "i < 14" for i
    using pk_bytes_nth[OF assms(2)] assms(3,4) that by simp
  have d: "map (\<lambda>i. pk_bytes q (pk_start q + i)) [0..<6] = d"
    by (rule nth_equalityI) (use b assms in \<open>auto simp: nth_append\<close>)
  have s: "map (\<lambda>i. pk_bytes q (pk_start q + 6 + i)) [0..<6] = s"
    by (rule nth_equalityI) (use b[of "6 + i" for i] assms in \<open>auto simp: nth_append ac_simps\<close>)
  have t: "be16 (load16 (pk_bytes q) (pk_start q + 12)) = t"
    using b[of 12] b[of 13] assms(3,4) by (simp add: be16_load16 bytes16_def nth_append ac_simps)
  have "pk_view ?q' = xs" using pull_view[of 14 "pk_length q - 14" q] len assms by simp
  moreover have "packet_ok ?q'" using assms(1) len by (simp add: packet_ok_def)
  ultimately show ?thesis
    using len d s t by (simp add: rix_net_eth_pull_def pull_eq rix_net_packet_length_def Let_def)
qed

interpretation eth: framing_layer eth_push' rix_net_eth_pull eth_enc eth_hdr 14 eth_valid
proof unfold_locales
  fix p h
  assume "packet_ok p" "14 \<le> pk_start p" "eth_valid h (pk_view p)"
  then show "\<exists>p'. eth_push' h p = (0, p') \<and> packet_ok p' \<and> pk_start p' = pk_start p - 14 \<and> pk_view p' = eth_enc h (pk_view p)"
    using eth_push_view by (auto simp: eth_push'_def eth_valid_def eth_enc_def split: prod.splits)
next
  fix q h xs
  assume "packet_ok q" "eth_valid h xs" "pk_view q = eth_enc h xs"
  then show "\<exists>q'. rix_net_eth_pull q = (0, Some (eth_hdr h xs), q') \<and> packet_ok q' \<and> pk_view q' = xs"
    using eth_pull_view[of q "fst h" "fst (snd h)" "snd (snd h)" xs]
    by (auto simp: eth_valid_def eth_enc_def eth_hdr_def split: prod.splits)
qed (auto simp: eth_enc_def eth_valid_def split: prod.splits)

end
