(* ===== verification/Ipv4.thy ===== *)
theory Ipv4
  imports Net_Layers
begin

text \<open>
  IPv4 and ICMP echo: \<^verbatim>\<open>kernel/net/ipv4.c\<close>.  The wire structures are written field by field at their offsets,
  through the byte swaps of the source and the stores of a little-endian machine; the receiver's header
  structure is passed in, since \<open>rix_net_ipv4_pull\<close> leaves one of its fields alone.
\<close>

subsection \<open>Model\<close>

definition RIX_NET_IP_PROTO_ICMP :: u8 where "RIX_NET_IP_PROTO_ICMP = 1"
definition RIX_NET_IP_PROTO_TCP :: u8 where "RIX_NET_IP_PROTO_TCP = 6"
definition RIX_NET_IP_PROTO_UDP :: u8 where "RIX_NET_IP_PROTO_UDP = 17"

record rix_net_ipv4_header =
  ip_source :: u32
  ip_destination :: u32
  ip_protocol :: u8
  ip_ttl :: u8
  ip_identification :: u16
  ip_flags_fragment :: u16
  ip_total_length :: u16

definition rix_net_ipv4_push :: "rix_net_packet \<Rightarrow> u32 \<Rightarrow> u32 \<Rightarrow> u8 \<Rightarrow> u8 \<Rightarrow> u16 \<Rightarrow> u16 \<Rightarrow> rc \<times> rix_net_packet" where
  "rix_net_ipv4_push p source destination protocol ttl identification flags_fragment =
     (if ttl = 0 \<or> rix_net_packet_length p > 65515 then (-1, p)
      else case rix_net_packet_push p 20 of
        (rc, w, p1) \<Rightarrow>
          if rc \<noteq> 0 then (-1, p1)
          else let b = (pk_bytes p1)(w := 0x45);
                   b = b(w + 1 := 0);
                   b = store16 b (w + 2) (be16 (of_nat (rix_net_packet_length p1)));
                   b = store16 b (w + 4) (be16 identification);
                   b = store16 b (w + 6) (be16 flags_fragment);
                   b = b(w + 8 := ttl);
                   b = b(w + 9 := protocol);
                   b = store16 b (w + 10) 0;
                   b = store32 b (w + 12) (be32 source);
                   b = store32 b (w + 16) (be32 destination);
                   b = store16 b (w + 10) (be16 (rix_net_checksum b w 20))
               in (0, p1\<lparr>pk_bytes := b\<rparr>))"

definition rix_net_ipv4_pull :: "rix_net_packet \<Rightarrow> rix_net_ipv4_header \<Rightarrow> rc \<times> rix_net_ipv4_header \<times> rix_net_packet" where
  "rix_net_ipv4_pull p header =
     (if rix_net_packet_length p < 20 then (-1, header, p)
      else if drop_bit 4 (pk_at p 0) \<noteq> 4 \<or> pk_at p 0 AND 0xf \<noteq> 5 then (-1, header, p)
      else if rix_net_checksum (pk_bytes p) (pk_start p) 20 \<noteq> 0 then (-2, header, p)
      else let total = unat (get_be16 (pk_bytes p) (pk_start p + 2)) in
        if total < 20 \<or> total > rix_net_packet_length p then (-3, header, p)
        else case rix_net_packet_pull p 20 of
          (rc, w, p1) \<Rightarrow>
            if rc \<noteq> 0 then (-1, header, p1)
            else let p2 = p1\<lparr>pk_length := total - 20\<rparr>; b = pk_bytes p2
                 in (0, header\<lparr>ip_identification := be16 (load16 b (w + 4)),
                               ip_flags_fragment := be16 (load16 b (w + 6)),
                               ip_source := be32 (load32 b (w + 12)),
                               ip_destination := be32 (load32 b (w + 16)),
                               ip_protocol := b (w + 9), ip_ttl := b (w + 8)\<rparr>, p2))"

definition RIX_NET_ICMP_ECHO_REQUEST :: u8 where "RIX_NET_ICMP_ECHO_REQUEST = 8"
definition RIX_NET_ICMP_ECHO_REPLY :: u8 where "RIX_NET_ICMP_ECHO_REPLY = 0"

record rix_net_icmp_echo =
  echo_type :: u8
  echo_code :: u8
  echo_identifier :: u16
  echo_sequence :: u16

definition rix_net_icmp_echo_push :: "rix_net_packet \<Rightarrow> u8 \<Rightarrow> u16 \<Rightarrow> u16 \<Rightarrow> u8 list \<Rightarrow> rc \<times> rix_net_packet" where
  "rix_net_icmp_echo_push p type identifier sequence payload =
     (if length payload > 65527 then (-1, p)
      else case rix_net_packet_put p (length payload) of
        (rc, body, p1) \<Rightarrow>
          if rc \<noteq> 0 then (-1, p1)
          else let p2 = p1\<lparr>pk_bytes := store_bytes (pk_bytes p1) body payload\<rparr> in
            case rix_net_packet_push p2 8 of
              (rc, w, p3) \<Rightarrow>
                if rc \<noteq> 0 then (-1, p3)
                else let b = (pk_bytes p3)(w := type);
                         b = b(w + 1 := 0);
                         b = store16 b (w + 2) 0;
                         b = store16 b (w + 4) (be16 identifier);
                         b = store16 b (w + 6) (be16 sequence);
                         b = store16 b (w + 2) (be16 (rix_net_checksum b (pk_start p3) (rix_net_packet_length p3)))
                     in (0, p3\<lparr>pk_bytes := b\<rparr>))"

definition rix_net_icmp_echo_pull :: "rix_net_packet \<Rightarrow> rc \<times> rix_net_icmp_echo option \<times> rix_net_packet" where
  "rix_net_icmp_echo_pull p =
     (if rix_net_packet_length p < 8 then (-1, None, p)
      else if rix_net_checksum (pk_bytes p) (pk_start p) (rix_net_packet_length p) \<noteq> 0 then (-2, None, p)
      else let b = pk_bytes p; w = pk_start p;
               echo = \<lparr>echo_type = b w, echo_code = b (w + 1),
                       echo_identifier = be16 (load16 b (w + 4)), echo_sequence = be16 (load16 b (w + 6))\<rparr>
           in case rix_net_packet_pull p 8 of (rc, _, p1) \<Rightarrow> (rc, Some echo, p1))"

subsection \<open>The wire formats\<close>

definition ipv4_bytes :: "u16 \<Rightarrow> u32 \<Rightarrow> u32 \<Rightarrow> u8 \<Rightarrow> u8 \<Rightarrow> u16 \<Rightarrow> u16 \<Rightarrow> u16 \<Rightarrow> u8 list" where
  "ipv4_bytes len source destination protocol ttl identification flags_fragment checksum =
     ([0x45, 0] @ bytes16 len @ bytes16 identification @ bytes16 flags_fragment @ [ttl, protocol]) @ bytes16 checksum @
     (bytes32 source @ bytes32 destination)"

lemma length_ipv4_bytes [simp]: "length (ipv4_bytes l s d pr t i f c) = 20"
  by (simp add: ipv4_bytes_def)

definition ipv4_checksum :: "u16 \<Rightarrow> u32 \<Rightarrow> u32 \<Rightarrow> u8 \<Rightarrow> u8 \<Rightarrow> u16 \<Rightarrow> u16 \<Rightarrow> u16" where
  "ipv4_checksum l s d pr t i f = rix_net_checksum_add (of_nat (wsum (ipv4_bytes l s d pr t i f 0)))"

definition ipv4_header_bytes :: "u16 \<Rightarrow> u32 \<Rightarrow> u32 \<Rightarrow> u8 \<Rightarrow> u8 \<Rightarrow> u16 \<Rightarrow> u16 \<Rightarrow> u8 list" where
  "ipv4_header_bytes l s d pr t i f = ipv4_bytes l s d pr t i f (ipv4_checksum l s d pr t i f)"

lemma ipv4_stores:
  "store32 (store32 (store16 ((store16 (store16 (store16 (b(w := 0x45, w + 1 := 0)) (w + 2) (be16 l))
       (w + 4) (be16 i)) (w + 6) (be16 f))(w + 8 := t, w + 9 := pr)) (w + 10) 0) (w + 12) (be32 s)) (w + 16) (be32 d)
     = store_bytes b w (ipv4_bytes l s d pr t i f 0)"
  unfolding stores by (simp add: store_bytes_extend ipv4_bytes_def)

lemma ipv4_push_view:
  assumes "packet_ok p" "20 \<le> pk_start p" "t \<noteq> 0"
  shows "\<exists>p'. rix_net_ipv4_push p s d pr t i f = (0, p') \<and> packet_ok p' \<and> pk_start p' = pk_start p - 20 \<and>
           pk_view p' = ipv4_header_bytes (of_nat (pk_length p + 20)) s d pr t i f @ pk_view p"
proof -
  define l :: u16 where "l = of_nat (pk_length p + 20)"
  define h where "h = ipv4_header_bytes l s d pr t i f"
  define w where "w = pk_start p - 20"
  define p1 where "p1 = p\<lparr>pk_start := w, pk_length := pk_length p + 20\<rparr>"
  have push: "rix_net_packet_push p 20 = (0, w, p1)" using push_eq[OF assms(2)] by (simp add: w_def p1_def)
  have l: "of_nat (rix_net_packet_length p1) = l" by (simp add: rix_net_packet_length_def p1_def l_def)
  have c: "rix_net_checksum (store_bytes (pk_bytes p1) w (ipv4_bytes l s d pr t i f 0)) w 20 = ipv4_checksum l s d pr t i f"
    by (simp add: rix_net_checksum_def sum_words_eq ipv4_checksum_def)
  have o: "store16 (store_bytes (pk_bytes p1) w (ipv4_bytes l s d pr t i f 0)) (w + 10) (be16 (ipv4_checksum l s d pr t i f))
     = store_bytes (pk_bytes p1) w h"
    unfolding store16_be16 ipv4_bytes_def h_def ipv4_header_bytes_def by (rule store_bytes_over) simp_all
  have "rix_net_ipv4_push p s d pr t i f = (0, p1\<lparr>pk_bytes := store_bytes (pk_bytes p1) w h\<rparr>)"
    unfolding rix_net_ipv4_push_def push prod.case Let_def l ipv4_stores c o
    using assms by (simp add: packet_ok_def rix_net_packet_length_def)
  moreover have "pk_view (p1\<lparr>pk_bytes := store_bytes (pk_bytes p1) w h\<rparr>) = h @ pk_view p"
    using push_view[of 20 p h] assms by (simp add: p1_def w_def h_def ipv4_header_bytes_def)
  moreover have "packet_ok (p1\<lparr>pk_bytes := store_bytes (pk_bytes p1) w h\<rparr>)" using assms by (simp add: packet_ok_def p1_def w_def)
  ultimately show ?thesis by (auto simp: p1_def w_def h_def l_def)
qed

lemma ipv4_header_sum_ok: "sum_ok (wsum (ipv4_header_bytes l s d pr t i f))"
  using checksum_inserted[of 0 "[0x45, 0] @ bytes16 l @ bytes16 i @ bytes16 f @ [t, pr]" "bytes32 s @ bytes32 d" "ipv4_checksum l s d pr t i f"]
    wsum_short[of "ipv4_bytes l s d pr t i f 0"]
  by (simp add: ipv4_header_bytes_def ipv4_bytes_def ipv4_checksum_def bytes16_0)

lemma ipv4_checksum_accepts:
  assumes "20 \<le> pk_length q"
  shows "rix_net_checksum (pk_bytes q) (pk_start q) 20 = 0 \<longleftrightarrow> sum_ok (wsum (take 20 (pk_view q)))"
  using checksum_verifies[of 0 "take 20 (pk_view q)"] wsum_short[of "take 20 (pk_view q)"] assms
  by (simp add: rix_net_checksum_def sum_words_view)

lemma ipv4_pull_view:
  assumes "packet_ok q" "pk_view q = ipv4_header_bytes (of_nat (length xs + 20)) s d pr t i f @ xs @ pad"
  shows "\<exists>q'. rix_net_ipv4_pull q h0 = (0, h0\<lparr>ip_source := s, ip_destination := d, ip_protocol := pr, ip_ttl := t,
             ip_identification := i, ip_flags_fragment := f\<rparr>, q') \<and> packet_ok q' \<and> pk_view q' = xs"
proof -
  define l :: u16 where "l = of_nat (length xs + 20)"
  define st where "st = pk_start q"
  define b where "b = pk_bytes q"
  have v: "pk_view q = ipv4_header_bytes l s d pr t i f @ xs @ pad" using assms(2) by (simp add: l_def)
  have len: "pk_length q = 20 + length xs + length pad" using length_pk_view[of q] v by (simp add: ipv4_header_bytes_def)
  then have small: "length xs + 20 < 2 ^ LENGTH(16)" using assms(1) by (simp add: packet_ok_def)
  have l: "unat l = length xs + 20" unfolding l_def by (rule unat_of_nat_small) (rule small)
  have at: "b (st + k) = ipv4_header_bytes l s d pr t i f ! k" if "k < 20" for k
    using pk_prefix_nth[OF v] that by (simp add: ipv4_header_bytes_def st_def b_def)
  note hb = ipv4_header_bytes_def ipv4_bytes_def bytes16_def bytes32_def
  have b0: "pk_at q 0 = 0x45" using at[of 0] by (simp add: pk_at_def st_def b_def hb)
  have tot: "get_be16 b (st + 2) = l" using at[of 2] at[of 3] by (simp add: get_be16_word hb numeral_3_eq_3)
  have f46: "be16 (load16 b (st + 4)) = i" "be16 (load16 b (st + 6)) = f"
    using at[of 4] at[of 5] at[of 6] at[of 7] by (simp_all add: be16_load16 hb ac_simps)
  have f12: "be32 (load32 b (st + 12)) = s" "be32 (load32 b (st + 16)) = d"
    using at[of 12] at[of 13] at[of 14] at[of 15] at[of 16] at[of 17] at[of 18] at[of 19] by (simp_all add: be32_load32 hb ac_simps)
  have f89: "b (st + 8) = t" "b (st + 9) = pr" using at[of 8] at[of 9] by (simp_all add: hb)
  have ck: "rix_net_checksum b st 20 = 0"
    using ipv4_checksum_accepts[of q] len ipv4_header_sum_ok[of l s d pr t i f] v by (simp add: st_def b_def ipv4_header_bytes_def)
  let ?q' = "q\<lparr>pk_start := pk_start q + 20, pk_length := length xs\<rparr>"
  have "pk_view ?q' = xs" using pull_view[of 20 "length xs" q] len v by (simp add: ipv4_header_bytes_def)
  moreover have "packet_ok ?q'" using assms(1) len by (simp add: packet_ok_def)
  moreover have "rix_net_ipv4_pull q h0 = (0, h0\<lparr>ip_source := s, ip_destination := d, ip_protocol := pr, ip_ttl := t,
       ip_identification := i, ip_flags_fragment := f\<rparr>, ?q')"
    using b0 tot f46 f12 f89 ck l len
    by (simp add: rix_net_ipv4_pull_def pull_eq rix_net_packet_length_def Let_def st_def[symmetric] b_def[symmetric])
  ultimately show ?thesis by blast
qed

definition ipv4_push' :: "u32 \<times> u32 \<times> u8 \<times> u8 \<times> u16 \<times> u16 \<Rightarrow> rix_net_packet \<Rightarrow> rc \<times> rix_net_packet" where
  "ipv4_push' = (\<lambda>(s, d, pr, t, i, f) p. rix_net_ipv4_push p s d pr t i f)"

definition ipv4_pull' :: "rix_net_ipv4_header \<Rightarrow> rix_net_packet \<Rightarrow> rc \<times> rix_net_ipv4_header option \<times> rix_net_packet" where
  "ipv4_pull' h0 p = (case rix_net_ipv4_pull p h0 of (rc, h, p1) \<Rightarrow> (rc, Some h, p1))"

definition ipv4_enc :: "u32 \<times> u32 \<times> u8 \<times> u8 \<times> u16 \<times> u16 \<Rightarrow> u8 list \<Rightarrow> u8 list" where
  "ipv4_enc = (\<lambda>(s, d, pr, t, i, f) xs. ipv4_header_bytes (of_nat (length xs + 20)) s d pr t i f @ xs)"

definition ipv4_hdr :: "rix_net_ipv4_header \<Rightarrow> u32 \<times> u32 \<times> u8 \<times> u8 \<times> u16 \<times> u16 \<Rightarrow> u8 list \<Rightarrow> rix_net_ipv4_header" where
  "ipv4_hdr h0 = (\<lambda>(s, d, pr, t, i, f) xs. h0\<lparr>ip_source := s, ip_destination := d, ip_protocol := pr, ip_ttl := t,
             ip_identification := i, ip_flags_fragment := f\<rparr>)"

definition ipv4_valid :: "u32 \<times> u32 \<times> u8 \<times> u8 \<times> u16 \<times> u16 \<Rightarrow> u8 list \<Rightarrow> bool" where
  "ipv4_valid = (\<lambda>(s, d, pr, t, i, f) xs. t \<noteq> 0)"

lemma ipv4_pull'_enc:
  assumes "packet_ok q" "pk_view q = ipv4_enc h xs @ pad"
  shows "\<exists>q'. ipv4_pull' h0 q = (0, Some (ipv4_hdr h0 h xs), q') \<and> packet_ok q' \<and> pk_view q' = xs"
proof -
  obtain s d pr t i f where h: "h = (s, d, pr, t, i, f)" by (rule prod_cases6)
  show ?thesis
    using ipv4_pull_view[OF assms(1), of xs s d pr t i f pad h0] assms(2)
    by (auto simp: h ipv4_enc_def ipv4_pull'_def ipv4_hdr_def)
qed

interpretation ip4: trimming_layer ipv4_push' "ipv4_pull' h0" ipv4_enc "ipv4_hdr h0" 20 ipv4_valid for h0
proof unfold_locales
  fix p h
  assume a: "packet_ok p" "20 \<le> pk_start p" "ipv4_valid h (pk_view p)"
  obtain s d pr t i f where h: "h = (s, d, pr, t, i, f)" by (rule prod_cases6)
  show "\<exists>p'. ipv4_push' h p = (0, p') \<and> packet_ok p' \<and> pk_start p' = pk_start p - 20 \<and> pk_view p' = ipv4_enc h (pk_view p)"
    using ipv4_push_view[OF a(1,2), of t s d pr i f] a(3) by (simp add: h ipv4_push'_def ipv4_valid_def ipv4_enc_def)
next
  fix q h xs
  assume "packet_ok q" "ipv4_valid h xs" "pk_view q = ipv4_enc h xs"
  then show "\<exists>q'. ipv4_pull' h0 q = (0, Some (ipv4_hdr h0 h xs), q') \<and> packet_ok q' \<and> pk_view q' = xs"
    using ipv4_pull'_enc[of q h xs "[]"] by simp
next
  fix q h xs pad
  assume "packet_ok q" "ipv4_valid h xs" "pk_view q = ipv4_enc h xs @ pad"
  then show "\<exists>q'. ipv4_pull' h0 q = (0, Some (ipv4_hdr h0 h xs), q') \<and> packet_ok q' \<and> pk_view q' = xs"
    using ipv4_pull'_enc by blast
qed

subsection \<open>ICMP echo is a transport\<close>

definition icmp_bytes :: "u8 \<Rightarrow> u16 \<Rightarrow> u16 \<Rightarrow> u16 \<Rightarrow> u8 list" where
  "icmp_bytes ty ident sq checksum = [ty, 0] @ bytes16 checksum @ bytes16 ident @ bytes16 sq"

lemma length_icmp_bytes [simp]: "length (icmp_bytes ty ident sq c) = 8"
  by (simp add: icmp_bytes_def)

definition icmp_enc :: "unit \<Rightarrow> u8 \<times> u16 \<times> u16 \<Rightarrow> u8 list \<Rightarrow> u8 list" where
  "icmp_enc = (\<lambda>_ (ty, ident, sq) xs.
     icmp_bytes ty ident sq (rix_net_checksum_add (of_nat (wsum (icmp_bytes ty ident sq 0 @ xs)))) @ xs)"

definition icmp_hdr :: "unit \<Rightarrow> u8 \<times> u16 \<times> u16 \<Rightarrow> u8 list \<Rightarrow> rix_net_icmp_echo" where
  "icmp_hdr = (\<lambda>_ (ty, ident, sq) xs.
     \<lparr>echo_type = ty, echo_code = 0, echo_identifier = ident, echo_sequence = sq\<rparr>)"

definition icmp_push' :: "unit \<Rightarrow> u8 \<times> u16 \<times> u16 \<Rightarrow> u8 list \<Rightarrow> rix_net_packet \<Rightarrow> rc \<times> rix_net_packet" where
  "icmp_push' = (\<lambda>_ (ty, ident, sq) xs p. rix_net_icmp_echo_push p ty ident sq xs)"

lemma icmp_stores:
  "store16 (store16 (store16 (b(w := ty, w + 1 := 0)) (w + 2) 0) (w + 4) (be16 ident)) (w + 6) (be16 sq)
     = store_bytes b w (icmp_bytes ty ident sq 0)"
  unfolding stores by (simp add: store_bytes_extend icmp_bytes_def)

lemma icmp_push_view:
  assumes "packet_ok p" "8 \<le> pk_start p" "pk_start p + pk_length p + length xs \<le> RIX_NET_FRAME_CAPACITY"
  shows "\<exists>p'. rix_net_icmp_echo_push p ty ident sq xs = (0, p') \<and> packet_ok p' \<and> pk_start p' = pk_start p - 8 \<and>
           pk_view p' = icmp_enc () (ty, ident, sq) (pk_view p @ xs)"
proof -
  obtain body p1 w p3 where a: "rix_net_packet_put p (length xs) = (0, body, p1)"
    "rix_net_packet_push (p1\<lparr>pk_bytes := store_bytes (pk_bytes p1) body xs\<rparr>) 8 = (0, w, p3)"
    "pk_start p3 = w" "w = pk_start p - 8" "packet_ok p3"
    "\<And>hs. length hs = 8 \<Longrightarrow> pk_view (p3\<lparr>pk_bytes := store_bytes (pk_bytes p3) w hs\<rparr>) = hs @ pk_view p @ xs"
    "\<And>hs s. length hs = 8 \<Longrightarrow> sum_words (store_bytes (pk_bytes p3) w hs) w (pk_length p3) s = s + of_nat (wsum (hs @ pk_view p @ xs))"
    by (rule put_push[OF assms]) blast
  define c where "c = rix_net_checksum_add (of_nat (wsum (icmp_bytes ty ident sq 0 @ pk_view p @ xs)))"
  have c: "rix_net_checksum (store_bytes (pk_bytes p3) w (icmp_bytes ty ident sq 0)) w (pk_length p3) = c"
    by (simp add: rix_net_checksum_def a(7) c_def)
  have o: "store16 (store_bytes (pk_bytes p3) w (icmp_bytes ty ident sq 0)) (w + 2) (be16 c) = store_bytes (pk_bytes p3) w (icmp_bytes ty ident sq c)"
    unfolding store16_be16 icmp_bytes_def by (rule store_bytes_over) simp_all
  have "rix_net_icmp_echo_push p ty ident sq xs = (0, p3\<lparr>pk_bytes := store_bytes (pk_bytes p3) w (icmp_bytes ty ident sq c)\<rparr>)"
    unfolding rix_net_icmp_echo_push_def a(1,2,3) prod.case Let_def icmp_stores rix_net_packet_length_def c o
    using assms(3) by simp
  moreover have "packet_ok (p3\<lparr>pk_bytes := store_bytes (pk_bytes p3) w (icmp_bytes ty ident sq c)\<rparr>)"
    using a(5) by (simp add: packet_ok_def)
  ultimately show ?thesis using a(3,4) a(6) by (simp add: icmp_enc_def c_def)
qed

lemma icmp_enc_sum_ok:
  assumes "length xs \<le> 1580"
  shows "sum_ok (wsum (icmp_enc a t xs))"
proof -
  obtain ty ident sq where t: "t = (ty, ident, sq)" by (rule prod_cases3)
  show ?thesis
    using checksum_inserted[of 0 "[ty, 0]" "bytes16 ident @ bytes16 sq @ xs" "rix_net_checksum_add (of_nat (wsum (icmp_bytes ty ident sq 0 @ xs)))"]
      wsum_short[of "icmp_bytes ty ident sq 0 @ xs"] assms
    by (simp add: icmp_enc_def t icmp_bytes_def bytes16_0)
qed

lemma icmp_pull_view:
  assumes "packet_ok q" "pk_view q = icmp_enc () t xs"
  shows "\<exists>q'. rix_net_icmp_echo_pull q = (0, Some (icmp_hdr () t xs), q') \<and> packet_ok q' \<and> pk_view q' = xs"
proof -
  obtain ty ident sq where t: "t = (ty, ident, sq)" by (rule prod_cases3)
  define c where "c = rix_net_checksum_add (of_nat (wsum (icmp_bytes ty ident sq 0 @ xs)))"
  have v: "pk_view q = icmp_bytes ty ident sq c @ xs" using assms(2) by (simp add: t icmp_enc_def c_def)
  have len: "pk_length q = 8 + length xs" using length_pk_view[of q] v by simp
  then have small: "length xs \<le> 1580" "pk_length q \<le> 1580" using assms(1) by (simp_all add: packet_ok_def)
  define st where "st = pk_start q"
  define b where "b = pk_bytes q"
  have at: "b (st + k) = icmp_bytes ty ident sq c ! k" if "k < 8" for k
    using pk_prefix_nth[OF v] that by (simp add: st_def b_def)
  have f: "b st = ty" "b (st + 1) = 0" "be16 (load16 b (st + 4)) = ident" "be16 (load16 b (st + 6)) = sq"
    using at[of 0] at[of 1] at[of 4] at[of 5] at[of 6] at[of 7] by (simp_all add: be16_load16 icmp_bytes_def bytes16_def ac_simps)
  have "rix_net_checksum b st (pk_length q) = 0 \<longleftrightarrow> sum_ok (wsum (pk_view q))"
    using checksum_verifies[of 0 "pk_view q"] wsum_short[of "pk_view q"] small
    by (simp add: rix_net_checksum_def sum_words_view b_def st_def)
  then have ck: "rix_net_checksum b st (pk_length q) = 0" using icmp_enc_sum_ok[OF small(1)] assms(2) by simp
  let ?q' = "q\<lparr>pk_start := pk_start q + 8, pk_length := length xs\<rparr>"
  have "pk_view ?q' = xs" using pull_view[of 8 "length xs" q] len v by (simp add: icmp_bytes_def)
  moreover have "packet_ok ?q'" using assms(1) len by (simp add: packet_ok_def)
  moreover have "rix_net_icmp_echo_pull q = (0, Some (icmp_hdr () t xs), ?q')"
    using f ck len by (simp add: rix_net_icmp_echo_pull_def pull_eq rix_net_packet_length_def icmp_hdr_def t Let_def st_def[symmetric] b_def[symmetric])
  ultimately show ?thesis by blast
qed

interpretation icmp: transport icmp_push' "\<lambda>_. rix_net_icmp_echo_pull" icmp_enc icmp_hdr 8 "\<lambda>_ _. True"
proof unfold_locales
  fix p and a :: unit and t :: "u8 \<times> u16 \<times> u16" and xs :: "u8 list"
  assume a: "packet_ok p" "pk_length p = 0" "8 \<le> pk_start p" "pk_start p + 8 + length xs \<le> RIX_NET_FRAME_CAPACITY"
  obtain ty ident sq where t: "t = (ty, ident, sq)" by (rule prod_cases3)
  have "pk_view p = []" using a(2) by (simp add: pk_view_def)
  then show "\<exists>p'. icmp_push' a t xs p = (0, p') \<and> packet_ok p' \<and> pk_start p' = pk_start p - 8 \<and> pk_view p' = icmp_enc a t xs"
    using icmp_push_view[OF a(1,3), of xs ty ident sq] a(2,4) by (simp add: icmp_push'_def t)
next
  fix q and a :: unit and t :: "u8 \<times> u16 \<times> u16" and xs :: "u8 list"
  assume "packet_ok q" "pk_view q = icmp_enc a t xs"
  then show "\<exists>q'. rix_net_icmp_echo_pull q = (0, Some (icmp_hdr a t xs), q') \<and> packet_ok q' \<and> pk_view q' = xs"
    using icmp_pull_view[of q t xs] by simp
qed

end
