(* ===== verification/Udp_Tcp.thy ===== *)
theory Udp_Tcp
  imports Ipv4
begin

text \<open>
  The transports over IPv4: \<^verbatim>\<open>kernel/net/udp.c\<close> and \<^verbatim>\<open>kernel/net/tcp.c\<close>, segment formats with their
  pseudo-header checksums and the connection state machine.
\<close>

subsection \<open>UDP\<close>

definition RIX_NET_UDP_HEADER_LENGTH :: nat where [simp]: "RIX_NET_UDP_HEADER_LENGTH = 8"

record rix_net_udp_header =
  udp_source_port :: u16
  udp_destination_port :: u16
  udp_length :: u16
  udp_checksum :: u16

text \<open>The sum before the bytes of the segment, in \<open>udp.c\<close> with protocol 17 and in \<open>tcp.c\<close> with protocol 6.\<close>

definition pseudo_sum :: "u32 \<Rightarrow> u32 \<Rightarrow> u32 \<Rightarrow> nat \<Rightarrow> u32" where
  "pseudo_sum protocol source_ip destination_ip n =
     drop_bit 16 source_ip + (source_ip AND 0xffff) + drop_bit 16 destination_ip + (destination_ip AND 0xffff) +
     protocol + of_nat n"

definition udp_pseudo_checksum :: "u32 \<Rightarrow> u32 \<Rightarrow> (nat \<Rightarrow> u8) \<Rightarrow> nat \<Rightarrow> nat \<Rightarrow> u16" where
  "udp_pseudo_checksum source_ip destination_ip b segment n =
     rix_net_checksum_add (sum_words b segment n (pseudo_sum (ucast RIX_NET_IP_PROTO_UDP) source_ip destination_ip n))"

definition rix_net_udp_push :: "rix_net_packet \<Rightarrow> u32 \<Rightarrow> u32 \<Rightarrow> u16 \<Rightarrow> u16 \<Rightarrow> u8 list \<Rightarrow> rc \<times> rix_net_packet" where
  "rix_net_udp_push p source_ip destination_ip source_port destination_port payload =
     (if source_ip = 0 \<or> destination_ip = 0 \<or> source_port = 0 \<or> destination_port = 0 \<or> length payload > 65527 then (-1, p)
      else if pk_start p > RIX_NET_FRAME_CAPACITY \<or> pk_length p > RIX_NET_FRAME_CAPACITY - pk_start p \<or>
              pk_start p < RIX_NET_UDP_HEADER_LENGTH \<or>
              length payload > sub64 (RIX_NET_FRAME_CAPACITY - pk_start p - pk_length p) RIX_NET_UDP_HEADER_LENGTH then (-1, p)
      else case rix_net_packet_put p (length payload) of
        (rc, body, p1) \<Rightarrow>
          if rc \<noteq> 0 then (-1, p1)
          else let p2 = p1\<lparr>pk_bytes := store_bytes (pk_bytes p1) body payload\<rparr> in
            case rix_net_packet_push p2 RIX_NET_UDP_HEADER_LENGTH of
              (rc, w, p3) \<Rightarrow>
                if rc \<noteq> 0 then (-1, p3)
                else let b = put_be16 (pk_bytes p3) w source_port;
                         b = put_be16 b (w + 2) destination_port;
                         b = put_be16 b (w + 4) (of_nat (rix_net_packet_length p3));
                         b = put_be16 b (w + 6) 0;
                         checksum = udp_pseudo_checksum source_ip destination_ip b (pk_start p3) (rix_net_packet_length p3);
                         b = put_be16 b (w + 6) (if checksum \<noteq> 0 then checksum else 0xffff)
                     in (0, p3\<lparr>pk_bytes := b\<rparr>))"

definition rix_net_udp_pull :: "rix_net_packet \<Rightarrow> u32 \<Rightarrow> u32 \<Rightarrow> rc \<times> rix_net_udp_header option \<times> rix_net_packet" where
  "rix_net_udp_pull p source_ip destination_ip =
     (if source_ip = 0 \<or> destination_ip = 0 \<or> rix_net_packet_length p < RIX_NET_UDP_HEADER_LENGTH then (-1, None, p)
      else let b = pk_bytes p; w = pk_start p; len = get_be16 b (w + 4) in
        if unat len < RIX_NET_UDP_HEADER_LENGTH \<or> unat len > rix_net_packet_length p then (-2, None, p)
        else if (b (w + 6) \<noteq> 0 \<or> b (w + 7) \<noteq> 0) \<and> udp_pseudo_checksum source_ip destination_ip b w (unat len) \<noteq> 0 then (-3, None, p)
        else let header = \<lparr>udp_source_port = get_be16 b w, udp_destination_port = get_be16 b (w + 2),
                           udp_length = len, udp_checksum = get_be16 b (w + 6)\<rparr> in
          if udp_source_port header = 0 \<or> udp_destination_port header = 0 then (-4, Some header, p)
          else case rix_net_packet_pull p RIX_NET_UDP_HEADER_LENGTH of
            (rc, _, p1) \<Rightarrow> if rc \<noteq> 0 then (-1, Some header, p1)
                           else (0, Some header, p1\<lparr>pk_length := unat len - RIX_NET_UDP_HEADER_LENGTH\<rparr>))"

subsection \<open>TCP segments\<close>

definition RIX_NET_TCP_HEADER_LENGTH :: nat where [simp]: "RIX_NET_TCP_HEADER_LENGTH = 20"

record rix_net_tcp_header =
  tcp_source_port :: u16
  tcp_destination_port :: u16
  tcp_sequence :: u32
  tcp_acknowledgment :: u32
  tcp_flags :: u16
  tcp_window :: u16
  tcp_checksum :: u16
  tcp_urgent :: u16

definition tcp_pseudo_checksum :: "u32 \<Rightarrow> u32 \<Rightarrow> (nat \<Rightarrow> u8) \<Rightarrow> nat \<Rightarrow> nat \<Rightarrow> u16" where
  "tcp_pseudo_checksum source_ip destination_ip b segment n =
     rix_net_checksum_add (sum_words b segment n (pseudo_sum (ucast RIX_NET_IP_PROTO_TCP) source_ip destination_ip n))"

definition rix_net_tcp_push :: "rix_net_packet \<Rightarrow> u32 \<Rightarrow> u32 \<Rightarrow> u16 \<Rightarrow> u16 \<Rightarrow> u32 \<Rightarrow> u32 \<Rightarrow> u16 \<Rightarrow> u16 \<Rightarrow> u8 list \<Rightarrow> rc \<times> rix_net_packet" where
  "rix_net_tcp_push p source_ip destination_ip source_port destination_port sequence acknowledgment flags window payload =
     (if source_ip = 0 \<or> destination_ip = 0 \<or> source_port = 0 \<or> destination_port = 0 \<or> length payload > 65515 \<or>
         flags AND NOT 0x01ff \<noteq> 0 then (-1, p)
      else if pk_start p > RIX_NET_FRAME_CAPACITY \<or> pk_length p > RIX_NET_FRAME_CAPACITY - pk_start p \<or>
              pk_start p < RIX_NET_TCP_HEADER_LENGTH \<or>
              length payload > sub64 (RIX_NET_FRAME_CAPACITY - pk_start p - pk_length p) RIX_NET_TCP_HEADER_LENGTH then (-1, p)
      else case rix_net_packet_put p (length payload) of
        (rc, body, p1) \<Rightarrow>
          if rc \<noteq> 0 then (-1, p1)
          else let p2 = p1\<lparr>pk_bytes := store_bytes (pk_bytes p1) body payload\<rparr> in
            case rix_net_packet_push p2 RIX_NET_TCP_HEADER_LENGTH of
              (rc, w, p3) \<Rightarrow>
                if rc \<noteq> 0 then (-1, p3)
                else let b = put_be16 (pk_bytes p3) w source_port;
                         b = put_be16 b (w + 2) destination_port;
                         b = put_be32 b (w + 4) sequence;
                         b = put_be32 b (w + 8) acknowledgment;
                         b = b(w + 12 := push_bit 4 5);
                         b = b(w + 13 := ucast flags);
                         b = put_be16 b (w + 14) window;
                         b = put_be16 b (w + 16) 0;
                         b = put_be16 b (w + 18) 0;
                         checksum = tcp_pseudo_checksum source_ip destination_ip b (pk_start p3) (rix_net_packet_length p3);
                         b = put_be16 b (w + 16) checksum
                     in (0, p3\<lparr>pk_bytes := b\<rparr>))"

definition rix_net_tcp_pull :: "rix_net_packet \<Rightarrow> u32 \<Rightarrow> u32 \<Rightarrow> rc \<times> rix_net_tcp_header option \<times> rix_net_packet" where
  "rix_net_tcp_pull p source_ip destination_ip =
     (if source_ip = 0 \<or> destination_ip = 0 \<or> rix_net_packet_length p < RIX_NET_TCP_HEADER_LENGTH then (-1, None, p)
      else let b = pk_bytes p; w = pk_start p; header_length = unat (drop_bit 4 (b (w + 12))) * 4 in
        if header_length < RIX_NET_TCP_HEADER_LENGTH \<or> header_length > rix_net_packet_length p \<or> b (w + 12) AND 0x0f \<noteq> 0
        then (-2, None, p)
        else if tcp_pseudo_checksum source_ip destination_ip b w (rix_net_packet_length p) \<noteq> 0 then (-3, None, p)
        else let header = \<lparr>tcp_source_port = get_be16 b w, tcp_destination_port = get_be16 b (w + 2),
                           tcp_sequence = get_be32 b (w + 4), tcp_acknowledgment = get_be32 b (w + 8),
                           tcp_flags = ucast (b (w + 13)), tcp_window = get_be16 b (w + 14),
                           tcp_checksum = get_be16 b (w + 16), tcp_urgent = get_be16 b (w + 18)\<rparr> in
          if tcp_source_port header = 0 \<or> tcp_destination_port header = 0 then (-4, Some header, p)
          else case rix_net_packet_pull p header_length of
            (rc, _, p1) \<Rightarrow> if rc \<noteq> 0 then (-1, Some header, p1) else (0, Some header, p1))"

subsection \<open>TCP connection states\<close>

datatype rix_tcp_state = RIX_TCP_CLOSED | RIX_TCP_LISTEN | RIX_TCP_SYN_SENT | RIX_TCP_SYN_RECEIVED | RIX_TCP_ESTABLISHED |
  RIX_TCP_FIN_WAIT_1 | RIX_TCP_FIN_WAIT_2 | RIX_TCP_CLOSE_WAIT | RIX_TCP_LAST_ACK | RIX_TCP_TIME_WAIT

datatype rix_tcp_event = RIX_TCP_EVENT_PASSIVE_OPEN | RIX_TCP_EVENT_ACTIVE_OPEN | RIX_TCP_EVENT_SYN | RIX_TCP_EVENT_SYN_ACK |
  RIX_TCP_EVENT_ACK | RIX_TCP_EVENT_FIN | RIX_TCP_EVENT_CLOSE

record rix_tcp_control =
  tc_state :: rix_tcp_state
  tc_sequence :: u32
  tc_acknowledgment :: u32

definition rix_tcp_init :: "rix_tcp_control \<Rightarrow> rix_tcp_control" where
  "rix_tcp_init control = control\<lparr>tc_state := RIX_TCP_CLOSED, tc_sequence := 0, tc_acknowledgment := 0\<rparr>"

text \<open>The switch of \<open>rix_tcp_transition\<close>: the next state, or none where it returns an error.\<close>

fun tcp_next :: "rix_tcp_state \<Rightarrow> rix_tcp_event \<Rightarrow> rix_tcp_state option" where
  "tcp_next RIX_TCP_CLOSED e = (if e = RIX_TCP_EVENT_PASSIVE_OPEN then Some RIX_TCP_LISTEN
     else if e = RIX_TCP_EVENT_ACTIVE_OPEN then Some RIX_TCP_SYN_SENT else None)"
| "tcp_next RIX_TCP_LISTEN e = (if e = RIX_TCP_EVENT_SYN then Some RIX_TCP_SYN_RECEIVED
     else if e = RIX_TCP_EVENT_CLOSE then Some RIX_TCP_CLOSED else None)"
| "tcp_next RIX_TCP_SYN_SENT e = (if e = RIX_TCP_EVENT_SYN_ACK then Some RIX_TCP_ESTABLISHED
     else if e = RIX_TCP_EVENT_CLOSE then Some RIX_TCP_CLOSED else None)"
| "tcp_next RIX_TCP_SYN_RECEIVED e = (if e = RIX_TCP_EVENT_ACK then Some RIX_TCP_ESTABLISHED
     else if e = RIX_TCP_EVENT_CLOSE then Some RIX_TCP_FIN_WAIT_1 else None)"
| "tcp_next RIX_TCP_ESTABLISHED e = (if e = RIX_TCP_EVENT_CLOSE then Some RIX_TCP_FIN_WAIT_1
     else if e = RIX_TCP_EVENT_FIN then Some RIX_TCP_CLOSE_WAIT
     else if e \<noteq> RIX_TCP_EVENT_ACK then None else Some RIX_TCP_ESTABLISHED)"
| "tcp_next RIX_TCP_FIN_WAIT_1 e = (if e = RIX_TCP_EVENT_ACK then Some RIX_TCP_FIN_WAIT_2
     else if e = RIX_TCP_EVENT_FIN then Some RIX_TCP_TIME_WAIT else None)"
| "tcp_next RIX_TCP_FIN_WAIT_2 e = (if e = RIX_TCP_EVENT_FIN then Some RIX_TCP_TIME_WAIT else None)"
| "tcp_next RIX_TCP_CLOSE_WAIT e = (if e = RIX_TCP_EVENT_CLOSE then Some RIX_TCP_LAST_ACK else None)"
| "tcp_next RIX_TCP_LAST_ACK e = (if e = RIX_TCP_EVENT_ACK then Some RIX_TCP_CLOSED else None)"
| "tcp_next RIX_TCP_TIME_WAIT e = (if e = RIX_TCP_EVENT_CLOSE then Some RIX_TCP_CLOSED else None)"

definition rix_tcp_transition :: "rix_tcp_control \<Rightarrow> rix_tcp_event \<Rightarrow> rc \<times> rix_tcp_control" where
  "rix_tcp_transition control event =
     (case tcp_next (tc_state control) event of
        None \<Rightarrow> (-1, control)
      | Some nxt \<Rightarrow> (0, control\<lparr>tc_state := nxt\<rparr>))"

definition rix_tcp_is_connected :: "rix_tcp_control \<Rightarrow> bool" where
  "rix_tcp_is_connected control \<longleftrightarrow> tc_state control = RIX_TCP_ESTABLISHED"

subsection \<open>UDP is a transport\<close>

lemma unat_plus_le: "unat (a + b) \<le> unat a + unat b"
  by (metis le_refl less_imp_le mod_less_eq_dividend unat_word_ariths(1))

lemma pseudo_sum_bound:
  assumes "unat pr < 256" "n \<le> 2000"
  shows "unat (pseudo_sum pr s d n) \<le> 2000000"
proof -
  have h: "unat (drop_bit 16 x) < 65536" "unat (x AND 0xffff) < 65536" for x :: u32
    using u32_bound[of x] by (simp_all add: unat_drop_16 unat_and_ffff)
  have n: "unat (of_nat n :: u32) = n" using assms(2) by simp
  show ?thesis
    unfolding pseudo_sum_def
    using unat_plus_le[of "drop_bit 16 s + (s AND 0xffff) + drop_bit 16 d + (d AND 0xffff) + pr" "of_nat n"]
      unat_plus_le[of "drop_bit 16 s + (s AND 0xffff) + drop_bit 16 d + (d AND 0xffff)" pr]
      unat_plus_le[of "drop_bit 16 s + (s AND 0xffff) + drop_bit 16 d" "d AND 0xffff"]
      unat_plus_le[of "drop_bit 16 s + (s AND 0xffff)" "drop_bit 16 d"]
      unat_plus_le[of "drop_bit 16 s" "s AND 0xffff"] h[of s] h[of d] n assms
    by linarith
qed

text \<open>What a transport checksum over a pseudo header accepts, and that the bytes the sender stores are accepted.\<close>

lemma transport_accepts:
  assumes "unat s0 \<le> 2000000" "n = pk_length q" "n \<le> 1580"
  shows "rix_net_checksum_add (sum_words (pk_bytes q) (pk_start q) n s0) = 0 \<longleftrightarrow> sum_ok (unat s0 + wsum (pk_view q))"
  using checksum_verifies[of s0 "pk_view q"] wsum_short[of "pk_view q"] assms
  by (simp add: sum_words_view)

lemma transport_sum_ok:
  assumes "unat s0 \<le> 2000000" "length (xs @ [0, 0] @ ys) \<le> 60000" "even (length xs)"
    and "c = rix_net_checksum_add (s0 + of_nat (wsum (xs @ [0, 0] @ ys))) \<or>
         c = (if rix_net_checksum_add (s0 + of_nat (wsum (xs @ [0, 0] @ ys))) = 0 then 0xffff
              else rix_net_checksum_add (s0 + of_nat (wsum (xs @ [0, 0] @ ys))))"
  shows "sum_ok (unat s0 + wsum (xs @ bytes16 c @ ys))"
  by (rule checksum_inserted) (use assms wsum_short[of "xs @ [0, 0] @ ys"] in simp_all)

definition udp_bytes :: "u16 \<Rightarrow> u16 \<Rightarrow> nat \<Rightarrow> u16 \<Rightarrow> u8 list" where
  "udp_bytes sp dp n c = (bytes16 sp @ bytes16 dp @ bytes16 (of_nat n)) @ bytes16 c"

lemma length_udp_bytes [simp]: "length (udp_bytes sp dp n c) = 8"
  by (simp add: udp_bytes_def)

definition udp_enc_checksum :: "u32 \<times> u32 \<Rightarrow> u16 \<times> u16 \<Rightarrow> u8 list \<Rightarrow> u16" where
  "udp_enc_checksum = (\<lambda>(s, d) (sp, dp) xs.
     let c = rix_net_checksum_add (pseudo_sum 17 s d (length xs + 8) + of_nat (wsum (udp_bytes sp dp (length xs + 8) 0 @ xs)))
     in if c \<noteq> 0 then c else 0xffff)"

definition udp_enc :: "u32 \<times> u32 \<Rightarrow> u16 \<times> u16 \<Rightarrow> u8 list \<Rightarrow> u8 list" where
  "udp_enc a t xs = udp_bytes (fst t) (snd t) (length xs + 8) (udp_enc_checksum a t xs) @ xs"

definition udp_hdr :: "u32 \<times> u32 \<Rightarrow> u16 \<times> u16 \<Rightarrow> u8 list \<Rightarrow> rix_net_udp_header" where
  "udp_hdr a t xs = \<lparr>udp_source_port = fst t, udp_destination_port = snd t,
     udp_length = of_nat (length xs + 8), udp_checksum = udp_enc_checksum a t xs\<rparr>"

definition udp_valid :: "u32 \<times> u32 \<Rightarrow> u16 \<times> u16 \<Rightarrow> bool" where
  "udp_valid a t \<longleftrightarrow> fst a \<noteq> 0 \<and> snd a \<noteq> 0 \<and> fst t \<noteq> 0 \<and> snd t \<noteq> 0"

definition udp_push' :: "u32 \<times> u32 \<Rightarrow> u16 \<times> u16 \<Rightarrow> u8 list \<Rightarrow> rix_net_packet \<Rightarrow> rc \<times> rix_net_packet" where
  "udp_push' a t xs p = rix_net_udp_push p (fst a) (snd a) (fst t) (snd t) xs"

definition udp_pull' :: "u32 \<times> u32 \<Rightarrow> rix_net_packet \<Rightarrow> rc \<times> rix_net_udp_header option \<times> rix_net_packet" where
  "udp_pull' a q = rix_net_udp_pull q (fst a) (snd a)"

lemma udp_stores:
  "put_be16 (put_be16 (put_be16 (put_be16 b w sp) (w + 2) dp) (w + 4) (of_nat n)) (w + 6) 0 = store_bytes b w (udp_bytes sp dp n 0)"
  unfolding stores by (simp add: store_bytes_extend udp_bytes_def)

lemma udp_push_view:
  assumes "packet_ok p" "8 \<le> pk_start p" "pk_start p + pk_length p + 8 + length xs \<le> RIX_NET_FRAME_CAPACITY"
    and "s \<noteq> 0" "d \<noteq> 0" "sp \<noteq> 0" "dp \<noteq> 0"
  shows "\<exists>p'. rix_net_udp_push p s d sp dp xs = (0, p') \<and> packet_ok p' \<and> pk_start p' = pk_start p - 8 \<and>
           pk_view p' = udp_enc (s, d) (sp, dp) (pk_view p @ xs)"
proof -
  have room: "pk_start p + pk_length p + length xs \<le> RIX_NET_FRAME_CAPACITY" using assms(3) by simp
  obtain body p1 w p3 where a: "rix_net_packet_put p (length xs) = (0, body, p1)"
    "rix_net_packet_push (p1\<lparr>pk_bytes := store_bytes (pk_bytes p1) body xs\<rparr>) 8 = (0, w, p3)"
    "pk_start p3 = w" "w = pk_start p - 8" "packet_ok p3"
    "\<And>hs. length hs = 8 \<Longrightarrow> pk_view (p3\<lparr>pk_bytes := store_bytes (pk_bytes p3) w hs\<rparr>) = hs @ pk_view p @ xs"
    "\<And>hs s. length hs = 8 \<Longrightarrow> sum_words (store_bytes (pk_bytes p3) w hs) w (pk_length p3) s = s + of_nat (wsum (hs @ pk_view p @ xs))"
    and len: "pk_length p3 = 8 + pk_length p + length xs"
    by (rule put_push[OF assms(1,2) room]) blast
  define n where "n = length (pk_view p @ xs) + 8"
  have n: "pk_length p3 = n" using len by (simp add: n_def)
  define c0 where "c0 = rix_net_checksum_add (pseudo_sum 17 s d n + of_nat (wsum (udp_bytes sp dp n 0 @ pk_view p @ xs)))"
  define c where "c = udp_enc_checksum (s, d) (sp, dp) (pk_view p @ xs)"
  have c0: "udp_pseudo_checksum s d (store_bytes (pk_bytes p3) w (udp_bytes sp dp n 0)) w n = c0"
    using a(7)[of "udp_bytes sp dp n 0"] by (simp add: udp_pseudo_checksum_def n RIX_NET_IP_PROTO_UDP_def c0_def)
  have c: "(if c0 \<noteq> 0 then c0 else 0xffff) = c"
    unfolding c_def c0_def n_def udp_enc_checksum_def Let_def prod.case by simp
  have o: "put_be16 (store_bytes (pk_bytes p3) w (udp_bytes sp dp n 0)) (w + 6) c = store_bytes (pk_bytes p3) w (udp_bytes sp dp n c)"
    using store_bytes_over[of "w + 6" w "bytes16 sp @ bytes16 dp @ bytes16 (of_nat n)" "bytes16 c" "bytes16 0" "pk_bytes p3" "[]"]
    by (simp add: put_be16_store udp_bytes_def)
  have "sub64 (RIX_NET_FRAME_CAPACITY - pk_start p - pk_length p) RIX_NET_UDP_HEADER_LENGTH = 1580 - pk_start p - pk_length p - 8"
    using assms(3) by (simp add: sub64_le)
  then have "rix_net_udp_push p s d sp dp xs = (0, p3\<lparr>pk_bytes := store_bytes (pk_bytes p3) w (udp_bytes sp dp n c)\<rparr>)"
    unfolding rix_net_udp_push_def RIX_NET_UDP_HEADER_LENGTH_def a(1,2,3) prod.case Let_def rix_net_packet_length_def n udp_stores c0 c o
    using assms by auto
  moreover have "packet_ok (p3\<lparr>pk_bytes := store_bytes (pk_bytes p3) w (udp_bytes sp dp n c)\<rparr>)"
    using a(5) by (simp add: packet_ok_def)
  ultimately show ?thesis using a(3,4) a(6)[of "udp_bytes sp dp n c"] by (simp add: udp_enc_def c_def n_def)
qed

lemma udp_enc_sum_ok:
  assumes "length xs \<le> 1580"
  shows "sum_ok (unat (pseudo_sum 17 (fst a) (snd a) (length xs + 8)) + wsum (udp_enc a t xs))"
proof -
  obtain s d sp dp where e: "a = (s, d)" "t = (sp, dp)" by (metis surj_pair)
  show ?thesis
    using transport_sum_ok[of "pseudo_sum 17 s d (length xs + 8)" "bytes16 sp @ bytes16 dp @ bytes16 (of_nat (length xs + 8))" xs "udp_enc_checksum a t xs"]
      pseudo_sum_bound[of 17 "length xs + 8" s d] assms
    by (simp add: udp_enc_def udp_bytes_def e udp_enc_checksum_def Let_def bytes16_0)
qed

lemma udp_pull_view:
  assumes "packet_ok q" "udp_valid a t" "pk_view q = udp_enc a t xs"
  shows "\<exists>q'. udp_pull' a q = (0, Some (udp_hdr a t xs), q') \<and> packet_ok q' \<and> pk_view q' = xs"
proof -
  obtain s d sp dp where e: "a = (s, d)" "t = (sp, dp)" by (metis surj_pair)
  define n where "n = length xs + 8"
  define c where "c = udp_enc_checksum a t xs"
  have v: "pk_view q = udp_bytes sp dp n c @ xs" using assms(3) by (simp add: udp_enc_def e c_def n_def)
  have len: "pk_length q = n" using length_pk_view[of q] v by (simp add: n_def)
  then have small: "n \<le> 1580" using assms(1) by (simp add: packet_ok_def)
  then have un: "unat (of_nat n :: u16) = n" by simp
  define st where "st = pk_start q"
  define b where "b = pk_bytes q"
  define l :: u16 where "l = of_nat n"
  have hb: "udp_bytes sp dp n c = bytes16 sp @ bytes16 dp @ bytes16 l @ bytes16 c" by (simp add: udp_bytes_def l_def)
  note get = header_get16[OF v, folded st_def b_def, unfolded length_udp_bytes hb]
  have f: "get_be16 b st = sp" "get_be16 b (st + 2) = dp" "get_be16 b (st + 4) = l" "get_be16 b (st + 6) = c"
    using get[of 0] get[of 2] get[of 4] get[of 6] by (simp_all add: bytes16_def)
  have ps: "unat (pseudo_sum 17 s d n) \<le> 2000000" by (rule pseudo_sum_bound) (use small in simp_all)
  have "sum_ok (unat (pseudo_sum 17 s d n) + wsum (pk_view q))"
    using udp_enc_sum_ok[of xs a t] small unfolding assms(3) e fst_conv snd_conv n_def by simp
  then have ck: "udp_pseudo_checksum s d b st n = 0"
    using transport_accepts[OF ps len[symmetric] small]
    by (simp add: udp_pseudo_checksum_def RIX_NET_IP_PROTO_UDP_def b_def st_def)
  let ?q' = "q\<lparr>pk_start := pk_start q + 8, pk_length := length xs\<rparr>"
  have "pk_view ?q' = xs" using pull_view[of 8 "length xs" q] len v by (simp add: n_def)
  moreover have "packet_ok ?q'" using assms(1) len by (simp add: packet_ok_def n_def)
  moreover have "rix_net_udp_pull q s d = (0, Some (udp_hdr a t xs), ?q')"
    using f ck len un assms(2) n_def c_def
    by (simp add: rix_net_udp_pull_def pull_eq rix_net_packet_length_def udp_hdr_def udp_valid_def e Let_def
        st_def[symmetric] b_def[symmetric] l_def)
  ultimately show ?thesis by (auto simp: udp_pull'_def e)
qed

interpretation udp: transport udp_push' udp_pull' udp_enc udp_hdr 8 udp_valid
proof unfold_locales
  fix p a t and xs :: "u8 list"
  assume h: "packet_ok p" "pk_length p = 0" "8 \<le> pk_start p" "udp_valid a t" "pk_start p + 8 + length xs \<le> RIX_NET_FRAME_CAPACITY"
  have "pk_view p = []" using h(2) by (simp add: pk_view_def)
  then show "\<exists>p'. udp_push' a t xs p = (0, p') \<and> packet_ok p' \<and> pk_start p' = pk_start p - 8 \<and> pk_view p' = udp_enc a t xs"
    using udp_push_view[OF h(1,3), of xs "fst a" "snd a" "fst t" "snd t"] h(2,4,5) by (simp add: udp_push'_def udp_valid_def)
next
  fix q a t and xs :: "u8 list"
  assume "packet_ok q" "udp_valid a t" "pk_view q = udp_enc a t xs"
  then show "\<exists>q'. udp_pull' a q = (0, Some (udp_hdr a t xs), q') \<and> packet_ok q' \<and> pk_view q' = xs"
    by (rule udp_pull_view)
qed

subsection \<open>TCP is a transport\<close>

text \<open>A segment: source and destination port, sequence and acknowledgment number, flags, window.\<close>

type_synonym tcp_segment = "u16 \<times> u16 \<times> u32 \<times> u32 \<times> u16 \<times> u16"

definition tcp_bytes :: "tcp_segment \<Rightarrow> u16 \<Rightarrow> u8 list" where
  "tcp_bytes = (\<lambda>(sp, dp, sq, ack, flags, window) c.
     (bytes16 sp @ bytes16 dp @ bytes32 sq @ bytes32 ack @ [0x50, ucast flags] @ bytes16 window) @ bytes16 c @ bytes16 0)"

lemma length_tcp_bytes [simp]: "length (tcp_bytes t c) = 20"
  by (simp add: tcp_bytes_def split: prod.splits)

definition tcp_enc_checksum :: "u32 \<times> u32 \<Rightarrow> tcp_segment \<Rightarrow> u8 list \<Rightarrow> u16" where
  "tcp_enc_checksum = (\<lambda>(s, d) t xs.
     rix_net_checksum_add (pseudo_sum 6 s d (length xs + 20) + of_nat (wsum (tcp_bytes t 0 @ xs))))"

definition tcp_enc :: "u32 \<times> u32 \<Rightarrow> tcp_segment \<Rightarrow> u8 list \<Rightarrow> u8 list" where
  "tcp_enc a t xs = tcp_bytes t (tcp_enc_checksum a t xs) @ xs"

definition tcp_hdr :: "u32 \<times> u32 \<Rightarrow> tcp_segment \<Rightarrow> u8 list \<Rightarrow> rix_net_tcp_header" where
  "tcp_hdr = (\<lambda>a (sp, dp, sq, ack, flags, window) xs.
     \<lparr>tcp_source_port = sp, tcp_destination_port = dp, tcp_sequence = sq, tcp_acknowledgment = ack, tcp_flags = flags,
      tcp_window = window, tcp_checksum = tcp_enc_checksum a (sp, dp, sq, ack, flags, window) xs, tcp_urgent = 0\<rparr>)"

text \<open>Flags that fit the flag byte.\<close>

definition tcp_valid :: "u32 \<times> u32 \<Rightarrow> tcp_segment \<Rightarrow> bool" where
  "tcp_valid = (\<lambda>(s, d) (sp, dp, sq, ack, flags, window). s \<noteq> 0 \<and> d \<noteq> 0 \<and> sp \<noteq> 0 \<and> dp \<noteq> 0 \<and> flags AND 0xff = flags)"

definition tcp_push' :: "u32 \<times> u32 \<Rightarrow> tcp_segment \<Rightarrow> u8 list \<Rightarrow> rix_net_packet \<Rightarrow> rc \<times> rix_net_packet" where
  "tcp_push' = (\<lambda>(s, d) (sp, dp, sq, ack, flags, window) xs p. rix_net_tcp_push p s d sp dp sq ack flags window xs)"

definition tcp_pull' :: "u32 \<times> u32 \<Rightarrow> rix_net_packet \<Rightarrow> rc \<times> rix_net_tcp_header option \<times> rix_net_packet" where
  "tcp_pull' a q = rix_net_tcp_pull q (fst a) (snd a)"

lemma tcp_stores:
  "put_be16 (put_be16 (put_be16 ((put_be32 (put_be32 (put_be16 (put_be16 b w sp) (w + 2) dp) (w + 4) sq) (w + 8) ack)
      (w + 12 := push_bit 4 5, w + 13 := ucast flags)) (w + 14) window) (w + 16) 0) (w + 18) 0
     = store_bytes b w (tcp_bytes (sp, dp, sq, ack, flags, window) 0)"
  unfolding stores by (simp add: store_bytes_extend tcp_bytes_def)

lemma tcp_flags_fit:
  assumes "flags AND 0xff = (flags :: u16)"
  shows "flags AND NOT 0x01ff = 0" "ucast (ucast flags :: u8) = flags"
proof -
  have m: "(0xff :: u16) = mask 8" "(0x01ff :: u16) = mask 9" by (simp_all add: mask_eq_exp_minus_1)
  have b: "bit flags n \<Longrightarrow> n < 8" for n using assms unfolding m by (metis bit_and_iff bit_mask_iff)
  show "flags AND NOT 0x01ff = 0" unfolding m by (rule bit_word_eqI) (auto simp: bit_simps simp del: mask_numeral dest: b)
  show "ucast (ucast flags :: u8) = flags" by (rule bit_word_eqI) (auto simp: bit_simps dest: b)
qed

lemma tcp_push_view:
  assumes "packet_ok p" "20 \<le> pk_start p" "pk_start p + pk_length p + 20 + length xs \<le> RIX_NET_FRAME_CAPACITY"
    and "s \<noteq> 0" "d \<noteq> 0" "sp \<noteq> 0" "dp \<noteq> 0" "flags AND NOT 0x01ff = 0"
  shows "\<exists>p'. rix_net_tcp_push p s d sp dp sq ack flags window xs = (0, p') \<and> packet_ok p' \<and> pk_start p' = pk_start p - 20 \<and>
           pk_view p' = tcp_enc (s, d) (sp, dp, sq, ack, flags, window) (pk_view p @ xs)"
proof -
  have room: "pk_start p + pk_length p + length xs \<le> RIX_NET_FRAME_CAPACITY" using assms(3) by simp
  obtain body p1 w p3 where a: "rix_net_packet_put p (length xs) = (0, body, p1)"
    "rix_net_packet_push (p1\<lparr>pk_bytes := store_bytes (pk_bytes p1) body xs\<rparr>) 20 = (0, w, p3)"
    "pk_start p3 = w" "w = pk_start p - 20" "packet_ok p3"
    "\<And>hs. length hs = 20 \<Longrightarrow> pk_view (p3\<lparr>pk_bytes := store_bytes (pk_bytes p3) w hs\<rparr>) = hs @ pk_view p @ xs"
    "\<And>hs s. length hs = 20 \<Longrightarrow> sum_words (store_bytes (pk_bytes p3) w hs) w (pk_length p3) s = s + of_nat (wsum (hs @ pk_view p @ xs))"
    and len: "pk_length p3 = 20 + pk_length p + length xs"
    by (rule put_push[OF assms(1,2) room]) blast
  define t where "t = (sp, dp, sq, ack, flags, window)"
  define n where "n = length (pk_view p @ xs) + 20"
  have n: "pk_length p3 = n" using len by (simp add: n_def)
  define c where "c = tcp_enc_checksum (s, d) t (pk_view p @ xs)"
  have c: "tcp_pseudo_checksum s d (store_bytes (pk_bytes p3) w (tcp_bytes t 0)) w n = c"
    using a(7)[of "tcp_bytes t 0"]
    by (simp add: tcp_pseudo_checksum_def n RIX_NET_IP_PROTO_TCP_def c_def tcp_enc_checksum_def n_def)
  have o: "put_be16 (store_bytes (pk_bytes p3) w (tcp_bytes t 0)) (w + 16) c = store_bytes (pk_bytes p3) w (tcp_bytes t c)"
    unfolding put_be16_store tcp_bytes_def t_def prod.case by (rule store_bytes_over) simp_all
  have "sub64 (RIX_NET_FRAME_CAPACITY - pk_start p - pk_length p) RIX_NET_TCP_HEADER_LENGTH = 1580 - pk_start p - pk_length p - 20"
    using assms(3) by (simp add: sub64_le)
  then have "rix_net_tcp_push p s d sp dp sq ack flags window xs = (0, p3\<lparr>pk_bytes := store_bytes (pk_bytes p3) w (tcp_bytes t c)\<rparr>)"
    unfolding rix_net_tcp_push_def RIX_NET_TCP_HEADER_LENGTH_def a(1,2,3) prod.case Let_def rix_net_packet_length_def n
      tcp_stores[of _ _ sp dp sq ack flags window, folded t_def] c o
    using assms by auto
  moreover have "packet_ok (p3\<lparr>pk_bytes := store_bytes (pk_bytes p3) w (tcp_bytes t c)\<rparr>)"
    using a(5) by (simp add: packet_ok_def)
  ultimately show ?thesis using a(3,4) a(6)[of "tcp_bytes t c"] by (simp add: tcp_enc_def c_def t_def)
qed

lemma tcp_enc_sum_ok:
  assumes "length xs \<le> 1580"
  shows "sum_ok (unat (pseudo_sum 6 s d (length xs + 20)) + wsum (tcp_enc (s, d) t xs))"
proof -
  obtain sp dp sq ack flags window where t: "t = (sp, dp, sq, ack, flags, window)" by (rule prod_cases6)
  define hs where "hs = bytes16 sp @ bytes16 dp @ bytes32 sq @ bytes32 ack @ [0x50, ucast flags] @ bytes16 window"
  have h: "even (length hs)" "length hs = 16" by (simp_all add: hs_def)
  have e: "tcp_bytes t c @ xs = hs @ bytes16 c @ (bytes16 0 @ xs)" for c by (simp add: tcp_bytes_def t hs_def)
  have ps: "unat (pseudo_sum 6 s d (length xs + 20)) \<le> 2000000" by (rule pseudo_sum_bound) (use assms in simp_all)
  show ?thesis
    unfolding tcp_enc_def e
    by (rule transport_sum_ok[OF ps _ h(1)]) (use assms h(2) e[of 0] in \<open>simp_all add: tcp_enc_checksum_def bytes16_0\<close>)
qed

lemma word16_0: "word16 0 0 = 0"
  by (simp add: word16_def)

lemma tcp_pull_view:
  assumes "packet_ok q" "tcp_valid a t" "pk_view q = tcp_enc a t xs"
  shows "\<exists>q'. tcp_pull' a q = (0, Some (tcp_hdr a t xs), q') \<and> packet_ok q' \<and> pk_view q' = xs"
proof -
  obtain s d where ea: "a = (s, d)" by (metis surj_pair)
  obtain sp dp sq ack flags window where et: "t = (sp, dp, sq, ack, flags, window)" by (rule prod_cases6)
  define n where "n = length xs + 20"
  define c where "c = tcp_enc_checksum a t xs"
  have v: "pk_view q = tcp_bytes t c @ xs" using assms(3) by (simp add: tcp_enc_def c_def)
  have len: "pk_length q = n" using length_pk_view[of q] v by (simp add: n_def)
  then have small: "n \<le> 1580" using assms(1) by (simp add: packet_ok_def)
  define st where "st = pk_start q"
  define b where "b = pk_bytes q"
  note hb = tcp_bytes_def et bytes16_def bytes32_def
  note g16 = header_get16[OF v, folded st_def b_def, unfolded length_tcp_bytes]
  note g32 = header_get32[OF v, folded st_def b_def, unfolded length_tcp_bytes]
  note g8 = pk_prefix_nth[OF v, folded st_def b_def, unfolded length_tcp_bytes]
  have f: "get_be16 b st = sp" "get_be16 b (st + 2) = dp" "get_be16 b (st + 14) = window" "get_be16 b (st + 16) = c" "get_be16 b (st + 18) = 0"
    using g16[of 0] g16[of 2] g16[of 14] g16[of 16] g16[of 18] by (simp_all add: hb word16_0)
  have f32: "get_be32 b (st + 4) = sq" "get_be32 b (st + 8) = ack" using g32[of 4] g32[of 8] by (simp_all add: hb)
  have f8: "b (st + 12) = 0x50" "b (st + 13) = ucast flags" using g8[of 12] g8[of 13] by (simp_all add: hb)
  have ps: "unat (pseudo_sum 6 s d n) \<le> 2000000" by (rule pseudo_sum_bound) (use small in simp_all)
  have "sum_ok (unat (pseudo_sum 6 s d n) + wsum (pk_view q))"
    using tcp_enc_sum_ok[of xs s d t] small unfolding assms(3) ea n_def by simp
  then have ck: "tcp_pseudo_checksum s d b st n = 0"
    using transport_accepts[OF ps len[symmetric] small]
    by (simp add: tcp_pseudo_checksum_def RIX_NET_IP_PROTO_TCP_def b_def st_def)
  have val: "s \<noteq> 0" "d \<noteq> 0" "sp \<noteq> 0" "dp \<noteq> 0" "ucast (ucast flags :: u8) = flags"
    using assms(2) tcp_flags_fit[of flags] by (auto simp: tcp_valid_def ea et)
  let ?q' = "q\<lparr>pk_start := pk_start q + 20, pk_length := length xs\<rparr>"
  have "pk_view ?q' = xs" using pull_view[of 20 "length xs" q] len v by (simp add: n_def)
  moreover have "packet_ok ?q'" using assms(1) len by (simp add: packet_ok_def n_def)
  moreover have "rix_net_tcp_pull q s d = (0, Some (tcp_hdr a t xs), ?q')"
    using f f32 f8 ck len val n_def c_def
    by (simp add: rix_net_tcp_pull_def pull_eq rix_net_packet_length_def tcp_hdr_def et Let_def st_def[symmetric] b_def[symmetric])
  ultimately show ?thesis by (auto simp: tcp_pull'_def ea)
qed

interpretation tcp: transport tcp_push' tcp_pull' tcp_enc tcp_hdr 20 tcp_valid
proof unfold_locales
  fix p a t and xs :: "u8 list"
  assume h: "packet_ok p" "pk_length p = 0" "20 \<le> pk_start p" "tcp_valid a t" "pk_start p + 20 + length xs \<le> RIX_NET_FRAME_CAPACITY"
  have v: "pk_view p = []" using h(2) by (simp add: pk_view_def)
  obtain s d where ea: "a = (s, d)" by (metis surj_pair)
  obtain sp dp sq ack flags window where et: "t = (sp, dp, sq, ack, flags, window)" by (rule prod_cases6)
  have val: "s \<noteq> 0" "d \<noteq> 0" "sp \<noteq> 0" "dp \<noteq> 0" "flags AND NOT 0x01ff = 0"
    using h(4) tcp_flags_fit[of flags] by (auto simp: tcp_valid_def ea et)
  show "\<exists>p'. tcp_push' a t xs p = (0, p') \<and> packet_ok p' \<and> pk_start p' = pk_start p - 20 \<and> pk_view p' = tcp_enc a t xs"
    using tcp_push_view[OF h(1,3) _ val, of xs sq ack window] h(2,5) v by (simp add: tcp_push'_def ea et)
next
  fix q a t and xs :: "u8 list"
  assume "packet_ok q" "tcp_valid a t" "pk_view q = tcp_enc a t xs"
  then show "\<exists>q'. tcp_pull' a q = (0, Some (tcp_hdr a t xs), q') \<and> packet_ok q' \<and> pk_view q' = xs"
    by (rule tcp_pull_view)
qed

end
