(* ===== verification/Ipv6.thy ===== *)
theory Ipv6
  imports Udp_Tcp
begin

text \<open>
  IPv6: \<^verbatim>\<open>kernel/net/ipv6.c\<close>.  The header, ICMPv6 messages, the neighbour cache, UDP and TCP over IPv6, the
  route table and the address helpers.  Addresses are lists of sixteen bytes; where the source walks the object
  representation of a local integer, the list of its bytes on a little-endian machine is used.
\<close>

subsection \<open>Sums\<close>

type_synonym ip6 = "u8 list"

definition copy16 :: "(nat \<Rightarrow> u8) \<Rightarrow> nat \<Rightarrow> ip6 \<Rightarrow> nat \<Rightarrow> u8" where
  "copy16 b off source = store_bytes b off (map ((!) source) [0..<16])"

fun sum_bytes :: "u32 \<Rightarrow> u8 list \<Rightarrow> u32" where
  "sum_bytes s (a # b # xs) = sum_bytes (s + (push_bit 8 (ucast a) OR ucast b)) xs"
| "sum_bytes s [a] = s + push_bit 8 (ucast a)"
| "sum_bytes s [] = s"

definition finish_sum :: "u32 \<Rightarrow> u16" where
  "finish_sum s = NOT (ucast (fold_sum s))"

definition repr16 :: "u16 \<Rightarrow> u8 list" where
  "repr16 v = [ucast v, ucast (drop_bit 8 v)]"

definition repr32 :: "u32 \<Rightarrow> u8 list" where
  "repr32 v = [ucast v, ucast (drop_bit 8 v), ucast (drop_bit 16 v), ucast (drop_bit 24 v)]"

definition RIX_NET_IP_PROTO_ICMPV6 :: u8 where "RIX_NET_IP_PROTO_ICMPV6 = 58"

definition transport6_checksum :: "ip6 \<Rightarrow> ip6 \<Rightarrow> u8 \<Rightarrow> u8 list \<Rightarrow> u16" where
  "transport6_checksum source destination protocol message =
     (let s = sum_bytes (sum_bytes 0 source) destination;
          s = sum_bytes s (repr32 (be32 (of_nat (length message))));
          s = sum_bytes s [0, 0, 0, 0, 0, 0, 0, protocol]
      in finish_sum (sum_bytes s message))"

definition icmpv6_checksum :: "ip6 \<Rightarrow> ip6 \<Rightarrow> u8 list \<Rightarrow> u16" where
  "icmpv6_checksum source destination message =
     (let s = sum_bytes (sum_bytes 0 source) destination;
          s = sum_bytes s (repr32 (be32 (of_nat (length message))));
          s = sum_bytes s [0, 0, 0, 0, 0, 0, 0, RIX_NET_IP_PROTO_ICMPV6]
      in finish_sum (sum_bytes s message))"

text \<open>The bytes a checksum over \<open>packet data, packet length\<close> reads.\<close>

definition pk_message :: "rix_net_packet \<Rightarrow> (nat \<Rightarrow> u8) \<Rightarrow> u8 list" where
  "pk_message p b = map b [pk_start p..<pk_start p + rix_net_packet_length p]"

subsection \<open>The header\<close>

record rix_net_ipv6_header =
  ip6_source :: ip6
  ip6_destination :: ip6
  ip6_traffic_class :: u8
  ip6_flow_label :: u32
  ip6_payload_length :: u16
  ip6_next_header :: u8
  ip6_hop_limit :: u8

definition RIX_NET_IPV6_HEADER_SIZE :: nat where [simp]: "RIX_NET_IPV6_HEADER_SIZE = 40"

definition rix_net_ipv6_push :: "rix_net_packet \<Rightarrow> ip6 \<Rightarrow> ip6 \<Rightarrow> u8 \<Rightarrow> u8 \<Rightarrow> u8 \<Rightarrow> u32 \<Rightarrow> rc \<times> rix_net_packet" where
  "rix_net_ipv6_push p source destination next_header hop_limit traffic_class flow_label =
     (if hop_limit = 0 \<or> flow_label > 0xfffff \<or> rix_net_packet_length p > 65535 then (-1, p)
      else case rix_net_packet_push p RIX_NET_IPV6_HEADER_SIZE of
        (rc, w, p1) \<Rightarrow>
          if rc \<noteq> 0 then (-1, p1)
          else let version_flow = be32 (push_bit 28 6 OR push_bit 20 (ucast traffic_class) OR flow_label);
                   b = store_bytes (pk_bytes p1) w (repr32 version_flow);
                   payload_length = be16 (of_nat (rix_net_packet_length p1 - RIX_NET_IPV6_HEADER_SIZE));
                   b = store_bytes b (w + 4) (repr16 payload_length);
                   b = b(w + 6 := next_header);
                   b = b(w + 7 := hop_limit);
                   b = copy16 b (w + 8) source;
                   b = copy16 b (w + 24) destination
               in (0, p1\<lparr>pk_bytes := b\<rparr>))"

definition rix_net_ipv6_pull :: "rix_net_packet \<Rightarrow> rc \<times> rix_net_ipv6_header option \<times> rix_net_packet" where
  "rix_net_ipv6_pull p =
     (if rix_net_packet_data p = None \<or> rix_net_packet_length p < RIX_NET_IPV6_HEADER_SIZE then (-1, None, p)
      else let b = pk_bytes p; w = pk_start p; version_flow = get_be32 b w in
        if drop_bit 28 version_flow \<noteq> 6 then (-2, None, p)
        else let payload_length = get_be16 b (w + 4) in
          if unat payload_length > rix_net_packet_length p - RIX_NET_IPV6_HEADER_SIZE then (-3, None, p)
          else case rix_net_packet_pull p RIX_NET_IPV6_HEADER_SIZE of
            (rc, _, p1) \<Rightarrow>
              if rc \<noteq> 0 then (-1, None, p1)
              else (0, Some \<lparr>ip6_source = map (\<lambda>i. b (w + 8 + i)) [0..<16], ip6_destination = map (\<lambda>i. b (w + 24 + i)) [0..<16],
                             ip6_traffic_class = ucast (drop_bit 20 version_flow AND 0xff),
                             ip6_flow_label = version_flow AND 0xfffff, ip6_payload_length = payload_length,
                             ip6_next_header = b (w + 6), ip6_hop_limit = b (w + 7)\<rparr>,
                    p1\<lparr>pk_length := unat payload_length\<rparr>))"

subsection \<open>ICMPv6\<close>

definition RIX_NET_ICMPV6_ECHO_REQUEST :: u8 where "RIX_NET_ICMPV6_ECHO_REQUEST = 128"
definition RIX_NET_ICMPV6_ECHO_REPLY :: u8 where "RIX_NET_ICMPV6_ECHO_REPLY = 129"
definition RIX_NET_ICMPV6_NEIGHBOR_SOLICIT :: u8 where "RIX_NET_ICMPV6_NEIGHBOR_SOLICIT = 135"
definition RIX_NET_ICMPV6_NEIGHBOR_ADVERT :: u8 where "RIX_NET_ICMPV6_NEIGHBOR_ADVERT = 136"
definition RIX_NET_ICMPV6_ROUTER_SOLICIT :: u8 where "RIX_NET_ICMPV6_ROUTER_SOLICIT = 133"
definition RIX_NET_ICMPV6_ROUTER_ADVERT :: u8 where "RIX_NET_ICMPV6_ROUTER_ADVERT = 134"

definition icmpv6_put :: "rix_net_packet \<Rightarrow> u8 \<Rightarrow> u8 \<Rightarrow> ip6 \<Rightarrow> ip6 \<Rightarrow> rc \<times> rix_net_packet" where
  "icmpv6_put p type code source destination =
     (case rix_net_packet_push p 4 of
        (rc, w, p1) \<Rightarrow>
          if rc \<noteq> 0 then (-1, p1)
          else let b = (pk_bytes p1)(w := type);
                   b = b(w + 1 := code);
                   b = store16 b (w + 2) 0;
                   b = store16 b (w + 2) (be16 (icmpv6_checksum source destination (pk_message p1 b)))
               in (0, p1\<lparr>pk_bytes := b\<rparr>))"

definition rix_net_icmpv6_echo_push :: "rix_net_packet \<Rightarrow> u8 \<Rightarrow> u16 \<Rightarrow> u16 \<Rightarrow> ip6 \<Rightarrow> ip6 \<Rightarrow> u8 list \<Rightarrow> rc \<times> rix_net_packet" where
  "rix_net_icmpv6_echo_push p type identifier sequence source destination payload =
     (if length payload > 65527 \<or> (type \<noteq> RIX_NET_ICMPV6_ECHO_REQUEST \<and> type \<noteq> RIX_NET_ICMPV6_ECHO_REPLY) then (-1, p)
      else case rix_net_packet_put p (length payload) of
        (rc, body, p1) \<Rightarrow>
          if rc \<noteq> 0 then (-1, p1)
          else let p2 = p1\<lparr>pk_bytes := store_bytes (pk_bytes p1) body payload\<rparr> in
            case rix_net_packet_push p2 4 of
              (rc, fl, p3) \<Rightarrow>
                if rc \<noteq> 0 then (-1, p3)
                else let b = store_bytes (pk_bytes p3) fl (repr16 (be16 identifier));
                         b = store_bytes b (fl + 2) (repr16 (be16 sequence))
                     in icmpv6_put (p3\<lparr>pk_bytes := b\<rparr>) type 0 source destination)"

definition rix_net_icmpv6_echo_pull :: "rix_net_packet \<Rightarrow> ip6 \<Rightarrow> ip6 \<Rightarrow> rc \<times> rix_net_icmp_echo option \<times> rix_net_packet" where
  "rix_net_icmpv6_echo_pull p source destination =
     (if rix_net_packet_length p < 8 then (-1, None, p)
      else let b = pk_bytes p; w = pk_start p in
        if (b w \<noteq> RIX_NET_ICMPV6_ECHO_REQUEST \<and> b w \<noteq> RIX_NET_ICMPV6_ECHO_REPLY) \<or> b (w + 1) \<noteq> 0 \<or>
           icmpv6_checksum source destination (pk_message p b) \<noteq> 0 then (-2, None, p)
        else case rix_net_packet_pull p 8 of
          (rc, _, p1) \<Rightarrow> (rc, Some \<lparr>echo_type = b w, echo_code = b (w + 1), echo_identifier = get_be16 b (w + 4),
                                   echo_sequence = get_be16 b (w + 6)\<rparr>, p1))"

definition rix_net_icmpv6_neighbor_solicit_push :: "rix_net_packet \<Rightarrow> ip6 \<Rightarrow> ip6 \<Rightarrow> ip6 \<Rightarrow> rc \<times> rix_net_packet" where
  "rix_net_icmpv6_neighbor_solicit_push p source destination target =
     (case rix_net_packet_put p 20 of
        (rc, body, p1) \<Rightarrow>
          if rc \<noteq> 0 then (-1, p1)
          else let b = store_bytes (pk_bytes p1) body (replicate 4 0);
                   b = copy16 b (body + 4) target
               in icmpv6_put (p1\<lparr>pk_bytes := b\<rparr>) RIX_NET_ICMPV6_NEIGHBOR_SOLICIT 0 source destination)"

definition rix_net_icmpv6_neighbor_advert_push :: "rix_net_packet \<Rightarrow> ip6 \<Rightarrow> ip6 \<Rightarrow> u32 \<Rightarrow> ip6 \<Rightarrow> rc \<times> rix_net_packet" where
  "rix_net_icmpv6_neighbor_advert_push p source destination flags target =
     (if flags AND 0x00ffffff \<noteq> 0 then (-1, p)
      else case rix_net_packet_put p 20 of
        (rc, body, p1) \<Rightarrow>
          if rc \<noteq> 0 then (-1, p1)
          else let b = store_bytes (pk_bytes p1) body (repr32 (be32 flags));
                   b = copy16 b (body + 4) target
               in icmpv6_put (p1\<lparr>pk_bytes := b\<rparr>) RIX_NET_ICMPV6_NEIGHBOR_ADVERT 0 source destination)"

text \<open>The type, flags and target of the message.\<close>

definition rix_net_icmpv6_neighbor_pull :: "rix_net_packet \<Rightarrow> ip6 \<Rightarrow> ip6 \<Rightarrow> rc \<times> (u8 \<times> u32 \<times> ip6) option \<times> rix_net_packet" where
  "rix_net_icmpv6_neighbor_pull p source destination =
     (if rix_net_packet_length p < 24 then (-1, None, p)
      else let b = pk_bytes p; w = pk_start p in
        if (b w \<noteq> RIX_NET_ICMPV6_NEIGHBOR_SOLICIT \<and> b w \<noteq> RIX_NET_ICMPV6_NEIGHBOR_ADVERT) \<or> b (w + 1) \<noteq> 0 \<or>
           rix_net_packet_length p \<noteq> 24 \<or> icmpv6_checksum source destination (pk_message p b) \<noteq> 0 then (-2, None, p)
        else case rix_net_packet_pull p 24 of
          (rc, _, p1) \<Rightarrow> (rc, Some (b w, get_be32 b (w + 4), map (\<lambda>i. b (w + 8 + i)) [0..<16]), p1))"

definition rix_net_icmpv6_router_solicit_push :: "rix_net_packet \<Rightarrow> ip6 \<Rightarrow> ip6 \<Rightarrow> rc \<times> rix_net_packet" where
  "rix_net_icmpv6_router_solicit_push p source destination =
     (case rix_net_packet_put p 4 of
        (rc, body, p1) \<Rightarrow>
          if rc \<noteq> 0 then (-1, p1)
          else icmpv6_put (p1\<lparr>pk_bytes := store_bytes (pk_bytes p1) body (replicate 4 0)\<rparr>)
                 RIX_NET_ICMPV6_ROUTER_SOLICIT 0 source destination)"

definition rix_net_icmpv6_router_advert_push ::
    "rix_net_packet \<Rightarrow> ip6 \<Rightarrow> ip6 \<Rightarrow> u8 \<Rightarrow> u8 \<Rightarrow> u16 \<Rightarrow> ip6 \<Rightarrow> u8 \<Rightarrow> rc \<times> rix_net_packet" where
  "rix_net_icmpv6_router_advert_push p source destination hop_limit flags router_lifetime prefix prefix_length =
     (if unat prefix_length > 128 then (-1, p)
      else case rix_net_packet_put p 44 of
        (rc, body, p1) \<Rightarrow>
          if rc \<noteq> 0 then (-1, p1)
          else let b = (pk_bytes p1)(body := hop_limit);
                   b = b(body + 1 := flags);
                   b = store_bytes b (body + 2) (repr16 (be16 router_lifetime));
                   b = store_bytes b (body + 4) (replicate 8 0);
                   b = b(body + 12 := 3);
                   b = b(body + 13 := 4);
                   b = b(body + 14 := prefix_length);
                   b = b(body + 15 := 0xc0);
                   b = store_bytes b (body + 16) (repr32 (be32 0xffffffff));
                   b = store_bytes b (body + 20) (replicate 8 0);
                   b = store_bytes b (body + 28) (map ((!) prefix) [0..<16])
               in icmpv6_put (p1\<lparr>pk_bytes := b\<rparr>) RIX_NET_ICMPV6_ROUTER_ADVERT 0 source destination)"

text \<open>The hop limit, flags, router lifetime, prefix and prefix length of the message.\<close>

definition rix_net_icmpv6_router_advert_pull ::
    "rix_net_packet \<Rightarrow> ip6 \<Rightarrow> ip6 \<Rightarrow> rc \<times> (u8 \<times> u8 \<times> u16 \<times> ip6 \<times> u8) option \<times> rix_net_packet" where
  "rix_net_icmpv6_router_advert_pull p source destination =
     (if rix_net_packet_length p \<noteq> 48 then (-1, None, p)
      else let b = pk_bytes p; w = pk_start p in
        if b w \<noteq> RIX_NET_ICMPV6_ROUTER_ADVERT \<or> b (w + 1) \<noteq> 0 \<or> b (w + 16) \<noteq> 3 \<or> b (w + 17) \<noteq> 4 \<or> b (w + 19) \<noteq> 0xc0 \<or>
           unat (b (w + 18)) > 128 \<or> icmpv6_checksum source destination (pk_message p b) \<noteq> 0 then (-2, None, p)
        else case rix_net_packet_pull p 48 of
          (rc, _, p1) \<Rightarrow> (rc, Some (b (w + 4), b (w + 5), get_be16 b (w + 6), map (\<lambda>i. b (w + 32 + i)) [0..<16], b (w + 18)), p1))"

subsection \<open>Addresses\<close>

text \<open>The address as left in the caller's array, with the code.\<close>

definition rix_net_ipv6_slaac_address :: "ip6 \<Rightarrow> u8 \<Rightarrow> u8 list \<Rightarrow> ip6 \<Rightarrow> rc \<times> ip6" where
  "rix_net_ipv6_slaac_address prefix prefix_length interface_id address =
     (if unat prefix_length > 128 then (-1, address)
      else let a = map ((!) prefix) [0..<16];
               a = fold (\<lambda>k a. a[k div 8 := a ! (k div 8) AND NOT (push_bit (7 - k mod 8) 1)]) [unat prefix_length..<128] a
           in if prefix_length \<noteq> 64 then (-2, a)
              else (0, fold (\<lambda>i a. a[8 + i := interface_id ! i]) [0..<8] a))"

definition rix_net_ipv6_link_local_from_mac :: "mac \<Rightarrow> ip6" where
  "rix_net_ipv6_link_local_from_mac m =
     [0xfe, 0x80, 0, 0, 0, 0, 0, 0, m ! 0 XOR 0x02, m ! 1, m ! 2, 0xff, 0xfe, m ! 3, m ! 4, m ! 5]"

definition ipv6_address_equal :: "ip6 \<Rightarrow> ip6 \<Rightarrow> bool" where
  "ipv6_address_equal left right \<longleftrightarrow> fold (\<lambda>i different. different OR (left ! i XOR right ! i)) [0..<16] 0 = 0"

subsection \<open>The neighbour cache\<close>

definition RIX_NET_IPV6_NEIGHBOR_CACHE_SIZE :: nat where "RIX_NET_IPV6_NEIGHBOR_CACHE_SIZE = 8"

record rix_net_ipv6_neighbor =
  nb_used :: bool
  nb_address :: ip6
  nb_mac :: mac
  nb_expires :: u64

type_synonym rix_net_ipv6_neighbor_cache = "nat \<Rightarrow> rix_net_ipv6_neighbor"

definition rix_net_ipv6_neighbor_init :: "rix_net_ipv6_neighbor_cache \<Rightarrow> rix_net_ipv6_neighbor_cache" where
  "rix_net_ipv6_neighbor_init cache =
     (\<lambda>i. if i < RIX_NET_IPV6_NEIGHBOR_CACHE_SIZE then (cache i)\<lparr>nb_used := False\<rparr> else cache i)"

definition rix_net_ipv6_neighbor_learn ::
    "rix_net_ipv6_neighbor_cache \<Rightarrow> ip6 \<Rightarrow> mac \<Rightarrow> u64 \<Rightarrow> rc \<times> rix_net_ipv6_neighbor_cache" where
  "rix_net_ipv6_neighbor_learn cache address m expires =
     (let same = find (\<lambda>i. nb_used (cache i) \<and> ipv6_address_equal (nb_address (cache i)) address) [0..<RIX_NET_IPV6_NEIGHBOR_CACHE_SIZE];
          slot = (case same of Some i \<Rightarrow> Some i
                  | None \<Rightarrow> find (\<lambda>i. \<not> nb_used (cache i)) [0..<RIX_NET_IPV6_NEIGHBOR_CACHE_SIZE])
      in case slot of None \<Rightarrow> (-2, cache)
         | Some i \<Rightarrow> (0, cache(i := \<lparr>nb_used = True, nb_address = address, nb_mac = m, nb_expires = expires\<rparr>)))"

definition rix_net_ipv6_neighbor_lookup :: "rix_net_ipv6_neighbor_cache \<Rightarrow> ip6 \<Rightarrow> u64 \<Rightarrow> mac option" where
  "rix_net_ipv6_neighbor_lookup cache address now =
     map_option (\<lambda>i. nb_mac (cache i))
       (find (\<lambda>i. nb_used (cache i) \<and> nb_expires (cache i) > now \<and> ipv6_address_equal (nb_address (cache i)) address)
          [0..<RIX_NET_IPV6_NEIGHBOR_CACHE_SIZE])"

definition rix_net_ipv6_neighbor_expire :: "rix_net_ipv6_neighbor_cache \<Rightarrow> u64 \<Rightarrow> rc \<times> rix_net_ipv6_neighbor_cache" where
  "rix_net_ipv6_neighbor_expire cache now =
     fold (\<lambda>i (expired, c). if nb_used (c i) \<and> nb_expires (c i) \<le> now
                           then (expired + 1, c(i := (c i)\<lparr>nb_used := False\<rparr>)) else (expired, c))
          [0..<RIX_NET_IPV6_NEIGHBOR_CACHE_SIZE] (0, cache)"

subsection \<open>Transports over IPv6\<close>

definition rix_net_udp6_push :: "rix_net_packet \<Rightarrow> ip6 \<Rightarrow> ip6 \<Rightarrow> u16 \<Rightarrow> u16 \<Rightarrow> u8 list \<Rightarrow> rc \<times> rix_net_packet" where
  "rix_net_udp6_push p source destination source_port destination_port payload =
     (if length payload > 65527 then (-1, p)
      else case rix_net_packet_put p (length payload) of
        (rc, body, p1) \<Rightarrow>
          if rc \<noteq> 0 then (-1, p1)
          else let p2 = p1\<lparr>pk_bytes := store_bytes (pk_bytes p1) body payload\<rparr> in
            case rix_net_packet_push p2 8 of
              (rc, w, p3) \<Rightarrow>
                if rc \<noteq> 0 then (-1, p3)
                else let b = store_bytes (pk_bytes p3) w (repr16 (be16 source_port));
                         b = store_bytes b (w + 2) (repr16 (be16 destination_port));
                         b = store_bytes b (w + 4) (repr16 (be16 (of_nat (length payload + 8))));
                         b = store_bytes b (w + 6) [0, 0];
                         b = store_bytes b (w + 6) (repr16 (be16 (transport6_checksum source destination 17 (pk_message p3 b))))
                     in (0, p3\<lparr>pk_bytes := b\<rparr>))"

definition rix_net_udp6_pull :: "rix_net_packet \<Rightarrow> ip6 \<Rightarrow> ip6 \<Rightarrow> rc \<times> rix_net_udp_header option \<times> rix_net_packet" where
  "rix_net_udp6_pull p source destination =
     (if rix_net_packet_length p < 8 then (-1, None, p)
      else let b = pk_bytes p; w = pk_start p; len = get_be16 b (w + 4) in
        if unat len < 8 \<or> unat len \<noteq> rix_net_packet_length p \<or>
           transport6_checksum source destination 17 (map b [w..<w + unat len]) \<noteq> 0 then (-2, None, p)
        else let header = \<lparr>udp_source_port = get_be16 b w, udp_destination_port = get_be16 b (w + 2),
                           udp_length = len, udp_checksum = get_be16 b (w + 6)\<rparr> in
          case rix_net_packet_pull p 8 of
            (rc, _, p1) \<Rightarrow> if rc \<noteq> 0 then (-1, Some header, p1)
                           else (0, Some header, p1\<lparr>pk_length := unat len - 8\<rparr>))"

definition rix_net_tcp6_push ::
    "rix_net_packet \<Rightarrow> ip6 \<Rightarrow> ip6 \<Rightarrow> u16 \<Rightarrow> u16 \<Rightarrow> u32 \<Rightarrow> u32 \<Rightarrow> u16 \<Rightarrow> u16 \<Rightarrow> u8 list \<Rightarrow> rc \<times> rix_net_packet" where
  "rix_net_tcp6_push p source destination source_port destination_port sequence acknowledgment flags window payload =
     (if length payload > RIX_NET_MTU - 20 then (-1, p)
      else case rix_net_packet_put p (length payload) of
        (rc, body, p1) \<Rightarrow>
          if rc \<noteq> 0 then (-1, p1)
          else let p2 = p1\<lparr>pk_bytes := store_bytes (pk_bytes p1) body payload\<rparr> in
            case rix_net_packet_push p2 20 of
              (rc, w, p3) \<Rightarrow>
                if rc \<noteq> 0 then (-1, p3)
                else let b = store_bytes (pk_bytes p3) w (repr16 (be16 source_port));
                         b = store_bytes b (w + 2) (repr16 (be16 destination_port));
                         b = store_bytes b (w + 4) (repr32 (be32 sequence));
                         b = store_bytes b (w + 8) (repr32 (be32 acknowledgment));
                         b = b(w + 12 := 0x50);
                         b = b(w + 13 := repr16 (be16 flags) ! 1);
                         b = store_bytes b (w + 14) (repr16 (be16 window));
                         b = store_bytes b (w + 16) [0, 0];
                         b = store_bytes b (w + 18) [0, 0];
                         b = store_bytes b (w + 16) (repr16 (be16 (transport6_checksum source destination 6 (pk_message p3 b))))
                     in (0, p3\<lparr>pk_bytes := b\<rparr>))"

definition rix_net_tcp6_pull :: "rix_net_packet \<Rightarrow> ip6 \<Rightarrow> ip6 \<Rightarrow> rc \<times> rix_net_tcp_header option \<times> rix_net_packet" where
  "rix_net_tcp6_pull p source destination =
     (if rix_net_packet_length p < 20 then (-1, None, p)
      else let b = pk_bytes p; w = pk_start p; header_length = unat (drop_bit 4 (b (w + 12))) * 4 in
        if header_length < 20 \<or> header_length > rix_net_packet_length p \<or>
           transport6_checksum source destination 6 (pk_message p b) \<noteq> 0 then (-2, None, p)
        else let header = \<lparr>tcp_source_port = get_be16 b w, tcp_destination_port = get_be16 b (w + 2),
                           tcp_sequence = get_be32 b (w + 4), tcp_acknowledgment = get_be32 b (w + 8),
                           tcp_flags = push_bit 8 (ucast (b (w + 12)) AND 0x0f) OR ucast (b (w + 13)), tcp_window = get_be16 b (w + 14),
                           tcp_checksum = get_be16 b (w + 16), tcp_urgent = get_be16 b (w + 18)\<rparr> in
          case rix_net_packet_pull p header_length of
            (rc, _, p1) \<Rightarrow> if rc \<noteq> 0 then (-1, Some header, p1) else (0, Some header, p1))"

subsection \<open>Routes\<close>

definition RIX_NET_IPV6_ROUTE_MAX :: nat where "RIX_NET_IPV6_ROUTE_MAX = 4"

record rix_net_ipv6_route =
  rt_prefix :: ip6
  rt_next_hop :: ip6
  rt_prefix_length :: u8
  rt_used :: bool

type_synonym rix_net_ipv6_route_table = "nat \<Rightarrow> rix_net_ipv6_route"

definition ipv6_prefix_matches :: "ip6 \<Rightarrow> ip6 \<Rightarrow> u8 \<Rightarrow> bool" where
  "ipv6_prefix_matches address prefix len =
     (let whole = unat len div 8; remainder = unat len mod 8
      in list_all (\<lambda>i. address ! i = prefix ! i) [0..<whole] \<and>
         (remainder = 0 \<or> drop_bit (8 - remainder) (address ! whole XOR prefix ! whole) = 0))"

definition rix_net_ipv6_route_init :: "rix_net_ipv6_route_table \<Rightarrow> rix_net_ipv6_route_table" where
  "rix_net_ipv6_route_init table = (\<lambda>i. if i < RIX_NET_IPV6_ROUTE_MAX then (table i)\<lparr>rt_used := False\<rparr> else table i)"

definition rix_net_ipv6_route_add :: "rix_net_ipv6_route_table \<Rightarrow> ip6 \<Rightarrow> u8 \<Rightarrow> ip6 \<Rightarrow> rc \<times> rix_net_ipv6_route_table" where
  "rix_net_ipv6_route_add table prefix prefix_length next_hop =
     (if unat prefix_length > 128 then (-1, table)
      else let same = find (\<lambda>i. rt_used (table i) \<and> rt_prefix_length (table i) = prefix_length \<and>
                                ipv6_prefix_matches (rt_prefix (table i)) prefix prefix_length) [0..<RIX_NET_IPV6_ROUTE_MAX];
               slot = (case same of Some i \<Rightarrow> Some i | None \<Rightarrow> find (\<lambda>i. \<not> rt_used (table i)) [0..<RIX_NET_IPV6_ROUTE_MAX])
           in case slot of None \<Rightarrow> (-2, table)
              | Some i \<Rightarrow> (0, table(i := \<lparr>rt_prefix = prefix, rt_next_hop = next_hop, rt_prefix_length = prefix_length, rt_used = True\<rparr>)))"

definition rix_net_ipv6_route_lookup :: "rix_net_ipv6_route_table \<Rightarrow> ip6 \<Rightarrow> ip6 option" where
  "rix_net_ipv6_route_lookup table destination =
     (case fold (\<lambda>i (best, best_length).
               if rt_used (table i) \<and> rt_prefix_length (table i) \<ge> best_length \<and>
                  ipv6_prefix_matches destination (rt_prefix (table i)) (rt_prefix_length (table i))
               then (Some i, rt_prefix_length (table i)) else (best, best_length))
             [0..<RIX_NET_IPV6_ROUTE_MAX] (None, 0) of
        (None, _) \<Rightarrow> None
      | (Some i, _) \<Rightarrow> let next_hop = rt_next_hop (table i)
                      in if list_all (\<lambda>i. next_hop ! i = 0) [0..<16] then Some destination else Some next_hop)"

end
