(* ===== verification/Ipv6_Layers.thy ===== *)
theory Ipv6_Layers
  imports Ipv6
begin

text \<open>
  IPv6 keeps the layer contracts: its header is a trimming layer, and ICMPv6 echo, UDP and TCP over it are
  transports.
\<close>

subsection \<open>Sums\<close>

lemma sum_bytes_eq: "sum_bytes s xs = s + of_nat (wsum xs)"
proof (induction s xs rule: sum_bytes.induct)
  case (1 s a b xs)
  then show ?case unfolding sum_bytes.simps wsum.simps or_eq_pair by (simp add: ac_simps)
qed (simp_all add: push_bit_eq_mult)

lemma repr_be: "repr16 (be16 v) = bytes16 v" "repr32 (be32 w) = bytes32 w"
  by (simp_all add: repr16_def repr32_def bytes16_def bytes32_def ucast_be16 ucast_be32)

definition pseudo6 :: "ip6 \<Rightarrow> ip6 \<Rightarrow> u8 \<Rightarrow> nat \<Rightarrow> u32" where
  "pseudo6 s d pr n = of_nat (wsum s + wsum d + wsum (bytes32 (of_nat n)) + unat pr)"

lemma transport6_checksum_eq:
  "transport6_checksum s d pr xs = rix_net_checksum_add (pseudo6 s d pr (length xs) + of_nat (wsum xs))"
  by (simp add: transport6_checksum_def sum_bytes_eq repr_be finish_sum_def rix_net_checksum_add_def pseudo6_def Let_def)

lemma icmpv6_checksum_eq: "icmpv6_checksum s d xs = transport6_checksum s d RIX_NET_IP_PROTO_ICMPV6 xs"
  by (simp add: icmpv6_checksum_def transport6_checksum_def)

lemma pseudo6_bound:
  assumes "length s = 16" "length d = 16"
  shows "unat (pseudo6 s d pr n) \<le> 2000000"
proof -
  have "2 * wsum s \<le> 1114095" "2 * wsum d \<le> 1114095" "2 * wsum (bytes32 (of_nat n)) \<le> 327675"
    using wsum_bound[of s] wsum_bound[of d] wsum_bound[of "bytes32 (of_nat n)"] assms by simp_all
  then have le: "wsum s + wsum d + wsum (bytes32 (of_nat n)) + unat pr \<le> 2000000" using u8_bound[of pr] by linarith
  show ?thesis
    unfolding pseudo6_def by (rule order_trans[OF _ le]) (simp only: unsigned_of_nat of_nat_id take_bit_nat_less_eq_self)
qed

lemma transport6_accepts:
  assumes "length s = 16" "length d = 16" "length xs \<le> 1580"
  shows "transport6_checksum s d pr xs = 0 \<longleftrightarrow> sum_ok (unat (pseudo6 s d pr (length xs)) + wsum xs)"
  unfolding transport6_checksum_eq
  by (rule checksum_verifies) (use pseudo6_bound[OF assms(1,2), of pr "length xs"] wsum_short[of xs] assms(3) in simp)

lemma transport6_sum_ok:
  assumes "length s = 16" "length d = 16" "length (xs @ [0, 0] @ ys) \<le> 1580" "even (length xs)"
  shows "transport6_checksum s d pr (xs @ bytes16 (transport6_checksum s d pr (xs @ bytes16 0 @ ys)) @ ys) = 0"
proof -
  define c where "c = transport6_checksum s d pr (xs @ bytes16 0 @ ys)"
  have "sum_ok (unat (pseudo6 s d pr (length (xs @ bytes16 c @ ys))) + wsum (xs @ bytes16 c @ ys))"
    by (rule transport_sum_ok)
      (use assms pseudo6_bound[OF assms(1,2)] in \<open>simp_all add: c_def transport6_checksum_eq bytes16_0\<close>)
  then show ?thesis using transport6_accepts[of s d "xs @ bytes16 c @ ys" pr] assms by (simp add: c_def)
qed

lemma pk_message_view: "pk_message p (pk_bytes p) = pk_view p"
  by (simp add: pk_message_def pk_view_def rix_net_packet_length_def)

subsection \<open>The header is a trimming layer\<close>

type_synonym ip6_params = "ip6 \<times> ip6 \<times> u8 \<times> u8 \<times> u8 \<times> u32"

definition ip6_word :: "u8 \<Rightarrow> u32 \<Rightarrow> u32" where
  "ip6_word tc fl = push_bit 28 6 OR push_bit 20 (ucast tc) OR fl"

definition ip6_bytes :: "ip6_params \<Rightarrow> nat \<Rightarrow> u8 list" where
  "ip6_bytes = (\<lambda>(s, d, nh, hl, tc, fl) n. bytes32 (ip6_word tc fl) @ bytes16 (of_nat n) @ [nh, hl] @ s @ d)"

definition ip6_enc :: "ip6_params \<Rightarrow> u8 list \<Rightarrow> u8 list" where
  "ip6_enc h xs = ip6_bytes h (length xs) @ xs"

definition ip6_hdr :: "ip6_params \<Rightarrow> u8 list \<Rightarrow> rix_net_ipv6_header" where
  "ip6_hdr = (\<lambda>(s, d, nh, hl, tc, fl) xs. \<lparr>ip6_source = s, ip6_destination = d, ip6_traffic_class = tc, ip6_flow_label = fl,
      ip6_payload_length = of_nat (length xs), ip6_next_header = nh, ip6_hop_limit = hl\<rparr>)"

definition ip6_valid :: "ip6_params \<Rightarrow> u8 list \<Rightarrow> bool" where
  "ip6_valid = (\<lambda>(s, d, nh, hl, tc, fl) xs. length s = 16 \<and> length d = 16 \<and> hl \<noteq> 0 \<and> fl \<le> 0xfffff)"

definition ip6_push' :: "ip6_params \<Rightarrow> rix_net_packet \<Rightarrow> rc \<times> rix_net_packet" where
  "ip6_push' = (\<lambda>(s, d, nh, hl, tc, fl) p. rix_net_ipv6_push p s d nh hl tc fl)"

lemma map_nth16 [simp]: "length m = 16 \<Longrightarrow> map ((!) m) [0..<16] = m"
  using map_nth[of m] by simp

lemma ip6_word_fields:
  assumes "fl \<le> 0xfffff"
  shows "drop_bit 28 (ip6_word tc fl) = 6" "ucast (drop_bit 20 (ip6_word tc fl) AND 0xff) = tc" "ip6_word tc fl AND 0xfffff = fl"
proof -
  have m: "(0xfffff :: u32) = mask 20" "(0xff :: u32) = mask 8" by (simp_all add: mask_eq_exp_minus_1)
  have f: "n < 20" if "bit fl n" for n
  proof (rule ccontr)
    assume "\<not> n < 20"
    have "bit (unat fl) n" using that by (simp add: bit_unsigned_iff)
    then have "unat fl div 2 ^ n \<noteq> 0" by (metis bit_iff_odd even_zero)
    then have "2 ^ n \<le> unat fl" by (simp add: div_eq_0_iff not_less)
    moreover have "(2 :: nat) ^ 20 \<le> 2 ^ n" using \<open>\<not> n < 20\<close> by (intro power_increasing) simp_all
    moreover have "unat fl \<le> 0xfffff" using assms by (simp add: word_le_nat_alt)
    ultimately show False by simp
  qed
  have six: "push_bit 28 (6 :: u32) = push_bit 29 (mask 2)" by (simp add: mask_eq_exp_minus_1 push_bit_eq_mult)
  have bw: "bit (ip6_word tc fl) n \<longleftrightarrow> 29 \<le> n \<and> n < 31 \<or> 20 \<le> n \<and> bit tc (n - 20) \<or> bit fl n" for n
    unfolding ip6_word_def six by (auto simp: bit_simps simp del: mask_numeral dest: f bit_u8)
  have s6: "(6 :: u32) = push_bit 1 (mask 2)" by (simp add: mask_eq_exp_minus_1 push_bit_eq_mult)
  have b6: "bit (6 :: u32) n \<longleftrightarrow> 1 \<le> n \<and> n < 3" for n unfolding s6 bit_push_bit_iff bit_mask_iff by auto
  show "drop_bit 28 (ip6_word tc fl) = 6"
    by (rule bit_word_eqI) (auto simp: bit_drop_bit_eq bw b6 simp del: bit_numeral_word_iff dest: f bit_u8)
  show "ucast (drop_bit 20 (ip6_word tc fl) AND 0xff) = tc" unfolding m
    by (rule bit_word_eqI) (auto simp: bw bit_simps simp del: mask_numeral dest: f bit_u8)
  show "ip6_word tc fl AND 0xfffff = fl" unfolding m
    by (rule bit_word_eqI) (auto simp: bw bit_simps simp del: mask_numeral dest: f bit_u8)
qed

lemma length_ip6_bytes: "ip6_valid h xs \<Longrightarrow> length (ip6_bytes h n) = 40"
  by (auto simp: ip6_valid_def ip6_bytes_def split: prod.splits)

lemma ip6_push_view:
  assumes "packet_ok p" "40 \<le> pk_start p" "ip6_valid h xs"
  shows "\<exists>p'. ip6_push' h p = (0, p') \<and> packet_ok p' \<and> pk_start p' = pk_start p - 40 \<and> pk_view p' = ip6_enc h (pk_view p)"
proof -
  obtain s d nh hl tc fl where h: "h = (s, d, nh, hl, tc, fl)" by (rule prod_cases6)
  have val: "length s = 16" "length d = 16" "hl \<noteq> 0" "fl \<le> 0xfffff" using assms(3) by (simp_all add: ip6_valid_def h)
  define w where "w = pk_start p - 40"
  define p1 where "p1 = p\<lparr>pk_start := w, pk_length := pk_length p + 40\<rparr>"
  define n where "n = pk_length p"
  have push: "rix_net_packet_push p 40 = (0, w, p1)" using push_eq[OF assms(2)] by (simp add: w_def p1_def)
  have l: "rix_net_packet_length p1 - 40 = n" by (simp add: rix_net_packet_length_def p1_def n_def)
  have st: "copy16 (copy16 ((store_bytes (store_bytes (pk_bytes p1) w (bytes32 (ip6_word tc fl))) (w + 4) (bytes16 (of_nat n)))
       (w + 6 := nh, w + 7 := hl)) (w + 8) s) (w + 24) d = store_bytes (pk_bytes p1) w (ip6_bytes h n)"
    unfolding stores copy16_def using val(1,2) by (simp add: store_bytes_extend ip6_bytes_def h)
  have "rix_net_ipv6_push p s d nh hl tc fl = (0, p1\<lparr>pk_bytes := store_bytes (pk_bytes p1) w (ip6_bytes h n)\<rparr>)"
    unfolding rix_net_ipv6_push_def RIX_NET_IPV6_HEADER_SIZE_def push prod.case Let_def l repr_be ip6_word_def[symmetric] st
    using assms(1) val by (auto simp: packet_ok_def rix_net_packet_length_def)
  moreover have "pk_view (p1\<lparr>pk_bytes := store_bytes (pk_bytes p1) w (ip6_bytes h n)\<rparr>) = ip6_bytes h n @ pk_view p"
    using push_view[of 40 p "ip6_bytes h n"] assms(2) length_ip6_bytes[OF assms(3)] by (simp add: p1_def w_def)
  moreover have "packet_ok (p1\<lparr>pk_bytes := store_bytes (pk_bytes p1) w (ip6_bytes h n)\<rparr>)"
    using assms by (simp add: packet_ok_def p1_def w_def)
  ultimately show ?thesis by (auto simp: ip6_push'_def h ip6_enc_def p1_def w_def n_def)
qed

text \<open>Sixteen bytes of a header read one by one.\<close>

lemma header_slice:
  assumes "pk_view q = hs @ ys" "j + n \<le> length hs"
  shows "map (\<lambda>i. pk_bytes q (pk_start q + j + i)) [0..<n] = take n (drop j hs)"
proof (rule nth_equalityI)
  fix i
  assume i: "i < length (map (\<lambda>i. pk_bytes q (pk_start q + j + i)) [0..<n])"
  then have "pk_bytes q (pk_start q + (j + i)) = hs ! (j + i)" using assms by (intro pk_prefix_nth) auto
  then show "map (\<lambda>i. pk_bytes q (pk_start q + j + i)) [0..<n] ! i = take n (drop j hs) ! i"
    using i assms(2) by (simp add: add.assoc)
qed (use assms(2) in simp)

lemma ip6_pull_view:
  assumes "packet_ok q" "ip6_valid h xs" "pk_view q = ip6_enc h xs @ pad"
  shows "\<exists>q'. rix_net_ipv6_pull q = (0, Some (ip6_hdr h xs), q') \<and> packet_ok q' \<and> pk_view q' = xs"
proof -
  obtain s d nh hl tc fl where h: "h = (s, d, nh, hl, tc, fl)" by (rule prod_cases6)
  have val: "length s = 16" "length d = 16" "hl \<noteq> 0" "fl \<le> 0xfffff" using assms(2) by (simp_all add: ip6_valid_def h)
  define hs where "hs = ip6_bytes h (length xs)"
  define l :: u16 where "l = of_nat (length xs)"
  have hs: "hs = bytes32 (ip6_word tc fl) @ bytes16 l @ [nh, hl] @ s @ d" by (simp add: hs_def ip6_bytes_def h l_def)
  have lh: "length hs = 40" unfolding hs_def by (rule length_ip6_bytes[OF assms(2)])
  have v: "pk_view q = hs @ xs @ pad" using assms(3) by (simp add: ip6_enc_def hs_def)
  have len: "pk_length q = 40 + length xs + length pad" using length_pk_view[of q] v lh by simp
  then have "length xs < 2 ^ LENGTH(16)" using assms(1) by (simp add: packet_ok_def)
  then have ul: "unat l = length xs" unfolding l_def by (rule unat_of_nat_small)
  define st where "st = pk_start q"
  define b where "b = pk_bytes q"
  note hb = hs bytes16_def bytes32_def
  have f: "get_be32 b st = ip6_word tc fl" "get_be16 b (st + 4) = l" "b (st + 6) = nh" "b (st + 7) = hl"
    using header_get32[OF v, of 0] header_get16[OF v, of 4] pk_prefix_nth[OF v, of 6] pk_prefix_nth[OF v, of 7] lh
    by (simp_all add: hb st_def b_def)
  have sd: "map (\<lambda>i. b (st + 8 + i)) [0..<16] = s" "map (\<lambda>i. b (st + 24 + i)) [0..<16] = d"
    using header_slice[OF v, of 8 16] header_slice[OF v, of 24 16] lh val(1,2) by (simp_all add: hb st_def b_def)
  let ?q' = "q\<lparr>pk_start := pk_start q + 40, pk_length := length xs\<rparr>"
  have "pk_view ?q' = xs" using pull_view[of 40 "length xs" q] len v lh by simp
  moreover have "packet_ok ?q'" using assms(1) len by (simp add: packet_ok_def)
  moreover have "rix_net_ipv6_pull q = (0, Some (ip6_hdr h xs), ?q')"
    using f sd ul len ip6_word_fields[OF val(4), of tc] l_def
    by (simp add: rix_net_ipv6_pull_def pull_eq rix_net_packet_length_def packet_data_ok[OF assms(1)] ip6_hdr_def h Let_def
        st_def[symmetric] b_def[symmetric])
  ultimately show ?thesis by blast
qed

interpretation ip6: trimming_layer ip6_push' rix_net_ipv6_pull ip6_enc ip6_hdr 40 ip6_valid
proof unfold_locales
  fix q h xs
  assume "packet_ok q" "ip6_valid h xs" "pk_view q = ip6_enc h xs"
  then show "\<exists>q'. rix_net_ipv6_pull q = (0, Some (ip6_hdr h xs), q') \<and> packet_ok q' \<and> pk_view q' = xs"
    using ip6_pull_view[of q h xs "[]"] by simp
qed (use ip6_push_view ip6_pull_view in blast)+

subsection \<open>UDP over IPv6\<close>

lemma pk_message_store: "pk_message p b = pk_view (p\<lparr>pk_bytes := b\<rparr>)"
  by (simp add: pk_message_def pk_view_def rix_net_packet_length_def)

lemma repr16_0: "[0, 0] = bytes16 0"
  by (simp add: bytes16_0)

definition addr6_ok :: "ip6 \<times> ip6 \<Rightarrow> bool" where
  "addr6_ok a \<longleftrightarrow> length (fst a) = 16 \<and> length (snd a) = 16"

definition udp6_enc_checksum :: "ip6 \<times> ip6 \<Rightarrow> u16 \<times> u16 \<Rightarrow> u8 list \<Rightarrow> u16" where
  "udp6_enc_checksum a t xs = transport6_checksum (fst a) (snd a) 17 (udp_bytes (fst t) (snd t) (length xs + 8) 0 @ xs)"

definition udp6_enc :: "ip6 \<times> ip6 \<Rightarrow> u16 \<times> u16 \<Rightarrow> u8 list \<Rightarrow> u8 list" where
  "udp6_enc a t xs = udp_bytes (fst t) (snd t) (length xs + 8) (udp6_enc_checksum a t xs) @ xs"

definition udp6_hdr :: "ip6 \<times> ip6 \<Rightarrow> u16 \<times> u16 \<Rightarrow> u8 list \<Rightarrow> rix_net_udp_header" where
  "udp6_hdr a t xs = \<lparr>udp_source_port = fst t, udp_destination_port = snd t,
     udp_length = of_nat (length xs + 8), udp_checksum = udp6_enc_checksum a t xs\<rparr>"

definition udp6_push' :: "ip6 \<times> ip6 \<Rightarrow> u16 \<times> u16 \<Rightarrow> u8 list \<Rightarrow> rix_net_packet \<Rightarrow> rc \<times> rix_net_packet" where
  "udp6_push' a t xs p = rix_net_udp6_push p (fst a) (snd a) (fst t) (snd t) xs"

definition udp6_pull' :: "ip6 \<times> ip6 \<Rightarrow> rix_net_packet \<Rightarrow> rc \<times> rix_net_udp_header option \<times> rix_net_packet" where
  "udp6_pull' a q = rix_net_udp6_pull q (fst a) (snd a)"

lemma udp6_push_view:
  assumes "packet_ok p" "pk_length p = 0" "8 \<le> pk_start p" "pk_start p + 8 + length xs \<le> RIX_NET_FRAME_CAPACITY"
  shows "\<exists>p'. rix_net_udp6_push p s d sp dp xs = (0, p') \<and> packet_ok p' \<and> pk_start p' = pk_start p - 8 \<and>
           pk_view p' = udp6_enc (s, d) (sp, dp) xs"
proof -
  have v0: "pk_view p = []" using assms(2) by (simp add: pk_view_def)
  have room: "pk_start p + pk_length p + length xs \<le> RIX_NET_FRAME_CAPACITY" using assms(2,4) by simp
  obtain body p1 w p3 where a: "rix_net_packet_put p (length xs) = (0, body, p1)"
    "rix_net_packet_push (p1\<lparr>pk_bytes := store_bytes (pk_bytes p1) body xs\<rparr>) 8 = (0, w, p3)"
    "pk_start p3 = w" "w = pk_start p - 8" "packet_ok p3"
    "\<And>hs. length hs = 8 \<Longrightarrow> pk_view (p3\<lparr>pk_bytes := store_bytes (pk_bytes p3) w hs\<rparr>) = hs @ pk_view p @ xs"
    by (rule put_push[OF assms(1,3) room]) blast
  define n where "n = length xs + 8"
  define c where "c = udp6_enc_checksum (s, d) (sp, dp) xs"
  have st: "store_bytes (store_bytes (store_bytes (store_bytes (pk_bytes p3) w (bytes16 sp)) (w + 2) (bytes16 dp)) (w + 4) (bytes16 (of_nat n)))
      (w + 6) (bytes16 0) = store_bytes (pk_bytes p3) w (udp_bytes sp dp n 0)"
    by (simp add: store_bytes_extend udp_bytes_def)
  have c: "transport6_checksum s d 17 (pk_message p3 (store_bytes (pk_bytes p3) w (udp_bytes sp dp n 0))) = c"
    using a(6)[of "udp_bytes sp dp n 0"] v0 by (simp add: pk_message_store c_def udp6_enc_checksum_def n_def)
  have o: "store_bytes (store_bytes (pk_bytes p3) w (udp_bytes sp dp n 0)) (w + 6) (bytes16 c) = store_bytes (pk_bytes p3) w (udp_bytes sp dp n c)"
    using store_bytes_over[of "w + 6" w "bytes16 sp @ bytes16 dp @ bytes16 (of_nat n)" "bytes16 c" "bytes16 0" "pk_bytes p3" "[]"]
    by (simp add: udp_bytes_def)
  have "rix_net_udp6_push p s d sp dp xs = (0, p3\<lparr>pk_bytes := store_bytes (pk_bytes p3) w (udp_bytes sp dp n c)\<rparr>)"
    unfolding rix_net_udp6_push_def a(1,2) prod.case Let_def repr_be repr16_0 n_def[symmetric] st c o
    using assms(4) by auto
  moreover have "packet_ok (p3\<lparr>pk_bytes := store_bytes (pk_bytes p3) w (udp_bytes sp dp n c)\<rparr>)"
    using a(5) by (simp add: packet_ok_def)
  ultimately show ?thesis using a(3,4) a(6)[of "udp_bytes sp dp n c"] v0 by (simp add: udp6_enc_def c_def n_def)
qed

lemma udp6_enc_ok:
  assumes "addr6_ok a" "length xs + 8 \<le> 1580"
  shows "transport6_checksum (fst a) (snd a) 17 (udp6_enc a t xs) = 0"
  using transport6_sum_ok[of "fst a" "snd a" "bytes16 (fst t) @ bytes16 (snd t) @ bytes16 (of_nat (length xs + 8))" xs 17] assms
  by (simp add: udp6_enc_def udp6_enc_checksum_def udp_bytes_def addr6_ok_def)

lemma udp6_pull_view:
  assumes "packet_ok q" "addr6_ok a" "pk_view q = udp6_enc a t xs"
  shows "\<exists>q'. udp6_pull' a q = (0, Some (udp6_hdr a t xs), q') \<and> packet_ok q' \<and> pk_view q' = xs"
proof -
  obtain s d sp dp where e: "a = (s, d)" "t = (sp, dp)" by (metis surj_pair)
  define n where "n = length xs + 8"
  define c where "c = udp6_enc_checksum a t xs"
  define l :: u16 where "l = of_nat n"
  have hb: "udp_bytes sp dp n c = bytes16 sp @ bytes16 dp @ bytes16 l @ bytes16 c" by (simp add: udp_bytes_def l_def)
  have v: "pk_view q = udp_bytes sp dp n c @ xs" using assms(3) by (simp add: udp6_enc_def e c_def n_def)
  have len: "pk_length q = n" using length_pk_view[of q] v by (simp add: n_def)
  then have small: "n \<le> 1580" using assms(1) by (simp add: packet_ok_def)
  then have un: "unat l = n" by (simp add: l_def)
  define st where "st = pk_start q"
  define b where "b = pk_bytes q"
  note get = header_get16[OF v, folded st_def b_def, unfolded length_udp_bytes hb]
  have f: "get_be16 b st = sp" "get_be16 b (st + 2) = dp" "get_be16 b (st + 4) = l" "get_be16 b (st + 6) = c"
    using get[of 0] get[of 2] get[of 4] get[of 6] by (simp_all add: bytes16_def)
  have m: "map b [st..<st + n] = udp6_enc a t xs" using assms(3) len by (simp add: pk_view_def b_def st_def)
  have ck: "transport6_checksum s d 17 (map b [st..<st + n]) = 0"
    unfolding m using udp6_enc_ok[OF assms(2), of xs t] small by (simp add: e n_def)
  let ?q' = "q\<lparr>pk_start := pk_start q + 8, pk_length := length xs\<rparr>"
  have "pk_view ?q' = xs" using pull_view[of 8 "length xs" q] len v by (simp add: n_def)
  moreover have "packet_ok ?q'" using assms(1) len by (simp add: packet_ok_def n_def)
  moreover have "rix_net_udp6_pull q s d = (0, Some (udp6_hdr a t xs), ?q')"
    using f ck len un n_def c_def
    by (simp add: rix_net_udp6_pull_def pull_eq rix_net_packet_length_def udp6_hdr_def e Let_def
        st_def[symmetric] b_def[symmetric] l_def)
  ultimately show ?thesis by (auto simp: udp6_pull'_def e)
qed

interpretation udp6: transport udp6_push' udp6_pull' udp6_enc udp6_hdr 8 "\<lambda>a _. addr6_ok a"
proof unfold_locales
  fix p a t and xs :: "u8 list"
  assume "packet_ok p" "pk_length p = 0" "8 \<le> pk_start p" "pk_start p + 8 + length xs \<le> RIX_NET_FRAME_CAPACITY"
  then show "\<exists>p'. udp6_push' a t xs p = (0, p') \<and> packet_ok p' \<and> pk_start p' = pk_start p - 8 \<and> pk_view p' = udp6_enc a t xs"
    using udp6_push_view[of p xs "fst a" "snd a" "fst t" "snd t"] by (simp add: udp6_push'_def)
qed (rule udp6_pull_view)

subsection \<open>TCP over IPv6\<close>

definition tcp6_enc_checksum :: "ip6 \<times> ip6 \<Rightarrow> tcp_segment \<Rightarrow> u8 list \<Rightarrow> u16" where
  "tcp6_enc_checksum a t xs = transport6_checksum (fst a) (snd a) 6 (tcp_bytes t 0 @ xs)"

definition tcp6_enc :: "ip6 \<times> ip6 \<Rightarrow> tcp_segment \<Rightarrow> u8 list \<Rightarrow> u8 list" where
  "tcp6_enc a t xs = tcp_bytes t (tcp6_enc_checksum a t xs) @ xs"

definition tcp6_hdr :: "ip6 \<times> ip6 \<Rightarrow> tcp_segment \<Rightarrow> u8 list \<Rightarrow> rix_net_tcp_header" where
  "tcp6_hdr = (\<lambda>a (sp, dp, sq, ack, flags, window) xs.
     \<lparr>tcp_source_port = sp, tcp_destination_port = dp, tcp_sequence = sq, tcp_acknowledgment = ack, tcp_flags = flags,
      tcp_window = window, tcp_checksum = tcp6_enc_checksum a (sp, dp, sq, ack, flags, window) xs, tcp_urgent = 0\<rparr>)"

definition tcp6_valid :: "ip6 \<times> ip6 \<Rightarrow> tcp_segment \<Rightarrow> bool" where
  "tcp6_valid = (\<lambda>a (sp, dp, sq, ack, flags, window). addr6_ok a \<and> flags AND 0xff = flags)"

definition tcp6_push' :: "ip6 \<times> ip6 \<Rightarrow> tcp_segment \<Rightarrow> u8 list \<Rightarrow> rix_net_packet \<Rightarrow> rc \<times> rix_net_packet" where
  "tcp6_push' = (\<lambda>a (sp, dp, sq, ack, flags, window) xs p. rix_net_tcp6_push p (fst a) (snd a) sp dp sq ack flags window xs)"

definition tcp6_pull' :: "ip6 \<times> ip6 \<Rightarrow> rix_net_packet \<Rightarrow> rc \<times> rix_net_tcp_header option \<times> rix_net_packet" where
  "tcp6_pull' a q = rix_net_tcp6_pull q (fst a) (snd a)"

lemma tcp6_push_view:
  assumes "packet_ok p" "pk_length p = 0" "20 \<le> pk_start p" "pk_start p + 20 + length xs \<le> RIX_NET_FRAME_CAPACITY"
    and "length xs \<le> RIX_NET_MTU - 20"
  shows "\<exists>p'. rix_net_tcp6_push p s d sp dp sq ack flags window xs = (0, p') \<and> packet_ok p' \<and> pk_start p' = pk_start p - 20 \<and>
           pk_view p' = tcp6_enc (s, d) (sp, dp, sq, ack, flags, window) xs"
proof -
  have v0: "pk_view p = []" using assms(2) by (simp add: pk_view_def)
  have room: "pk_start p + pk_length p + length xs \<le> RIX_NET_FRAME_CAPACITY" using assms(2,4) by simp
  obtain body p1 w p3 where a: "rix_net_packet_put p (length xs) = (0, body, p1)"
    "rix_net_packet_push (p1\<lparr>pk_bytes := store_bytes (pk_bytes p1) body xs\<rparr>) 20 = (0, w, p3)"
    "pk_start p3 = w" "w = pk_start p - 20" "packet_ok p3"
    "\<And>hs. length hs = 20 \<Longrightarrow> pk_view (p3\<lparr>pk_bytes := store_bytes (pk_bytes p3) w hs\<rparr>) = hs @ pk_view p @ xs"
    by (rule put_push[OF assms(1,3) room]) blast
  define t where "t = (sp, dp, sq, ack, flags, window)"
  define c where "c = tcp6_enc_checksum (s, d) t xs"
  have fl: "bytes16 flags ! 1 = ucast flags" by (simp add: bytes16_def)
  have st: "store_bytes (store_bytes (store_bytes ((store_bytes (store_bytes (store_bytes (store_bytes (pk_bytes p3) w (bytes16 sp)) (w + 2) (bytes16 dp))
      (w + 4) (bytes32 sq)) (w + 8) (bytes32 ack))(w + 12 := 0x50, w + 13 := ucast flags)) (w + 14) (bytes16 window)) (w + 16) (bytes16 0)) (w + 18) (bytes16 0)
      = store_bytes (pk_bytes p3) w (tcp_bytes t 0)"
    unfolding stores by (simp add: store_bytes_extend tcp_bytes_def t_def)
  have c: "transport6_checksum s d 6 (pk_message p3 (store_bytes (pk_bytes p3) w (tcp_bytes t 0))) = c"
    using a(6)[of "tcp_bytes t 0"] v0 by (simp add: pk_message_store c_def tcp6_enc_checksum_def)
  have o: "store_bytes (store_bytes (pk_bytes p3) w (tcp_bytes t 0)) (w + 16) (bytes16 c) = store_bytes (pk_bytes p3) w (tcp_bytes t c)"
    unfolding tcp_bytes_def t_def prod.case by (rule store_bytes_over) simp_all
  have "rix_net_tcp6_push p s d sp dp sq ack flags window xs = (0, p3\<lparr>pk_bytes := store_bytes (pk_bytes p3) w (tcp_bytes t c)\<rparr>)"
    unfolding rix_net_tcp6_push_def a(1,2) prod.case Let_def repr_be repr16_0 fl st c o
    using assms(5) by auto
  moreover have "packet_ok (p3\<lparr>pk_bytes := store_bytes (pk_bytes p3) w (tcp_bytes t c)\<rparr>)"
    using a(5) by (simp add: packet_ok_def)
  ultimately show ?thesis using a(3,4) a(6)[of "tcp_bytes t c"] v0 by (simp add: tcp6_enc_def c_def t_def)
qed

lemma tcp6_enc_ok:
  assumes "addr6_ok a" "length xs + 20 \<le> 1580"
  shows "transport6_checksum (fst a) (snd a) 6 (tcp6_enc a t xs) = 0"
proof -
  obtain sp dp sq ack flags window where t: "t = (sp, dp, sq, ack, flags, window)" by (rule prod_cases6)
  show ?thesis
    using transport6_sum_ok[of "fst a" "snd a" "bytes16 sp @ bytes16 dp @ bytes32 sq @ bytes32 ack @ [0x50, ucast flags] @ bytes16 window" "bytes16 0 @ xs" 6] assms
    by (simp add: tcp6_enc_def tcp6_enc_checksum_def tcp_bytes_def t addr6_ok_def)
qed

lemma tcp6_pull_view:
  assumes "packet_ok q" "tcp6_valid a t" "pk_view q = tcp6_enc a t xs"
  shows "\<exists>q'. tcp6_pull' a q = (0, Some (tcp6_hdr a t xs), q') \<and> packet_ok q' \<and> pk_view q' = xs"
proof -
  obtain s d where ea: "a = (s, d)" by (metis surj_pair)
  obtain sp dp sq ack flags window where et: "t = (sp, dp, sq, ack, flags, window)" by (rule prod_cases6)
  have val: "addr6_ok a" "ucast (ucast flags :: u8) = flags"
    using assms(2) tcp_flags_fit[of flags] by (auto simp: tcp6_valid_def et)
  define n where "n = length xs + 20"
  define c where "c = tcp6_enc_checksum a t xs"
  have v: "pk_view q = tcp_bytes t c @ xs" using assms(3) by (simp add: tcp6_enc_def c_def)
  have len: "pk_length q = n" using length_pk_view[of q] v by (simp add: n_def)
  then have small: "n \<le> 1580" using assms(1) by (simp add: packet_ok_def)
  define st where "st = pk_start q"
  define b where "b = pk_bytes q"
  note hb = tcp_bytes_def et bytes16_def bytes32_def
  note g16 = header_get16[OF v, folded st_def b_def, unfolded length_tcp_bytes]
  note g32 = header_get32[OF v, folded st_def b_def, unfolded length_tcp_bytes]
  note g8 = pk_prefix_nth[OF v, folded st_def b_def, unfolded length_tcp_bytes]
  have f: "get_be16 b st = sp" "get_be16 b (st + 2) = dp" "get_be16 b (st + 14) = window" "get_be16 b (st + 16) = c" "get_be16 b (st + 18) = 0"
    using g16[of 0] g16[of 2] g16[of 14] g16[of 16] g16[of 18] by (simp_all add: hb word16_0)
  have f32: "get_be32 b (st + 4) = sq" "get_be32 b (st + 8) = ack" using g32[of 4] g32[of 8] by (simp_all add: hb)
  have f8: "b (st + 12) = 0x50" "b (st + 13) = ucast flags" using g8[of 12] g8[of 13] by (simp_all add: hb)
  have ck: "transport6_checksum s d 6 (pk_message q b) = 0"
    using tcp6_enc_ok[OF val(1), of xs t] small assms(3) by (simp add: ea n_def b_def pk_message_view)
  let ?q' = "q\<lparr>pk_start := pk_start q + 20, pk_length := length xs\<rparr>"
  have "pk_view ?q' = xs" using pull_view[of 20 "length xs" q] len v by (simp add: n_def)
  moreover have "packet_ok ?q'" using assms(1) len by (simp add: packet_ok_def n_def)
  moreover have "rix_net_tcp6_pull q s d = (0, Some (tcp6_hdr a t xs), ?q')"
    using f f32 f8 ck len val n_def c_def
    by (simp add: rix_net_tcp6_pull_def pull_eq rix_net_packet_length_def tcp6_hdr_def et Let_def st_def[symmetric] b_def[symmetric])
  ultimately show ?thesis by (auto simp: tcp6_pull'_def ea)
qed

interpretation tcp6: transport tcp6_push' tcp6_pull' tcp6_enc tcp6_hdr 20 tcp6_valid
proof unfold_locales
  fix p a and t :: tcp_segment and xs :: "u8 list"
  assume h: "packet_ok p" "pk_length p = 0" "20 \<le> pk_start p" "pk_start p + 20 + length xs \<le> RIX_NET_FRAME_CAPACITY" "length xs \<le> RIX_NET_MTU - 20"
  obtain sp dp sq ack flags window where et: "t = (sp, dp, sq, ack, flags, window)" by (rule prod_cases6)
  show "\<exists>p'. tcp6_push' a t xs p = (0, p') \<and> packet_ok p' \<and> pk_start p' = pk_start p - 20 \<and> pk_view p' = tcp6_enc a t xs"
    using tcp6_push_view[OF h, of "fst a" "snd a" sp dp sq ack flags window] by (simp add: tcp6_push'_def et)
qed (rule tcp6_pull_view)

subsection \<open>ICMPv6\<close>

definition icmp6_bytes :: "u8 \<Rightarrow> ip6 \<times> ip6 \<Rightarrow> u8 list \<Rightarrow> u8 list" where
  "icmp6_bytes ty a body = [ty, 0] @ bytes16 (icmpv6_checksum (fst a) (snd a) ([ty, 0] @ bytes16 0 @ body)) @ body"

lemma icmp6_put_view:
  assumes "packet_ok p" "4 \<le> pk_start p"
  shows "\<exists>p'. icmpv6_put p ty 0 s d = (0, p') \<and> packet_ok p' \<and> pk_start p' = pk_start p - 4 \<and>
           pk_view p' = icmp6_bytes ty (s, d) (pk_view p)"
proof -
  define w where "w = pk_start p - 4"
  define p1 where "p1 = p\<lparr>pk_start := w, pk_length := pk_length p + 4\<rparr>"
  have push: "rix_net_packet_push p 4 = (0, w, p1)" using push_eq[OF assms(2)] by (simp add: w_def p1_def)
  have v: "pk_view (p1\<lparr>pk_bytes := store_bytes (pk_bytes p1) w ([ty, 0] @ bytes16 c)\<rparr>) = ([ty, 0] @ bytes16 c) @ pk_view p" for c
    using push_view[of 4 p "[ty, 0] @ bytes16 c"] assms(2) by (simp add: p1_def w_def)
  have st: "store16 ((pk_bytes p1)(w := ty, w + 1 := 0)) (w + 2) 0 = store_bytes (pk_bytes p1) w ([ty, 0] @ bytes16 0)"
    unfolding stores by (simp add: store_bytes_extend)
  define c where "c = icmpv6_checksum s d ([ty, 0] @ bytes16 0 @ pk_view p)"
  have c: "icmpv6_checksum s d (pk_message p1 (store_bytes (pk_bytes p1) w ([ty, 0] @ bytes16 0))) = c"
    unfolding pk_message_store v by (simp add: c_def)
  have o: "store16 (store_bytes (pk_bytes p1) w ([ty, 0] @ bytes16 0)) (w + 2) (be16 c) = store_bytes (pk_bytes p1) w ([ty, 0] @ bytes16 c)"
    using store_bytes_over[of "w + 2" w "[ty, 0]" "bytes16 c" "bytes16 0" "pk_bytes p1" "[]"] by (simp add: store16_be16)
  have "icmpv6_put p ty 0 s d = (0, p1\<lparr>pk_bytes := store_bytes (pk_bytes p1) w ([ty, 0] @ bytes16 c)\<rparr>)"
    unfolding icmpv6_put_def push prod.case Let_def st c o by simp
  moreover have "packet_ok (p1\<lparr>pk_bytes := store_bytes (pk_bytes p1) w ([ty, 0] @ bytes16 c)\<rparr>)"
    using assms by (simp add: packet_ok_def p1_def w_def)
  ultimately show ?thesis using v[of c] by (auto simp: icmp6_bytes_def c_def p1_def w_def)
qed

lemma icmp6_bytes_ok:
  assumes "addr6_ok a" "length body + 4 \<le> 1580"
  shows "icmpv6_checksum (fst a) (snd a) (icmp6_bytes ty a body) = 0"
  using transport6_sum_ok[of "fst a" "snd a" "[ty, 0]" body RIX_NET_IP_PROTO_ICMPV6] assms
  by (simp add: icmp6_bytes_def icmpv6_checksum_eq addr6_ok_def)

text \<open>What a receiver reads of a message with a given body.\<close>

lemma icmp6_read:
  assumes "packet_ok q" "addr6_ok a" "pk_view q = icmp6_bytes ty a body"
  shows "pk_length q = length body + 4" "pk_bytes q (pk_start q) = ty" "pk_bytes q (pk_start q + 1) = 0"
    and "icmpv6_checksum (fst a) (snd a) (pk_message q (pk_bytes q)) = 0"
    and "\<exists>hs. pk_view q = hs @ body \<and> length hs = 4"
proof -
  show l: "pk_length q = length body + 4" using length_pk_view[of q] assms(3) by (simp add: icmp6_bytes_def)
  show "pk_bytes q (pk_start q) = ty" "pk_bytes q (pk_start q + 1) = 0"
    using pk_bytes_nth[OF assms(3), of 0] pk_bytes_nth[OF assms(3), of 1] by (simp_all add: icmp6_bytes_def)
  show "icmpv6_checksum (fst a) (snd a) (pk_message q (pk_bytes q)) = 0"
    unfolding pk_message_view assms(3) by (rule icmp6_bytes_ok) (use assms l in \<open>simp_all add: packet_ok_def\<close>)
  show "\<exists>hs. pk_view q = hs @ body \<and> length hs = 4"
    by (rule exI[of _ "[ty, 0] @ bytes16 (icmpv6_checksum (fst a) (snd a) ([ty, 0] @ bytes16 0 @ body))"])
      (simp add: assms(3) icmp6_bytes_def)
qed

definition echo6_enc :: "ip6 \<times> ip6 \<Rightarrow> u8 \<times> u16 \<times> u16 \<Rightarrow> u8 list \<Rightarrow> u8 list" where
  "echo6_enc = (\<lambda>a (ty, ident, sq) xs. icmp6_bytes ty a ((bytes16 ident @ bytes16 sq) @ xs))"

definition echo6_valid :: "ip6 \<times> ip6 \<Rightarrow> u8 \<times> u16 \<times> u16 \<Rightarrow> bool" where
  "echo6_valid a t \<longleftrightarrow> addr6_ok a \<and> (fst t = RIX_NET_ICMPV6_ECHO_REQUEST \<or> fst t = RIX_NET_ICMPV6_ECHO_REPLY)"

definition echo6_hdr :: "ip6 \<times> ip6 \<Rightarrow> u8 \<times> u16 \<times> u16 \<Rightarrow> u8 list \<Rightarrow> rix_net_icmp_echo" where
  "echo6_hdr = (\<lambda>_ (ty, ident, sq) xs. \<lparr>echo_type = ty, echo_code = 0, echo_identifier = ident, echo_sequence = sq\<rparr>)"

definition echo6_push' :: "ip6 \<times> ip6 \<Rightarrow> u8 \<times> u16 \<times> u16 \<Rightarrow> u8 list \<Rightarrow> rix_net_packet \<Rightarrow> rc \<times> rix_net_packet" where
  "echo6_push' = (\<lambda>a (ty, ident, sq) xs p. rix_net_icmpv6_echo_push p ty ident sq (fst a) (snd a) xs)"

definition echo6_pull' :: "ip6 \<times> ip6 \<Rightarrow> rix_net_packet \<Rightarrow> rc \<times> rix_net_icmp_echo option \<times> rix_net_packet" where
  "echo6_pull' a q = rix_net_icmpv6_echo_pull q (fst a) (snd a)"

lemma echo6_push_view:
  assumes "packet_ok p" "pk_length p = 0" "8 \<le> pk_start p" "pk_start p + 8 + length xs \<le> RIX_NET_FRAME_CAPACITY" "echo6_valid a t"
  shows "\<exists>p'. echo6_push' a t xs p = (0, p') \<and> packet_ok p' \<and> pk_start p' = pk_start p - 8 \<and> pk_view p' = echo6_enc a t xs"
proof -
  obtain ty ident sq where t: "t = (ty, ident, sq)" by (rule prod_cases3)
  have v0: "pk_view p = []" using assms(2) by (simp add: pk_view_def)
  have room: "pk_start p + pk_length p + length xs \<le> RIX_NET_FRAME_CAPACITY" "4 \<le> pk_start p" using assms(2-4) by simp_all
  obtain body p1 w p3 where a: "rix_net_packet_put p (length xs) = (0, body, p1)"
    "rix_net_packet_push (p1\<lparr>pk_bytes := store_bytes (pk_bytes p1) body xs\<rparr>) 4 = (0, w, p3)"
    "pk_start p3 = w" "w = pk_start p - 4" "packet_ok p3"
    "\<And>hs. length hs = 4 \<Longrightarrow> pk_view (p3\<lparr>pk_bytes := store_bytes (pk_bytes p3) w hs\<rparr>) = hs @ pk_view p @ xs"
    by (rule put_push[OF assms(1) room(2,1)]) blast
  define p4 where "p4 = p3\<lparr>pk_bytes := store_bytes (pk_bytes p3) w (bytes16 ident @ bytes16 sq)\<rparr>"
  have st: "store_bytes (store_bytes (pk_bytes p3) w (bytes16 ident)) (w + 2) (bytes16 sq) = store_bytes (pk_bytes p3) w (bytes16 ident @ bytes16 sq)"
    by (rule store_bytes_extend) simp
  have p4: "packet_ok p4" "4 \<le> pk_start p4" "pk_start p4 = pk_start p - 4" "pk_view p4 = (bytes16 ident @ bytes16 sq) @ xs"
    using a(3-6) assms(3) v0 by (simp_all add: p4_def packet_ok_def)
  have "echo6_push' a t xs p = icmpv6_put p4 ty 0 (fst a) (snd a)"
    unfolding echo6_push'_def t prod.case rix_net_icmpv6_echo_push_def a(1,2) Let_def repr_be st p4_def[symmetric]
    using assms(4,5) by (auto simp: echo6_valid_def t)
  then show ?thesis using icmp6_put_view[OF p4(1,2), of ty "fst a" "snd a"] p4(3,4) by (simp add: echo6_enc_def t)
qed

lemma echo6_pull_view:
  assumes "packet_ok q" "echo6_valid a t" "pk_view q = echo6_enc a t xs"
  shows "\<exists>q'. echo6_pull' a q = (0, Some (echo6_hdr a t xs), q') \<and> packet_ok q' \<and> pk_view q' = xs"
proof -
  obtain ty ident sq where t: "t = (ty, ident, sq)" by (rule prod_cases3)
  have val: "addr6_ok a" "ty = RIX_NET_ICMPV6_ECHO_REQUEST \<or> ty = RIX_NET_ICMPV6_ECHO_REPLY"
    using assms(2) by (simp_all add: echo6_valid_def t)
  have e: "pk_view q = icmp6_bytes ty a ((bytes16 ident @ bytes16 sq) @ xs)" using assms(3) by (simp add: echo6_enc_def t)
  note rd = icmp6_read[OF assms(1) val(1) e]
  obtain hs where hs: "pk_view q = (hs @ bytes16 ident @ bytes16 sq) @ xs" "length hs = 4" using rd(5) by auto
  define st where "st = pk_start q"
  define b where "b = pk_bytes q"
  have f: "get_be16 b (st + 4) = ident" "get_be16 b (st + 6) = sq"
    using header_get16[OF hs(1), of 4] header_get16[OF hs(1), of 6] hs(2) by (simp_all add: nth_append bytes16_def st_def b_def)
  let ?q' = "q\<lparr>pk_start := pk_start q + 8, pk_length := length xs\<rparr>"
  have "pk_view ?q' = xs" using pull_view[of 8 "length xs" q] rd(1) hs by simp
  moreover have "packet_ok ?q'" using assms(1) rd(1) by (simp add: packet_ok_def)
  moreover have "echo6_pull' a q = (0, Some (echo6_hdr a t xs), ?q')"
    using rd(1-4) f val(2)
    by (simp add: echo6_pull'_def rix_net_icmpv6_echo_pull_def pull_eq rix_net_packet_length_def echo6_hdr_def t Let_def
        st_def[symmetric] b_def[symmetric])
  ultimately show ?thesis by blast
qed

interpretation echo6: transport echo6_push' echo6_pull' echo6_enc echo6_hdr 8 echo6_valid
  by unfold_locales (rule echo6_push_view echo6_pull_view; simp)+

end
