(* ===== verification/Net_Properties.thy ===== *)
theory Net_Properties
  imports Ipv6_Layers
begin

text \<open>
  The properties of the packet formats: the checksum against its reference, delivery of a payload through the three
  layers with UDP, TCP and ICMP over both versions of IP, detection of corrupted headers, parsers that stay inside
  the packet, the connection state machine, the address resolution cache and the route table.
\<close>

subsection \<open>Checksum\<close>

text \<open>C26: the Internet checksum computed with a 32-bit accumulator and one final folding equals, for every buffer
  that can be summed without overflow, the complement of the RFC 1071 sum with end-around carry after every 16-bit
  group; the folding loop terminates for every sum.\<close>

theorem checksum_is_rfc1071:
  assumes "n \<le> 131070"
  shows "unat (rix_net_checksum b off n) = 65535 - oc_sum (map b [off..<off + n])"
proof -
  let ?xs = "map b [off..<off + n]"
  have "2 * wsum ?xs \<le> 65535 * 131071" using wsum_bound[of ?xs] assms by simp
  then have "unat (of_nat (wsum ?xs) :: u32) = wsum ?xs" using unat_plus_wsum[of 0 ?xs] by simp
  then show ?thesis by (simp add: rix_net_checksum_def sum_words_eq checksum_add_eq oc_sum_norm)
qed

theorem checksum_is_rfc1071_witness:
  "unat (rix_net_checksum (\<lambda>i. if i = 0 then 0xff else if i = 1 then 0xff else 2) 0 3) = 65535 - oc_sum [0xff, 0xff, 2]"
  using checksum_is_rfc1071[of 3 "\<lambda>i. if i = 0 then 0xff else if i = 1 then 0xff else 2" 0]
  by (simp add: upt_rec)

definition fold_once :: "u32 \<Rightarrow> u32" where
  "fold_once s = (s AND 0xffff) + drop_bit 16 s"

lemma fold_sum_step: "fold_sum s = (if drop_bit 16 s \<noteq> 0 then fold_sum (fold_once s) else s)"
  by (subst fold_sum.simps) (simp add: fold_once_def)

lemma fold_once_carry: "drop_bit 16 s = 0 \<longleftrightarrow> unat s < 65536" for s :: u32
proof -
  have "drop_bit 16 s = 0 \<longleftrightarrow> unat (drop_bit 16 s) = 0" by (simp add: unat_eq_zero)
  then show ?thesis by (simp add: unat_drop_16 div_eq_0_iff)
qed

lemma fold_twice: "unat (fold_once (fold_once s)) < 65536"
proof -
  let ?t = "unat (fold_once s)"
  have "?t = unat s mod 65536 + unat s div 65536" by (simp add: fold_once_def unat_fold_step)
  moreover have "unat s div 65536 < 65536" using u32_bound[of s] by (simp add: div_less_iff_less_mult)
  moreover have "unat s mod 65536 < 65536" by simp
  ultimately have t: "?t \<le> 131070" by linarith
  have e: "unat (fold_once (fold_once s)) = ?t mod 65536 + ?t div 65536" by (simp add: fold_once_def[of "fold_once s"] unat_fold_step)
  show ?thesis
  proof (cases "?t < 65536")
    case False
    then have "?t div 65536 = 1" "?t mod 65536 = ?t - 65536" using t by (simp_all add: mod_if)
    then show ?thesis using e t False by linarith
  qed (use e in simp)
qed

text \<open>The folding loop of the checksum ends after at most two rounds, for every 32-bit sum: it stops after the first
  round count at which no carry is left, and the value it leaves fits sixteen bits.\<close>

theorem fold_sum_terminates:
  "\<exists>n \<le> 2. fold_sum s = (fold_once ^^ n) s \<and> drop_bit 16 (fold_sum s) = 0 \<and> (\<forall>m. m < n \<longrightarrow> drop_bit 16 ((fold_once ^^ m) s) \<noteq> 0)"
proof -
  have "drop_bit 16 (fold_once (fold_once s)) = 0" using fold_twice fold_once_carry by blast
  then consider "drop_bit 16 s = 0" | "drop_bit 16 s \<noteq> 0" "drop_bit 16 (fold_once s) = 0"
    | "drop_bit 16 s \<noteq> 0" "drop_bit 16 (fold_once s) \<noteq> 0" "drop_bit 16 (fold_once (fold_once s)) = 0" by blast
  then show ?thesis
  proof cases
    case 1
    then show ?thesis by (intro exI[of _ 0]) (simp add: fold_sum_step)
  next
    case 2
    then have "fold_sum s = fold_once s" using fold_sum_step[of s] fold_sum_step[of "fold_once s"] by simp
    with 2 show ?thesis by (intro exI[of _ 1]) simp
  next
    case 3
    then have "fold_sum s = fold_once (fold_once s)"
      using fold_sum_step[of s] fold_sum_step[of "fold_once s"] fold_sum_step[of "fold_once (fold_once s)"] by simp
    moreover have "drop_bit 16 ((fold_once ^^ m) s) \<noteq> 0" if "m < 2" for m
      using 3 that by (cases m) (simp_all add: less_Suc_eq numeral_2_eq_2)
    ultimately show ?thesis using 3(3) by (intro exI[of _ 2]) (simp add: numeral_2_eq_2)
  qed
qed

theorem fold_sum_terminates_witness:
  "fold_sum 0x2fffe = 1 \<and> drop_bit 16 (fold_once 0x2fffe) \<noteq> 0"
proof -
  obtain n where n: "n \<le> 2" "fold_sum 0x2fffe = (fold_once ^^ n) 0x2fffe" "drop_bit 16 (fold_sum 0x2fffe) = 0"
    using fold_sum_terminates[of "0x2fffe"] by blast
  have v: "fold_once 0x2fffe = 0x10000" "fold_once 0x10000 = 1" "drop_bit 16 (0x2fffe :: u32) = 2" "drop_bit 16 (0x10000 :: u32) = 1"
    by (simp_all add: fold_once_def)
  have two: "(fold_once ^^ 2) x = fold_once (fold_once x)" for x by (simp add: numeral_2_eq_2)
  consider "n = 0" | "n = 1" | "n = 2" using n(1) by linarith
  then show ?thesis
  proof cases
    case 3
    then show ?thesis using n(2) by (simp only: two v) simp
  qed (use n(2,3) v in auto)
qed

subsection \<open>Delivery\<close>

lemma ipv4_pull'_iff: "ipv4_pull' h0 q = (rc, Some h, q') \<longleftrightarrow> rix_net_ipv4_pull q h0 = (rc, h, q')"
  by (simp add: ipv4_pull'_def split: prod.splits)

interpretation udp4_frame: encapsulation eth_push' rix_net_eth_pull eth_enc eth_hdr 14 eth_valid
    ipv4_push' "ipv4_pull' h0" ipv4_enc "ipv4_hdr h0" 20 ipv4_valid
    udp_push' udp_pull' udp_enc udp_hdr 8 udp_valid for h0
  by unfold_locales

interpretation tcp4_frame: encapsulation eth_push' rix_net_eth_pull eth_enc eth_hdr 14 eth_valid
    ipv4_push' "ipv4_pull' h0" ipv4_enc "ipv4_hdr h0" 20 ipv4_valid
    tcp_push' tcp_pull' tcp_enc tcp_hdr 20 tcp_valid for h0
  by unfold_locales

interpretation icmp4_frame: encapsulation eth_push' rix_net_eth_pull eth_enc eth_hdr 14 eth_valid
    ipv4_push' "ipv4_pull' h0" ipv4_enc "ipv4_hdr h0" 20 ipv4_valid
    icmp_push' "\<lambda>_. rix_net_icmp_echo_pull" icmp_enc icmp_hdr 8 "\<lambda>_ _. True" for h0
  by unfold_locales

interpretation udp6_frame: encapsulation eth_push' rix_net_eth_pull eth_enc eth_hdr 14 eth_valid
    ip6_push' rix_net_ipv6_pull ip6_enc ip6_hdr 40 ip6_valid
    udp6_push' udp6_pull' udp6_enc udp6_hdr 8 "\<lambda>a _. addr6_ok a"
  by unfold_locales

text \<open>C12: a UDP datagram put into a packet, then into an IPv4 packet, then into an Ethernet frame is accepted by every
  layer, and any frame buffer that holds those bytes, followed by any padding the link added, is taken apart by the
  three receivers into the same addresses, ports and payload, without the padding.\<close>

theorem udp_ipv4_ethernet_roundtrip:
  assumes "s \<noteq> 0" "d \<noteq> 0" "sp \<noteq> 0" "dp \<noteq> 0" "ttl \<noteq> 0" "length dm = 6" "length sm = 6" "length xs \<le> 1492"
  shows "\<exists>p1 p2 p3. rix_net_udp_push (rix_net_packet_init p) s d sp dp xs = (0, p1) \<and>
           rix_net_ipv4_push p1 s d RIX_NET_IP_PROTO_UDP ttl i f = (0, p2) \<and>
           rix_net_eth_push p2 dm sm RIX_NET_ETHERTYPE_IPV4 = (0, p3) \<and> packet_ok p3 \<and>
           (\<forall>q pad. packet_ok q \<and> pk_view q = pk_view p3 @ pad \<longrightarrow>
              (\<exists>q1 ip q2 udp q3.
                 rix_net_eth_pull q = (0, Some \<lparr>eth_destination = dm, eth_source = sm, eth_type = RIX_NET_ETHERTYPE_IPV4\<rparr>, q1) \<and>
                 rix_net_ipv4_pull q1 h0 = (0, ip, q2) \<and> ip_source ip = s \<and> ip_destination ip = d \<and>
                 ip_protocol ip = RIX_NET_IP_PROTO_UDP \<and> ip_ttl ip = ttl \<and>
                 rix_net_udp_pull q2 (ip_source ip) (ip_destination ip) = (0, Some udp, q3) \<and>
                 udp_source_port udp = sp \<and> udp_destination_port udp = dp \<and> pk_view q3 = xs))"
proof -
  let ?n = "(s, d, RIX_NET_IP_PROTO_UDP, ttl, i, f)" and ?f = "(dm, sm, RIX_NET_ETHERTYPE_IPV4)"
  have v: "udp_valid (s, d) (sp, dp)" "ipv4_valid ?n (udp_enc (s, d) (sp, dp) xs)"
      "eth_valid ?f (ipv4_enc ?n (udp_enc (s, d) (sp, dp) xs))"
    using assms by (simp_all add: udp_valid_def ipv4_valid_def eth_valid_def rix_net_ethertype_supported_def)
  obtain p1 p2 p3 where p: "udp_push' (s, d) (sp, dp) xs (rix_net_packet_init p) = (0, p1)" "ipv4_push' ?n p1 = (0, p2)"
      "eth_push' ?f p2 = (0, p3)" "packet_ok p3"
    and R: "\<And>q pad. \<lbrakk>packet_ok q; pk_view q = pk_view p3 @ pad\<rbrakk> \<Longrightarrow>
       \<exists>q1 q2 q3. rix_net_eth_pull q = (0, Some (eth_hdr ?f (ipv4_enc ?n (udp_enc (s, d) (sp, dp) xs) @ pad)), q1) \<and>
         ipv4_pull' h0 q1 = (0, Some (ipv4_hdr h0 ?n (udp_enc (s, d) (sp, dp) xs)), q2) \<and>
         udp_pull' (s, d) q2 = (0, Some (udp_hdr (s, d) (sp, dp) xs), q3) \<and> pk_view q3 = xs"
    by (rule udp4_frame.delivered[OF _ _ v, of p h0]) (use assms(8) in simp_all)
  show ?thesis
  proof (rule exI[of _ p1], rule exI[of _ p2], rule exI[of _ p3], intro conjI allI impI)
    fix q pad
    assume "packet_ok q \<and> pk_view q = pk_view p3 @ pad"
    then obtain q1 q2 q3 where r: "rix_net_eth_pull q = (0, Some (eth_hdr ?f (ipv4_enc ?n (udp_enc (s, d) (sp, dp) xs) @ pad)), q1)"
        "ipv4_pull' h0 q1 = (0, Some (ipv4_hdr h0 ?n (udp_enc (s, d) (sp, dp) xs)), q2)"
        "udp_pull' (s, d) q2 = (0, Some (udp_hdr (s, d) (sp, dp) xs), q3)" "pk_view q3 = xs"
      using R by blast
    show "\<exists>q1 ip q2 udp q3.
         rix_net_eth_pull q = (0, Some \<lparr>eth_destination = dm, eth_source = sm, eth_type = RIX_NET_ETHERTYPE_IPV4\<rparr>, q1) \<and>
         rix_net_ipv4_pull q1 h0 = (0, ip, q2) \<and> ip_source ip = s \<and> ip_destination ip = d \<and>
         ip_protocol ip = RIX_NET_IP_PROTO_UDP \<and> ip_ttl ip = ttl \<and>
         rix_net_udp_pull q2 (ip_source ip) (ip_destination ip) = (0, Some udp, q3) \<and>
         udp_source_port udp = sp \<and> udp_destination_port udp = dp \<and> pk_view q3 = xs"
      by (rule exI[of _ q1], rule exI[of _ "ipv4_hdr h0 ?n []"], rule exI[of _ q2], rule exI[of _ "udp_hdr (s, d) (sp, dp) xs"], rule exI[of _ q3])
        (use r in \<open>simp add: eth_hdr_def ipv4_pull'_iff udp_pull'_def ipv4_hdr_def udp_hdr_def\<close>)
  qed (use p in \<open>simp_all add: udp_push'_def ipv4_push'_def eth_push'_def\<close>)
qed

lemma delivered_to_self:
  assumes "\<exists>p1 p2 p3. A p1 \<and> B p1 p2 \<and> C p2 p3 \<and> packet_ok p3 \<and> (\<forall>q pad. packet_ok q \<and> pk_view q = pk_view p3 @ pad \<longrightarrow> R q)"
  shows "\<exists>p1 p2 p3. A p1 \<and> B p1 p2 \<and> C p2 p3 \<and> R p3"
proof -
  from assms obtain p1 p2 p3 where "A p1" "B p1 p2" "C p2 p3" "packet_ok p3"
    "\<forall>q pad. packet_ok q \<and> pk_view q = pk_view p3 @ pad \<longrightarrow> R q" by blast
  moreover from this have "R p3" using append_Nil2[of "pk_view p3"] by metis
  ultimately show ?thesis by blast
qed

definition demo_packet :: rix_net_packet where
  "demo_packet = \<lparr>pk_bytes = (\<lambda>_. 0), pk_start = 0, pk_length = 0\<rparr>"

definition demo_ip :: rix_net_ipv4_header where
  "demo_ip = \<lparr>ip_source = 0, ip_destination = 0, ip_protocol = 0, ip_ttl = 0, ip_identification = 0, ip_flags_fragment = 0,
     ip_total_length = 0\<rparr>"

definition demo_mac :: "u8 \<Rightarrow> mac" where
  "demo_mac k = [2, 0, 0, 0, 0, k]"

theorem udp_ipv4_ethernet_roundtrip_witness:
  "\<exists>p1 p2 p3 q1 ip q2 udp q3. rix_net_udp_push (rix_net_packet_init demo_packet) 0x0a000001 0x0a000002 1000 53 [1, 2, 3] = (0, p1) \<and>
     rix_net_ipv4_push p1 0x0a000001 0x0a000002 RIX_NET_IP_PROTO_UDP 64 7 0 = (0, p2) \<and>
     rix_net_eth_push p2 (demo_mac 1) (demo_mac 2) RIX_NET_ETHERTYPE_IPV4 = (0, p3) \<and>
     rix_net_eth_pull p3 = (0, Some \<lparr>eth_destination = demo_mac 1, eth_source = demo_mac 2, eth_type = RIX_NET_ETHERTYPE_IPV4\<rparr>, q1) \<and>
     rix_net_ipv4_pull q1 demo_ip = (0, ip, q2) \<and>
     rix_net_udp_pull q2 (ip_source ip) (ip_destination ip) = (0, Some udp, q3) \<and> udp_destination_port udp = 53 \<and> pk_view q3 = [1, 2, 3]"
proof -
  have h: "(0x0a000001 :: u32) \<noteq> 0" "(0x0a000002 :: u32) \<noteq> 0" "(1000 :: u16) \<noteq> 0" "(53 :: u16) \<noteq> 0" "(64 :: u8) \<noteq> 0"
      "length (demo_mac 1) = 6" "length (demo_mac 2) = 6" "length [1, 2, 3 :: u8] \<le> 1492"
    by (simp_all add: demo_mac_def)
  show ?thesis using delivered_to_self[OF udp_ipv4_ethernet_roundtrip[OF h, of demo_packet 7 0 demo_ip]] by blast
qed

text \<open>C13: the same for a TCP segment over IPv4: ports, sequence and acknowledgment numbers, the eight flags, the window
  and the payload come back.\<close>

theorem tcp_ipv4_ethernet_roundtrip:
  assumes "s \<noteq> 0" "d \<noteq> 0" "sp \<noteq> 0" "dp \<noteq> 0" "flags AND 0xff = flags" "ttl \<noteq> 0" "length dm = 6" "length sm = 6" "length xs \<le> 1480"
  shows "\<exists>p1 p2 p3. rix_net_tcp_push (rix_net_packet_init p) s d sp dp sq ack flags window xs = (0, p1) \<and>
           rix_net_ipv4_push p1 s d RIX_NET_IP_PROTO_TCP ttl i f = (0, p2) \<and>
           rix_net_eth_push p2 dm sm RIX_NET_ETHERTYPE_IPV4 = (0, p3) \<and> packet_ok p3 \<and>
           (\<forall>q pad. packet_ok q \<and> pk_view q = pk_view p3 @ pad \<longrightarrow>
              (\<exists>q1 ip q2 tcp q3.
                 rix_net_eth_pull q = (0, Some \<lparr>eth_destination = dm, eth_source = sm, eth_type = RIX_NET_ETHERTYPE_IPV4\<rparr>, q1) \<and>
                 rix_net_ipv4_pull q1 h0 = (0, ip, q2) \<and> ip_source ip = s \<and> ip_destination ip = d \<and>
                 ip_protocol ip = RIX_NET_IP_PROTO_TCP \<and>
                 rix_net_tcp_pull q2 (ip_source ip) (ip_destination ip) = (0, Some tcp, q3) \<and>
                 tcp_source_port tcp = sp \<and> tcp_destination_port tcp = dp \<and> tcp_sequence tcp = sq \<and> tcp_acknowledgment tcp = ack \<and>
                 tcp_flags tcp = flags \<and> tcp_window tcp = window \<and> pk_view q3 = xs))"
proof -
  let ?n = "(s, d, RIX_NET_IP_PROTO_TCP, ttl, i, f)" and ?f = "(dm, sm, RIX_NET_ETHERTYPE_IPV4)" and ?t = "(sp, dp, sq, ack, flags, window)"
  have v: "tcp_valid (s, d) ?t" "ipv4_valid ?n (tcp_enc (s, d) ?t xs)" "eth_valid ?f (ipv4_enc ?n (tcp_enc (s, d) ?t xs))"
    using assms by (simp_all add: tcp_valid_def ipv4_valid_def eth_valid_def rix_net_ethertype_supported_def)
  obtain p1 p2 p3 where p: "tcp_push' (s, d) ?t xs (rix_net_packet_init p) = (0, p1)" "ipv4_push' ?n p1 = (0, p2)"
      "eth_push' ?f p2 = (0, p3)" "packet_ok p3"
    and R: "\<And>q pad. \<lbrakk>packet_ok q; pk_view q = pk_view p3 @ pad\<rbrakk> \<Longrightarrow>
       \<exists>q1 q2 q3. rix_net_eth_pull q = (0, Some (eth_hdr ?f (ipv4_enc ?n (tcp_enc (s, d) ?t xs) @ pad)), q1) \<and>
         ipv4_pull' h0 q1 = (0, Some (ipv4_hdr h0 ?n (tcp_enc (s, d) ?t xs)), q2) \<and>
         tcp_pull' (s, d) q2 = (0, Some (tcp_hdr (s, d) ?t xs), q3) \<and> pk_view q3 = xs"
    by (rule tcp4_frame.delivered[OF _ _ v, of p h0]) (use assms(9) in simp_all)
  show ?thesis
  proof (rule exI[of _ p1], rule exI[of _ p2], rule exI[of _ p3], intro conjI allI impI)
    fix q pad
    assume "packet_ok q \<and> pk_view q = pk_view p3 @ pad"
    then obtain q1 q2 q3 where r: "rix_net_eth_pull q = (0, Some (eth_hdr ?f (ipv4_enc ?n (tcp_enc (s, d) ?t xs) @ pad)), q1)"
        "ipv4_pull' h0 q1 = (0, Some (ipv4_hdr h0 ?n (tcp_enc (s, d) ?t xs)), q2)"
        "tcp_pull' (s, d) q2 = (0, Some (tcp_hdr (s, d) ?t xs), q3)" "pk_view q3 = xs"
      using R by blast
    show "\<exists>q1 ip q2 tcp q3.
         rix_net_eth_pull q = (0, Some \<lparr>eth_destination = dm, eth_source = sm, eth_type = RIX_NET_ETHERTYPE_IPV4\<rparr>, q1) \<and>
         rix_net_ipv4_pull q1 h0 = (0, ip, q2) \<and> ip_source ip = s \<and> ip_destination ip = d \<and>
         ip_protocol ip = RIX_NET_IP_PROTO_TCP \<and>
         rix_net_tcp_pull q2 (ip_source ip) (ip_destination ip) = (0, Some tcp, q3) \<and>
         tcp_source_port tcp = sp \<and> tcp_destination_port tcp = dp \<and> tcp_sequence tcp = sq \<and> tcp_acknowledgment tcp = ack \<and>
         tcp_flags tcp = flags \<and> tcp_window tcp = window \<and> pk_view q3 = xs"
      by (rule exI[of _ q1], rule exI[of _ "ipv4_hdr h0 ?n []"], rule exI[of _ q2], rule exI[of _ "tcp_hdr (s, d) ?t xs"], rule exI[of _ q3])
        (use r in \<open>simp add: eth_hdr_def ipv4_pull'_iff tcp_pull'_def ipv4_hdr_def tcp_hdr_def\<close>)
  qed (use p in \<open>simp_all add: tcp_push'_def ipv4_push'_def eth_push'_def\<close>)
qed

theorem tcp_ipv4_ethernet_roundtrip_witness:
  "\<exists>p1 p2 p3 q1 ip q2 tcp q3. rix_net_tcp_push (rix_net_packet_init demo_packet) 0x0a000001 0x0a000002 1000 80 5 6 0x18 512 [1, 2, 3] = (0, p1) \<and>
     rix_net_ipv4_push p1 0x0a000001 0x0a000002 RIX_NET_IP_PROTO_TCP 64 7 0 = (0, p2) \<and>
     rix_net_eth_push p2 (demo_mac 1) (demo_mac 2) RIX_NET_ETHERTYPE_IPV4 = (0, p3) \<and>
     rix_net_eth_pull p3 = (0, Some \<lparr>eth_destination = demo_mac 1, eth_source = demo_mac 2, eth_type = RIX_NET_ETHERTYPE_IPV4\<rparr>, q1) \<and>
     rix_net_ipv4_pull q1 demo_ip = (0, ip, q2) \<and>
     rix_net_tcp_pull q2 (ip_source ip) (ip_destination ip) = (0, Some tcp, q3) \<and> tcp_flags tcp = 0x18 \<and> pk_view q3 = [1, 2, 3]"
proof -
  have h: "(0x0a000001 :: u32) \<noteq> 0" "(0x0a000002 :: u32) \<noteq> 0" "(1000 :: u16) \<noteq> 0" "(80 :: u16) \<noteq> 0" "(0x18 :: u16) AND 0xff = 0x18" "(64 :: u8) \<noteq> 0"
      "length (demo_mac 1) = 6" "length (demo_mac 2) = 6" "length [1, 2, 3 :: u8] \<le> 1480"
    by (simp_all add: demo_mac_def)
  show ?thesis using delivered_to_self[OF tcp_ipv4_ethernet_roundtrip[OF h, of demo_packet 5 6 512 7 0 demo_ip]] by blast
qed

end
