(* ===== verification/Arp.thy ===== *)
theory Arp
  imports Net_Layers
begin

text \<open>
  The address resolution cache and its packets: \<^verbatim>\<open>kernel/net/arp.c\<close>.  The cache is the array of entries as a
  function of the slot; its loops with an early exit are searches over the slots.
\<close>

subsection \<open>Model\<close>

definition RIX_NET_ARP_CACHE_MAX :: nat where "RIX_NET_ARP_CACHE_MAX = 16"
definition RIX_NET_ARP_ETHERNET :: u16 where "RIX_NET_ARP_ETHERNET = 1"
definition RIX_NET_ARP_IPV4 :: u16 where "RIX_NET_ARP_IPV4 = 0x0800"
definition RIX_NET_ARP_REQUEST :: u16 where "RIX_NET_ARP_REQUEST = 1"
definition RIX_NET_ARP_REPLY :: u16 where "RIX_NET_ARP_REPLY = 2"
definition RIX_NET_ARP_HEADER_LENGTH :: nat where [simp]: "RIX_NET_ARP_HEADER_LENGTH = 28"

record rix_net_arp_entry =
  ae_ip :: u32
  ae_mac :: mac
  ae_expires_at :: u64
  ae_valid :: bool

type_synonym rix_net_arp_cache = "nat \<Rightarrow> rix_net_arp_entry"

record rix_net_arp_packet =
  arp_hardware_type :: u16
  arp_protocol_type :: u16
  arp_hardware_length :: u8
  arp_protocol_length :: u8
  arp_operation :: u16
  arp_sender_mac :: mac
  arp_sender_ip :: u32
  arp_target_mac :: mac
  arp_target_ip :: u32

definition rix_net_arp_init :: "rix_net_arp_cache \<Rightarrow> rix_net_arp_cache" where
  "rix_net_arp_init cache = (\<lambda>i. if i < RIX_NET_ARP_CACHE_MAX then (cache i)\<lparr>ae_valid := False\<rparr> else cache i)"

text \<open>The search of \<open>rix_net_arp_learn\<close> over the slots: the first that holds the address or is free or expired, or
  else the one that expires first.\<close>

fun arp_slot :: "rix_net_arp_cache \<Rightarrow> u32 \<Rightarrow> u64 \<Rightarrow> nat list \<Rightarrow> nat \<Rightarrow> u64 \<Rightarrow> nat" where
  "arp_slot cache ip now [] oldest oldest_expiry = oldest"
| "arp_slot cache ip now (i # is) oldest oldest_expiry =
     (if ae_valid (cache i) \<and> ae_ip (cache i) = ip then i
      else if \<not> ae_valid (cache i) \<or> ae_expires_at (cache i) \<le> now then i
      else if ae_expires_at (cache i) < oldest_expiry then arp_slot cache ip now is i (ae_expires_at (cache i))
      else arp_slot cache ip now is oldest oldest_expiry)"

definition arp_expiry :: "u64 \<Rightarrow> u64 \<Rightarrow> u64" where
  "arp_expiry now lifetime = (if now > - 1 - lifetime then - 1 else now + lifetime)"

definition rix_net_arp_learn :: "rix_net_arp_cache \<Rightarrow> u32 \<Rightarrow> mac \<Rightarrow> u64 \<Rightarrow> u64 \<Rightarrow> rc \<times> rix_net_arp_cache" where
  "rix_net_arp_learn cache ip m now lifetime =
     (if ip = 0 \<or> lifetime = 0 then (-1, cache)
      else let slot = arp_slot cache ip now [0..<RIX_NET_ARP_CACHE_MAX] 0 (- 1)
           in (0, cache(slot := \<lparr>ae_ip = ip, ae_mac = m, ae_expires_at = arp_expiry now lifetime, ae_valid = True\<rparr>)))"

definition rix_net_arp_lookup :: "rix_net_arp_cache \<Rightarrow> u32 \<Rightarrow> u64 \<Rightarrow> mac option" where
  "rix_net_arp_lookup cache ip now =
     (if ip = 0 then None
      else map_option (\<lambda>i. ae_mac (cache i))
             (find (\<lambda>i. ae_valid (cache i) \<and> ae_ip (cache i) = ip \<and> ae_expires_at (cache i) > now) [0..<RIX_NET_ARP_CACHE_MAX]))"

text \<open>Expiry returns how many entries it dropped.\<close>

definition rix_net_arp_expire :: "rix_net_arp_cache \<Rightarrow> u64 \<Rightarrow> rc \<times> rix_net_arp_cache" where
  "rix_net_arp_expire cache now =
     fold (\<lambda>i (expired, c). if ae_valid (c i) \<and> ae_expires_at (c i) \<le> now
                           then (expired + 1, c(i := (c i)\<lparr>ae_valid := False\<rparr>)) else (expired, c))
          [0..<RIX_NET_ARP_CACHE_MAX] (0, cache)"

definition rix_net_arp_push :: "rix_net_packet \<Rightarrow> u16 \<Rightarrow> mac \<Rightarrow> u32 \<Rightarrow> mac \<Rightarrow> u32 \<Rightarrow> rc \<times> rix_net_packet" where
  "rix_net_arp_push p operation sender_mac sender_ip target_mac target_ip =
     (if sender_ip = 0 \<or> target_ip = 0 \<or> (operation \<noteq> RIX_NET_ARP_REQUEST \<and> operation \<noteq> RIX_NET_ARP_REPLY) \<or>
         pk_start p > RIX_NET_FRAME_CAPACITY \<or> pk_start p > RIX_NET_FRAME_CAPACITY - RIX_NET_ARP_HEADER_LENGTH \<or>
         pk_length p > RIX_NET_FRAME_CAPACITY - pk_start p - RIX_NET_ARP_HEADER_LENGTH then (-1, p)
      else case rix_net_packet_put p RIX_NET_ARP_HEADER_LENGTH of
        (rc, w, p1) \<Rightarrow>
          if rc \<noteq> 0 then (-1, p1)
          else let b = put_be16 (pk_bytes p1) w RIX_NET_ARP_ETHERNET;
                   b = put_be16 b (w + 2) RIX_NET_ARP_IPV4;
                   b = b(w + 4 := 6);
                   b = b(w + 5 := 4);
                   b = put_be16 b (w + 6) operation;
                   b = copy_mac b (w + 8) sender_mac;
                   b = put_be32 b (w + 14) sender_ip;
                   b = copy_mac b (w + 18) target_mac;
                   b = put_be32 b (w + 24) target_ip
               in (0, p1\<lparr>pk_bytes := b\<rparr>))"

definition rix_net_arp_pull :: "rix_net_packet \<Rightarrow> rc \<times> rix_net_arp_packet option \<times> rix_net_packet" where
  "rix_net_arp_pull p =
     (if rix_net_packet_length p < RIX_NET_ARP_HEADER_LENGTH then (-1, None, p)
      else let b = pk_bytes p; w = pk_start p in
        if get_be16 b w \<noteq> RIX_NET_ARP_ETHERNET \<or> get_be16 b (w + 2) \<noteq> RIX_NET_ARP_IPV4 \<or> b (w + 4) \<noteq> 6 \<or> b (w + 5) \<noteq> 4 \<or>
           (get_be16 b (w + 6) \<noteq> RIX_NET_ARP_REQUEST \<and> get_be16 b (w + 6) \<noteq> RIX_NET_ARP_REPLY) then (-2, None, p)
        else let arp = \<lparr>arp_hardware_type = get_be16 b w, arp_protocol_type = get_be16 b (w + 2),
                        arp_hardware_length = b (w + 4), arp_protocol_length = b (w + 5), arp_operation = get_be16 b (w + 6),
                        arp_sender_mac = map (\<lambda>i. b (w + 8 + i)) [0..<6], arp_sender_ip = get_be32 b (w + 14),
                        arp_target_mac = map (\<lambda>i. b (w + 18 + i)) [0..<6], arp_target_ip = get_be32 b (w + 24)\<rparr>
             in case rix_net_packet_pull p RIX_NET_ARP_HEADER_LENGTH of
                  (rc, _, p1) \<Rightarrow> if rc \<noteq> 0 then (-1, Some arp, p1) else (0, Some arp, p1))"

subsection \<open>The cache\<close>

text \<open>An entry a lookup at time \<open>t\<close> may use for \<open>ip\<close>.\<close>

definition arp_live :: "rix_net_arp_entry \<Rightarrow> u64 \<Rightarrow> bool" where
  "arp_live e t \<longleftrightarrow> ae_valid e \<and> ae_expires_at e > t"

lemma arp_slot_cases:
  assumes "arp_slot cache ip now is oldest x = s"
  shows "(\<exists>pre post. is = pre @ s # post \<and> (\<forall>j \<in> set pre. arp_live (cache j) now \<and> ae_ip (cache j) \<noteq> ip) \<and>
            (\<not> arp_live (cache s) now \<or> ae_ip (cache s) = ip)) \<or>
         ((\<forall>j \<in> set is. arp_live (cache j) now \<and> ae_ip (cache j) \<noteq> ip) \<and>
            ((s = oldest \<and> (\<forall>j \<in> set is. x \<le> ae_expires_at (cache j))) \<or>
             (s \<in> set is \<and> ae_expires_at (cache s) < x \<and> (\<forall>j \<in> set is. ae_expires_at (cache s) \<le> ae_expires_at (cache j)))))"
  using assms
proof (induction "is" arbitrary: oldest x)
  case (Cons i "is")
  consider "ae_valid (cache i) \<and> ae_ip (cache i) = ip \<or> \<not> arp_live (cache i) now"
    | "arp_live (cache i) now" "ae_ip (cache i) \<noteq> ip" "ae_expires_at (cache i) < x"
    | "arp_live (cache i) now" "ae_ip (cache i) \<noteq> ip" "x \<le> ae_expires_at (cache i)"
    by (metis arp_live_def not_less)
  then show ?case
  proof cases
    case 1
    then have "s = i" using Cons.prems by (auto simp: arp_live_def not_less split: if_splits)
    then show ?thesis using 1 by (intro disjI1 exI[of _ "[]"] exI[of _ "is"]) (auto simp: arp_live_def)
  next
    case 2
    then have "arp_slot cache ip now is i (ae_expires_at (cache i)) = s"
      using Cons.prems by (auto simp: arp_live_def)
    from Cons.IH[OF this] show ?thesis
    proof (elim disjE)
      assume "\<exists>pre post. is = pre @ s # post \<and> (\<forall>j \<in> set pre. arp_live (cache j) now \<and> ae_ip (cache j) \<noteq> ip) \<and>
            (\<not> arp_live (cache s) now \<or> ae_ip (cache s) = ip)"
      then show ?thesis using 2 by (metis append_Cons set_ConsD)
    qed (use 2 in auto)
  next
    case 3
    then have "arp_slot cache ip now is oldest x = s" using Cons.prems by (auto simp: arp_live_def)
    from Cons.IH[OF this] show ?thesis
    proof (elim disjE)
      assume "\<exists>pre post. is = pre @ s # post \<and> (\<forall>j \<in> set pre. arp_live (cache j) now \<and> ae_ip (cache j) \<noteq> ip) \<and>
            (\<not> arp_live (cache s) now \<or> ae_ip (cache s) = ip)"
      then show ?thesis using 3 by (metis append_Cons set_ConsD)
    qed (use 3 in auto)
  qed
qed simp

lemma upt_prefix:
  assumes "[0..<n] = pre @ s # post"
  shows "pre = [0..<s]"
proof -
  have l: "length pre < n" using arg_cong[OF assms, of length] by simp
  have "s = [0..<n] ! length pre" by (simp add: assms)
  then have "s = length pre" using l by simp
  moreover have "pre = take (length pre) [0..<n]" by (simp add: assms)
  ultimately show ?thesis using l by simp
qed

definition arp_entries :: "rix_net_arp_cache \<Rightarrow> u64 \<Rightarrow> u32 \<Rightarrow> bool" where
  "arp_entries cache now ip \<longleftrightarrow> (\<forall>j < RIX_NET_ARP_CACHE_MAX. arp_live (cache j) now \<and> ae_ip (cache j) \<noteq> ip)"

lemma arp_learn_slot:
  assumes "s = arp_slot cache ip now [0..<RIX_NET_ARP_CACHE_MAX] 0 (- 1)"
  shows "s < RIX_NET_ARP_CACHE_MAX"
    and "(\<forall>j < s. ae_ip (cache j) \<noteq> ip) \<and> (\<not> arp_live (cache s) now \<or> ae_ip (cache s) = ip) \<or>
         arp_entries cache now ip \<and> (\<forall>j < RIX_NET_ARP_CACHE_MAX. ae_expires_at (cache s) \<le> ae_expires_at (cache j))"
proof -
  let ?A = "\<exists>pre post. [0..<RIX_NET_ARP_CACHE_MAX] = pre @ s # post \<and> (\<forall>j \<in> set pre. arp_live (cache j) now \<and> ae_ip (cache j) \<noteq> ip) \<and>
            (\<not> arp_live (cache s) now \<or> ae_ip (cache s) = ip)"
  from arp_slot_cases[OF assms[symmetric]]
  have *: "?A \<or> (arp_entries cache now ip \<and> s < RIX_NET_ARP_CACHE_MAX \<and>
              (\<forall>j < RIX_NET_ARP_CACHE_MAX. ae_expires_at (cache s) \<le> ae_expires_at (cache j)))"
  proof (elim disjE)
    assume h: "(\<forall>j \<in> set [0..<RIX_NET_ARP_CACHE_MAX]. arp_live (cache j) now \<and> ae_ip (cache j) \<noteq> ip) \<and>
        (s = 0 \<and> (\<forall>j \<in> set [0..<RIX_NET_ARP_CACHE_MAX]. - 1 \<le> ae_expires_at (cache j)) \<or>
         s \<in> set [0..<RIX_NET_ARP_CACHE_MAX] \<and> ae_expires_at (cache s) < - 1 \<and>
         (\<forall>j \<in> set [0..<RIX_NET_ARP_CACHE_MAX]. ae_expires_at (cache s) \<le> ae_expires_at (cache j)))"
    then show ?thesis
      by (intro disjI2) (auto simp: arp_entries_def RIX_NET_ARP_CACHE_MAX_def intro: order_trans[OF word_order.extremum])
  qed blast
  then show "s < RIX_NET_ARP_CACHE_MAX"
  proof (elim disjE)
    assume ?A
    then have "s \<in> set [0..<RIX_NET_ARP_CACHE_MAX]" by (metis in_set_conv_decomp)
    then show ?thesis by simp
  qed simp
  from * show "(\<forall>j < s. ae_ip (cache j) \<noteq> ip) \<and> (\<not> arp_live (cache s) now \<or> ae_ip (cache s) = ip) \<or>
         arp_entries cache now ip \<and> (\<forall>j < RIX_NET_ARP_CACHE_MAX. ae_expires_at (cache s) \<le> ae_expires_at (cache j))"
  proof (elim disjE)
    assume ?A
    then obtain pre post where e: "[0..<RIX_NET_ARP_CACHE_MAX] = pre @ s # post"
        and h: "\<forall>j \<in> set pre. arp_live (cache j) now \<and> ae_ip (cache j) \<noteq> ip" "\<not> arp_live (cache s) now \<or> ae_ip (cache s) = ip"
      by blast
    have "pre = [0..<s]" by (rule upt_prefix[OF e])
    then show ?thesis using h by auto
  qed blast
qed

lemma find_upt_cong: "(\<And>i. i < n \<Longrightarrow> P i = Q i) \<Longrightarrow> find P [0..<n] = find Q [0..<n]"
  by (rule find_cong) auto

text \<open>What is learned is found until it expires.\<close>

lemma arp_learn_found:
  assumes "ip \<noteq> 0" "lifetime \<noteq> 0" "t < arp_expiry now lifetime"
  shows "rix_net_arp_lookup (snd (rix_net_arp_learn cache ip m now lifetime)) ip t = Some m"
proof -
  define s where "s = arp_slot cache ip now [0..<RIX_NET_ARP_CACHE_MAX] 0 (- 1)"
  define c' where "c' = cache(s := \<lparr>ae_ip = ip, ae_mac = m, ae_expires_at = arp_expiry now lifetime, ae_valid = True\<rparr>)"
  have c': "snd (rix_net_arp_learn cache ip m now lifetime) = c'"
    using assms by (simp add: rix_net_arp_learn_def c'_def s_def Let_def)
  note sl = arp_learn_slot[OF s_def]
  have "ae_ip (cache j) \<noteq> ip" if "j < s" for j
    using sl(2) that less_trans[OF that sl(1)] unfolding arp_entries_def by blast
  then have "find (\<lambda>i. ae_valid (c' i) \<and> ae_ip (c' i) = ip \<and> ae_expires_at (c' i) > t) [0..<RIX_NET_ARP_CACHE_MAX] = Some s"
    using sl(1) assms(3) by (auto simp: find_upt_Some c'_def)
  then show ?thesis using assms(1) unfolding c' by (simp add: rix_net_arp_lookup_def c'_def)
qed

text \<open>Another address loses its mapping only when every slot held a live entry, and then the one to expire first went.\<close>

lemma arp_learn_others:
  assumes "ip' \<noteq> ip" "now \<le> t"
    and "\<not> (arp_entries cache now ip \<and> ip' = ae_ip (cache (arp_slot cache ip now [0..<RIX_NET_ARP_CACHE_MAX] 0 (- 1))))"
  shows "rix_net_arp_lookup (snd (rix_net_arp_learn cache ip m now lifetime)) ip' t = rix_net_arp_lookup cache ip' t"
proof (cases "ip = 0 \<or> lifetime = 0 \<or> ip' = 0")
  case True
  then show ?thesis by (auto simp: rix_net_arp_learn_def rix_net_arp_lookup_def)
next
  case False
  define s where "s = arp_slot cache ip now [0..<RIX_NET_ARP_CACHE_MAX] 0 (- 1)"
  define c' where "c' = cache(s := \<lparr>ae_ip = ip, ae_mac = m, ae_expires_at = arp_expiry now lifetime, ae_valid = True\<rparr>)"
  have c': "snd (rix_net_arp_learn cache ip m now lifetime) = c'"
    using False by (simp add: rix_net_arp_learn_def c'_def s_def Let_def)
  have dead: "\<not> (ae_valid (cache s) \<and> ae_ip (cache s) = ip' \<and> ae_expires_at (cache s) > t)"
    using arp_learn_slot(2)[OF s_def] assms s_def by (auto simp: arp_live_def)
  let ?P = "\<lambda>c i. ae_valid (c i) \<and> ae_ip (c i) = ip' \<and> ae_expires_at (c i) > t"
  have "find (?P c') [0..<RIX_NET_ARP_CACHE_MAX] = find (?P cache) [0..<RIX_NET_ARP_CACHE_MAX]"
    using dead assms(1) by (intro find_upt_cong) (auto simp: c'_def)
  moreover have "i \<noteq> s" if "find (?P cache) [0..<RIX_NET_ARP_CACHE_MAX] = Some i" for i
    using dead find_upt_SomeD(3)[OF that] by auto
  ultimately show ?thesis
    unfolding c' using False
    by (cases "find (?P cache) [0..<RIX_NET_ARP_CACHE_MAX]") (auto simp: rix_net_arp_lookup_def c'_def)
qed

text \<open>Dropping expired entries changes no lookup at that time or later.\<close>

lemma arp_expire_fold:
  assumes "distinct is"
  shows "fold (\<lambda>i (expired, c). if ae_valid (c i) \<and> ae_expires_at (c i) \<le> now
                           then (expired + 1, c(i := (c i)\<lparr>ae_valid := False\<rparr>)) else (expired, c)) is (n :: int, cache)
     = (n + int (card {i \<in> set is. ae_valid (cache i) \<and> ae_expires_at (cache i) \<le> now}),
        \<lambda>i. if i \<in> set is \<and> ae_expires_at (cache i) \<le> now then (cache i)\<lparr>ae_valid := False\<rparr> else cache i)"
  using assms
proof (induction "is" arbitrary: n cache)
  case (Cons i "is")
  let ?D = "\<lambda>c is. {j \<in> set is. ae_valid (c j) \<and> ae_expires_at (c j) \<le> now}"
  show ?case
  proof (cases "ae_valid (cache i) \<and> ae_expires_at (cache i) \<le> now")
    case True
    let ?c = "cache(i := (cache i)\<lparr>ae_valid := False\<rparr>)"
    have "?D ?c is = ?D cache is" using Cons.prems by auto
    moreover have "?D cache (i # is) = insert i (?D cache is)" using True by auto
    ultimately show ?thesis using Cons True by (auto simp: fun_eq_iff)
  next
    case False
    then have "?D cache (i # is) = ?D cache is" by auto
    then show ?thesis using Cons False by (auto simp: fun_eq_iff)
  qed
qed simp

lemma arp_expire_keeps_lookups:
  assumes "now \<le> t"
  shows "rix_net_arp_lookup (snd (rix_net_arp_expire cache now)) ip t = rix_net_arp_lookup cache ip t"
proof -
  let ?c = "snd (rix_net_arp_expire cache now)"
  have c: "?c = (\<lambda>i. if i < RIX_NET_ARP_CACHE_MAX \<and> ae_expires_at (cache i) \<le> now then (cache i)\<lparr>ae_valid := False\<rparr> else cache i)"
    unfolding rix_net_arp_expire_def by (subst arp_expire_fold) simp_all
  have "find (\<lambda>i. ae_valid (?c i) \<and> ae_ip (?c i) = ip \<and> ae_expires_at (?c i) > t) [0..<RIX_NET_ARP_CACHE_MAX] =
        find (\<lambda>i. ae_valid (cache i) \<and> ae_ip (cache i) = ip \<and> ae_expires_at (cache i) > t) [0..<RIX_NET_ARP_CACHE_MAX]"
    using assms by (intro find_upt_cong) (auto simp: c)
  then show ?thesis by (simp add: rix_net_arp_lookup_def c) (auto intro!: option.map_cong0)
qed

subsection \<open>The packets\<close>

definition arp_bytes :: "u16 \<Rightarrow> mac \<Rightarrow> u32 \<Rightarrow> mac \<Rightarrow> u32 \<Rightarrow> u8 list" where
  "arp_bytes operation sm si tm ti =
     bytes16 RIX_NET_ARP_ETHERNET @ bytes16 RIX_NET_ARP_IPV4 @ [6, 4] @ bytes16 operation @ sm @ bytes32 si @ tm @ bytes32 ti"

definition arp_hdr :: "u16 \<Rightarrow> mac \<Rightarrow> u32 \<Rightarrow> mac \<Rightarrow> u32 \<Rightarrow> rix_net_arp_packet" where
  "arp_hdr operation sm si tm ti =
     \<lparr>arp_hardware_type = RIX_NET_ARP_ETHERNET, arp_protocol_type = RIX_NET_ARP_IPV4,
      arp_hardware_length = 6, arp_protocol_length = 4, arp_operation = operation, arp_sender_mac = sm,
      arp_sender_ip = si, arp_target_mac = tm, arp_target_ip = ti\<rparr>"

definition arp_op_ok :: "u16 \<Rightarrow> bool" where
  "arp_op_ok operation \<longleftrightarrow> operation = RIX_NET_ARP_REQUEST \<or> operation = RIX_NET_ARP_REPLY"

lemma arp_push_view:
  assumes "packet_ok p" "pk_start p + pk_length p + 28 \<le> RIX_NET_FRAME_CAPACITY"
    and "si \<noteq> 0" "ti \<noteq> 0" "arp_op_ok operation" "length sm = 6" "length tm = 6"
  shows "\<exists>p'. rix_net_arp_push p operation sm si tm ti = (0, p') \<and> packet_ok p' \<and> pk_start p' = pk_start p \<and>
           pk_view p' = pk_view p @ arp_bytes operation sm si tm ti"
proof -
  define w where "w = pk_start p + pk_length p"
  define p1 where "p1 = p\<lparr>pk_length := pk_length p + 28\<rparr>"
  have put: "rix_net_packet_put p 28 = (0, w, p1)" using put_eq[OF assms(1,2)] by (simp add: w_def p1_def)
  let ?p' = "p1\<lparr>pk_bytes := store_bytes (pk_bytes p1) w (arp_bytes operation sm si tm ti)\<rparr>"
  have l: "length (arp_bytes operation sm si tm ti) = 28" using assms(6,7) by (simp add: arp_bytes_def)
  have st: "put_be32 (copy_mac (put_be32 (copy_mac (put_be16 ((put_be16 (put_be16 (pk_bytes p1) w RIX_NET_ARP_ETHERNET) (w + 2) RIX_NET_ARP_IPV4)
       (w + 4 := 6, w + 5 := 4)) (w + 6) operation) (w + 8) sm) (w + 14) si) (w + 18) tm) (w + 24) ti
     = store_bytes (pk_bytes p1) w (arp_bytes operation sm si tm ti)"
    unfolding stores copy_mac_def using assms(6,7) by (simp add: store_bytes_extend arp_bytes_def)
  have "rix_net_arp_push p operation sm si tm ti = (0, ?p')"
    unfolding rix_net_arp_push_def RIX_NET_ARP_HEADER_LENGTH_def put prod.case Let_def st
    using assms(1-5) by (auto simp: arp_op_ok_def)
  moreover have "pk_view ?p' = pk_view p @ arp_bytes operation sm si tm ti"
    using put_view[of p "arp_bytes operation sm si tm ti"] l by (simp add: p1_def w_def)
  moreover have "packet_ok ?p'" using assms(2) by (simp add: packet_ok_def p1_def)
  ultimately show ?thesis by (auto simp: p1_def)
qed

lemma arp_pull_view:
  assumes "packet_ok q" "pk_view q = arp_bytes operation sm si tm ti @ pad" "arp_op_ok operation" "length sm = 6" "length tm = 6"
  shows "\<exists>q'. rix_net_arp_pull q = (0, Some (arp_hdr operation sm si tm ti), q') \<and> packet_ok q' \<and> pk_view q' = pad"
proof -
  obtain s0 s1 s2 s3 s4 s5 where sm: "sm = [s0, s1, s2, s3, s4, s5]" using length6[OF assms(4)] by blast
  obtain t0 t1 t2 t3 t4 t5 where tm: "tm = [t0, t1, t2, t3, t4, t5]" using length6[OF assms(5)] by blast
  define hs where "hs = arp_bytes operation sm si tm ti"
  have l: "length hs = 28" using assms(4,5) by (simp add: hs_def arp_bytes_def)
  have v: "pk_view q = hs @ pad" using assms(2) by (simp add: hs_def)
  have len: "pk_length q = 28 + length pad" using length_pk_view[of q] v l by simp
  define st where "st = pk_start q"
  define b where "b = pk_bytes q"
  note hb = hs_def arp_bytes_def sm tm bytes16_def bytes32_def
  note g16 = header_get16[OF v, folded st_def b_def, unfolded l]
  note g32 = header_get32[OF v, folded st_def b_def, unfolded l]
  note g8 = pk_prefix_nth[OF v, folded st_def b_def, unfolded l]
  have f: "get_be16 b st = RIX_NET_ARP_ETHERNET" "get_be16 b (st + 2) = RIX_NET_ARP_IPV4" "get_be16 b (st + 6) = operation"
    using g16[of 0] g16[of 2] g16[of 6] by (simp_all add: hb)
  have f32: "get_be32 b (st + 14) = si" "get_be32 b (st + 24) = ti" using g32[of 14] g32[of 24] by (simp_all add: hb)
  have f8: "b (st + 4) = 6" "b (st + 5) = 4" using g8[of 4] g8[of 5] by (simp_all add: hb)
  have m: "map (\<lambda>i. b (st + 8 + i)) [0..<6] = sm" "map (\<lambda>i. b (st + 18 + i)) [0..<6] = tm"
    using g8[of 8] g8[of 9] g8[of 10] g8[of 11] g8[of 12] g8[of 13] g8[of 18] g8[of 19] g8[of 20] g8[of 21] g8[of 22] g8[of 23]
    by (simp_all add: hb upt_rec[of _ 6] numeral_eq_Suc add.assoc flip: numeral_eq_Suc)
  let ?q' = "q\<lparr>pk_start := pk_start q + 28, pk_length := length pad\<rparr>"
  have "pk_view ?q' = pad" using pull_view[of 28 "length pad" q] len v l by simp
  moreover have "packet_ok ?q'" using assms(1) len by (simp add: packet_ok_def)
  moreover have "rix_net_arp_pull q = (0, Some (arp_hdr operation sm si tm ti), ?q')"
    using f f32 f8 m len assms(3)
    by (simp add: rix_net_arp_pull_def pull_eq rix_net_packet_length_def arp_hdr_def arp_op_ok_def Let_def st_def[symmetric] b_def[symmetric])
  ultimately show ?thesis by blast
qed

end
