(* ===== verification/Net_Stack.thy ===== *)
theory Net_Stack
  imports Udp_Tcp Arp Ipv6
begin

text \<open>
  The network device, the loopback queue and the stack: \<^verbatim>\<open>kernel/net/device.c\<close>, \<^verbatim>\<open>kernel/net/loopback.c\<close> and
  \<^verbatim>\<open>kernel/net/stack.c\<close>.  A call sees its surroundings as an environment: the controllers the two drivers found, what
  they answer to a transmit and a receive, the monotonic clock, and the contents of an uninitialised local packet.
  The frames a call hands to a driver are part of its result, in order.  The serial diagnostics are left out.
\<close>

subsection \<open>The device\<close>

record rix_nic =
  nic_mac :: mac
  nic_link_up :: bool

record net_env =
  env_e1000 :: "rix_nic option"
  env_rtl8125 :: "rix_nic option"
  env_transmit :: "bool \<Rightarrow> u8 list option \<Rightarrow> rc"
  env_receive :: "bool \<Rightarrow> rc \<times> u8 list"
  env_time :: u64
  env_local :: rix_net_packet

definition RIX_NET_DEVICE_IP :: u32 where "RIX_NET_DEVICE_IP = 0x0a00020f"
definition RIX_NET_DEVICE_NETMASK :: u32 where "RIX_NET_DEVICE_NETMASK = 0xffffff00"
definition RIX_NET_DEVICE_GATEWAY :: u32 where "RIX_NET_DEVICE_GATEWAY = 0x0a000202"
definition RIX_NET_DEVICE_DNS :: u32 where "RIX_NET_DEVICE_DNS = 0x0a000203"

record rix_net_device_info =
  dv_present :: bool
  dv_link_up :: bool
  dv_mac :: mac
  dv_address :: u32
  dv_netmask :: u32
  dv_gateway :: u32
  dv_dns :: u32

record net_device =
  dv_info :: rix_net_device_info
  dv_use_rtl8125 :: bool

definition snapshot_e1000 :: "rix_nic \<Rightarrow> rix_net_device_info \<Rightarrow> rix_net_device_info" where
  "snapshot_e1000 controller d = d\<lparr>dv_present := True, dv_link_up := nic_link_up controller, dv_mac := nic_mac controller\<rparr>"

definition snapshot_rtl8125 :: "rix_nic \<Rightarrow> rix_net_device_info \<Rightarrow> rix_net_device_info" where
  "snapshot_rtl8125 controller d = d\<lparr>dv_present := True, dv_link_up := nic_link_up controller, dv_mac := nic_mac controller\<rparr>"

definition device_zero :: rix_net_device_info where
  "device_zero = \<lparr>dv_present = False, dv_link_up = False, dv_mac = replicate 6 0, dv_address = 0, dv_netmask = 0, dv_gateway = 0, dv_dns = 0\<rparr>"

definition device_defaults :: "rix_net_device_info \<Rightarrow> rix_net_device_info" where
  "device_defaults d = d\<lparr>dv_address := RIX_NET_DEVICE_IP, dv_netmask := RIX_NET_DEVICE_NETMASK,
     dv_gateway := RIX_NET_DEVICE_GATEWAY, dv_dns := RIX_NET_DEVICE_DNS\<rparr>"

definition rix_net_device_init :: "net_env \<Rightarrow> rc \<times> net_device" where
  "rix_net_device_init env =
     (case env_e1000 env of
        Some e1000 \<Rightarrow> (0, \<lparr>dv_info = device_defaults (snapshot_e1000 e1000 device_zero), dv_use_rtl8125 = False\<rparr>)
      | None \<Rightarrow> (case env_rtl8125 env of
            None \<Rightarrow> (-1, \<lparr>dv_info = device_zero, dv_use_rtl8125 = False\<rparr>)
          | Some rtl \<Rightarrow> (0, \<lparr>dv_info = device_defaults (snapshot_rtl8125 rtl device_zero), dv_use_rtl8125 = True\<rparr>)))"

definition rix_net_device_backend :: "net_device \<Rightarrow> string" where
  "rix_net_device_backend dev =
     (if \<not> dv_present (dv_info dev) then ''none'' else if dv_use_rtl8125 dev then ''rtl8125'' else ''e1000'')"

definition get_device_info :: "net_device \<Rightarrow> rix_net_device_info option" where
  "get_device_info dev = (if dv_present (dv_info dev) then Some (dv_info dev) else None)"

definition rix_net_device_configure :: "net_device \<Rightarrow> u32 \<Rightarrow> u32 \<Rightarrow> u32 \<Rightarrow> u32 \<Rightarrow> rc \<times> net_device" where
  "rix_net_device_configure dev address netmask gateway dns =
     (if \<not> dv_present (dv_info dev) \<or> address = 0 then (-1, dev)
      else let d = (dv_info dev)\<lparr>dv_address := address\<rparr>;
               d = (if netmask \<noteq> 0 then d\<lparr>dv_netmask := netmask\<rparr> else d);
               d = (if gateway \<noteq> 0 then d\<lparr>dv_gateway := gateway\<rparr> else d);
               d = (if dns \<noteq> 0 then d\<lparr>dv_dns := dns\<rparr> else d)
           in (0, dev\<lparr>dv_info := d\<rparr>))"

text \<open>The controller a call uses, and the frame it is given (none where the packet lies outside its buffer).\<close>

definition device_controller :: "net_env \<Rightarrow> net_device \<Rightarrow> rix_nic option" where
  "device_controller env dev = (if dv_use_rtl8125 dev then env_rtl8125 env else env_e1000 env)"

definition rix_net_device_transmit :: "net_env \<Rightarrow> net_device \<Rightarrow> rix_net_packet \<Rightarrow> rc \<times> u8 list option list" where
  "rix_net_device_transmit env dev p =
     (if \<not> dv_present (dv_info dev) \<or> rix_net_packet_length p = 0 then (-1, [])
      else case device_controller env dev of
        None \<Rightarrow> (-1, [])
      | Some _ \<Rightarrow> let frame = map_option (\<lambda>_. pk_view p) (rix_net_packet_data p)
                  in (env_transmit env (dv_use_rtl8125 dev) frame, [frame]))"

definition rix_net_device_receive :: "net_env \<Rightarrow> net_device \<Rightarrow> rix_net_packet \<Rightarrow> rc \<times> rix_net_packet" where
  "rix_net_device_receive env dev p =
     (if \<not> dv_present (dv_info dev) then (-1, p)
      else let p1 = rix_net_packet_init p in
        case device_controller env dev of
          None \<Rightarrow> (-1, p1)
        | Some _ \<Rightarrow> (case env_receive env (dv_use_rtl8125 dev) of
            (result, bytes) \<Rightarrow>
              let p2 = p1\<lparr>pk_bytes := store_bytes (pk_bytes p1) (pk_start p1) bytes\<rparr>
              in if result \<le> 0 then (result, p2) else (result, p2\<lparr>pk_length := length bytes\<rparr>)))"

subsection \<open>Loopback\<close>

definition RIX_NET_LOOPBACK_QUEUE :: nat where "RIX_NET_LOOPBACK_QUEUE = 8"

record rix_net_loopback =
  lb_queue :: "nat \<Rightarrow> rix_net_packet"
  lb_head :: nat
  lb_count :: nat

definition copy_packet_bytes :: "rix_net_packet \<Rightarrow> rix_net_packet \<Rightarrow> rix_net_packet" where
  "copy_packet_bytes destination source =
     destination\<lparr>pk_start := pk_start source, pk_length := pk_length source,
       pk_bytes := (\<lambda>i. if pk_start source \<le> i \<and> i < pk_start source + pk_length source then pk_bytes source i
                        else pk_bytes destination i)\<rparr>"

definition rix_net_loopback_init :: "rix_net_loopback \<Rightarrow> rix_net_loopback" where
  "rix_net_loopback_init lb = lb\<lparr>lb_head := 0, lb_count := 0\<rparr>"

definition rix_net_loopback_transmit :: "rix_net_loopback \<Rightarrow> rix_net_packet \<Rightarrow> rc \<times> rix_net_loopback" where
  "rix_net_loopback_transmit lb p =
     (if pk_start p > RIX_NET_FRAME_CAPACITY \<or> pk_length p > RIX_NET_FRAME_CAPACITY - pk_start p \<or>
         lb_count lb \<ge> RIX_NET_LOOPBACK_QUEUE then (-1, lb)
      else let tail = (lb_head lb + lb_count lb) mod RIX_NET_LOOPBACK_QUEUE
           in (0, lb\<lparr>lb_queue := (lb_queue lb)(tail := copy_packet_bytes (lb_queue lb tail) p), lb_count := lb_count lb + 1\<rparr>))"

definition rix_net_loopback_receive :: "rix_net_loopback \<Rightarrow> rix_net_packet \<Rightarrow> rc \<times> rix_net_packet \<times> rix_net_loopback" where
  "rix_net_loopback_receive lb p =
     (if lb_count lb = 0 then (-1, p, lb)
      else (0, copy_packet_bytes p (lb_queue lb (lb_head lb)),
            lb\<lparr>lb_head := (lb_head lb + 1) mod RIX_NET_LOOPBACK_QUEUE, lb_count := lb_count lb - 1\<rparr>))"

definition rix_net_loopback_pending :: "rix_net_loopback \<Rightarrow> nat" where
  "rix_net_loopback_pending lb = lb_count lb"

subsection \<open>The stack\<close>

definition RIX_NET_RX_QUEUE :: nat where "RIX_NET_RX_QUEUE = 8"

record rix_net_stack =
  sk_arp :: rix_net_arp_cache
  sk_ipv6_neighbors :: rix_net_ipv6_neighbor_cache
  sk_ipv6_routes :: rix_net_ipv6_route_table
  sk_pending :: rix_net_packet
  sk_pending_next_hop :: u32
  sk_pending_valid :: bool
  sk_pending_since_ns :: u64
  sk_incoming :: "nat \<Rightarrow> rix_net_packet"
  sk_incoming_head :: nat
  sk_incoming_count :: nat
  sk_incoming_ipv6 :: "nat \<Rightarrow> rix_net_packet"
  sk_incoming_ipv6_head :: nat
  sk_incoming_ipv6_count :: nat
  sk_initialized :: bool

definition broadcast_mac :: mac where
  "broadcast_mac = replicate 6 0xff"

definition next_hop :: "rix_net_device_info \<Rightarrow> u32 \<Rightarrow> u32" where
  "next_hop info destination =
     (if destination AND dv_netmask info = dv_address info AND dv_netmask info then destination else dv_gateway info)"

definition send_arp_request :: "net_env \<Rightarrow> net_device \<Rightarrow> rix_net_device_info \<Rightarrow> u32 \<Rightarrow> rc \<times> u8 list option list" where
  "send_arp_request env dev info target =
     (case rix_net_arp_push (rix_net_packet_init (env_local env)) RIX_NET_ARP_REQUEST (dv_mac info) (dv_address info) (replicate 6 0) target of
        (rc1, p1) \<Rightarrow>
          if rc1 \<noteq> 0 then (-1, [])
          else case rix_net_eth_push p1 broadcast_mac (dv_mac info) RIX_NET_ETHERTYPE_ARP of
            (rc2, p2) \<Rightarrow>
              if rc2 \<noteq> 0 then (-1, [])
              else case rix_net_device_transmit env dev p2 of (rc3, sent) \<Rightarrow> (if rc3 < 0 then -1 else 0, sent))"

definition rix_net_stack_init :: "net_device \<Rightarrow> rix_net_stack \<Rightarrow> rc \<times> rix_net_stack" where
  "rix_net_stack_init dev st =
     (case get_device_info dev of
        None \<Rightarrow> (-1, st)
      | Some _ \<Rightarrow>
          (0, st\<lparr>sk_arp := rix_net_arp_init (sk_arp st),
                 sk_ipv6_neighbors := rix_net_ipv6_neighbor_init (sk_ipv6_neighbors st),
                 sk_ipv6_routes := rix_net_ipv6_route_init (sk_ipv6_routes st),
                 sk_pending := rix_net_packet_init (sk_pending st),
                 sk_incoming := (\<lambda>i. if i < RIX_NET_RX_QUEUE then rix_net_packet_init (sk_incoming st i) else sk_incoming st i),
                 sk_incoming_ipv6 := (\<lambda>i. if i < RIX_NET_RX_QUEUE then rix_net_packet_init (sk_incoming_ipv6 st i) else sk_incoming_ipv6 st i),
                 sk_incoming_head := 0, sk_incoming_count := 0, sk_incoming_ipv6_head := 0, sk_incoming_ipv6_count := 0,
                 sk_pending_next_hop := 0, sk_pending_valid := False, sk_pending_since_ns := 0, sk_initialized := True\<rparr>))"

definition rix_net_stack_send_ipv4 ::
    "net_env \<Rightarrow> net_device \<Rightarrow> rix_net_stack \<Rightarrow> rix_net_packet \<Rightarrow> u32 \<Rightarrow> rc \<times> rix_net_stack \<times> rix_net_packet \<times> u8 list option list" where
  "rix_net_stack_send_ipv4 env dev st p destination_ip =
     (case get_device_info dev of
        None \<Rightarrow> (-1, st, p, [])
      | Some info \<Rightarrow>
          if \<not> sk_initialized st \<or> rix_net_packet_length p = 0 \<or> destination_ip = 0 then (-1, st, p, [])
          else let hop = next_hop info destination_ip in
            case rix_net_arp_lookup (sk_arp st) hop 0 of
              None \<Rightarrow>
                if sk_pending_valid st then (-2, st, p, [])
                else let st1 = st\<lparr>sk_pending := p, sk_pending_next_hop := hop, sk_pending_valid := True,
                                  sk_pending_since_ns := env_time env\<rparr>
                     in (case send_arp_request env dev info hop of (rc, sent) \<Rightarrow> (if rc = 0 then -2 else -3, st1, p, sent))
            | Some m \<Rightarrow>
                (case rix_net_eth_push p m (dv_mac info) RIX_NET_ETHERTYPE_IPV4 of
                   (rc1, p1) \<Rightarrow>
                     if rc1 \<noteq> 0 then (-1, st, p1, [])
                     else case rix_net_device_transmit env dev p1 of (rc2, sent) \<Rightarrow> (if rc2 < 0 then -1 else 0, st, p1, sent)))"

definition rix_net_stack_send_ipv6 ::
    "net_env \<Rightarrow> net_device \<Rightarrow> rix_net_stack \<Rightarrow> rix_net_packet \<Rightarrow> ip6 \<Rightarrow> rc \<times> rix_net_packet \<times> u8 list option list" where
  "rix_net_stack_send_ipv6 env dev st p destination =
     (case get_device_info dev of
        None \<Rightarrow> (-1, p, [])
      | Some info \<Rightarrow>
          if \<not> sk_initialized st \<or> rix_net_packet_length p = 0 then (-1, p, [])
          else case rix_net_ipv6_route_lookup (sk_ipv6_routes st) destination of
            None \<Rightarrow> (-2, p, [])
          | Some hop \<Rightarrow> (case rix_net_ipv6_neighbor_lookup (sk_ipv6_neighbors st) hop (env_time env) of
              None \<Rightarrow> (-2, p, [])
            | Some m \<Rightarrow> (case rix_net_eth_push p m (dv_mac info) RIX_NET_ETHERTYPE_IPV6 of
                (rc1, p1) \<Rightarrow>
                  if rc1 \<noteq> 0 then (-1, p1, [])
                  else case rix_net_device_transmit env dev p1 of (rc2, sent) \<Rightarrow> (if rc2 < 0 then -1 else 0, p1, sent))))"

text \<open>The answer to a request for our address, the second part of \<open>handle_arp\<close>.\<close>

definition arp_answer :: "net_env \<Rightarrow> net_device \<Rightarrow> rix_net_device_info \<Rightarrow> rix_net_arp_packet \<Rightarrow> rc \<times> u8 list option list" where
  "arp_answer env dev info arp =
     (if arp_operation arp = RIX_NET_ARP_REQUEST \<and> arp_target_ip arp = dv_address info then
        case rix_net_arp_push (rix_net_packet_init (env_local env)) RIX_NET_ARP_REPLY (dv_mac info) (dv_address info)
               (arp_sender_mac arp) (arp_sender_ip arp) of
          (rc1, p1) \<Rightarrow>
            if rc1 \<noteq> 0 then (-1, [])
            else case rix_net_eth_push p1 (arp_sender_mac arp) (dv_mac info) RIX_NET_ETHERTYPE_ARP of
              (rc2, p2) \<Rightarrow>
                if rc2 \<noteq> 0 then (-1, [])
                else case rix_net_device_transmit env dev p2 of (rc3, sent) \<Rightarrow> (if rc3 < 0 then -1 else 0, sent)
      else (0, []))"

text \<open>The packet that waited for this sender, the last part of \<open>handle_arp\<close>.\<close>

definition arp_flush :: "net_env \<Rightarrow> net_device \<Rightarrow> rix_net_stack \<Rightarrow> rix_net_arp_packet \<Rightarrow> u64 \<Rightarrow> rc \<times> rix_net_stack \<times> u8 list option list" where
  "arp_flush env dev st arp now =
     (if sk_pending_valid st \<and> arp_sender_ip arp = sk_pending_next_hop st then
        case rix_net_arp_lookup (sk_arp st) (sk_pending_next_hop st) now of
          None \<Rightarrow> (0, st, [])
        | Some m \<Rightarrow> (case rix_net_eth_push (sk_pending st) m (dv_mac (dv_info dev)) RIX_NET_ETHERTYPE_IPV4 of
            (push_rc, p1) \<Rightarrow>
              let st1 = st\<lparr>sk_pending := p1\<rparr> in
              if push_rc \<noteq> 0 then (-1, st1, [])
              else case rix_net_device_transmit env dev p1 of
                (tx_rc, sent) \<Rightarrow> if tx_rc < 0 then (-1, st1, sent) else (0, st1\<lparr>sk_pending_valid := False\<rparr>, sent))
      else (0, st, []))"

definition handle_arp :: "net_env \<Rightarrow> net_device \<Rightarrow> rix_net_stack \<Rightarrow> rix_net_arp_packet \<Rightarrow> u64 \<Rightarrow> rc \<times> rix_net_stack \<times> u8 list option list" where
  "handle_arp env dev st arp now =
     (case get_device_info dev of
        None \<Rightarrow> (-1, st, [])
      | Some info \<Rightarrow>
          if arp_sender_ip arp = 0 then (-1, st, [])
          else case rix_net_arp_learn (sk_arp st) (arp_sender_ip arp) (arp_sender_mac arp) now 60 of
            (learn_rc, cache) \<Rightarrow>
              let st1 = st\<lparr>sk_arp := cache\<rparr> in
              if learn_rc \<noteq> 0 then (-1, st1, [])
              else case arp_answer env dev info arp of
                (rc1, sent1) \<Rightarrow>
                  if rc1 \<noteq> 0 then (-1, st1, sent1)
                  else case arp_flush env dev st1 arp now of (rc2, st2, sent2) \<Rightarrow> (rc2, st2, sent1 @ sent2))"

definition rix_net_stack_timer :: "net_env \<Rightarrow> net_device \<Rightarrow> rix_net_stack \<Rightarrow> u64 \<Rightarrow> rc \<times> rix_net_stack \<times> u8 list option list" where
  "rix_net_stack_timer env dev st now =
     (if \<not> sk_initialized st then (-1, st, [])
      else let st1 = st\<lparr>sk_arp := snd (rix_net_arp_expire (sk_arp st) now)\<rparr> in
        if sk_pending_valid st1 \<and> env_time env \<ge> sk_pending_since_ns st1 \<and> env_time env - sk_pending_since_ns st1 \<ge> 1000000000 then
          let st2 = st1\<lparr>sk_pending_since_ns := env_time env\<rparr> in
          case get_device_info dev of
            None \<Rightarrow> (0, st2, [])
          | Some info \<Rightarrow> (0, st2, snd (send_arp_request env dev info (sk_pending_next_hop st2)))
        else (0, st1, []))"

text \<open>The receive queues drop their oldest packet when full.\<close>

definition store_ipv4 :: "rix_net_stack \<Rightarrow> rix_net_packet \<Rightarrow> rix_net_stack" where
  "store_ipv4 st p =
     (let st1 = (if sk_incoming_count st \<ge> RIX_NET_RX_QUEUE
                 then st\<lparr>sk_incoming_head := (sk_incoming_head st + 1) mod RIX_NET_RX_QUEUE, sk_incoming_count := sk_incoming_count st - 1\<rparr>
                 else st);
          tail = (sk_incoming_head st1 + sk_incoming_count st1) mod RIX_NET_RX_QUEUE
      in st1\<lparr>sk_incoming := (sk_incoming st1)(tail := p), sk_incoming_count := sk_incoming_count st1 + 1\<rparr>)"

definition store_ipv6 :: "rix_net_stack \<Rightarrow> rix_net_packet \<Rightarrow> rix_net_stack" where
  "store_ipv6 st p =
     (let st1 = (if sk_incoming_ipv6_count st \<ge> RIX_NET_RX_QUEUE
                 then st\<lparr>sk_incoming_ipv6_head := (sk_incoming_ipv6_head st + 1) mod RIX_NET_RX_QUEUE,
                         sk_incoming_ipv6_count := sk_incoming_ipv6_count st - 1\<rparr>
                 else st);
          tail = (sk_incoming_ipv6_head st1 + sk_incoming_ipv6_count st1) mod RIX_NET_RX_QUEUE
      in st1\<lparr>sk_incoming_ipv6 := (sk_incoming_ipv6 st1)(tail := p), sk_incoming_ipv6_count := sk_incoming_ipv6_count st1 + 1\<rparr>)"

definition rix_net_stack_poll :: "net_env \<Rightarrow> net_device \<Rightarrow> rix_net_stack \<Rightarrow> u64 \<Rightarrow> rc \<times> rix_net_stack \<times> u8 list option list" where
  "rix_net_stack_poll env dev st now =
     (case rix_net_stack_timer env dev st now of
        (trc, st1, sent1) \<Rightarrow>
          if trc \<noteq> 0 then (-1, st1, sent1)
          else case rix_net_device_receive env dev (env_local env) of
            (received, p) \<Rightarrow>
              if received \<le> 0 then (received, st1, sent1)
              else case rix_net_eth_pull p of
                (erc, hdr, p1) \<Rightarrow>
                  if erc \<noteq> 0 then (-2, st1, sent1)
                  else let ethertype = eth_type (the hdr) in
                    if ethertype = RIX_NET_ETHERTYPE_ARP then
                      (case rix_net_arp_pull p1 of
                         (arc, arp, p2) \<Rightarrow>
                           if arc \<noteq> 0 then (-3, st1, sent1)
                           else case handle_arp env dev st1 (the arp) now of
                             (hrc, st2, sent2) \<Rightarrow> (if hrc = 0 then 1 else -4, st2, sent1 @ sent2))
                    else let st2 = (if ethertype = RIX_NET_ETHERTYPE_IPV4 then store_ipv4 st1 p1 else st1);
                             st3 = (if ethertype = RIX_NET_ETHERTYPE_IPV6 then store_ipv6 st2 p1 else st2)
                         in (1, st3, sent1))"

definition rix_net_stack_take_ipv4 :: "rix_net_stack \<Rightarrow> rc \<times> rix_net_packet option \<times> rix_net_stack" where
  "rix_net_stack_take_ipv4 st =
     (if \<not> sk_initialized st \<or> sk_incoming_count st = 0 then (0, None, st)
      else (1, Some (sk_incoming st (sk_incoming_head st)),
            st\<lparr>sk_incoming_head := (sk_incoming_head st + 1) mod RIX_NET_RX_QUEUE, sk_incoming_count := sk_incoming_count st - 1\<rparr>))"

definition rix_net_stack_take_ipv6 :: "rix_net_stack \<Rightarrow> rc \<times> rix_net_packet option \<times> rix_net_stack" where
  "rix_net_stack_take_ipv6 st =
     (if \<not> sk_initialized st \<or> sk_incoming_ipv6_count st = 0 then (0, None, st)
      else (1, Some (sk_incoming_ipv6 st (sk_incoming_ipv6_head st)),
            st\<lparr>sk_incoming_ipv6_head := (sk_incoming_ipv6_head st + 1) mod RIX_NET_RX_QUEUE,
               sk_incoming_ipv6_count := sk_incoming_ipv6_count st - 1\<rparr>))"

subsection \<open>What the device transmits and receives\<close>

lemma init_packet: "packet_ok (rix_net_packet_init p)" "pk_start (rix_net_packet_init p) = 64" "pk_length (rix_net_packet_init p) = 0"
    "pk_view (rix_net_packet_init p) = []"
  using packet_ok_init[of p] pk_view_init[of p] by (simp_all add: rix_net_packet_init_def)

lemma device_transmit_ok:
  assumes "packet_ok p" "0 < pk_length p" "dv_present (dv_info dev)" "device_controller env dev = Some nic"
  shows "rix_net_device_transmit env dev p = (env_transmit env (dv_use_rtl8125 dev) (Some (pk_view p)), [Some (pk_view p)])"
  using assms by (simp add: rix_net_device_transmit_def rix_net_packet_length_def packet_data_ok Let_def)

lemma device_receive_ok:
  assumes "dv_present (dv_info dev)" "device_controller env dev = Some nic" "env_receive env (dv_use_rtl8125 dev) = (r, bytes)" "0 < r"
    and "length bytes \<le> 1516"
  shows "\<exists>q. rix_net_device_receive env dev p = (r, q) \<and> packet_ok q \<and> pk_view q = bytes"
proof -
  let ?q = "(rix_net_packet_init p)\<lparr>pk_bytes := store_bytes (pk_bytes (rix_net_packet_init p)) (pk_start (rix_net_packet_init p)) bytes,
             pk_length := length bytes\<rparr>"
  have "pk_view ?q = bytes" by (simp add: pk_view_def)
  moreover have "packet_ok ?q" using assms(5) by (simp add: packet_ok_def init_packet)
  ultimately show ?thesis using assms(1-4) by (simp add: rix_net_device_receive_def Let_def)
qed

end
