(* ===== verification/Dhcp.thy ===== *)
theory Dhcp
  imports Net_Stack
begin

text \<open>
  The boot-time address configuration: \<^verbatim>\<open>kernel/net/dhcp.c\<close>.  Messages are built into a packet option by option and
  parsed by a loop over the options; the exchange polls the device a bounded number of times, each poll seeing its own
  environment.  The progress report on the serial line is left out, its counters are not.
\<close>

subsection \<open>Building messages\<close>

definition RIX_DHCP_OP_REQUEST :: u8 where "RIX_DHCP_OP_REQUEST = 1"
definition RIX_DHCP_OP_REPLY :: u8 where "RIX_DHCP_OP_REPLY = 2"
definition RIX_DHCP_MSG_DISCOVER :: u8 where "RIX_DHCP_MSG_DISCOVER = 1"
definition RIX_DHCP_MSG_OFFER :: u8 where "RIX_DHCP_MSG_OFFER = 2"
definition RIX_DHCP_MSG_REQUEST :: u8 where "RIX_DHCP_MSG_REQUEST = 3"
definition RIX_DHCP_MSG_ACK :: u8 where "RIX_DHCP_MSG_ACK = 5"
definition RIX_DHCP_MIN_SIZE :: nat where [simp]: "RIX_DHCP_MIN_SIZE = 300"
definition RIX_DHCP_SERVER_PORT :: u16 where "RIX_DHCP_SERVER_PORT = 67"
definition RIX_DHCP_CLIENT_PORT :: u16 where "RIX_DHCP_CLIENT_PORT = 68"

definition DHCP_OPT_PAD :: u8 where "DHCP_OPT_PAD = 0"
definition DHCP_OPT_END :: u8 where "DHCP_OPT_END = 255"
definition DHCP_OPT_MSGTYPE :: u8 where "DHCP_OPT_MSGTYPE = 53"
definition DHCP_OPT_MASK :: u8 where "DHCP_OPT_MASK = 1"
definition DHCP_OPT_ROUTER :: u8 where "DHCP_OPT_ROUTER = 3"
definition DHCP_OPT_DNS :: u8 where "DHCP_OPT_DNS = 6"
definition DHCP_OPT_REQIP :: u8 where "DHCP_OPT_REQIP = 50"
definition DHCP_OPT_LEASE :: u8 where "DHCP_OPT_LEASE = 51"
definition DHCP_OPT_SERVER :: u8 where "DHCP_OPT_SERVER = 54"
definition DHCP_OPT_PRL :: u8 where "DHCP_OPT_PRL = 55"
definition DHCP_OPT_CLIENT_ID :: u8 where "DHCP_OPT_CLIENT_ID = 61"

lemmas dhcp_opts = DHCP_OPT_PAD_def DHCP_OPT_END_def DHCP_OPT_MSGTYPE_def DHCP_OPT_MASK_def DHCP_OPT_ROUTER_def DHCP_OPT_DNS_def
  DHCP_OPT_REQIP_def DHCP_OPT_LEASE_def DHCP_OPT_SERVER_def DHCP_OPT_PRL_def DHCP_OPT_CLIENT_ID_def

definition dhcp_header :: "rix_net_packet \<Rightarrow> u8 \<Rightarrow> u32 \<Rightarrow> mac \<Rightarrow> rc \<times> rix_net_packet" where
  "dhcp_header p op xid m =
     (case rix_net_packet_put p 240 of
        (rc, body, p1) \<Rightarrow>
          if rc \<noteq> 0 then (-1, p1)
          else let b = store_bytes (pk_bytes p1) body (replicate 240 0);
                   b = b(body := op);
                   b = b(body + 1 := 1);
                   b = b(body + 2 := 6);
                   b = put_be32 b (body + 4) xid;
                   b = b(body + 10 := 0x80);
                   b = store_bytes b (body + 28) (map ((!) m) [0..<6]);
                   b = b(body + 236 := 99);
                   b = b(body + 237 := 130);
                   b = b(body + 238 := 83);
                   b = b(body + 239 := 99)
               in (0, p1\<lparr>pk_bytes := b\<rparr>))"

definition dhcp_option :: "rix_net_packet \<Rightarrow> u8 \<Rightarrow> u8 list \<Rightarrow> rc \<times> rix_net_packet" where
  "dhcp_option p code data =
     (case rix_net_packet_put p (2 + length data) of
        (rc, body, p1) \<Rightarrow>
          if rc \<noteq> 0 then (-1, p1)
          else let b = (pk_bytes p1)(body := code);
                   b = b(body + 1 := of_nat (length data));
                   b = store_bytes b (body + 2) data
               in (0, p1\<lparr>pk_bytes := b\<rparr>))"

definition dhcp_pad :: "rix_net_packet \<Rightarrow> rc \<times> rix_net_packet" where
  "dhcp_pad p =
     (if rix_net_packet_length p > RIX_DHCP_MIN_SIZE then (-1, p)
      else case rix_net_packet_put p 1 of
        (rc, body, p1) \<Rightarrow>
          if rc \<noteq> 0 then (-1, p1)
          else let p2 = p1\<lparr>pk_bytes := (pk_bytes p1)(body := DHCP_OPT_END)\<rparr>;
                   have = rix_net_packet_length p2
               in case rix_net_packet_put p2 (sub64 RIX_DHCP_MIN_SIZE have) of
                    (rc, body, p3) \<Rightarrow>
                      if rc \<noteq> 0 then (-1, p3)
                      else (0, p3\<lparr>pk_bytes := store_bytes (pk_bytes p3) body (replicate (sub64 RIX_DHCP_MIN_SIZE have) 0)\<rparr>))"

text \<open>The options of a message in order, each returning early on failure.\<close>

fun dhcp_options :: "rix_net_packet \<Rightarrow> (u8 \<times> u8 list) list \<Rightarrow> rc \<times> rix_net_packet" where
  "dhcp_options p [] = dhcp_pad p"
| "dhcp_options p ((code, data) # opts) =
     (case dhcp_option p code data of (rc, p1) \<Rightarrow> if rc \<noteq> 0 then (-1, p1) else dhcp_options p1 opts)"

definition rix_net_dhcp_build_discover :: "rix_net_packet \<Rightarrow> u32 \<Rightarrow> mac \<Rightarrow> rc \<times> rix_net_packet" where
  "rix_net_dhcp_build_discover p xid m =
     (if xid = 0 then (-1, p)
      else case dhcp_header p RIX_DHCP_OP_REQUEST xid m of
        (rc, p1) \<Rightarrow>
          if rc \<noteq> 0 then (-1, p1)
          else dhcp_options p1 [(DHCP_OPT_MSGTYPE, [RIX_DHCP_MSG_DISCOVER]),
                                (DHCP_OPT_CLIENT_ID, 1 # map ((!) m) [0..<6]),
                                (DHCP_OPT_PRL, [1, 3, 6])])"

definition be32_bytes :: "u32 \<Rightarrow> u8 list" where
  "be32_bytes v = map (put_be32 (\<lambda>_. 0) 0 v) [0..<4]"

definition rix_net_dhcp_build_request_for_server :: "rix_net_packet \<Rightarrow> u32 \<Rightarrow> mac \<Rightarrow> u32 \<Rightarrow> u32 \<Rightarrow> rc \<times> rix_net_packet" where
  "rix_net_dhcp_build_request_for_server p xid m requested_ip server =
     (if xid = 0 \<or> requested_ip = 0 then (-1, p)
      else case dhcp_header p RIX_DHCP_OP_REQUEST xid m of
        (rc, p1) \<Rightarrow>
          if rc \<noteq> 0 then (-1, p1)
          else dhcp_options p1 ([(DHCP_OPT_MSGTYPE, [RIX_DHCP_MSG_REQUEST]),
                                 (DHCP_OPT_REQIP, be32_bytes requested_ip),
                                 (DHCP_OPT_CLIENT_ID, [1, m ! 0, m ! 1, m ! 2, m ! 3, m ! 4, m ! 5])] @
                                (if server \<noteq> 0 then [(DHCP_OPT_SERVER, be32_bytes server)] else []) @
                                [(DHCP_OPT_PRL, [1, 3, 6])]))"

definition rix_net_dhcp_build_request :: "rix_net_packet \<Rightarrow> u32 \<Rightarrow> mac \<Rightarrow> u32 \<Rightarrow> rc \<times> rix_net_packet" where
  "rix_net_dhcp_build_request p xid m requested_ip = rix_net_dhcp_build_request_for_server p xid m requested_ip 0"

subsection \<open>Parsing replies\<close>

record rix_dhcp_offer =
  of_address :: u32
  of_netmask :: u32
  of_gateway :: u32
  of_dns :: u32
  of_server :: u32
  of_lease_seconds :: u32
  of_has_netmask :: bool
  of_has_gateway :: bool
  of_has_dns :: bool

definition contiguous_mask :: "u32 \<Rightarrow> bool" where
  "contiguous_mask m = (if m = 0 then False else NOT m AND (NOT m + 1) = 0)"

text \<open>The effect of one option on the offer; an error code ends the parse.\<close>

definition dhcp_apply_option :: "(nat \<Rightarrow> u8) \<Rightarrow> nat \<Rightarrow> u8 \<Rightarrow> nat \<Rightarrow> u8 \<Rightarrow> bool \<Rightarrow> rix_dhcp_offer \<Rightarrow> (rc, bool \<times> rix_dhcp_offer) sum" where
  "dhcp_apply_option b w code n expected_type seen_type offer =
     (if code = DHCP_OPT_MSGTYPE then
        (if n \<noteq> 1 then Inl (-1) else if b w \<noteq> expected_type then Inl (-2) else Inr (True, offer))
      else if code = DHCP_OPT_MASK then
        Inr (seen_type, if n = 4 \<and> contiguous_mask (get_be32 b w)
                        then offer\<lparr>of_netmask := get_be32 b w, of_has_netmask := True\<rparr> else offer)
      else if code = DHCP_OPT_ROUTER then
        Inr (seen_type, if n \<ge> 4 then offer\<lparr>of_gateway := get_be32 b w, of_has_gateway := True\<rparr> else offer)
      else if code = DHCP_OPT_DNS then
        Inr (seen_type, if n \<ge> 4 then offer\<lparr>of_dns := get_be32 b w, of_has_dns := True\<rparr> else offer)
      else if code = DHCP_OPT_SERVER then
        Inr (seen_type, if n = 4 then offer\<lparr>of_server := get_be32 b w\<rparr> else offer)
      else if code = DHCP_OPT_LEASE then
        Inr (seen_type, if n = 4 then offer\<lparr>of_lease_seconds := get_be32 b w\<rparr> else offer)
      else Inr (seen_type, offer))"

text \<open>The loop over the options: the code, whether the message type was seen, and the offer as left behind.\<close>

function dhcp_parse_options ::
    "(nat \<Rightarrow> u8) \<Rightarrow> nat \<Rightarrow> nat \<Rightarrow> u8 \<Rightarrow> nat \<Rightarrow> bool \<Rightarrow> rix_dhcp_offer \<Rightarrow> rc \<times> bool \<times> rix_dhcp_offer" where
  "dhcp_parse_options b w len expected_type offset seen_type offer =
     (if offset < len then
        let code = b (w + offset) in
        if code = DHCP_OPT_PAD then dhcp_parse_options b w len expected_type (offset + 1) seen_type offer
        else if code = DHCP_OPT_END then (0, seen_type, offer)
        else if offset + 1 \<ge> len then (-1, seen_type, offer)
        else let option_length = unat (b (w + (offset + 1))) in
          if option_length > len - (offset + 2) then (-1, seen_type, offer)
          else case dhcp_apply_option b (w + (offset + 2)) code option_length expected_type seen_type offer of
            Inl rc \<Rightarrow> (rc, code = DHCP_OPT_MSGTYPE \<and> option_length = 1 \<or> seen_type, offer)
          | Inr (seen, offer1) \<Rightarrow> dhcp_parse_options b w len expected_type (offset + 2 + option_length) seen offer1
      else (0, seen_type, offer))"
  by pat_completeness auto
termination
  by (relation "measure (\<lambda>(b, w, len, e, offset, s, f). len - offset)") auto

declare dhcp_parse_options.simps [simp del]

definition rix_net_dhcp_parse_reply :: "rix_net_packet \<Rightarrow> u32 \<Rightarrow> u8 \<Rightarrow> rix_dhcp_offer \<Rightarrow> rc \<times> rix_dhcp_offer" where
  "rix_net_dhcp_parse_reply p xid expected_type offer =
     (if xid = 0 then (-1, offer)
      else let len = rix_net_packet_length p in
        if len < 244 then (-1, offer)
        else case rix_net_packet_data p of
          None \<Rightarrow> (-1, offer)
        | Some w \<Rightarrow>
            let b = pk_bytes p in
            if b w \<noteq> RIX_DHCP_OP_REPLY then (-1, offer)
            else if get_be32 b (w + 4) \<noteq> xid then (-1, offer)
            else if b (w + 236) \<noteq> 99 \<or> b (w + 237) \<noteq> 130 \<or> b (w + 238) \<noteq> 83 \<or> b (w + 239) \<noteq> 99 then (-1, offer)
            else let offer1 = offer\<lparr>of_address := get_be32 b (w + 16)\<rparr> in
              if of_address offer1 = 0 then (-1, offer1)
              else let offer2 = offer1\<lparr>of_netmask := 0, of_gateway := 0, of_dns := 0, of_server := 0, of_lease_seconds := 0,
                                       of_has_netmask := False, of_has_gateway := False, of_has_dns := False\<rparr>
                   in case dhcp_parse_options b w len expected_type 240 False offer2 of
                        (rc, seen_type, offer3) \<Rightarrow>
                          if rc \<noteq> 0 then (rc, offer3) else if \<not> seen_type then (-1, offer3) else (0, offer3))"

subsection \<open>The exchange\<close>

definition RIX_DHCP_ROUNDS :: nat where "RIX_DHCP_ROUNDS = 12"
definition RIX_DHCP_POLLS_PER_ROUND :: nat where "RIX_DHCP_POLLS_PER_ROUND = 1000000"

record dhcp_stats =
  ds_frames :: nat
  ds_eth_drop :: nat
  ds_ip_drop :: nat
  ds_udp_drop :: nat
  ds_port_drop :: nat
  ds_parse_drop :: nat

definition dhcp_stats_zero :: dhcp_stats where
  "dhcp_stats_zero = \<lparr>ds_frames = 0, ds_eth_drop = 0, ds_ip_drop = 0, ds_udp_drop = 0, ds_port_drop = 0, ds_parse_drop = 0\<rparr>"

text \<open>The UDP header with a zero source address; the last byte of the checksum is written with its own fallback.\<close>

definition dhcp_udp_push :: "rix_net_packet \<Rightarrow> rc \<times> rix_net_packet" where
  "dhcp_udp_push p =
     (let len = rix_net_packet_length p + 8 in
      if len > 65535 \<or> len < 8 then (-1, p)
      else case rix_net_packet_push p 8 of
        (rc, w, p1) \<Rightarrow>
          if rc \<noteq> 0 then (-1, p1)
          else let b = (pk_bytes p1)(w := 0);
                   b = b(w + 1 := 68);
                   b = b(w + 2 := 0);
                   b = b(w + 3 := 67);
                   b = b(w + 4 := of_nat (len div 256));
                   b = b(w + 5 := of_nat len);
                   b = b(w + 6 := 0);
                   b = b(w + 7 := 0);
                   s = sum_words b (pk_start p1) len (0xffff + 0xffff + ucast RIX_NET_IP_PROTO_UDP + of_nat len);
                   checksum = rix_net_checksum_add s;
                   b = b(w + 6 := ucast (drop_bit 8 checksum));
                   b = b(w + 7 := ucast (if checksum \<noteq> 0 then checksum else 0xffff))
               in (0, p1\<lparr>pk_bytes := b\<rparr>))"

definition dhcp_transmit :: "net_env \<Rightarrow> net_device \<Rightarrow> rix_net_packet \<Rightarrow> mac \<Rightarrow> rc \<times> u8 list option list" where
  "dhcp_transmit env dev p m =
     (case dhcp_udp_push p of
        (rc1, p1) \<Rightarrow>
          if rc1 \<noteq> 0 then (-1, [])
          else case rix_net_ipv4_push p1 0 0xffffffff RIX_NET_IP_PROTO_UDP 64 0 0 of
            (rc2, p2) \<Rightarrow>
              if rc2 \<noteq> 0 then (-1, [])
              else case rix_net_eth_push p2 broadcast_mac m RIX_NET_ETHERTYPE_IPV4 of
                (rc3, p3) \<Rightarrow> if rc3 \<noteq> 0 then (-1, []) else rix_net_device_transmit env dev p3)"

text \<open>One poll; the receiver's IPv4 header structure starts out as the uninitialised local \<open>ip0\<close>.\<close>

definition dhcp_poll_once ::
    "net_env \<Rightarrow> net_device \<Rightarrow> rix_net_ipv4_header \<Rightarrow> u32 \<Rightarrow> u8 \<Rightarrow> rix_dhcp_offer \<Rightarrow> dhcp_stats \<Rightarrow> rc \<times> rix_dhcp_offer \<times> dhcp_stats" where
  "dhcp_poll_once env dev ip0 xid expected_type offer stats =
     (if xid = 0 then (-1, offer, stats)
      else case rix_net_device_receive env dev (rix_net_packet_init (env_local env)) of
        (received, frame) \<Rightarrow>
          if received < 0 then (-1, offer, stats)
          else if received = 0 then (0, offer, stats)
          else let stats = stats\<lparr>ds_frames := ds_frames stats + 1\<rparr> in
            case rix_net_eth_pull frame of
              (erc, ethernet, frame1) \<Rightarrow>
                if erc \<noteq> 0 then (0, offer, stats\<lparr>ds_eth_drop := ds_eth_drop stats + 1\<rparr>)
                else if eth_type (the ethernet) \<noteq> RIX_NET_ETHERTYPE_IPV4 then (0, offer, stats\<lparr>ds_eth_drop := ds_eth_drop stats + 1\<rparr>)
                else case rix_net_ipv4_pull frame1 ip0 of
                  (irc, ip, frame2) \<Rightarrow>
                    if irc \<noteq> 0 then (0, offer, stats\<lparr>ds_ip_drop := ds_ip_drop stats + 1\<rparr>)
                    else if ip_protocol ip \<noteq> RIX_NET_IP_PROTO_UDP then (0, offer, stats\<lparr>ds_ip_drop := ds_ip_drop stats + 1\<rparr>)
                    else case rix_net_udp_pull frame2 (ip_source ip) (ip_destination ip) of
                      (urc, udp, frame3) \<Rightarrow>
                        if urc \<noteq> 0 then (0, offer, stats\<lparr>ds_udp_drop := ds_udp_drop stats + 1\<rparr>)
                        else if udp_source_port (the udp) \<noteq> RIX_DHCP_SERVER_PORT \<or> udp_destination_port (the udp) \<noteq> RIX_DHCP_CLIENT_PORT
                        then (0, offer, stats\<lparr>ds_port_drop := ds_port_drop stats + 1\<rparr>)
                        else case rix_net_dhcp_parse_reply frame3 xid expected_type offer of
                          (prc, offer1) \<Rightarrow>
                            if prc \<noteq> 0 then (0, offer1, stats\<lparr>ds_parse_drop := ds_parse_drop stats + 1\<rparr>)
                            else (1, offer1, stats))"

text \<open>The polls of a discover round: a poll sees the environment of its round and number.\<close>

primrec dhcp_discover_polls ::
    "nat \<Rightarrow> (nat \<Rightarrow> net_env) \<Rightarrow> net_device \<Rightarrow> rix_net_ipv4_header \<Rightarrow> u32 \<Rightarrow> nat \<Rightarrow> rix_dhcp_offer \<Rightarrow> dhcp_stats \<Rightarrow> rc \<times> rix_dhcp_offer" where
  "dhcp_discover_polls 0 envs dev ip0 xid poll offer stats = (0, offer)"
| "dhcp_discover_polls (Suc n) envs dev ip0 xid poll offer stats =
     (case dhcp_poll_once (envs poll) dev ip0 xid RIX_DHCP_MSG_OFFER offer stats of
        (found, offer1, stats1) \<Rightarrow>
          if found < 0 then (-1, offer1)
          else if found \<noteq> 0 then (1, offer1)
          else dhcp_discover_polls n envs dev ip0 xid (poll + 1) offer1 stats1)"

primrec dhcp_discover_rounds ::
    "nat \<Rightarrow> (nat \<Rightarrow> nat \<Rightarrow> net_env) \<Rightarrow> net_device \<Rightarrow> rix_net_device_info \<Rightarrow> rix_net_ipv4_header \<Rightarrow> u32 \<Rightarrow> nat \<Rightarrow> rix_dhcp_offer \<Rightarrow> rc \<times> rix_dhcp_offer" where
  "dhcp_discover_rounds 0 envs dev info ip0 xid round offer = (0, offer)"
| "dhcp_discover_rounds (Suc n) envs dev info ip0 xid round offer =
     (case rix_net_dhcp_build_discover (rix_net_packet_init (env_local (envs round 0))) xid (dv_mac info) of
        (brc, discover) \<Rightarrow>
          if brc \<noteq> 0 then (-1, offer)
          else if fst (dhcp_transmit (envs round 0) dev discover (dv_mac info)) < 0 then (-1, offer)
          else case dhcp_discover_polls RIX_DHCP_POLLS_PER_ROUND (envs round) dev ip0 xid 0 offer dhcp_stats_zero of
            (prc, offer1) \<Rightarrow>
              if prc < 0 then (-1, offer1)
              else if of_address offer1 \<noteq> 0 \<and> of_has_netmask offer1 then (0, offer1)
              else dhcp_discover_rounds n envs dev info ip0 xid (round + 1) (offer1\<lparr>of_address := 0\<rparr>))"

text \<open>The polls of a request round: a failure, nothing, or the acknowledgment for the offered address.\<close>

primrec dhcp_request_polls ::
    "nat \<Rightarrow> (nat \<Rightarrow> net_env) \<Rightarrow> net_device \<Rightarrow> rix_net_ipv4_header \<Rightarrow> u32 \<Rightarrow> nat \<Rightarrow> rix_dhcp_offer \<Rightarrow> rix_dhcp_offer \<Rightarrow> dhcp_stats \<Rightarrow>
     (rc, rix_dhcp_offer option) sum" where
  "dhcp_request_polls 0 envs dev ip0 xid poll offer ack0 stats = Inr None"
| "dhcp_request_polls (Suc n) envs dev ip0 xid poll offer ack0 stats =
     (case dhcp_poll_once (envs poll) dev ip0 xid RIX_DHCP_MSG_ACK ack0 stats of
        (found, ack, stats1) \<Rightarrow>
          if found < 0 then Inl (-1)
          else if found \<noteq> 0 \<and> of_address ack = of_address offer then Inr (Some ack)
          else dhcp_request_polls n envs dev ip0 xid (poll + 1) offer ack0 stats1)"

primrec dhcp_request_rounds ::
    "nat \<Rightarrow> (nat \<Rightarrow> nat \<Rightarrow> net_env) \<Rightarrow> net_device \<Rightarrow> rix_net_device_info \<Rightarrow> rix_net_ipv4_header \<Rightarrow> u32 \<Rightarrow> nat \<Rightarrow> rix_dhcp_offer \<Rightarrow> rix_dhcp_offer \<Rightarrow>
     rc \<times> net_device" where
  "dhcp_request_rounds 0 envs dev info ip0 xid round offer ack0 = (-1, dev)"
| "dhcp_request_rounds (Suc n) envs dev info ip0 xid round offer ack0 =
     (case rix_net_dhcp_build_request_for_server (rix_net_packet_init (env_local (envs round 0))) xid (dv_mac info)
             (of_address offer) (of_server offer) of
        (brc, request) \<Rightarrow>
          if brc \<noteq> 0 then (-1, dev)
          else if fst (dhcp_transmit (envs round 0) dev request (dv_mac info)) < 0 then (-1, dev)
          else case dhcp_request_polls RIX_DHCP_POLLS_PER_ROUND (envs round) dev ip0 xid 0 offer ack0 dhcp_stats_zero of
            Inl rc \<Rightarrow> (-1, dev)
          | Inr None \<Rightarrow> dhcp_request_rounds n envs dev info ip0 xid (round + 1) offer ack0
          | Inr (Some ack) \<Rightarrow>
              let netmask = (if of_has_netmask ack then of_netmask ack else of_netmask offer);
                  gateway = (if of_has_gateway ack then of_gateway ack else of_gateway offer);
                  dns = (if of_has_dns ack then of_dns ack else of_dns offer)
              in case rix_net_device_configure dev (of_address ack) netmask gateway dns of
                   (crc, dev1) \<Rightarrow> (if crc \<noteq> 0 then -1 else 0, dev1))"

text \<open>The static transaction counter is part of the state; \<open>offer0\<close> and \<open>ack0\<close> are the uninitialised locals.\<close>

definition rix_net_dhcp_run ::
    "(nat \<Rightarrow> nat \<Rightarrow> net_env) \<Rightarrow> net_device \<Rightarrow> u32 \<Rightarrow> rix_net_ipv4_header \<Rightarrow> rix_dhcp_offer \<Rightarrow> rix_dhcp_offer \<Rightarrow> rc \<times> net_device \<times> u32" where
  "rix_net_dhcp_run envs dev xid ip0 offer0 ack0 =
     (case get_device_info dev of
        None \<Rightarrow> (-1, dev, xid)
      | Some info \<Rightarrow>
          let (current, xid) = (xid, xid + 1);
              (current, xid) = (if current = 0 then (xid, xid + 1) else (current, xid));
              offer = offer0\<lparr>of_address := 0, of_has_netmask := False\<rparr>
          in case dhcp_discover_rounds RIX_DHCP_ROUNDS envs dev info ip0 current 0 offer of
               (drc, offer1) \<Rightarrow>
                 if drc < 0 \<or> of_address offer1 = 0 then (-1, dev, xid)
                 else case dhcp_request_rounds RIX_DHCP_ROUNDS (\<lambda>r. envs (RIX_DHCP_ROUNDS + r)) dev info ip0 current 0 offer1 ack0 of
                        (rrc, dev1) \<Rightarrow> (rrc, dev1, xid))"

end
