(* ===== verification/Net_Safety.thy ===== *)
theory Net_Safety
  imports Ipv6_Layers Dhcp
begin

text \<open>
  The receivers look at nothing but the bytes of the packet: two buffers that hold the same packet give the same
  result, whatever else they hold and wherever in the buffer the packet lies.
\<close>

definition same_packet :: "rix_net_packet \<Rightarrow> rix_net_packet \<Rightarrow> bool" where
  "same_packet p q \<longleftrightarrow> packet_ok p \<and> packet_ok q \<and> pk_view p = pk_view q"

definition same_result :: "rc \<times> 'h \<times> rix_net_packet \<Rightarrow> rc \<times> 'h \<times> rix_net_packet \<Rightarrow> bool" where
  "same_result r r' \<longleftrightarrow> fst r = fst r' \<and> fst (snd r) = fst (snd r') \<and> same_packet (snd (snd r)) (snd (snd r'))"

lemma same_result_pair: "same_result (rc, h, p) (rc', h', q) \<longleftrightarrow> rc = rc' \<and> h = h' \<and> same_packet p q"
  by (simp add: same_result_def)

lemma same_packet_length: "same_packet p q \<Longrightarrow> pk_length q = pk_length p"
  by (metis same_packet_def length_pk_view)

lemma same_packet_byte: "\<lbrakk>same_packet p q; i < pk_length p\<rbrakk> \<Longrightarrow> pk_bytes q (pk_start q + i) = pk_bytes p (pk_start p + i)"
  by (metis same_packet_def pk_view_nth length_pk_view)

lemma same_packet_byte0: "\<lbrakk>same_packet p q; 0 < pk_length p\<rbrakk> \<Longrightarrow> pk_bytes q (pk_start q) = pk_bytes p (pk_start p)"
  using same_packet_byte[of p q 0] by simp

lemma same_packet_get16:
  "\<lbrakk>same_packet p q; i + 1 < pk_length p\<rbrakk> \<Longrightarrow> get_be16 (pk_bytes q) (pk_start q + i) = get_be16 (pk_bytes p) (pk_start p + i)"
  using same_packet_byte[of p q i] same_packet_byte[of p q "i + 1"] by (simp add: get_be16_word)

lemma same_packet_get16_0: "\<lbrakk>same_packet p q; 1 < pk_length p\<rbrakk> \<Longrightarrow> get_be16 (pk_bytes q) (pk_start q) = get_be16 (pk_bytes p) (pk_start p)"
  using same_packet_get16[of p q 0] by simp

lemma same_packet_get32:
  "\<lbrakk>same_packet p q; i + 3 < pk_length p\<rbrakk> \<Longrightarrow> get_be32 (pk_bytes q) (pk_start q + i) = get_be32 (pk_bytes p) (pk_start p + i)"
  using same_packet_byte[of p q i] same_packet_byte[of p q "i + 1"] same_packet_byte[of p q "i + 2"] same_packet_byte[of p q "i + 3"]
  by (simp add: get_be32_word ac_simps)

lemma same_packet_slice:
  "\<lbrakk>same_packet p q; i + n \<le> pk_length p\<rbrakk> \<Longrightarrow>
     map (\<lambda>j. pk_bytes q (pk_start q + i + j)) [0..<n] = map (\<lambda>j. pk_bytes p (pk_start p + i + j)) [0..<n]"
  using same_packet_byte[of p q "i + j" for j] by (auto simp: add.assoc)

lemma same_packet_map:
  "\<lbrakk>same_packet p q; n \<le> pk_length p\<rbrakk> \<Longrightarrow>
     map (pk_bytes q) [pk_start q..<pk_start q + n] = map (pk_bytes p) [pk_start p..<pk_start p + n]"
  by (rule nth_equalityI) (use same_packet_byte in auto)

lemma same_packet_sum:
  "\<lbrakk>same_packet p q; n \<le> pk_length p\<rbrakk> \<Longrightarrow>
     sum_words (pk_bytes q) (pk_start q) n s = sum_words (pk_bytes p) (pk_start p) n s"
  using same_packet_map[of p q n] by (simp add: sum_words_eq)

lemma same_packet_pull:
  assumes "same_packet p q" "n + m \<le> pk_length p"
  shows "same_packet (p\<lparr>pk_start := pk_start p + n, pk_length := m\<rparr>) (q\<lparr>pk_start := pk_start q + n, pk_length := m\<rparr>)"
proof -
  have "pk_view p = pk_view q" "pk_length q = pk_length p" using assms(1) same_packet_length by (auto simp: same_packet_def)
  then show ?thesis
    using assms pull_view[of n m p] pull_view[of n m q] by (simp add: same_packet_def packet_ok_def)
qed

lemma be16_load_get: "be16 (load16 b off) = get_be16 b off"
  by (simp add: be16_load16 get_be16_word)

lemma be32_load_get: "be32 (load32 b off) = get_be32 b off"
  by (simp add: be32_load32 get_be32_word)

lemma same_packet_byte1: "\<lbrakk>same_packet p q; 1 < pk_length p\<rbrakk> \<Longrightarrow> pk_bytes q (Suc (pk_start q)) = pk_bytes p (Suc (pk_start p))"
  using same_packet_byte[of p q 1] by simp

lemma same_packet_get16_2:
  "\<lbrakk>same_packet p q; 3 < pk_length p\<rbrakk> \<Longrightarrow> get_be16 (pk_bytes q) (Suc (Suc (pk_start q))) = get_be16 (pk_bytes p) (Suc (Suc (pk_start p)))"
  using same_packet_get16[of p q 2] by simp

lemmas same_rules = same_packet_byte1 same_packet_get16_2 same_packet_byte same_packet_byte0 same_packet_get16 same_packet_get16_0 same_packet_get32 same_packet_slice
  same_packet_sum same_result_pair same_packet_pull rix_net_packet_length_def be16_load_get be32_load_get

lemma eth_pull_same:
  assumes "same_packet p q"
  shows "same_result (rix_net_eth_pull p) (rix_net_eth_pull q)"
proof (cases "pk_length p < 14")
  case False
  then show ?thesis
    using assms same_packet_length[OF assms] same_packet_slice[OF assms, of 0 6]
    by (simp add: rix_net_eth_pull_def pull_eq same_rules Let_def)
qed (use assms same_packet_length[OF assms] in \<open>simp add: rix_net_eth_pull_def same_rules\<close>)

lemma arp_pull_same:
  assumes "same_packet p q"
  shows "same_result (rix_net_arp_pull p) (rix_net_arp_pull q)"
proof (cases "pk_length p < 28")
  case False
  then show ?thesis
    using assms same_packet_length[OF assms] by (simp add: rix_net_arp_pull_def pull_eq same_rules Let_def)
qed (use assms same_packet_length[OF assms] in \<open>simp add: rix_net_arp_pull_def same_rules\<close>)

lemma ipv4_pull_same:
  assumes "same_packet p q"
  shows "same_result (rix_net_ipv4_pull p h) (rix_net_ipv4_pull q h)"
proof (cases "pk_length p < 20")
  case False
  then show ?thesis
    using assms same_packet_length[OF assms]
    by (simp add: rix_net_ipv4_pull_def rix_net_checksum_def pk_at_def pull_eq same_rules Let_def)
qed (use assms same_packet_length[OF assms] in \<open>simp add: rix_net_ipv4_pull_def same_rules\<close>)

lemma icmp_pull_same:
  assumes "same_packet p q"
  shows "same_result (rix_net_icmp_echo_pull p) (rix_net_icmp_echo_pull q)"
proof (cases "pk_length p < 8")
  case False
  then show ?thesis
    using assms same_packet_length[OF assms]
    by (simp add: rix_net_icmp_echo_pull_def rix_net_checksum_def pull_eq same_rules Let_def)
qed (use assms same_packet_length[OF assms] in \<open>simp add: rix_net_icmp_echo_pull_def same_rules\<close>)

lemma udp_pull_same:
  assumes "same_packet p q"
  shows "same_result (rix_net_udp_pull p s d) (rix_net_udp_pull q s d)"
proof (cases "pk_length p < 8")
  case False
  then show ?thesis
    using assms same_packet_length[OF assms]
    by (simp add: rix_net_udp_pull_def udp_pseudo_checksum_def pull_eq same_rules Let_def)
qed (use assms same_packet_length[OF assms] in \<open>simp add: rix_net_udp_pull_def same_rules\<close>)

lemma tcp_pull_same:
  assumes "same_packet p q"
  shows "same_result (rix_net_tcp_pull p s d) (rix_net_tcp_pull q s d)"
proof (cases "pk_length p < 20")
  case False
  then show ?thesis
    using assms same_packet_length[OF assms]
    by (simp add: rix_net_tcp_pull_def tcp_pseudo_checksum_def pull_eq same_rules Let_def)
qed (use assms same_packet_length[OF assms] in \<open>simp add: rix_net_tcp_pull_def same_rules\<close>)

lemma same_packet_data: "same_packet p q \<Longrightarrow> rix_net_packet_data p = Some (pk_start p) \<and> rix_net_packet_data q = Some (pk_start q)"
  by (simp add: same_packet_def packet_data_ok)

lemma same_packet_message: "same_packet p q \<Longrightarrow> pk_message q (pk_bytes q) = pk_message p (pk_bytes p)"
  by (simp add: pk_message_view same_packet_def)

lemma ipv6_pull_same:
  assumes "same_packet p q"
  shows "same_result (rix_net_ipv6_pull p) (rix_net_ipv6_pull q)"
proof (cases "pk_length p < 40")
  case False
  have z: "get_be32 (pk_bytes q) (pk_start q) = get_be32 (pk_bytes p) (pk_start p)"
    using same_packet_get32[OF assms, of 0] False by simp
  show ?thesis
    using False assms same_packet_length[OF assms] same_packet_data[OF assms] z
    by (simp add: rix_net_ipv6_pull_def pull_eq same_rules Let_def)
qed (use assms same_packet_length[OF assms] same_packet_data[OF assms] in \<open>simp add: rix_net_ipv6_pull_def same_rules\<close>)

lemma echo6_pull_same:
  assumes "same_packet p q"
  shows "same_result (rix_net_icmpv6_echo_pull p s d) (rix_net_icmpv6_echo_pull q s d)"
proof (cases "pk_length p < 8")
  case False
  then show ?thesis
    using assms same_packet_length[OF assms] same_packet_message[OF assms]
    by (simp add: rix_net_icmpv6_echo_pull_def pull_eq same_rules Let_def)
qed (use assms same_packet_length[OF assms] in \<open>simp add: rix_net_icmpv6_echo_pull_def same_rules\<close>)

lemma neighbor_pull_same:
  assumes "same_packet p q"
  shows "same_result (rix_net_icmpv6_neighbor_pull p s d) (rix_net_icmpv6_neighbor_pull q s d)"
proof (cases "pk_length p = 24")
  case True
  then show ?thesis
    using assms same_packet_length[OF assms] same_packet_message[OF assms]
    by (simp add: rix_net_icmpv6_neighbor_pull_def pull_eq same_rules Let_def)
qed (use assms same_packet_length[OF assms] in \<open>simp add: rix_net_icmpv6_neighbor_pull_def same_rules Let_def\<close>)

lemma router_pull_same:
  assumes "same_packet p q"
  shows "same_result (rix_net_icmpv6_router_advert_pull p s d) (rix_net_icmpv6_router_advert_pull q s d)"
proof (cases "pk_length p = 48")
  case True
  then show ?thesis
    using assms same_packet_length[OF assms] same_packet_message[OF assms]
    by (simp add: rix_net_icmpv6_router_advert_pull_def pull_eq same_rules Let_def)
qed (use assms same_packet_length[OF assms] in \<open>simp add: rix_net_icmpv6_router_advert_pull_def same_rules\<close>)

lemma udp6_pull_same:
  assumes "same_packet p q"
  shows "same_result (rix_net_udp6_pull p s d) (rix_net_udp6_pull q s d)"
proof (cases "pk_length p < 8")
  case False
  then show ?thesis
    using assms same_packet_length[OF assms] same_packet_map[OF assms, of "pk_length p"]
    by (simp add: rix_net_udp6_pull_def pull_eq same_rules Let_def)
qed (use assms same_packet_length[OF assms] in \<open>simp add: rix_net_udp6_pull_def same_rules\<close>)

lemma tcp6_pull_same:
  assumes "same_packet p q"
  shows "same_result (rix_net_tcp6_pull p s d) (rix_net_tcp6_pull q s d)"
proof (cases "pk_length p < 20")
  case False
  then show ?thesis
    using assms same_packet_length[OF assms] same_packet_message[OF assms]
    by (simp add: rix_net_tcp6_pull_def pull_eq same_rules Let_def)
qed (use assms same_packet_length[OF assms] in \<open>simp add: rix_net_tcp6_pull_def same_rules\<close>)

text \<open>The option parser, by induction along its loop.\<close>

lemma apply_option_same:
  assumes "\<And>i. i < len \<Longrightarrow> b' (w' + i) = b (w + i)" "k + n \<le> len"
  shows "dhcp_apply_option b' (w' + k) code n e seen offer = dhcp_apply_option b (w + k) code n e seen offer"
proof -
  have "b' (w' + k) = b (w + k)" if "n = 1" using assms(1)[of k] assms(2) that by simp
  moreover have "get_be32 b' (w' + k) = get_be32 b (w + k)" if "4 \<le> n"
    using assms(1)[of k] assms(1)[of "k + 1"] assms(1)[of "k + 2"] assms(1)[of "k + 3"] assms(2) that
    by (simp add: get_be32_word ac_simps)
  ultimately show ?thesis by (auto simp: dhcp_apply_option_def)
qed

lemma parse_options_same:
  assumes "\<And>i. i < len \<Longrightarrow> b' (w' + i) = b (w + i)"
  shows "dhcp_parse_options b' w' len e offset seen offer = dhcp_parse_options b w len e offset seen offer"
  using assms
proof (induction b w len e offset seen offer rule: dhcp_parse_options.induct)
  case (1 b w len e offset seen offer)
  let ?r = "\<lambda>b w. dhcp_parse_options b w len e offset seen offer"
  show ?case
  proof (cases "offset < len \<and> b (w + offset) \<noteq> DHCP_OPT_PAD \<and> b (w + offset) \<noteq> DHCP_OPT_END \<and> \<not> offset + 1 \<ge> len \<and>
                \<not> unat (b (w + (offset + 1))) > len - (offset + 2)")
    case True
    let ?n = "unat (b (w + (offset + 1)))"
    have a: "b' (w' + offset) = b (w + offset)" "b' (w' + (offset + 1)) = b (w + (offset + 1))" using 1(3)[of offset] 1(3)[of "offset + 1"] True by auto
    have le: "offset + 2 + ?n \<le> len" using True by linarith
    have ap: "dhcp_apply_option b' (w' + (offset + 2)) (b (w + offset)) ?n e seen offer =
              dhcp_apply_option b (w + (offset + 2)) (b (w + offset)) ?n e seen offer"
      by (rule apply_option_same[where len = len, OF _ le]) (rule 1(3))
    show ?thesis
    proof (cases "dhcp_apply_option b (w + (offset + 2)) (b (w + offset)) ?n e seen offer")
      case (Inl c)
      then show ?thesis using True a ap by (subst (1 2) dhcp_parse_options.simps) (simp add: Let_def)
    next
      case (Inr so)
      obtain sn ofr where so: "so = (sn, ofr)" by (cases so)
      have "dhcp_parse_options b' w' len e (offset + 2 + ?n) sn ofr = dhcp_parse_options b w len e (offset + 2 + ?n) sn ofr"
        using 1(2)[OF _ refl _ _ _ refl _ Inr[unfolded so] refl] True 1(3) so by (simp add: Inr)
      then show ?thesis using True a ap Inr so by (subst (1 2) dhcp_parse_options.simps) (simp add: Let_def)
    qed
  next
    case False
    then show ?thesis
      using 1(1)[OF _ refl] 1(3)[of offset] 1(3)[of "offset + 1"] 1(3)
      by (subst (1 2) dhcp_parse_options.simps) (auto simp: Let_def)
  qed
qed

lemma parse_reply_same:
  assumes "same_packet p q"
  shows "rix_net_dhcp_parse_reply p xid e offer = rix_net_dhcp_parse_reply q xid e offer"
proof (cases "pk_length p < 244")
  case False
  have po: "dhcp_parse_options (pk_bytes q) (pk_start q) (pk_length p) e 240 False f = dhcp_parse_options (pk_bytes p) (pk_start p) (pk_length p) e 240 False f" for f
    by (rule parse_options_same) (rule same_packet_byte[OF assms])
  have bt: "pk_bytes q (pk_start q) = pk_bytes p (pk_start p)" "pk_bytes q (pk_start q + 236) = pk_bytes p (pk_start p + 236)"
      "pk_bytes q (pk_start q + 237) = pk_bytes p (pk_start p + 237)" "pk_bytes q (pk_start q + 238) = pk_bytes p (pk_start p + 238)"
      "pk_bytes q (pk_start q + 239) = pk_bytes p (pk_start p + 239)"
      "get_be32 (pk_bytes q) (pk_start q + 4) = get_be32 (pk_bytes p) (pk_start p + 4)"
      "get_be32 (pk_bytes q) (pk_start q + 16) = get_be32 (pk_bytes p) (pk_start p + 16)"
    using False assms by (simp_all add: same_rules)
  show ?thesis
    unfolding rix_net_dhcp_parse_reply_def Let_def rix_net_packet_length_def same_packet_length[OF assms]
      conjunct1[OF same_packet_data[OF assms]] conjunct2[OF same_packet_data[OF assms]] option.case bt po ..
qed (use same_packet_length[OF assms] in \<open>simp add: rix_net_dhcp_parse_reply_def rix_net_packet_length_def\<close>)

text \<open>C18: every receiver of the network stack reads only the bytes of the packet it is given: for two buffers that hold
  the same packet, anywhere in the buffer and with anything around it, the codes, the headers filled in and the
  remaining packets are the same.\<close>

theorem receivers_stay_inside_the_packet:
  assumes "same_packet p q"
  shows "same_result (rix_net_eth_pull p) (rix_net_eth_pull q) \<and>
         same_result (rix_net_arp_pull p) (rix_net_arp_pull q) \<and>
         same_result (rix_net_ipv4_pull p h) (rix_net_ipv4_pull q h) \<and>
         same_result (rix_net_icmp_echo_pull p) (rix_net_icmp_echo_pull q) \<and>
         same_result (rix_net_udp_pull p s d) (rix_net_udp_pull q s d) \<and>
         same_result (rix_net_tcp_pull p s d) (rix_net_tcp_pull q s d) \<and>
         same_result (rix_net_ipv6_pull p) (rix_net_ipv6_pull q) \<and>
         same_result (rix_net_icmpv6_echo_pull p s6 d6) (rix_net_icmpv6_echo_pull q s6 d6) \<and>
         same_result (rix_net_icmpv6_neighbor_pull p s6 d6) (rix_net_icmpv6_neighbor_pull q s6 d6) \<and>
         same_result (rix_net_icmpv6_router_advert_pull p s6 d6) (rix_net_icmpv6_router_advert_pull q s6 d6) \<and>
         same_result (rix_net_udp6_pull p s6 d6) (rix_net_udp6_pull q s6 d6) \<and>
         same_result (rix_net_tcp6_pull p s6 d6) (rix_net_tcp6_pull q s6 d6) \<and>
         rix_net_dhcp_parse_reply p xid e offer = rix_net_dhcp_parse_reply q xid e offer"
  using eth_pull_same[OF assms] arp_pull_same[OF assms] ipv4_pull_same[OF assms] icmp_pull_same[OF assms] udp_pull_same[OF assms]
    tcp_pull_same[OF assms] ipv6_pull_same[OF assms] echo6_pull_same[OF assms] neighbor_pull_same[OF assms] router_pull_same[OF assms]
    udp6_pull_same[OF assms] tcp6_pull_same[OF assms] parse_reply_same[OF assms]
  by simp

theorem receivers_stay_inside_the_packet_witness:
  "same_result (rix_net_eth_pull \<lparr>pk_bytes = (\<lambda>_. 0), pk_start = 10, pk_length = 30\<rparr>)
               (rix_net_eth_pull \<lparr>pk_bytes = (\<lambda>i. if i < 20 then 7 else 0), pk_start = 20, pk_length = 30\<rparr>)"
proof -
  have "same_packet \<lparr>pk_bytes = (\<lambda>_. 0), pk_start = 10, pk_length = 30\<rparr>
                    \<lparr>pk_bytes = (\<lambda>i. if i < 20 then 7 else 0), pk_start = 20, pk_length = 30\<rparr>"
    by (simp add: same_packet_def packet_ok_def pk_view_def)
  then show ?thesis using receivers_stay_inside_the_packet by blast
qed

end
