(* ===== verification/Net_Corruption.thy ===== *)
theory Net_Corruption
  imports Udp_Tcp
begin

text \<open>
  Detection of damage: the receivers of \<^verbatim>\<open>kernel/net/ipv4.c\<close>, \<^verbatim>\<open>kernel/net/icmp.c\<close> and \<^verbatim>\<open>kernel/net/tcp.c\<close> refuse every header or
  segment in which one byte differs from one they accept.
\<close>

definition damaged :: "rix_net_packet \<Rightarrow> nat \<Rightarrow> u8 \<Rightarrow> rix_net_packet" where
  "damaged p i v = p\<lparr>pk_bytes := (pk_bytes p)(pk_start p + i := v)\<rparr>"

lemma damaged_fields [simp]: "pk_start (damaged p i v) = pk_start p" "pk_length (damaged p i v) = pk_length p" "packet_ok (damaged p i v) = packet_ok p"
  by (simp_all add: damaged_def packet_ok_def)

lemma damaged_view: "i < pk_length p \<Longrightarrow> pk_view (damaged p i v) = (pk_view p)[i := v]"
  by (rule nth_equalityI) (auto simp: pk_view_def damaged_def nth_list_update)

lemma damaged_byte: "i < pk_length p \<Longrightarrow> pk_view p ! i = pk_bytes p (pk_start p + i)"
  by (simp add: pk_view_def)

text \<open>A sum that verified does not verify after the damage, whatever it starts from.\<close>

lemma damaged_sum:
  assumes "sum_ok (s + wsum (take n (pk_view p)))" "i < n" "n \<le> pk_length p" "v \<noteq> pk_bytes p (pk_start p + i)"
  shows "\<not> sum_ok (s + wsum (take n (pk_view (damaged p i v))))"
proof -
  have "v \<noteq> take n (pk_view p) ! i" using assms(2-4) by (simp add: damaged_byte)
  moreover have "take n (pk_view (damaged p i v)) = (take n (pk_view p))[i := v]"
    using assms(2,3) by (simp add: damaged_view take_update_swap)
  ultimately show ?thesis using sum_ok_single_byte[OF assms(1), of i v] assms(2,3) by simp
qed

lemma damaged_ipv4:
  assumes "rix_net_ipv4_pull p h0 = (0, h, p1)" "i < 20" "v \<noteq> pk_bytes p (pk_start p + i)"
  shows "\<exists>rc. rc \<noteq> 0 \<and> rix_net_ipv4_pull (damaged p i v) h0 = (rc, h0, damaged p i v)"
proof -
  have a: "20 \<le> pk_length p" "rix_net_checksum (pk_bytes p) (pk_start p) 20 = 0"
    using assms(1) by (auto simp: rix_net_ipv4_pull_def rix_net_packet_length_def split: if_splits)
  then have "sum_ok (0 + wsum (take 20 (pk_view p)))" using ipv4_checksum_accepts[OF a(1)] by simp
  then have "\<not> sum_ok (0 + wsum (take 20 (pk_view (damaged p i v))))" using assms(2) a(1) assms(3) by (rule damaged_sum)
  then have "rix_net_checksum (pk_bytes (damaged p i v)) (pk_start p) 20 \<noteq> 0" using ipv4_checksum_accepts[of "damaged p i v"] a(1) by simp
  then show ?thesis by (auto simp: rix_net_ipv4_pull_def rix_net_packet_length_def)
qed

lemma icmp_checksum_accepts:
  assumes "packet_ok q"
  shows "rix_net_checksum (pk_bytes q) (pk_start q) (pk_length q) = 0 \<longleftrightarrow> sum_ok (wsum (take (pk_length q) (pk_view q)))"
  using checksum_verifies[of 0 "pk_view q"] wsum_short[of "pk_view q"] assms
  by (simp add: rix_net_checksum_def sum_words_view packet_ok_def)

lemma damaged_icmp:
  assumes "packet_ok p" "rix_net_icmp_echo_pull p = (0, Some e, p1)" "i < pk_length p" "v \<noteq> pk_bytes p (pk_start p + i)"
  shows "rix_net_icmp_echo_pull (damaged p i v) = (-2, None, damaged p i v)"
proof -
  have a: "8 \<le> pk_length p" "rix_net_checksum (pk_bytes p) (pk_start p) (pk_length p) = 0"
    using assms(2) by (auto simp: rix_net_icmp_echo_pull_def rix_net_packet_length_def split: if_splits)
  then have "sum_ok (0 + wsum (take (pk_length p) (pk_view p)))" using icmp_checksum_accepts[OF assms(1)] by simp
  then have "\<not> sum_ok (0 + wsum (take (pk_length p) (pk_view (damaged p i v))))" using assms(3) le_refl assms(4) by (rule damaged_sum)
  then have "rix_net_checksum (pk_bytes (damaged p i v)) (pk_start p) (pk_length p) \<noteq> 0"
    using icmp_checksum_accepts[of "damaged p i v"] assms(1) by simp
  then show ?thesis using a(1) by (simp add: rix_net_icmp_echo_pull_def rix_net_packet_length_def)
qed

lemma tcp_checksum_accepts:
  assumes "packet_ok q"
  shows "tcp_pseudo_checksum s d (pk_bytes q) (pk_start q) (pk_length q) = 0 \<longleftrightarrow>
    sum_ok (unat (pseudo_sum 6 s d (pk_length q)) + wsum (take (pk_length q) (pk_view q)))"
proof -
  have l: "pk_length q \<le> 1580" using assms by (simp add: packet_ok_def)
  have "unat (pseudo_sum 6 s d (pk_length q)) \<le> 2000000" by (rule pseudo_sum_bound) (use l in simp_all)
  then show ?thesis using transport_accepts[OF _ refl l] by (simp add: tcp_pseudo_checksum_def RIX_NET_IP_PROTO_TCP_def)
qed

lemma damaged_tcp:
  assumes "packet_ok p" "rix_net_tcp_pull p s d = (0, Some h, p1)" "i < pk_length p" "v \<noteq> pk_bytes p (pk_start p + i)"
  shows "\<exists>rc. rc \<noteq> 0 \<and> rix_net_tcp_pull (damaged p i v) s d = (rc, None, damaged p i v)"
proof -
  have a: "tcp_pseudo_checksum s d (pk_bytes p) (pk_start p) (pk_length p) = 0"
    using assms(2) by (auto simp: rix_net_tcp_pull_def rix_net_packet_length_def Let_def split: if_splits)
  then have "sum_ok (unat (pseudo_sum 6 s d (pk_length p)) + wsum (take (pk_length p) (pk_view p)))" using tcp_checksum_accepts[OF assms(1)] by simp
  then have "\<not> sum_ok (unat (pseudo_sum 6 s d (pk_length p)) + wsum (take (pk_length p) (pk_view (damaged p i v))))"
    using assms(3) le_refl assms(4) by (rule damaged_sum)
  then have "tcp_pseudo_checksum s d (pk_bytes (damaged p i v)) (pk_start p) (pk_length p) \<noteq> 0"
    using tcp_checksum_accepts[of "damaged p i v"] assms(1) by simp
  then show ?thesis by (auto simp: rix_net_tcp_pull_def rix_net_packet_length_def Let_def)
qed

text \<open>C19: damage to a single byte is always found.  If the receiver accepts a packet, then changing one byte of its IPv4
  header, one byte of an ICMP message or one byte of a TCP segment to any other value makes the receiver refuse it with
  an error, without a result and without moving the packet.\<close>

theorem single_byte_damage_is_rejected:
  assumes "packet_ok p" "v \<noteq> pk_bytes p (pk_start p + i)"
  shows "(\<forall>h0 h p1. rix_net_ipv4_pull p h0 = (0, h, p1) \<and> i < 20 \<longrightarrow>
      (\<exists>rc. rc \<noteq> 0 \<and> rix_net_ipv4_pull (damaged p i v) h0 = (rc, h0, damaged p i v))) \<and>
    (\<forall>e p1. rix_net_icmp_echo_pull p = (0, Some e, p1) \<and> i < pk_length p \<longrightarrow> rix_net_icmp_echo_pull (damaged p i v) = (-2, None, damaged p i v)) \<and>
    (\<forall>s d h p1. rix_net_tcp_pull p s d = (0, Some h, p1) \<and> i < pk_length p \<longrightarrow>
      (\<exists>rc. rc \<noteq> 0 \<and> rix_net_tcp_pull (damaged p i v) s d = (rc, None, damaged p i v)))"
  using damaged_ipv4[OF _ _ assms(2)] damaged_icmp[OF assms(1) _ _ assms(2)] damaged_tcp[OF assms(1) _ _ assms(2)]
  by (intro conjI allI impI) (elim conjE, assumption | blast)+

definition demo_echo :: rix_net_packet where
  "demo_echo = \<lparr>pk_bytes = store_bytes (\<lambda>_. 0) 64 [8, 0, 0xe5, 0xf9, 0x12, 0x04, 0, 2], pk_start = 64, pk_length = 8\<rparr>"

theorem single_byte_damage_is_rejected_witness:
  "rix_net_icmp_echo_pull (damaged demo_echo 5 6) = (-2, None, damaged demo_echo 5 6)"
proof -
  have p: "packet_ok demo_echo" "6 \<noteq> pk_bytes demo_echo (pk_start demo_echo + 5)" "5 < pk_length demo_echo"
    by (simp_all add: demo_echo_def packet_ok_def store_bytes_def)
  have "fst (rix_net_icmp_echo_pull demo_echo) = 0" "fst (snd (rix_net_icmp_echo_pull demo_echo)) \<noteq> None"
    by code_simp+
  then obtain e p1 where "rix_net_icmp_echo_pull demo_echo = (0, Some e, p1)" by (metis fst_conv not_None_eq prod_cases3 snd_conv)
  then show ?thesis using single_byte_damage_is_rejected[OF p(1,2)] p(3) by blast
qed

end
