(* ===== verification/Tcp_States.thy ===== *)
theory Tcp_States
  imports Udp_Tcp
begin

text \<open>
  The connection state machine of \<^verbatim>\<open>kernel/net/tcp.c\<close> as the language of event sequences it accepts: a connection is
  established by a handshake and by nothing else, it is left only when both sides have closed, and it can be left
  from everywhere.
\<close>

subsection \<open>Runs\<close>

text \<open>The control block after a sequence of events, none if one of them is refused.\<close>

primrec tcp_run :: "rix_tcp_control \<Rightarrow> rix_tcp_event list \<Rightarrow> rix_tcp_control option" where
  "tcp_run c [] = Some c"
| "tcp_run c (e # es) = (case rix_tcp_transition c e of (rc, c') \<Rightarrow> if rc = 0 then tcp_run c' es else None)"

primrec state_run :: "rix_tcp_state \<Rightarrow> rix_tcp_event list \<Rightarrow> rix_tcp_state option" where
  "state_run s [] = Some s"
| "state_run s (e # es) = Option.bind (tcp_next s e) (\<lambda>s'. state_run s' es)"

lemma tcp_run_state: "tcp_run c es = map_option (\<lambda>s. c\<lparr>tc_state := s\<rparr>) (state_run (tc_state c) es)"
proof (induction es arbitrary: c)
  case (Cons e es)
  show ?case
    by (cases "tcp_next (tc_state c) e") (simp_all add: rix_tcp_transition_def Cons option.map_comp comp_def)
qed simp

lemma tcp_run_into: "(\<exists>c'. tcp_run c es = Some c' \<and> tc_state c' = s) \<longleftrightarrow> state_run (tc_state c) es = Some s"
  by (cases "state_run (tc_state c) es") (simp_all add: tcp_run_state)

lemma state_run_snoc: "state_run s (es @ [e]) = Option.bind (state_run s es) (\<lambda>s'. tcp_next s' e)"
  by (induction es arbitrary: s) (auto split: bind_splits)

lemma state_run_append: "state_run s (es @ fs) = Option.bind (state_run s es) (\<lambda>s'. state_run s' fs)"
  by (induction es arbitrary: s) (auto split: bind_splits)

text \<open>The transitions into the states of the handshake.\<close>

lemma tcp_into:
  "tcp_next s e = Some RIX_TCP_LISTEN \<longleftrightarrow> s = RIX_TCP_CLOSED \<and> e = RIX_TCP_EVENT_PASSIVE_OPEN"
  "tcp_next s e = Some RIX_TCP_SYN_SENT \<longleftrightarrow> s = RIX_TCP_CLOSED \<and> e = RIX_TCP_EVENT_ACTIVE_OPEN"
  "tcp_next s e = Some RIX_TCP_SYN_RECEIVED \<longleftrightarrow> s = RIX_TCP_LISTEN \<and> e = RIX_TCP_EVENT_SYN"
  "tcp_next s e = Some RIX_TCP_ESTABLISHED \<longleftrightarrow>
     s = RIX_TCP_SYN_SENT \<and> e = RIX_TCP_EVENT_SYN_ACK \<or> (s = RIX_TCP_SYN_RECEIVED \<or> s = RIX_TCP_ESTABLISHED) \<and> e = RIX_TCP_EVENT_ACK"
  by (cases s; cases e; simp)+

lemma state_run_into:
  assumes "s0 \<noteq> s" "\<And>s' e. tcp_next s' e = Some s \<longleftrightarrow> s' = a \<and> e = b"
  shows "state_run s0 es = Some s \<longleftrightarrow> (\<exists>pre. es = pre @ [b] \<and> state_run s0 pre = Some a)"
proof (cases es rule: rev_exhaust)
  case (snoc pre e)
  then show ?thesis using assms(2) by (auto simp: state_run_snoc bind_eq_Some_conv)
qed (use assms(1) in simp)

lemma state_run_handshake:
  "state_run RIX_TCP_CLOSED es = Some RIX_TCP_SYN_SENT \<longleftrightarrow>
     (\<exists>pre. es = pre @ [RIX_TCP_EVENT_ACTIVE_OPEN] \<and> state_run RIX_TCP_CLOSED pre = Some RIX_TCP_CLOSED)"
  "state_run RIX_TCP_CLOSED es = Some RIX_TCP_SYN_RECEIVED \<longleftrightarrow>
     (\<exists>pre. es = pre @ [RIX_TCP_EVENT_PASSIVE_OPEN, RIX_TCP_EVENT_SYN] \<and> state_run RIX_TCP_CLOSED pre = Some RIX_TCP_CLOSED)"
proof -
  show "state_run RIX_TCP_CLOSED es = Some RIX_TCP_SYN_SENT \<longleftrightarrow>
     (\<exists>pre. es = pre @ [RIX_TCP_EVENT_ACTIVE_OPEN] \<and> state_run RIX_TCP_CLOSED pre = Some RIX_TCP_CLOSED)"
    by (rule state_run_into) (simp_all add: tcp_into)
  have l: "state_run RIX_TCP_CLOSED es = Some RIX_TCP_LISTEN \<longleftrightarrow>
     (\<exists>pre. es = pre @ [RIX_TCP_EVENT_PASSIVE_OPEN] \<and> state_run RIX_TCP_CLOSED pre = Some RIX_TCP_CLOSED)" for es
    by (rule state_run_into) (simp_all add: tcp_into)
  have "state_run RIX_TCP_CLOSED es = Some RIX_TCP_SYN_RECEIVED \<longleftrightarrow>
     (\<exists>pre. es = pre @ [RIX_TCP_EVENT_SYN] \<and> state_run RIX_TCP_CLOSED pre = Some RIX_TCP_LISTEN)"
    by (rule state_run_into) (simp_all add: tcp_into)
  then show "state_run RIX_TCP_CLOSED es = Some RIX_TCP_SYN_RECEIVED \<longleftrightarrow>
     (\<exists>pre. es = pre @ [RIX_TCP_EVENT_PASSIVE_OPEN, RIX_TCP_EVENT_SYN] \<and> state_run RIX_TCP_CLOSED pre = Some RIX_TCP_CLOSED)"
    unfolding l by auto
qed

definition handshakes :: "rix_tcp_event list set" where
  "handshakes = {[RIX_TCP_EVENT_ACTIVE_OPEN, RIX_TCP_EVENT_SYN_ACK],
                 [RIX_TCP_EVENT_PASSIVE_OPEN, RIX_TCP_EVENT_SYN, RIX_TCP_EVENT_ACK]}"

lemma state_run_established:
  "state_run RIX_TCP_CLOSED es = Some RIX_TCP_ESTABLISHED \<longleftrightarrow>
     (\<exists>pre hs n. es = pre @ hs @ replicate n RIX_TCP_EVENT_ACK \<and> hs \<in> handshakes \<and> state_run RIX_TCP_CLOSED pre = Some RIX_TCP_CLOSED)"
    (is "?L es \<longleftrightarrow> ?R es")
proof
  show "?L es \<Longrightarrow> ?R es"
  proof (induction es rule: rev_induct)
    case (snoc e es)
    then consider "state_run RIX_TCP_CLOSED es = Some RIX_TCP_SYN_SENT" "e = RIX_TCP_EVENT_SYN_ACK"
      | "state_run RIX_TCP_CLOSED es = Some RIX_TCP_SYN_RECEIVED" "e = RIX_TCP_EVENT_ACK"
      | "state_run RIX_TCP_CLOSED es = Some RIX_TCP_ESTABLISHED" "e = RIX_TCP_EVENT_ACK"
      by (auto simp: state_run_snoc bind_eq_Some_conv tcp_into)
    then show ?case
    proof cases
      case 1
      then obtain pre where "es = pre @ [RIX_TCP_EVENT_ACTIVE_OPEN]" "state_run RIX_TCP_CLOSED pre = Some RIX_TCP_CLOSED"
        unfolding state_run_handshake by blast
      with 1 show ?thesis by (intro exI[of _ pre] exI[of _ "[RIX_TCP_EVENT_ACTIVE_OPEN, RIX_TCP_EVENT_SYN_ACK]"] exI[of _ 0]) (simp add: handshakes_def)
    next
      case 2
      then obtain pre where "es = pre @ [RIX_TCP_EVENT_PASSIVE_OPEN, RIX_TCP_EVENT_SYN]" "state_run RIX_TCP_CLOSED pre = Some RIX_TCP_CLOSED"
        unfolding state_run_handshake by blast
      with 2 show ?thesis
        by (intro exI[of _ pre] exI[of _ "[RIX_TCP_EVENT_PASSIVE_OPEN, RIX_TCP_EVENT_SYN, RIX_TCP_EVENT_ACK]"] exI[of _ 0]) (simp add: handshakes_def)
    next
      case 3
      then obtain pre hs n where "es = pre @ hs @ replicate n RIX_TCP_EVENT_ACK" "hs \<in> handshakes" "state_run RIX_TCP_CLOSED pre = Some RIX_TCP_CLOSED"
        using snoc.IH by blast
      with 3(2) show ?thesis
        by (intro exI[of _ pre] exI[of _ hs] exI[of _ "Suc n"]) (simp add: replicate_append_same)
    qed
  qed simp
  have a: "state_run RIX_TCP_ESTABLISHED (replicate n RIX_TCP_EVENT_ACK) = Some RIX_TCP_ESTABLISHED" for n
    by (induction n) simp_all
  show "?R es \<Longrightarrow> ?L es" using a by (auto simp: state_run_append handshakes_def)
qed

text \<open>What lies on every way back to the closed state.\<close>

lemma state_run_closing:
  assumes "state_run s es = Some RIX_TCP_CLOSED"
  shows "(s = RIX_TCP_ESTABLISHED \<longrightarrow> RIX_TCP_EVENT_FIN \<in> set es \<and> RIX_TCP_EVENT_CLOSE \<in> set es) \<and>
         (s = RIX_TCP_FIN_WAIT_1 \<or> s = RIX_TCP_FIN_WAIT_2 \<longrightarrow> RIX_TCP_EVENT_FIN \<in> set es) \<and>
         (s = RIX_TCP_CLOSE_WAIT \<longrightarrow> RIX_TCP_EVENT_CLOSE \<in> set es)"
  using assms
proof (induction es arbitrary: s)
  case (Cons e es)
  obtain s' where n: "tcp_next s e = Some s'" "state_run s' es = Some RIX_TCP_CLOSED"
    using Cons.prems by (auto simp: bind_eq_Some_conv)
  show ?case using Cons.IH[OF n(2)] n(1) by (cases s) (auto split: if_splits)
qed auto

fun tcp_escape :: "rix_tcp_state \<Rightarrow> rix_tcp_event list" where
  "tcp_escape RIX_TCP_CLOSED = []"
| "tcp_escape RIX_TCP_SYN_RECEIVED = [RIX_TCP_EVENT_CLOSE, RIX_TCP_EVENT_FIN, RIX_TCP_EVENT_CLOSE]"
| "tcp_escape RIX_TCP_ESTABLISHED = [RIX_TCP_EVENT_CLOSE, RIX_TCP_EVENT_FIN, RIX_TCP_EVENT_CLOSE]"
| "tcp_escape RIX_TCP_FIN_WAIT_1 = [RIX_TCP_EVENT_FIN, RIX_TCP_EVENT_CLOSE]"
| "tcp_escape RIX_TCP_FIN_WAIT_2 = [RIX_TCP_EVENT_FIN, RIX_TCP_EVENT_CLOSE]"
| "tcp_escape RIX_TCP_CLOSE_WAIT = [RIX_TCP_EVENT_CLOSE, RIX_TCP_EVENT_ACK]"
| "tcp_escape RIX_TCP_LAST_ACK = [RIX_TCP_EVENT_ACK]"
| "tcp_escape _ = [RIX_TCP_EVENT_CLOSE]"

lemma state_run_escape: "length (tcp_escape s) \<le> 3 \<and> state_run s (tcp_escape s) = Some RIX_TCP_CLOSED"
  by (cases s) simp_all

subsection \<open>The property\<close>

text \<open>C25: the connection state machine.  A refused event leaves the control block untouched and an accepted one changes
  only its state.  Starting from a fresh block, a sequence of accepted events leads to a connection exactly when it
  ends with an active or a passive handshake, begun in the closed state, and acknowledgments after it.  Every way from
  an established connection back to the closed state contains both our close and the peer's; and from every state at
  most three events lead to the closed state.\<close>

theorem tcp_connection_language:
  "(rix_tcp_transition c e = (-1, c) \<or> (\<exists>s. rix_tcp_transition c e = (0, c\<lparr>tc_state := s\<rparr>))) \<and>
   ((\<exists>c'. tcp_run (rix_tcp_init c) es = Some c' \<and> rix_tcp_is_connected c') \<longleftrightarrow>
    (\<exists>pre hs n c0. es = pre @ hs @ replicate n RIX_TCP_EVENT_ACK \<and> hs \<in> handshakes \<and>
       tcp_run (rix_tcp_init c) pre = Some c0 \<and> tc_state c0 = RIX_TCP_CLOSED)) \<and>
   (rix_tcp_is_connected c \<and> (\<exists>c'. tcp_run c es = Some c' \<and> tc_state c' = RIX_TCP_CLOSED) \<longrightarrow>
    {RIX_TCP_EVENT_FIN, RIX_TCP_EVENT_CLOSE} \<subseteq> set es) \<and>
   (\<exists>fs c'. length fs \<le> 3 \<and> tcp_run c fs = Some c' \<and> tc_state c' = RIX_TCP_CLOSED)"
proof (intro conjI)
  show "rix_tcp_transition c e = (-1, c) \<or> (\<exists>s. rix_tcp_transition c e = (0, c\<lparr>tc_state := s\<rparr>))"
    by (auto simp: rix_tcp_transition_def split: option.splits)
  show "(\<exists>c'. tcp_run (rix_tcp_init c) es = Some c' \<and> rix_tcp_is_connected c') \<longleftrightarrow>
         (\<exists>pre hs n c0. es = pre @ hs @ replicate n RIX_TCP_EVENT_ACK \<and> hs \<in> handshakes \<and>
            tcp_run (rix_tcp_init c) pre = Some c0 \<and> tc_state c0 = RIX_TCP_CLOSED)"
    using state_run_established[of es] tcp_run_into[of "rix_tcp_init c"]
    by (simp add: rix_tcp_is_connected_def) (simp add: rix_tcp_init_def)
  show "rix_tcp_is_connected c \<and> (\<exists>c'. tcp_run c es = Some c' \<and> tc_state c' = RIX_TCP_CLOSED) \<longrightarrow>
         {RIX_TCP_EVENT_FIN, RIX_TCP_EVENT_CLOSE} \<subseteq> set es"
    using state_run_closing[of "tc_state c" es] unfolding tcp_run_into rix_tcp_is_connected_def by blast
  show "\<exists>fs c'. length fs \<le> 3 \<and> tcp_run c fs = Some c' \<and> tc_state c' = RIX_TCP_CLOSED"
    using state_run_escape[of "tc_state c"] tcp_run_into[of c _ RIX_TCP_CLOSED] by blast
qed

definition demo_control :: rix_tcp_control where
  "demo_control = \<lparr>tc_state = RIX_TCP_ESTABLISHED, tc_sequence = 1, tc_acknowledgment = 2\<rparr>"

theorem tcp_connection_language_witness:
  "tcp_run demo_control [RIX_TCP_EVENT_FIN, RIX_TCP_EVENT_CLOSE, RIX_TCP_EVENT_ACK] = Some (demo_control\<lparr>tc_state := RIX_TCP_CLOSED\<rparr>) \<and>
   {RIX_TCP_EVENT_FIN, RIX_TCP_EVENT_CLOSE} \<subseteq> set [RIX_TCP_EVENT_FIN, RIX_TCP_EVENT_CLOSE, RIX_TCP_EVENT_ACK]"
proof -
  have "rix_tcp_is_connected demo_control"
    "tcp_run demo_control [RIX_TCP_EVENT_FIN, RIX_TCP_EVENT_CLOSE, RIX_TCP_EVENT_ACK] = Some (demo_control\<lparr>tc_state := RIX_TCP_CLOSED\<rparr>)"
    by (simp_all add: demo_control_def rix_tcp_is_connected_def rix_tcp_transition_def)
  then show ?thesis
    using conjunct1[OF conjunct2[OF conjunct2[OF tcp_connection_language[of demo_control _ "[RIX_TCP_EVENT_FIN, RIX_TCP_EVENT_CLOSE, RIX_TCP_EVENT_ACK]"]]]]
    by (simp add: demo_control_def)
qed

end
