(* ===== verification/Packet_Safety.thy ===== *)
theory Packet_Safety
  imports Dhcp
begin

text \<open>
  Memory safety of the writers: whatever sequence of operations of the network code a packet goes through, it stays
  inside its buffer, and no operation writes beyond the buffer.
\<close>

subsection \<open>Writes that stay inside the buffer\<close>

definition writes_inside :: "rix_net_packet \<Rightarrow> rix_net_packet \<Rightarrow> bool" where
  "writes_inside p q \<longleftrightarrow> packet_ok q \<and> (\<forall>i \<ge> RIX_NET_FRAME_CAPACITY. pk_bytes q i = pk_bytes p i)"

lemma writes_inside_refl: "packet_ok p \<Longrightarrow> writes_inside p p"
  by (simp add: writes_inside_def)

lemma writes_inside_trans: "\<lbrakk>writes_inside p q; writes_inside q r\<rbrakk> \<Longrightarrow> writes_inside p r"
  by (simp add: writes_inside_def)

lemma writes_inside_bytes:
  "\<lbrakk>packet_ok p1; \<And>i. 1580 \<le> i \<Longrightarrow> b i = pk_bytes p i\<rbrakk> \<Longrightarrow> writes_inside p (p1\<lparr>pk_bytes := b\<rparr>)"
  by (simp add: writes_inside_def packet_ok_def)

lemma writes_inside_shrink:
  "\<lbrakk>packet_ok p; n + m \<le> pk_length p\<rbrakk> \<Longrightarrow> writes_inside p (p\<lparr>pk_start := pk_start p + n, pk_length := m\<rparr>)"
  by (simp add: writes_inside_def packet_ok_def)

text \<open>A store that ends before the end of the buffer does not change what lies beyond.\<close>

lemma store_high:
  "\<lbrakk>off + length xs \<le> 1580; 1580 \<le> i\<rbrakk> \<Longrightarrow> store_bytes b off xs i = b i"
  "\<lbrakk>off < 1580; 1580 \<le> i\<rbrakk> \<Longrightarrow> (b(off := x)) i = b i"
  "\<lbrakk>off + 2 \<le> 1580; 1580 \<le> i\<rbrakk> \<Longrightarrow> put_be16 b off h i = b i"
  "\<lbrakk>off + 4 \<le> 1580; 1580 \<le> i\<rbrakk> \<Longrightarrow> put_be32 b off v i = b i"
  "\<lbrakk>off + 2 \<le> 1580; 1580 \<le> i\<rbrakk> \<Longrightarrow> store16 b off h i = b i"
  "\<lbrakk>off + 4 \<le> 1580; 1580 \<le> i\<rbrakk> \<Longrightarrow> store32 b off v i = b i"
  "\<lbrakk>off + 6 \<le> 1580; 1580 \<le> i\<rbrakk> \<Longrightarrow> copy_mac b off m i = b i"
  "\<lbrakk>off + 16 \<le> 1580; 1580 \<le> i\<rbrakk> \<Longrightarrow> copy16 b off a i = b i"
  by (auto simp: store_bytes_at put_be16_def put_be32_def store16_def store32_def copy_mac_def copy16_def)

lemma length_repr [simp]: "length (repr16 h) = 2" "length (repr32 v) = 4"
  by (simp_all add: repr16_def repr32_def)

lemma push_cases:
  assumes "packet_ok p"
  obtains (fit) w p1 where "rix_net_packet_push p n = (0, w, p1)" "packet_ok p1" "pk_bytes p1 = pk_bytes p" "w + n \<le> 1580"
    | (full) w where "rix_net_packet_push p n = (-1, w, p)"
proof (cases "n \<le> pk_start p")
  case True
  show thesis by (rule fit[OF push_eq[OF True]]) (use assms True in \<open>simp_all add: packet_ok_def\<close>)
next
  case False
  then show thesis by (intro full) (simp add: rix_net_packet_push_def)
qed

lemma put_cases:
  assumes "packet_ok p"
  obtains (fit) w p1 where "rix_net_packet_put p n = (0, w, p1)" "packet_ok p1" "pk_bytes p1 = pk_bytes p" "w + n \<le> 1580"
    | (full) w where "rix_net_packet_put p n = (-1, w, p)"
proof (cases "pk_start p + pk_length p + n \<le> RIX_NET_FRAME_CAPACITY")
  case True
  show thesis by (rule fit[OF put_eq[OF assms True]]) (use assms True in \<open>simp_all add: packet_ok_def\<close>)
next
  case False
  then show thesis using put_guard[OF assms] assms by (intro full) (auto simp: rix_net_packet_put_def packet_ok_def)
qed

subsection \<open>Headers put in front\<close>

lemma eth_push_inside:
  assumes "packet_ok p"
  shows "writes_inside p (snd (rix_net_eth_push p dm sm t))"
  by (rule push_cases[OF assms, of 14])
    (auto simp: rix_net_eth_push_def Let_def store_high writes_inside_refl[OF assms] intro!: writes_inside_bytes)

lemma ipv4_push_inside:
  assumes "packet_ok p"
  shows "writes_inside p (snd (rix_net_ipv4_push p s d pr ttl i f))"
  by (rule push_cases[OF assms, of 20])
    (auto simp: rix_net_ipv4_push_def Let_def store_high writes_inside_refl[OF assms] intro!: writes_inside_bytes)

lemma ipv6_push_inside:
  assumes "packet_ok p"
  shows "writes_inside p (snd (rix_net_ipv6_push p s d nh hl tc fl))"
  by (rule push_cases[OF assms, of 40])
    (auto simp: rix_net_ipv6_push_def Let_def store_high writes_inside_refl[OF assms] intro!: writes_inside_bytes)

lemma icmpv6_put_inside:
  assumes "packet_ok p"
  shows "writes_inside p (snd (icmpv6_put p t c s d))"
  by (rule push_cases[OF assms, of 4])
    (auto simp: icmpv6_put_def Let_def store_high writes_inside_refl[OF assms] intro!: writes_inside_bytes)

lemma dhcp_udp_push_inside:
  assumes "packet_ok p"
  shows "writes_inside p (snd (dhcp_udp_push p))"
  by (rule push_cases[OF assms, of 8])
    (auto simp: dhcp_udp_push_def Let_def store_high writes_inside_refl[OF assms] intro!: writes_inside_bytes)

subsection \<open>Payloads\<close>

text \<open>A payload appended, then a header of \<open>n\<close> bytes put in front: the packet after a failure of either, or after both.\<close>

lemma put_push_cases:
  assumes "packet_ok p"
  obtains (full) w where "rix_net_packet_put p (length xs) = (-1, w, p)"
    | (stuck) body p1 w p2 where "rix_net_packet_put p (length xs) = (0, body, p1)" "p2 = p1\<lparr>pk_bytes := store_bytes (pk_bytes p1) body xs\<rparr>"
        "rix_net_packet_push p2 n = (-1, w, p2)" "writes_inside p p2"
    | (fit) body p1 w p2 p3 where "rix_net_packet_put p (length xs) = (0, body, p1)" "p2 = p1\<lparr>pk_bytes := store_bytes (pk_bytes p1) body xs\<rparr>"
        "rix_net_packet_push p2 n = (0, w, p3)" "packet_ok p3" "w + n \<le> 1580" "\<And>i. 1580 \<le> i \<Longrightarrow> pk_bytes p3 i = pk_bytes p i"
proof (rule put_cases[OF assms, of "length xs"])
  fix body p1
  assume a: "rix_net_packet_put p (length xs) = (0, body, p1)" "packet_ok p1" "pk_bytes p1 = pk_bytes p" "body + length xs \<le> 1580"
  let ?p2 = "p1\<lparr>pk_bytes := store_bytes (pk_bytes p1) body xs\<rparr>"
  have i2: "writes_inside p ?p2" by (rule writes_inside_bytes[OF a(2)]) (use a in \<open>simp add: store_high\<close>)
  then have ok2: "packet_ok ?p2" by (simp add: writes_inside_def)
  show thesis
  proof (rule push_cases[OF ok2, of n])
    fix w p3
    assume c: "rix_net_packet_push ?p2 n = (0, w, p3)" "packet_ok p3" "pk_bytes p3 = pk_bytes ?p2" "w + n \<le> 1580"
    show thesis by (rule fit[OF a(1) refl c(1,2,4)]) (use c(3) i2 in \<open>simp add: writes_inside_def\<close>)
  next
    fix w
    assume "rix_net_packet_push ?p2 n = (-1, w, ?p2)"
    then show thesis by (rule stuck[OF a(1) refl _ i2])
  qed
qed (use full in blast)

lemma udp_push_inside:
  assumes "packet_ok p"
  shows "writes_inside p (snd (rix_net_udp_push p s d sp dp xs))"
  by (rule put_push_cases[OF assms, where xs = xs and n = 8])
    (auto simp: rix_net_udp_push_def Let_def store_high writes_inside_refl[OF assms] intro!: writes_inside_bytes)

lemma tcp_push_inside:
  assumes "packet_ok p"
  shows "writes_inside p (snd (rix_net_tcp_push p s d sp dp sq ack flags window xs))"
  by (rule put_push_cases[OF assms, where xs = xs and n = 20])
    (auto simp: rix_net_tcp_push_def Let_def store_high writes_inside_refl[OF assms] intro!: writes_inside_bytes)

lemma icmp_push_inside:
  assumes "packet_ok p"
  shows "writes_inside p (snd (rix_net_icmp_echo_push p t i sq xs))"
  by (rule put_push_cases[OF assms, where xs = xs and n = 8])
    (auto simp: rix_net_icmp_echo_push_def Let_def store_high writes_inside_refl[OF assms] intro!: writes_inside_bytes)

lemma udp6_push_inside:
  assumes "packet_ok p"
  shows "writes_inside p (snd (rix_net_udp6_push p s d sp dp xs))"
  by (rule put_push_cases[OF assms, where xs = xs and n = 8])
    (auto simp: rix_net_udp6_push_def Let_def store_high writes_inside_refl[OF assms] intro!: writes_inside_bytes)

lemma tcp6_push_inside:
  assumes "packet_ok p"
  shows "writes_inside p (snd (rix_net_tcp6_push p s d sp dp sq ack flags window xs))"
  by (rule put_push_cases[OF assms, where xs = xs and n = 20])
    (auto simp: rix_net_tcp6_push_def Let_def store_high writes_inside_refl[OF assms] intro!: writes_inside_bytes)

lemma arp_push_inside:
  assumes "packet_ok p"
  shows "writes_inside p (snd (rix_net_arp_push p operation sm si tm ti))"
  by (rule put_cases[OF assms, of 28])
    (auto simp: rix_net_arp_push_def RIX_NET_ARP_HEADER_LENGTH_def Let_def store_high writes_inside_refl[OF assms] intro!: writes_inside_bytes)

subsection \<open>ICMPv6 messages\<close>

lemma icmpv6_put_after:
  assumes "writes_inside p q"
  shows "writes_inside p (snd (icmpv6_put q t c s d))"
  using writes_inside_trans[OF assms icmpv6_put_inside] assms by (simp add: writes_inside_def)

lemma echo6_push_inside:
  assumes "packet_ok p"
  shows "writes_inside p (snd (rix_net_icmpv6_echo_push p t i sq s d xs))"
  by (rule put_push_cases[OF assms, where xs = xs and n = 4])
    (auto simp: rix_net_icmpv6_echo_push_def Let_def store_high writes_inside_refl[OF assms] intro!: icmpv6_put_after writes_inside_bytes)

lemma neighbor_solicit_inside:
  assumes "packet_ok p"
  shows "writes_inside p (snd (rix_net_icmpv6_neighbor_solicit_push p s d target))"
  by (rule put_cases[OF assms, of 20])
    (auto simp: rix_net_icmpv6_neighbor_solicit_push_def Let_def store_high writes_inside_refl[OF assms]
      intro!: icmpv6_put_after writes_inside_bytes)

lemma neighbor_advert_inside:
  assumes "packet_ok p"
  shows "writes_inside p (snd (rix_net_icmpv6_neighbor_advert_push p s d flags target))"
  by (rule put_cases[OF assms, of 20])
    (auto simp: rix_net_icmpv6_neighbor_advert_push_def Let_def store_high writes_inside_refl[OF assms]
      intro!: icmpv6_put_after writes_inside_bytes)

lemma router_solicit_inside:
  assumes "packet_ok p"
  shows "writes_inside p (snd (rix_net_icmpv6_router_solicit_push p s d))"
  by (rule put_cases[OF assms, of 4])
    (auto simp: rix_net_icmpv6_router_solicit_push_def Let_def store_high writes_inside_refl[OF assms]
      intro!: icmpv6_put_after writes_inside_bytes)

lemma router_advert_inside:
  assumes "packet_ok p"
  shows "writes_inside p (snd (rix_net_icmpv6_router_advert_push p s d hl flags rl prefix pl))"
  by (rule put_cases[OF assms, of 44])
    (auto simp: rix_net_icmpv6_router_advert_push_def Let_def store_high writes_inside_refl[OF assms]
      intro!: icmpv6_put_after writes_inside_bytes)

subsection \<open>DHCP messages\<close>

lemma dhcp_header_inside:
  assumes "packet_ok p"
  shows "writes_inside p (snd (dhcp_header p op xid m))"
  by (rule put_cases[OF assms, of 240])
    (auto simp: dhcp_header_def Let_def store_high writes_inside_refl[OF assms] intro!: writes_inside_bytes)

lemma dhcp_option_inside:
  assumes "packet_ok p"
  shows "writes_inside p (snd (dhcp_option p c d))"
  by (rule put_cases[OF assms, of "2 + length d"])
    (auto simp: dhcp_option_def Let_def store_high writes_inside_refl[OF assms] intro!: writes_inside_bytes)

lemma dhcp_pad_inside:
  assumes "packet_ok p"
  shows "writes_inside p (snd (dhcp_pad p))"
proof (rule put_cases[OF assms, of 1])
  fix w p1
  assume a: "rix_net_packet_put p 1 = (0, w, p1)" "packet_ok p1" "pk_bytes p1 = pk_bytes p" "w + 1 \<le> 1580"
  define p2 where "p2 = p1\<lparr>pk_bytes := (pk_bytes p1)(w := DHCP_OPT_END)\<rparr>"
  have i2: "writes_inside p p2" unfolding p2_def by (rule writes_inside_bytes[OF a(2)]) (use a in \<open>simp add: store_high\<close>)
  then have ok2: "packet_ok p2" by (simp add: writes_inside_def)
  let ?n = "sub64 RIX_DHCP_MIN_SIZE (rix_net_packet_length p2)"
  have e: "dhcp_pad p = (if rix_net_packet_length p > RIX_DHCP_MIN_SIZE then (-1, p)
      else case rix_net_packet_put p2 ?n of (rc, body, p3) \<Rightarrow>
        if rc \<noteq> 0 then (-1, p3) else (0, p3\<lparr>pk_bytes := store_bytes (pk_bytes p3) body (replicate ?n 0)\<rparr>))"
    unfolding dhcp_pad_def a(1) prod.case Let_def p2_def[symmetric] by simp
  have "writes_inside p2 (snd (dhcp_pad p)) \<or> snd (dhcp_pad p) = p"
    unfolding e
    by (rule put_cases[OF ok2, of ?n]) (auto simp: store_high writes_inside_refl[OF ok2] intro!: writes_inside_bytes)
  then show ?thesis using i2 writes_inside_trans writes_inside_refl[OF assms] by metis
qed (auto simp: dhcp_pad_def writes_inside_refl[OF assms])

lemma dhcp_options_inside:
  assumes "writes_inside p q"
  shows "writes_inside p (snd (dhcp_options q opts))"
  using assms
proof (induction q opts rule: dhcp_options.induct)
  case (1 q)
  then have "packet_ok q" by (simp add: writes_inside_def)
  then show ?case using writes_inside_trans[OF 1 dhcp_pad_inside] by simp
next
  case (2 q code data opts)
  obtain rc p1 where o: "dhcp_option q code data = (rc, p1)" by (cases "dhcp_option q code data")
  have "packet_ok q" using 2(2) by (simp add: writes_inside_def)
  then have "writes_inside p p1" using writes_inside_trans[OF 2(2) dhcp_option_inside] o by (metis snd_conv)
  then show ?case using 2(1)[OF o[symmetric]] o by simp
qed

lemma dhcp_discover_inside:
  assumes "packet_ok p"
  shows "writes_inside p (snd (rix_net_dhcp_build_discover p xid m))"
  using dhcp_header_inside[OF assms, of RIX_DHCP_OP_REQUEST xid m]
  by (auto simp: rix_net_dhcp_build_discover_def writes_inside_refl[OF assms] dhcp_options_inside simp del: dhcp_options.simps split: prod.splits)

lemma dhcp_request_inside:
  assumes "packet_ok p"
  shows "writes_inside p (snd (rix_net_dhcp_build_request_for_server p xid m ip server))"
  using dhcp_header_inside[OF assms, of RIX_DHCP_OP_REQUEST xid m]
  by (auto simp: rix_net_dhcp_build_request_for_server_def writes_inside_refl[OF assms] dhcp_options_inside simp del: dhcp_options.simps
      split: prod.splits)

subsection \<open>Receivers\<close>

lemma eth_pull_inside:
  assumes "packet_ok p"
  shows "writes_inside p (snd (snd (rix_net_eth_pull p)))"
  using assms writes_inside_shrink[OF assms, of 14 "pk_length p - 14"] writes_inside_refl[OF assms]
  by (auto simp: rix_net_eth_pull_def rix_net_packet_length_def pull_eq Let_def)

lemma arp_pull_inside:
  assumes "packet_ok p"
  shows "writes_inside p (snd (snd (rix_net_arp_pull p)))"
  using assms writes_inside_shrink[OF assms, of 28 "pk_length p - 28"] writes_inside_refl[OF assms]
  by (auto simp: rix_net_arp_pull_def RIX_NET_ARP_HEADER_LENGTH_def rix_net_packet_length_def pull_eq Let_def)

lemma ipv4_pull_inside:
  assumes "packet_ok p"
  shows "writes_inside p (snd (snd (rix_net_ipv4_pull p h)))"
  using assms writes_inside_shrink[OF assms] writes_inside_refl[OF assms]
  by (auto simp: rix_net_ipv4_pull_def rix_net_packet_length_def pull_eq Let_def)

lemma icmp_pull_inside:
  assumes "packet_ok p"
  shows "writes_inside p (snd (snd (rix_net_icmp_echo_pull p)))"
  using assms writes_inside_shrink[OF assms, of 8 "pk_length p - 8"] writes_inside_refl[OF assms]
  by (auto simp: rix_net_icmp_echo_pull_def rix_net_packet_length_def pull_eq Let_def)

lemma udp_pull_inside:
  assumes "packet_ok p"
  shows "writes_inside p (snd (snd (rix_net_udp_pull p s d)))"
  using assms writes_inside_shrink[OF assms] writes_inside_refl[OF assms]
  by (auto simp: rix_net_udp_pull_def rix_net_packet_length_def pull_eq Let_def)

lemma tcp_pull_inside:
  assumes "packet_ok p"
  shows "writes_inside p (snd (snd (rix_net_tcp_pull p s d)))"
  using assms writes_inside_shrink[OF assms] writes_inside_refl[OF assms]
  by (auto simp: rix_net_tcp_pull_def rix_net_packet_length_def pull_eq Let_def)

lemma ipv6_pull_inside:
  assumes "packet_ok p"
  shows "writes_inside p (snd (snd (rix_net_ipv6_pull p)))"
  using assms writes_inside_shrink[OF assms] writes_inside_refl[OF assms]
  by (auto simp: rix_net_ipv6_pull_def rix_net_packet_length_def pull_eq Let_def)

lemma icmpv6_pulls_inside:
  assumes "packet_ok p"
  shows "writes_inside p (snd (snd (rix_net_icmpv6_echo_pull p s d)))"
    and "writes_inside p (snd (snd (rix_net_icmpv6_neighbor_pull p s d)))"
    and "writes_inside p (snd (snd (rix_net_icmpv6_router_advert_pull p s d)))"
  using assms writes_inside_shrink[OF assms] writes_inside_refl[OF assms]
  by (auto simp: rix_net_icmpv6_echo_pull_def rix_net_icmpv6_neighbor_pull_def rix_net_icmpv6_router_advert_pull_def
      rix_net_packet_length_def pull_eq Let_def)

lemma transport6_pulls_inside:
  assumes "packet_ok p"
  shows "writes_inside p (snd (snd (rix_net_udp6_pull p s d)))"
    and "writes_inside p (snd (snd (rix_net_tcp6_pull p s d)))"
  using assms writes_inside_shrink[OF assms] writes_inside_refl[OF assms]
  by (auto simp: rix_net_udp6_pull_def rix_net_tcp6_pull_def rix_net_packet_length_def pull_eq Let_def)

subsection \<open>Any sequence of operations\<close>

datatype packet_op =
    Op_init | Op_push nat | Op_put nat | Op_pull nat
  | Op_eth_push mac mac u16 | Op_eth_pull
  | Op_arp_push u16 mac u32 mac u32 | Op_arp_pull
  | Op_ipv4_push u32 u32 u8 u8 u16 u16 | Op_ipv4_pull rix_net_ipv4_header
  | Op_icmp_push u8 u16 u16 "u8 list" | Op_icmp_pull
  | Op_udp_push u32 u32 u16 u16 "u8 list" | Op_udp_pull u32 u32
  | Op_tcp_push u32 u32 u16 u16 u32 u32 u16 u16 "u8 list" | Op_tcp_pull u32 u32
  | Op_ipv6_push ip6 ip6 u8 u8 u8 u32 | Op_ipv6_pull
  | Op_echo6_push u8 u16 u16 ip6 ip6 "u8 list" | Op_echo6_pull ip6 ip6
  | Op_solicit_push ip6 ip6 ip6 | Op_advert_push ip6 ip6 u32 ip6 | Op_neighbor_pull ip6 ip6
  | Op_router_solicit_push ip6 ip6 | Op_router_advert_push ip6 ip6 u8 u8 u16 ip6 u8 | Op_router_advert_pull ip6 ip6
  | Op_udp6_push ip6 ip6 u16 u16 "u8 list" | Op_udp6_pull ip6 ip6
  | Op_tcp6_push ip6 ip6 u16 u16 u32 u32 u16 u16 "u8 list" | Op_tcp6_pull ip6 ip6
  | Op_discover u32 mac | Op_request u32 mac u32 u32 | Op_dhcp_udp_push

primrec packet_step :: "packet_op \<Rightarrow> rix_net_packet \<Rightarrow> rix_net_packet" where
  "packet_step Op_init p = rix_net_packet_init p"
| "packet_step (Op_push n) p = snd (snd (rix_net_packet_push p n))"
| "packet_step (Op_put n) p = snd (snd (rix_net_packet_put p n))"
| "packet_step (Op_pull n) p = snd (snd (rix_net_packet_pull p n))"
| "packet_step (Op_eth_push dm sm t) p = snd (rix_net_eth_push p dm sm t)"
| "packet_step Op_eth_pull p = snd (snd (rix_net_eth_pull p))"
| "packet_step (Op_arp_push operation sm si tm ti) p = snd (rix_net_arp_push p operation sm si tm ti)"
| "packet_step Op_arp_pull p = snd (snd (rix_net_arp_pull p))"
| "packet_step (Op_ipv4_push s d pr ttl i f) p = snd (rix_net_ipv4_push p s d pr ttl i f)"
| "packet_step (Op_ipv4_pull h) p = snd (snd (rix_net_ipv4_pull p h))"
| "packet_step (Op_icmp_push t i sq xs) p = snd (rix_net_icmp_echo_push p t i sq xs)"
| "packet_step Op_icmp_pull p = snd (snd (rix_net_icmp_echo_pull p))"
| "packet_step (Op_udp_push s d sp dp xs) p = snd (rix_net_udp_push p s d sp dp xs)"
| "packet_step (Op_udp_pull s d) p = snd (snd (rix_net_udp_pull p s d))"
| "packet_step (Op_tcp_push s d sp dp sq ack fl w xs) p = snd (rix_net_tcp_push p s d sp dp sq ack fl w xs)"
| "packet_step (Op_tcp_pull s d) p = snd (snd (rix_net_tcp_pull p s d))"
| "packet_step (Op_ipv6_push s d nh hl tc fl) p = snd (rix_net_ipv6_push p s d nh hl tc fl)"
| "packet_step Op_ipv6_pull p = snd (snd (rix_net_ipv6_pull p))"
| "packet_step (Op_echo6_push t i sq s d xs) p = snd (rix_net_icmpv6_echo_push p t i sq s d xs)"
| "packet_step (Op_echo6_pull s d) p = snd (snd (rix_net_icmpv6_echo_pull p s d))"
| "packet_step (Op_solicit_push s d t) p = snd (rix_net_icmpv6_neighbor_solicit_push p s d t)"
| "packet_step (Op_advert_push s d fl t) p = snd (rix_net_icmpv6_neighbor_advert_push p s d fl t)"
| "packet_step (Op_neighbor_pull s d) p = snd (snd (rix_net_icmpv6_neighbor_pull p s d))"
| "packet_step (Op_router_solicit_push s d) p = snd (rix_net_icmpv6_router_solicit_push p s d)"
| "packet_step (Op_router_advert_push s d hl fl rl pf pl) p = snd (rix_net_icmpv6_router_advert_push p s d hl fl rl pf pl)"
| "packet_step (Op_router_advert_pull s d) p = snd (snd (rix_net_icmpv6_router_advert_pull p s d))"
| "packet_step (Op_udp6_push s d sp dp xs) p = snd (rix_net_udp6_push p s d sp dp xs)"
| "packet_step (Op_udp6_pull s d) p = snd (snd (rix_net_udp6_pull p s d))"
| "packet_step (Op_tcp6_push s d sp dp sq ack fl w xs) p = snd (rix_net_tcp6_push p s d sp dp sq ack fl w xs)"
| "packet_step (Op_tcp6_pull s d) p = snd (snd (rix_net_tcp6_pull p s d))"
| "packet_step (Op_discover xid m) p = snd (rix_net_dhcp_build_discover p xid m)"
| "packet_step (Op_request xid m ip server) p = snd (rix_net_dhcp_build_request_for_server p xid m ip server)"
| "packet_step Op_dhcp_udp_push p = snd (dhcp_udp_push p)"

lemmas ops_inside = eth_push_inside eth_pull_inside arp_push_inside arp_pull_inside ipv4_push_inside ipv4_pull_inside
  icmp_push_inside icmp_pull_inside udp_push_inside udp_pull_inside tcp_push_inside tcp_pull_inside ipv6_push_inside ipv6_pull_inside
  echo6_push_inside icmpv6_pulls_inside neighbor_solicit_inside neighbor_advert_inside router_solicit_inside router_advert_inside
  udp6_push_inside tcp6_push_inside transport6_pulls_inside dhcp_discover_inside dhcp_request_inside dhcp_udp_push_inside

lemma packet_step_inside:
  assumes "packet_ok p"
  shows "writes_inside p (packet_step op p)"
proof (cases op)
  case Op_init
  then show ?thesis using packet_ok_init[of p] by (simp add: writes_inside_def rix_net_packet_init_def)
next
  case (Op_push n)
  then show ?thesis using packet_ok_push[OF assms, of n] by (simp add: writes_inside_def rix_net_packet_push_def Let_def)
next
  case (Op_put n)
  then show ?thesis using packet_ok_put[OF assms, of n] by (simp add: writes_inside_def rix_net_packet_put_def)
next
  case (Op_pull n)
  then show ?thesis using packet_ok_pull[OF assms, of n] by (simp add: writes_inside_def rix_net_packet_pull_def)
qed (simp_all add: ops_inside[OF assms])

text \<open>C17: a packet that starts out initialised stays inside its buffer through every sequence of operations of the
  network code, with any arguments and whether they succeed or fail; and none of them writes to memory beyond the
  buffer.\<close>

theorem packet_buffer_safety:
  "packet_ok (fold packet_step ops (rix_net_packet_init p)) \<and>
   (\<forall>i. pk_bytes (fold packet_step ops (rix_net_packet_init p)) (RIX_NET_FRAME_CAPACITY + i) = pk_bytes p (RIX_NET_FRAME_CAPACITY + i))"
proof -
  have "writes_inside q (fold packet_step ops q)" if "packet_ok q" for q
    using that
  proof (induction ops arbitrary: q)
    case (Cons op ops)
    have s: "writes_inside q (packet_step op q)" by (rule packet_step_inside[OF Cons.prems])
    then have "packet_ok (packet_step op q)" by (simp add: writes_inside_def)
    then show ?case using writes_inside_trans[OF s Cons.IH] by simp
  qed (simp add: writes_inside_refl)
  from this[OF packet_ok_init, of p] show ?thesis by (simp add: writes_inside_def) (simp add: rix_net_packet_init_def)
qed

end
