(* ===== verification/Net_Queues.thy ===== *)
theory Net_Queues
  imports Net_Stack
begin

text \<open>
  The queues of the network code.  The two receive queues of \<^verbatim>\<open>kernel/net/stack.c\<close> and the loopback queue of
  \<^verbatim>\<open>kernel/net/loopback.c\<close> are rings of packets; seen through their contents they are bounded first-in first-out
  queues, the former dropping their oldest packet when full, the latter refusing a new one.
\<close>

subsection \<open>Rings\<close>

text \<open>The contents of a ring of \<open>cap\<close> slots that holds \<open>count\<close> packets from slot \<open>head\<close> on.\<close>

definition ring :: "nat \<Rightarrow> (nat \<Rightarrow> 'a) \<Rightarrow> nat \<Rightarrow> nat \<Rightarrow> 'a list" where
  "ring cap q head count = map (\<lambda>i. q ((head + i) mod cap)) [0..<count]"

lemma length_ring [simp]: "length (ring cap q head count) = count"
  by (simp add: ring_def)

lemma ring_push:
  assumes "count < cap"
  shows "ring cap (q((head + count) mod cap := x)) head (count + 1) = ring cap q head count @ [x]"
proof -
  have "(head + i) mod cap \<noteq> (head + count) mod cap" if "i < count" for i
  proof
    assume "(head + i) mod cap = (head + count) mod cap"
    then have "(count - i) mod cap = 0" using that by (metis Nat.add_diff_assoc2 diff_add_inverse2 add.commute less_imp_le mod_eq_dvd_iff_nat add_diff_cancel_left dvd_imp_mod_0 nat_add_left_cancel_le)
    then show False using that assms by simp
  qed
  then show ?thesis by (simp add: ring_def)
qed

lemma ring_pop:
  assumes "0 < count" "head < cap"
  shows "ring cap q head count = q head # ring cap q ((head + 1) mod cap) (count - 1)"
proof -
  obtain c where c: "count = Suc c" using assms(1) by (cases count) auto
  show ?thesis unfolding ring_def c using assms(2)
    by (simp add: upt_conv_Cons map_Suc_upt[symmetric] comp_def mod_simps del: upt_Suc)
qed

lemma ring_drop_oldest:
  assumes "0 < cap" "head < cap" "count \<le> cap"
  shows "let (h, c) = (if cap \<le> count then ((head + 1) mod cap, count - 1) else (head, count))
         in ring cap (q((h + c) mod cap := x)) h (c + 1) =
              (if length (ring cap q head count) < cap then ring cap q head count else tl (ring cap q head count)) @ [x]"
  using assms ring_pop[of count head cap q] ring_push[of "count - 1" cap q "(head + 1) mod cap" x] ring_push[of count cap q head x]
  by (auto simp: Let_def)

subsection \<open>Bounded queues\<close>

text \<open>A bounded queue that drops its oldest element when a new one does not fit.\<close>

locale drop_oldest_queue =
  fixes cap :: nat
    and ok :: "'s \<Rightarrow> bool"
    and contents :: "'s \<Rightarrow> 'a list"
    and store :: "'s \<Rightarrow> 'a \<Rightarrow> 's"
    and take_first :: "'s \<Rightarrow> 'a option \<times> 's"
  assumes cap: "0 < cap"
    and bounded: "ok s \<Longrightarrow> length (contents s) \<le> cap"
    and store_ok: "ok s \<Longrightarrow> ok (store s x)"
    and store_contents: "ok s \<Longrightarrow> contents (store s x) = (if length (contents s) < cap then contents s else tl (contents s)) @ [x]"
    and take_empty: "\<lbrakk>ok s; contents s = []\<rbrakk> \<Longrightarrow> take_first s = (None, s)"
    and take_Cons: "\<lbrakk>ok s; contents s = x # xs\<rbrakk> \<Longrightarrow> fst (take_first s) = Some x \<and> ok (snd (take_first s)) \<and> contents (snd (take_first s)) = xs"
begin

text \<open>After any number of arrivals the queue holds the newest, in order.\<close>

lemma newest_kept:
  assumes "ok s"
  shows "ok (fold (\<lambda>x s. store s x) xs s) \<and>
         contents (fold (\<lambda>x s. store s x) xs s) = drop (length (contents s) + length xs - cap) (contents s @ xs)"
  using assms
proof (induction xs arbitrary: s)
  case Nil
  then show ?case using bounded[of s] by simp
next
  case (Cons x xs)
  let ?c = "contents s"
  have b: "length ?c \<le> cap" using bounded Cons.prems .
  have "contents (fold (\<lambda>x s. store s x) xs (store s x)) =
      drop (length (contents (store s x)) + length xs - cap) (contents (store s x) @ xs)"
    using Cons.IH[OF store_ok[OF Cons.prems]] by blast
  also have "\<dots> = drop (length ?c + length (x # xs) - cap) (?c @ x # xs)"
  proof (cases "length ?c < cap")
    case False
    then have l: "length ?c = cap" using b by simp
    then have "?c \<noteq> []" using cap by auto
    then obtain y ys where y: "?c = y # ys" by (cases ?c) auto
    show ?thesis using l False by (simp add: store_contents[OF Cons.prems] y)
  qed (simp add: store_contents[OF Cons.prems])
  finally show ?case using Cons.IH[OF store_ok[OF Cons.prems, of x]] by simp
qed

end

definition rx_ok :: "rix_net_stack \<Rightarrow> bool" where
  "rx_ok st \<longleftrightarrow> sk_initialized st \<and> sk_incoming_head st < RIX_NET_RX_QUEUE \<and> sk_incoming_count st \<le> RIX_NET_RX_QUEUE \<and>
     sk_incoming_ipv6_head st < RIX_NET_RX_QUEUE \<and> sk_incoming_ipv6_count st \<le> RIX_NET_RX_QUEUE"

definition rx4 :: "rix_net_stack \<Rightarrow> rix_net_packet list" where
  "rx4 st = ring RIX_NET_RX_QUEUE (sk_incoming st) (sk_incoming_head st) (sk_incoming_count st)"

definition rx6 :: "rix_net_stack \<Rightarrow> rix_net_packet list" where
  "rx6 st = ring RIX_NET_RX_QUEUE (sk_incoming_ipv6 st) (sk_incoming_ipv6_head st) (sk_incoming_ipv6_count st)"

lemma store_ipv4_rx:
  assumes "rx_ok st"
  shows "rx_ok (store_ipv4 st p)" "rx4 (store_ipv4 st p) = (if length (rx4 st) < RIX_NET_RX_QUEUE then rx4 st else tl (rx4 st)) @ [p]"
    "rx6 (store_ipv4 st p) = rx6 st"
  using assms ring_drop_oldest[of RIX_NET_RX_QUEUE "sk_incoming_head st" "sk_incoming_count st" "sk_incoming st" p]
  by (auto simp: rx_ok_def rx4_def rx6_def store_ipv4_def Let_def RIX_NET_RX_QUEUE_def add.commute split: if_splits)

lemma store_ipv6_rx:
  assumes "rx_ok st"
  shows "rx_ok (store_ipv6 st p)" "rx6 (store_ipv6 st p) = (if length (rx6 st) < RIX_NET_RX_QUEUE then rx6 st else tl (rx6 st)) @ [p]"
    "rx4 (store_ipv6 st p) = rx4 st"
  using assms ring_drop_oldest[of RIX_NET_RX_QUEUE "sk_incoming_ipv6_head st" "sk_incoming_ipv6_count st" "sk_incoming_ipv6 st" p]
  by (auto simp: rx_ok_def rx4_def rx6_def store_ipv6_def Let_def RIX_NET_RX_QUEUE_def add.commute split: if_splits)

lemma take_ipv4_rx:
  assumes "rx_ok st"
  shows "snd (rix_net_stack_take_ipv4 st) = (case rx4 st of [] \<Rightarrow> (None, st) | p # ps \<Rightarrow> (Some p, snd (snd (rix_net_stack_take_ipv4 st))))"
    "rx_ok (snd (snd (rix_net_stack_take_ipv4 st)))" "rx4 (snd (snd (rix_net_stack_take_ipv4 st))) = tl (rx4 st)"
    "rx6 (snd (snd (rix_net_stack_take_ipv4 st))) = rx6 st"
  using assms ring_pop[of "sk_incoming_count st" "sk_incoming_head st" RIX_NET_RX_QUEUE "sk_incoming st"]
  by (auto simp: rx_ok_def rx4_def rx6_def rix_net_stack_take_ipv4_def RIX_NET_RX_QUEUE_def ring_def)

lemma take_ipv6_rx:
  assumes "rx_ok st"
  shows "snd (rix_net_stack_take_ipv6 st) = (case rx6 st of [] \<Rightarrow> (None, st) | p # ps \<Rightarrow> (Some p, snd (snd (rix_net_stack_take_ipv6 st))))"
    "rx_ok (snd (snd (rix_net_stack_take_ipv6 st)))" "rx6 (snd (snd (rix_net_stack_take_ipv6 st))) = tl (rx6 st)"
    "rx4 (snd (snd (rix_net_stack_take_ipv6 st))) = rx4 st"
  using assms ring_pop[of "sk_incoming_ipv6_count st" "sk_incoming_ipv6_head st" RIX_NET_RX_QUEUE "sk_incoming_ipv6 st"]
  by (auto simp: rx_ok_def rx4_def rx6_def rix_net_stack_take_ipv6_def RIX_NET_RX_QUEUE_def ring_def)

lemma length_rx: "rx_ok st \<Longrightarrow> length (rx4 st) \<le> RIX_NET_RX_QUEUE" "rx_ok st \<Longrightarrow> length (rx6 st) \<le> RIX_NET_RX_QUEUE"
  by (simp_all add: rx_ok_def rx4_def rx6_def)

interpretation rx4q: drop_oldest_queue RIX_NET_RX_QUEUE rx_ok rx4 store_ipv4 "\<lambda>st. snd (rix_net_stack_take_ipv4 st)"
proof unfold_locales
  fix st p ps
  assume a: "rx_ok st"
  show "rx4 st = [] \<Longrightarrow> snd (rix_net_stack_take_ipv4 st) = (None, st)" using take_ipv4_rx(1)[OF a] by simp
  assume c: "rx4 st = p # ps"
  have "fst (snd (rix_net_stack_take_ipv4 st)) = Some p" using arg_cong[OF take_ipv4_rx(1)[OF a], of fst] c by simp
  then show "fst (snd (rix_net_stack_take_ipv4 st)) = Some p \<and> rx_ok (snd (snd (rix_net_stack_take_ipv4 st))) \<and>
      rx4 (snd (snd (rix_net_stack_take_ipv4 st))) = ps"
    using take_ipv4_rx(2,3)[OF a] c by simp
qed (use length_rx in \<open>simp_all add: store_ipv4_rx RIX_NET_RX_QUEUE_def\<close>)

interpretation rx6q: drop_oldest_queue RIX_NET_RX_QUEUE rx_ok rx6 store_ipv6 "\<lambda>st. snd (rix_net_stack_take_ipv6 st)"
proof unfold_locales
  fix st p ps
  assume a: "rx_ok st"
  show "rx6 st = [] \<Longrightarrow> snd (rix_net_stack_take_ipv6 st) = (None, st)" using take_ipv6_rx(1)[OF a] by simp
  assume c: "rx6 st = p # ps"
  have "fst (snd (rix_net_stack_take_ipv6 st)) = Some p" using arg_cong[OF take_ipv6_rx(1)[OF a], of fst] c by simp
  then show "fst (snd (rix_net_stack_take_ipv6 st)) = Some p \<and> rx_ok (snd (snd (rix_net_stack_take_ipv6 st))) \<and>
      rx6 (snd (snd (rix_net_stack_take_ipv6 st))) = ps"
    using take_ipv6_rx(2,3)[OF a] c by simp
qed (use length_rx in \<open>simp_all add: store_ipv6_rx RIX_NET_RX_QUEUE_def\<close>)

subsection \<open>What a poll does to the queues\<close>

text \<open>The parts of the stack that the queues live in.\<close>

definition same_rx :: "rix_net_stack \<Rightarrow> rix_net_stack \<Rightarrow> bool" where
  "same_rx st st' \<longleftrightarrow> sk_initialized st' = sk_initialized st \<and>
     sk_incoming st' = sk_incoming st \<and> sk_incoming_head st' = sk_incoming_head st \<and> sk_incoming_count st' = sk_incoming_count st \<and>
     sk_incoming_ipv6 st' = sk_incoming_ipv6 st \<and> sk_incoming_ipv6_head st' = sk_incoming_ipv6_head st \<and>
     sk_incoming_ipv6_count st' = sk_incoming_ipv6_count st"

lemma same_rx_rx: "same_rx st st' \<Longrightarrow> rx_ok st' = rx_ok st \<and> rx4 st' = rx4 st \<and> rx6 st' = rx6 st"
  by (simp add: same_rx_def rx_ok_def rx4_def rx6_def)

lemma timer_rc: "sk_initialized st \<Longrightarrow> fst (rix_net_stack_timer env dev st now) = 0"
  by (simp add: rix_net_stack_timer_def Let_def split: option.split)

lemma timer_same_rx: "same_rx st (fst (snd (rix_net_stack_timer env dev st now)))"
  by (simp add: rix_net_stack_timer_def same_rx_def Let_def split: option.splits)

lemma flush_same_rx: "same_rx st (fst (snd (arp_flush env dev st arp now)))"
  by (simp add: arp_flush_def same_rx_def Let_def split: option.splits prod.splits)

lemma handle_arp_same_rx: "same_rx st (fst (snd (handle_arp env dev st arp now)))"
proof -
  have f: "same_rx st (fst (snd (arp_flush env dev (st\<lparr>sk_arp := c\<rparr>) arp now)))" for c
    using flush_same_rx[of "st\<lparr>sk_arp := c\<rparr>" env dev arp now] by (simp add: same_rx_def)
  have "same_rx st st" "same_rx st (st\<lparr>sk_arp := c\<rparr>)" for c by (simp_all add: same_rx_def)
  then show ?thesis using f by (simp add: handle_arp_def Let_def prod.case_eq_if split: option.split)
qed

lemma send_ipv4_same_rx: "same_rx st (fst (snd (rix_net_stack_send_ipv4 env dev st p d)))"
  by (simp add: rix_net_stack_send_ipv4_def same_rx_def Let_def split: option.splits prod.splits)

text \<open>The frame the device delivers in a poll, and where its payload goes.\<close>

definition device_frame :: "net_env \<Rightarrow> net_device \<Rightarrow> u8 list option" where
  "device_frame env dev =
     (if dv_present (dv_info dev) \<and> device_controller env dev \<noteq> None \<and> 0 < fst (env_receive env (dv_use_rtl8125 dev))
      then Some (snd (env_receive env (dv_use_rtl8125 dev))) else None)"

definition frame_type :: "u8 list \<Rightarrow> u16 option" where
  "frame_type f = (if length f < 14 then None else Some (word16 (f ! 12) (f ! 13)))"

lemma receive_frame:
  "case device_frame env dev of
     None \<Rightarrow> fst (rix_net_device_receive env dev p) \<le> 0
   | Some f \<Rightarrow> 0 < fst (rix_net_device_receive env dev p) \<and> pk_view (snd (rix_net_device_receive env dev p)) = f"
  by (auto simp: device_frame_def rix_net_device_receive_def Let_def pk_view_def split: option.splits prod.splits)

lemma eth_pull_frame:
  "case frame_type (pk_view p) of
     None \<Rightarrow> fst (rix_net_eth_pull p) \<noteq> 0
   | Some t \<Rightarrow> \<exists>hdr p1. rix_net_eth_pull p = (if rix_net_ethertype_supported t then 0 else -2, Some hdr, p1) \<and>
       eth_type hdr = t \<and> pk_view p1 = drop 14 (pk_view p)"
proof (cases "pk_length p < 14")
  case True
  then show ?thesis by (simp add: frame_type_def rix_net_eth_pull_def rix_net_packet_length_def)
next
  case False
  then have "pk_view (p\<lparr>pk_start := pk_start p + 14, pk_length := pk_length p - 14\<rparr>) = drop 14 (pk_view p)"
    using pull_view[of 14 "pk_length p - 14" p] by simp
  moreover have "be16 (load16 (pk_bytes p) (pk_start p + 12)) = word16 (pk_view p ! 12) (pk_view p ! 13)"
    using False pk_view_nth[of 12 p] pk_view_nth[of 13 p] by (simp add: be16_load16 ac_simps)
  ultimately show ?thesis
    using False by (simp add: frame_type_def rix_net_eth_pull_def rix_net_packet_length_def pull_eq Let_def)
qed

subsection \<open>The queues refine bounded queues of payloads\<close>

datatype stack_op =
    Sk_poll net_env u64
  | Sk_timer net_env u64
  | Sk_send4 net_env rix_net_packet u32
  | Sk_take4
  | Sk_take6

text \<open>An operation of the stack, with the payload it hands to the caller (sending over IPv6 leaves the stack as it is).\<close>

primrec stack_exec :: "net_device \<Rightarrow> stack_op \<Rightarrow> rix_net_stack \<Rightarrow> u8 list option \<times> rix_net_stack" where
  "stack_exec dev (Sk_poll env now) st = (None, fst (snd (rix_net_stack_poll env dev st now)))"
| "stack_exec dev (Sk_timer env now) st = (None, fst (snd (rix_net_stack_timer env dev st now)))"
| "stack_exec dev (Sk_send4 env p d) st = (None, fst (snd (rix_net_stack_send_ipv4 env dev st p d)))"
| "stack_exec dev Sk_take4 st = map_prod (map_option pk_view) id (snd (rix_net_stack_take_ipv4 st))"
| "stack_exec dev Sk_take6 st = map_prod (map_option pk_view) id (snd (rix_net_stack_take_ipv6 st))"

text \<open>The same for two bounded queues of payloads that drop their oldest element.\<close>

type_synonym rx_queues = "u8 list list \<times> u8 list list"

definition enqueue :: "u8 list list \<Rightarrow> u8 list \<Rightarrow> u8 list list" where
  "enqueue q x = (if length q < RIX_NET_RX_QUEUE then q else tl q) @ [x]"

definition dequeue :: "u8 list list \<Rightarrow> u8 list option \<times> u8 list list" where
  "dequeue q = (case q of [] \<Rightarrow> (None, []) | x # xs \<Rightarrow> (Some x, xs))"

definition rx_arrive :: "u8 list option \<Rightarrow> rx_queues \<Rightarrow> rx_queues" where
  "rx_arrive f q =
     (if Option.bind f frame_type = Some RIX_NET_ETHERTYPE_IPV4 then (enqueue (fst q) (drop 14 (the f)), snd q)
      else if Option.bind f frame_type = Some RIX_NET_ETHERTYPE_IPV6 then (fst q, enqueue (snd q) (drop 14 (the f)))
      else q)"

primrec rx_exec :: "net_device \<Rightarrow> stack_op \<Rightarrow> rx_queues \<Rightarrow> u8 list option \<times> rx_queues" where
  "rx_exec dev (Sk_poll env now) q = (None, rx_arrive (device_frame env dev) q)"
| "rx_exec dev (Sk_timer env now) q = (None, q)"
| "rx_exec dev (Sk_send4 env p d) q = (None, q)"
| "rx_exec dev Sk_take4 q = map_prod id (\<lambda>q4. (q4, snd q)) (dequeue (fst q))"
| "rx_exec dev Sk_take6 q = map_prod id (\<lambda>q6. (fst q, q6)) (dequeue (snd q))"

primrec run_trace :: "('o \<Rightarrow> 's \<Rightarrow> 'r \<times> 's) \<Rightarrow> 'o list \<Rightarrow> 's \<Rightarrow> 'r list" where
  "run_trace ex [] s = []"
| "run_trace ex (op # ops) s = fst (ex op s) # run_trace ex ops (snd (ex op s))"

definition rx_abs :: "rix_net_stack \<Rightarrow> rx_queues" where
  "rx_abs st = (map pk_view (rx4 st), map pk_view (rx6 st))"

lemma simulation_trace:
  assumes "\<And>op s. ok s \<Longrightarrow> ok (snd (ex op s)) \<and> fst (ex op s) = fst (ex' op (ab s)) \<and> ab (snd (ex op s)) = snd (ex' op (ab s))" "ok s"
  shows "run_trace ex ops s = run_trace ex' ops (ab s)"
  using assms(2) by (induction ops arbitrary: s) (simp_all add: assms(1))

lemma rx_abs_same: "same_rx st st' \<Longrightarrow> rx_abs st' = rx_abs st"
  using same_rx_rx by (simp add: rx_abs_def)

lemma rx_abs_store:
  assumes "rx_ok st"
  shows "rx_abs (store_ipv4 st p) = (enqueue (fst (rx_abs st)) (pk_view p), snd (rx_abs st))"
    and "rx_abs (store_ipv6 st p) = (fst (rx_abs st), enqueue (snd (rx_abs st)) (pk_view p))"
  using store_ipv4_rx[OF assms, of p] store_ipv6_rx[OF assms, of p] by (simp_all add: rx_abs_def enqueue_def map_tl)

lemma arrive_other:
  assumes "t \<noteq> RIX_NET_ETHERTYPE_IPV4" "t \<noteq> RIX_NET_ETHERTYPE_IPV6" "frame_type f = Some t"
  shows "rx_arrive (Some f) q = q"
  using assms by (simp add: rx_arrive_def)

lemma poll_rx:
  assumes "rx_ok st"
  shows "rx_ok (fst (snd (rix_net_stack_poll env dev st now))) \<and>
         rx_abs (fst (snd (rix_net_stack_poll env dev st now))) = rx_arrive (device_frame env dev) (rx_abs st)"
proof -
  obtain st1 sent1 where t: "rix_net_stack_timer env dev st now = (0, st1, sent1)"
    using timer_rc[of st env dev now] assms by (metis prod.collapse rx_ok_def)
  have s1: "same_rx st st1" using timer_same_rx[of st env dev now] t by simp
  have r1: "rx_ok st1" "rx_abs st1 = rx_abs st" using same_rx_rx[OF s1] rx_abs_same[OF s1] assms by simp_all
  obtain received p where r: "rix_net_device_receive env dev (env_local env) = (received, p)" by (cases "rix_net_device_receive env dev (env_local env)")
  note rf = receive_frame[of env dev "env_local env", unfolded r]
  show ?thesis
  proof (cases "device_frame env dev")
    case None
    then have "received \<le> 0" using rf by simp
    then show ?thesis using r1 None by (simp add: rix_net_stack_poll_def t r rx_arrive_def)
  next
    case (Some f)
    then have pos: "0 < received" and v: "pk_view p = f" using rf by simp_all
    note ef = eth_pull_frame[of p, unfolded v]
    show ?thesis
    proof (cases "frame_type f")
      case None
      obtain erc hdr p1 where e: "rix_net_eth_pull p = (erc, hdr, p1)" by (rule prod_cases3)
      then have "erc \<noteq> 0" using ef None by simp
      then show ?thesis using r1 pos Some None by (simp add: rix_net_stack_poll_def t r e rx_arrive_def)
    next
      case (Some ty)
      then obtain hdr p1 where e: "rix_net_eth_pull p = (if rix_net_ethertype_supported ty then 0 else -2, Some hdr, p1)"
          "eth_type hdr = ty" "pk_view p1 = drop 14 f"
        using ef by auto
      have ne: "RIX_NET_ETHERTYPE_ARP \<noteq> RIX_NET_ETHERTYPE_IPV4" "RIX_NET_ETHERTYPE_ARP \<noteq> RIX_NET_ETHERTYPE_IPV6"
          "RIX_NET_ETHERTYPE_IPV4 \<noteq> RIX_NET_ETHERTYPE_IPV6"
        by (simp_all add: RIX_NET_ETHERTYPE_ARP_def RIX_NET_ETHERTYPE_IPV4_def RIX_NET_ETHERTYPE_IPV6_def)
      have frame: "device_frame env dev = Some f" by fact
      consider "ty = RIX_NET_ETHERTYPE_ARP" | "ty = RIX_NET_ETHERTYPE_IPV4" | "ty = RIX_NET_ETHERTYPE_IPV6" | "\<not> rix_net_ethertype_supported ty"
        by (auto simp: rix_net_ethertype_supported_def)
      then show ?thesis
      proof cases
        case 1
        obtain arc arp p2 where a: "rix_net_arp_pull p1 = (arc, arp, p2)" by (rule prod_cases3)
        obtain hrc st2 sent2 where h: "handle_arp env dev st1 (the arp) now = (hrc, st2, sent2)" by (rule prod_cases3)
        have s2: "same_rx st1 st2" using handle_arp_same_rx[of st1 env dev "the arp" now] h by simp
        have "fst (snd (rix_net_stack_poll env dev st now)) = (if arc \<noteq> 0 then st1 else st2)"
          using pos e(2) 1 by (simp add: rix_net_stack_poll_def t r e(1) a h rix_net_ethertype_supported_def)
        moreover have "rx_arrive (Some f) (rx_abs st) = rx_abs st" using arrive_other[OF _ _ Some] 1 ne by simp
        ultimately show ?thesis using r1 same_rx_rx[OF s2] rx_abs_same[OF s2] frame by simp
      next
        case 2
        have "fst (snd (rix_net_stack_poll env dev st now)) = store_ipv4 st1 p1"
          using pos e(2) 2 ne by (simp add: rix_net_stack_poll_def t r e(1) rix_net_ethertype_supported_def)
        then show ?thesis using store_ipv4_rx(1)[OF r1(1)] rx_abs_store(1)[OF r1(1), of p1] r1(2) 2 Some e(3) frame by (simp add: rx_arrive_def)
      next
        case 3
        have "fst (snd (rix_net_stack_poll env dev st now)) = store_ipv6 st1 p1"
          using pos e(2) 3 ne by (simp add: rix_net_stack_poll_def t r e(1) rix_net_ethertype_supported_def)
        then show ?thesis
          using store_ipv6_rx(1)[OF r1(1)] rx_abs_store(2)[OF r1(1), of p1] r1(2) 3 Some e(3) frame ne by (simp add: rx_arrive_def)
      next
        case 4
        then have "fst (snd (rix_net_stack_poll env dev st now)) = st1" using pos by (simp add: rix_net_stack_poll_def t r e(1))
        moreover have "rx_arrive (Some f) (rx_abs st) = rx_abs st"
          using arrive_other[OF _ _ Some] 4 by (auto simp: rix_net_ethertype_supported_def)
        ultimately show ?thesis using r1 frame by simp
      qed
    qed
  qed
qed

lemma take_abs:
  assumes "rx_ok st"
  shows "fst (stack_exec dev Sk_take4 st) = fst (rx_exec dev Sk_take4 (rx_abs st)) \<and>
         rx_abs (snd (stack_exec dev Sk_take4 st)) = snd (rx_exec dev Sk_take4 (rx_abs st))"
    and "fst (stack_exec dev Sk_take6 st) = fst (rx_exec dev Sk_take6 (rx_abs st)) \<and>
         rx_abs (snd (stack_exec dev Sk_take6 st)) = snd (rx_exec dev Sk_take6 (rx_abs st))"
proof -
  show "fst (stack_exec dev Sk_take4 st) = fst (rx_exec dev Sk_take4 (rx_abs st)) \<and>
      rx_abs (snd (stack_exec dev Sk_take4 st)) = snd (rx_exec dev Sk_take4 (rx_abs st))"
    using rx4q.take_empty[OF assms] rx4q.take_Cons[OF assms] take_ipv4_rx(4)[OF assms]
    by (cases "rx4 st") (simp_all add: rx_abs_def dequeue_def)
  show "fst (stack_exec dev Sk_take6 st) = fst (rx_exec dev Sk_take6 (rx_abs st)) \<and>
      rx_abs (snd (stack_exec dev Sk_take6 st)) = snd (rx_exec dev Sk_take6 (rx_abs st))"
    using rx6q.take_empty[OF assms] rx6q.take_Cons[OF assms] take_ipv6_rx(4)[OF assms]
    by (cases "rx6 st") (simp_all add: rx_abs_def dequeue_def)
qed

lemma stack_init_rx:
  assumes "rix_net_stack_init dev st0 = (0, st)"
  shows "rx_ok st" "rx_abs st = ([], [])"
  using assms
  by (auto simp: rix_net_stack_init_def rx_ok_def rx_abs_def rx4_def rx6_def ring_def RIX_NET_RX_QUEUE_def split: option.splits)

lemma stack_simulates:
  assumes "rx_ok st"
  shows "rx_ok (snd (stack_exec dev op st)) \<and> fst (stack_exec dev op st) = fst (rx_exec dev op (rx_abs st)) \<and>
         rx_abs (snd (stack_exec dev op st)) = snd (rx_exec dev op (rx_abs st))"
proof (cases op)
  case (Sk_poll env now)
  then show ?thesis using poll_rx[OF assms, of env dev now] by simp
next
  case (Sk_timer env now)
  then show ?thesis using timer_same_rx[of st env dev now] assms same_rx_rx rx_abs_same by simp
next
  case (Sk_send4 env p d)
  then show ?thesis using send_ipv4_same_rx[of st env dev p d] assms same_rx_rx rx_abs_same by simp
next
  case Sk_take4
  then show ?thesis using take_abs(1)[OF assms, of dev] take_ipv4_rx(2)[OF assms] by simp
next
  case Sk_take6
  then show ?thesis using take_abs(2)[OF assms, of dev] take_ipv6_rx(2)[OF assms] by simp
qed

text \<open>C14: the receive path of an initialised stack is a pair of bounded first-in first-out queues of payloads, one for
  each version of the Internet protocol.  For every sequence of polls, timer calls, transmissions and takes, with
  whatever the device delivers in each poll, the payloads the takes return are exactly those of two queues of eight
  that drop their oldest entry when a ninth arrives: each comes out once, in order of arrival, without its Ethernet
  header, and nothing else comes out.\<close>

theorem stack_receive_refines_fifo:
  assumes "rix_net_stack_init dev st0 = (0, st)"
  shows "run_trace (stack_exec dev) ops st = run_trace (rx_exec dev) ops ([], [])"
  using simulation_trace[of rx_ok "stack_exec dev" "rx_exec dev" rx_abs, OF stack_simulates stack_init_rx(1)[OF assms]]
  unfolding stack_init_rx(2)[OF assms] .

definition demo_device :: net_device where
  "demo_device = \<lparr>dv_info = \<lparr>dv_present = True, dv_link_up = True, dv_mac = [2, 0, 0, 0, 0, 1], dv_address = 0x0a000001,
     dv_netmask = 0xffffff00, dv_gateway = 0x0a0000fe, dv_dns = 0\<rparr>, dv_use_rtl8125 = False\<rparr>"

definition demo_local :: rix_net_packet where
  "demo_local = \<lparr>pk_bytes = (\<lambda>_. 0), pk_start = 64, pk_length = 0\<rparr>"

definition demo_env :: "u8 list \<Rightarrow> net_env" where
  "demo_env f = \<lparr>env_e1000 = Some \<lparr>nic_mac = [2, 0, 0, 0, 0, 1], nic_link_up = True\<rparr>, env_rtl8125 = None,
     env_transmit = (\<lambda>_ _. 0), env_receive = (\<lambda>_. (if f = [] then 0 else 1, f)), env_time = 5, env_local = demo_local\<rparr>"

definition demo_frame :: "u8 list \<Rightarrow> u8 list" where
  "demo_frame xs = [2, 0, 0, 0, 0, 1, 2, 0, 0, 0, 0, 2, 8, 0] @ xs"

definition demo_stack0 :: rix_net_stack where
  "demo_stack0 =
     \<lparr>sk_arp = (\<lambda>_. \<lparr>ae_ip = 0, ae_mac = [], ae_expires_at = 0, ae_valid = False\<rparr>),
      sk_ipv6_neighbors = (\<lambda>_. \<lparr>nb_used = False, nb_address = [], nb_mac = [], nb_expires = 0\<rparr>),
      sk_ipv6_routes = (\<lambda>_. \<lparr>rt_prefix = [], rt_next_hop = [], rt_prefix_length = 0, rt_used = False\<rparr>),
      sk_pending = demo_local, sk_pending_next_hop = 0, sk_pending_valid = False, sk_pending_since_ns = 0,
      sk_incoming = (\<lambda>_. demo_local), sk_incoming_head = 3, sk_incoming_count = 0, sk_incoming_ipv6 = (\<lambda>_. demo_local),
      sk_incoming_ipv6_head = 0, sk_incoming_ipv6_count = 0, sk_initialized = False\<rparr>"

definition demo_stack :: rix_net_stack where
  "demo_stack = snd (rix_net_stack_init demo_device demo_stack0)"

lemma demo_stack_init: "rix_net_stack_init demo_device demo_stack0 = (0, demo_stack)"
  unfolding demo_stack_def by (rule prod_eqI) (simp_all add: rix_net_stack_init_def get_device_info_def demo_device_def)

theorem stack_receive_refines_fifo_witness:
  "run_trace (stack_exec demo_device) [Sk_poll (demo_env (demo_frame [7, 8])) 1, Sk_poll (demo_env (demo_frame [9])) 1, Sk_take6, Sk_take4, Sk_take4]
     demo_stack = [None, None, None, Some [7, 8], Some [9]]"
proof -
  have f: "device_frame (demo_env (demo_frame xs)) demo_device = Some (demo_frame xs)" for xs
    by (simp add: device_frame_def demo_env_def demo_device_def device_controller_def demo_frame_def)
  have t: "frame_type (demo_frame xs) = Some RIX_NET_ETHERTYPE_IPV4" "drop 14 (demo_frame xs) = xs" for xs
    by (simp_all add: frame_type_def demo_frame_def word16_def RIX_NET_ETHERTYPE_IPV4_def)
  note stack_receive_refines_fifo[OF demo_stack_init, of "[Sk_poll (demo_env (demo_frame [7, 8])) 1, Sk_poll (demo_env (demo_frame [9])) 1, Sk_take6, Sk_take4, Sk_take4]"]
  then show ?thesis by (simp add: f t rx_arrive_def enqueue_def dequeue_def RIX_NET_RX_QUEUE_def)
qed

subsection \<open>The loopback queue\<close>

datatype lb_op = Lb_transmit rix_net_packet | Lb_receive rix_net_packet | Lb_pending

text \<open>The code a call returns, with the payload it delivers.\<close>

primrec lb_exec :: "lb_op \<Rightarrow> rix_net_loopback \<Rightarrow> (rc \<times> u8 list) \<times> rix_net_loopback" where
  "lb_exec (Lb_transmit p) lb = (case rix_net_loopback_transmit lb p of (rc, lb') \<Rightarrow> ((rc, []), lb'))"
| "lb_exec (Lb_receive p) lb = (case rix_net_loopback_receive lb p of (rc, q, lb') \<Rightarrow> ((rc, if rc = 0 then pk_view q else []), lb'))"
| "lb_exec Lb_pending lb = ((int (rix_net_loopback_pending lb), []), lb)"

primrec lb_spec :: "lb_op \<Rightarrow> u8 list list \<Rightarrow> (rc \<times> u8 list) \<times> u8 list list" where
  "lb_spec (Lb_transmit p) q = (if packet_ok p \<and> length q < RIX_NET_LOOPBACK_QUEUE then ((0, []), q @ [pk_view p]) else ((-1, []), q))"
| "lb_spec (Lb_receive p) q = (case q of [] \<Rightarrow> ((-1, []), []) | x # xs \<Rightarrow> ((0, x), xs))"
| "lb_spec Lb_pending q = ((int (length q), []), q)"

definition lb_ok :: "rix_net_loopback \<Rightarrow> bool" where
  "lb_ok lb \<longleftrightarrow> lb_head lb < RIX_NET_LOOPBACK_QUEUE \<and> lb_count lb \<le> RIX_NET_LOOPBACK_QUEUE"

definition lb_abs :: "rix_net_loopback \<Rightarrow> u8 list list" where
  "lb_abs lb = map pk_view (ring RIX_NET_LOOPBACK_QUEUE (lb_queue lb) (lb_head lb) (lb_count lb))"

lemma copy_packet_view: "pk_view (copy_packet_bytes d p) = pk_view p"
  by (simp add: copy_packet_bytes_def pk_view_def)

lemma loopback_simulates:
  assumes "lb_ok lb"
  shows "lb_ok (snd (lb_exec op lb)) \<and> fst (lb_exec op lb) = fst (lb_spec op (lb_abs lb)) \<and>
         lb_abs (snd (lb_exec op lb)) = snd (lb_spec op (lb_abs lb))"
proof (cases op)
  case (Lb_transmit p)
  have guard: "(pk_start p > RIX_NET_FRAME_CAPACITY \<or> pk_length p > RIX_NET_FRAME_CAPACITY - pk_start p) \<longleftrightarrow> \<not> packet_ok p"
    by (auto simp: packet_ok_def)
  show ?thesis
    using assms ring_push[of "lb_count lb" RIX_NET_LOOPBACK_QUEUE "lb_queue lb" "lb_head lb"]
    unfolding Lb_transmit lb_exec.simps lb_spec.simps rix_net_loopback_transmit_def disj_assoc[symmetric] guard
    by (auto simp: lb_ok_def lb_abs_def Let_def copy_packet_view)
next
  case (Lb_receive p)
  then show ?thesis
    using assms ring_pop[of "lb_count lb" "lb_head lb" RIX_NET_LOOPBACK_QUEUE "lb_queue lb"]
    by (cases "lb_count lb = 0")
      (auto simp: lb_ok_def lb_abs_def rix_net_loopback_receive_def RIX_NET_LOOPBACK_QUEUE_def copy_packet_view ring_def)
next
  case Lb_pending
  then show ?thesis using assms by (simp add: lb_abs_def rix_net_loopback_pending_def)
qed

text \<open>The loopback queue is a first-in first-out queue of eight payloads: for every sequence of calls the codes and
  the payloads delivered are those of a queue that refuses a ninth payload and a packet outside its buffer, reports
  an empty queue, and otherwise returns what was put in, in order.\<close>

theorem loopback_refines_fifo:
  "run_trace lb_exec ops (rix_net_loopback_init lb) = run_trace lb_spec ops []"
proof -
  have "lb_ok (rix_net_loopback_init lb)" "lb_abs (rix_net_loopback_init lb) = []"
    by (simp_all add: lb_ok_def lb_abs_def rix_net_loopback_init_def RIX_NET_LOOPBACK_QUEUE_def ring_def)
  then show ?thesis using simulation_trace[of lb_ok lb_exec lb_spec lb_abs, OF loopback_simulates] by metis
qed

end
