(* ===== verification/Net_Resolution.thy ===== *)
theory Net_Resolution
  imports Net_Queues
begin

text \<open>
  Address resolution: what the ARP cache of \<^verbatim>\<open>kernel/net/arp.c\<close> promises, and how \<^verbatim>\<open>kernel/net/stack.c\<close> uses it to
  deliver a packet whose next hop is not known yet.
\<close>

subsection \<open>The cache\<close>


text \<open>C21: the ARP cache.  Learning an address succeeds for every address but zero; until the entry expires a lookup
  returns what was learned last.  Another address keeps its mapping, now and later, unless all sixteen entries were
  live and for other addresses: then the entry that expires first makes room.  Dropping the expired entries changes
  no lookup at that time or later and reports how many it dropped.\<close>

theorem arp_cache_learns:
  assumes "ip \<noteq> 0" "lifetime \<noteq> 0" "rix_net_arp_learn cache ip m now lifetime = (rc, cache')"
  shows "rc = 0 \<and> (\<forall>t < arp_expiry now lifetime. rix_net_arp_lookup cache' ip t = Some m) \<and>
    (\<forall>ip' t. ip' \<noteq> ip \<and> now \<le> t \<longrightarrow> rix_net_arp_lookup cache' ip' t = rix_net_arp_lookup cache ip' t \<or>
       (\<forall>j < RIX_NET_ARP_CACHE_MAX. arp_live (cache j) now \<and> ae_ip (cache j) \<noteq> ip) \<and>
       (\<exists>s < RIX_NET_ARP_CACHE_MAX. ae_ip (cache s) = ip' \<and> (\<forall>j < RIX_NET_ARP_CACHE_MAX. ae_expires_at (cache s) \<le> ae_expires_at (cache j)))) \<and>
    (\<forall>ip' t. now \<le> t \<longrightarrow> rix_net_arp_lookup (snd (rix_net_arp_expire cache' now)) ip' t = rix_net_arp_lookup cache' ip' t) \<and>
    fst (rix_net_arp_expire cache' now) = int (card {i. i < RIX_NET_ARP_CACHE_MAX \<and> ae_valid (cache' i) \<and> ae_expires_at (cache' i) \<le> now})"
proof (intro conjI allI impI)
  have c': "cache' = snd (rix_net_arp_learn cache ip m now lifetime)" using assms(3) by simp
  show "rc = 0" using assms by (simp add: rix_net_arp_learn_def Let_def)
  show "rix_net_arp_lookup cache' ip t = Some m" if "t < arp_expiry now lifetime" for t
    unfolding c' by (rule arp_learn_found[OF assms(1,2) that])
  show "rix_net_arp_lookup (snd (rix_net_arp_expire cache' now)) ip' t = rix_net_arp_lookup cache' ip' t" if "now \<le> t" for ip' t
    by (rule arp_expire_keeps_lookups[OF that])
  have "fst (rix_net_arp_expire cache' now) = int (card {i \<in> set [0..<RIX_NET_ARP_CACHE_MAX]. ae_valid (cache' i) \<and> ae_expires_at (cache' i) \<le> now})"
    unfolding rix_net_arp_expire_def by (subst arp_expire_fold) simp_all
  then show "fst (rix_net_arp_expire cache' now) = int (card {i. i < RIX_NET_ARP_CACHE_MAX \<and> ae_valid (cache' i) \<and> ae_expires_at (cache' i) \<le> now})"
    by simp
  fix ip' t
  assume i: "ip' \<noteq> ip \<and> now \<le> t"
  define s where "s = arp_slot cache ip now [0..<RIX_NET_ARP_CACHE_MAX] 0 (- 1)"
  show "rix_net_arp_lookup cache' ip' t = rix_net_arp_lookup cache ip' t \<or>
       (\<forall>j < RIX_NET_ARP_CACHE_MAX. arp_live (cache j) now \<and> ae_ip (cache j) \<noteq> ip) \<and>
       (\<exists>s < RIX_NET_ARP_CACHE_MAX. ae_ip (cache s) = ip' \<and> (\<forall>j < RIX_NET_ARP_CACHE_MAX. ae_expires_at (cache s) \<le> ae_expires_at (cache j)))"
  proof (cases "arp_entries cache now ip \<and> ip' = ae_ip (cache s)")
    case True
    then have full: "\<forall>j < RIX_NET_ARP_CACHE_MAX. arp_live (cache j) now \<and> ae_ip (cache j) \<noteq> ip" by (simp add: arp_entries_def)
    have "s < RIX_NET_ARP_CACHE_MAX" by (rule arp_learn_slot(1)[OF s_def])
    then have "\<forall>j < RIX_NET_ARP_CACHE_MAX. ae_expires_at (cache s) \<le> ae_expires_at (cache j)"
      using arp_learn_slot(2)[OF s_def] full by blast
    then show ?thesis using True full \<open>s < _\<close> by blast
  next
    case False
    then show ?thesis unfolding c' using arp_learn_others[of ip' ip now t cache m lifetime] i by (simp add: s_def)
  qed
qed

definition demo_cache :: rix_net_arp_cache where
  "demo_cache = (\<lambda>_. \<lparr>ae_ip = 0, ae_mac = [], ae_expires_at = 0, ae_valid = False\<rparr>)"

theorem arp_cache_learns_witness:
  "rix_net_arp_lookup (snd (rix_net_arp_learn demo_cache 0x0a000002 [2, 0, 0, 0, 0, 2] 100 60)) 0x0a000002 150 = Some [2, 0, 0, 0, 0, 2]"
proof -
  have h: "(0x0a000002 :: u32) \<noteq> 0" "(60 :: u64) \<noteq> 0" by simp_all
  have "(150 :: u64) < arp_expiry 100 60" by (simp add: arp_expiry_def)
  then show ?thesis
    using arp_cache_learns[OF h surjective_pairing, of demo_cache "[2, 0, 0, 0, 0, 2]" 100] by blast
qed

subsection \<open>Resolution\<close>

















end
