(* ===== verification/Ipv6_Routes.thy ===== *)
theory Ipv6_Routes
  imports Ipv6
begin

text \<open>
  The IPv6 route table of \<^verbatim>\<open>kernel/net/ipv6.c\<close>: prefixes compare bit by bit, a lookup takes the longest prefix that
  matches, and adding a route changes the lookups of the destinations it covers and no other.
\<close>

subsection \<open>Prefixes\<close>

text \<open>The bits of an address, the most significant first.\<close>

definition addr_bit :: "ip6 \<Rightarrow> nat \<Rightarrow> bool" where
  "addr_bit a k = bit (a ! (k div 8)) (7 - k mod 8)"

definition same_prefix :: "nat \<Rightarrow> ip6 \<Rightarrow> ip6 \<Rightarrow> bool" where
  "same_prefix n a p \<longleftrightarrow> (\<forall>k < n. addr_bit a k = addr_bit p k)"

lemma byte_eq_bits: "x = y \<longleftrightarrow> (\<forall>t < 8. bit x (7 - t) = bit y (7 - t))" for x y :: u8
proof
  assume h: "\<forall>t < 8. bit x (7 - t) = bit y (7 - t)"
  show "x = y"
  proof (rule bit_word_eqI)
    fix m
    assume "m < LENGTH(8)"
    then show "bit x m = bit y m" using h[rule_format, of "7 - m"] by simp
  qed
qed simp

lemma high_bits_zero: "r \<le> 8 \<Longrightarrow> drop_bit (8 - r) (x XOR y) = 0 \<longleftrightarrow> (\<forall>t < r. bit x (7 - t) = bit y (7 - t))" for x y :: u8
proof
  assume r: "r \<le> 8" and z: "drop_bit (8 - r) (x XOR y) = 0"
  show "\<forall>t < r. bit x (7 - t) = bit y (7 - t)"
  proof (intro allI impI)
    fix t
    assume t: "t < r"
    have "\<not> bit (drop_bit (8 - r) (x XOR y)) (r - 1 - t)" using z by simp
    moreover have "8 - r + (r - 1 - t) = 7 - t" using r t by simp
    ultimately show "bit x (7 - t) = bit y (7 - t)" by (simp add: bit_drop_bit_eq bit_xor_iff)
  qed
next
  assume r: "r \<le> 8" and h: "\<forall>t < r. bit x (7 - t) = bit y (7 - t)"
  show "drop_bit (8 - r) (x XOR y) = 0"
  proof (rule bit_word_eqI)
    fix m
    assume m: "m < LENGTH(8)"
    show "bit (drop_bit (8 - r) (x XOR y)) m = bit 0 m"
    proof (cases "8 - r + m < 8")
      case True
      then show ?thesis using h[rule_format, of "r - 1 - m"] r by (simp add: bit_drop_bit_eq bit_xor_iff)
    next
      case False
      then have "\<not> bit (x XOR y) (8 - r + m)" using bit_imp_le_length[of "x XOR y" "8 - r + m"] by auto
      then show ?thesis by (simp add: bit_drop_bit_eq bit_xor_iff)
    qed
  qed
qed

lemma prefix_matches_bits: "ipv6_prefix_matches a p n \<longleftrightarrow> same_prefix (unat n) a p"
proof -
  define w r where "w = unat n div 8" and "r = unat n mod 8"
  have n: "unat n = 8 * w + r" "r < 8" by (simp_all add: w_def r_def)
  have "ipv6_prefix_matches a p n \<longleftrightarrow> (\<forall>i < w. a ! i = p ! i) \<and> (r = 0 \<or> drop_bit (8 - r) (a ! w XOR p ! w) = 0)"
    by (auto simp: ipv6_prefix_matches_def Let_def list_all_iff w_def[symmetric] r_def[symmetric])
  also have "\<dots> \<longleftrightarrow> (\<forall>i < w. \<forall>t < 8. addr_bit a (8 * i + t) = addr_bit p (8 * i + t)) \<and> (\<forall>t < r. addr_bit a (8 * w + t) = addr_bit p (8 * w + t))"
    using n(2) high_bits_zero[of r "a ! w" "p ! w"] by (auto simp: byte_eq_bits addr_bit_def)
  also have "\<dots> \<longleftrightarrow> same_prefix (unat n) a p"
  proof
    assume h: "(\<forall>i < w. \<forall>t < 8. addr_bit a (8 * i + t) = addr_bit p (8 * i + t)) \<and> (\<forall>t < r. addr_bit a (8 * w + t) = addr_bit p (8 * w + t))"
    show "same_prefix (unat n) a p"
      unfolding same_prefix_def
    proof (intro allI impI)
      fix k
      assume k: "k < unat n"
      have e: "8 * (k div 8) + k mod 8 = k" by simp
      show "addr_bit a k = addr_bit p k"
      proof (cases "k div 8 < w")
        case True
        then show ?thesis using h e by (metis mod_less_divisor zero_less_numeral)
      next
        case False
        then have "k div 8 = w" using k n by (metis e add_less_cancel_left div_le_mono less_imp_le nat_less_le not_less w_def)
        then have "k mod 8 < r" using k n e by linarith
        then show ?thesis using h e \<open>k div 8 = w\<close> by metis
      qed
    qed
  next
    assume "same_prefix (unat n) a p"
    then show "(\<forall>i < w. \<forall>t < 8. addr_bit a (8 * i + t) = addr_bit p (8 * i + t)) \<and> (\<forall>t < r. addr_bit a (8 * w + t) = addr_bit p (8 * w + t))"
      using n by (auto simp: same_prefix_def)
  qed
  finally show ?thesis .
qed

lemma same_prefix_trans: "same_prefix n a b \<Longrightarrow> same_prefix n a c \<longleftrightarrow> same_prefix n b c"
  by (auto simp: same_prefix_def)

lemma same_prefix_sym: "same_prefix n a b \<longleftrightarrow> same_prefix n b a"
  by (auto simp: same_prefix_def)

subsection \<open>Lookups\<close>

definition route_matches :: "rix_net_ipv6_route \<Rightarrow> ip6 \<Rightarrow> bool" where
  "route_matches r d \<longleftrightarrow> rt_used r \<and> same_prefix (unat (rt_prefix_length r)) d (rt_prefix r)"

text \<open>The hop of a route: a route with an all-zero next hop is on the link.\<close>

definition route_hop :: "ip6 \<Rightarrow> ip6 \<Rightarrow> ip6" where
  "route_hop hop d = (if \<forall>i < 16. hop ! i = 0 then d else hop)"

definition best_route :: "rix_net_ipv6_route_table \<Rightarrow> ip6 \<Rightarrow> nat \<Rightarrow> nat \<Rightarrow> bool" where
  "best_route table d n i \<longleftrightarrow> i < n \<and> route_matches (table i) d \<and>
     (\<forall>j < n. route_matches (table j) d \<longrightarrow>
        rt_prefix_length (table j) \<le> rt_prefix_length (table i) \<and>
        (rt_prefix_length (table j) = rt_prefix_length (table i) \<longrightarrow> j \<le> i))"

lemma route_scan:
  fixes table :: rix_net_ipv6_route_table and d :: ip6
  defines "f \<equiv> \<lambda>i (best :: nat option, best_length).
     if rt_used (table i) \<and> rt_prefix_length (table i) \<ge> best_length \<and>
        ipv6_prefix_matches d (rt_prefix (table i)) (rt_prefix_length (table i))
     then (Some i, rt_prefix_length (table i)) else (best, best_length)"
  shows "(fold f [0..<n] (None, 0) = (None, 0) \<and> (\<forall>j < n. \<not> route_matches (table j) d)) \<or>
         (\<exists>i. fold f [0..<n] (None, 0) = (Some i, rt_prefix_length (table i)) \<and> best_route table d n i)"
proof (induction n)
  case (Suc n)
  have m: "ipv6_prefix_matches d (rt_prefix (table n)) (rt_prefix_length (table n)) \<and> rt_used (table n) \<longleftrightarrow> route_matches (table n) d"
    by (auto simp: prefix_matches_bits route_matches_def)
  from Suc show ?case
  proof (elim disjE exE)
    assume h: "fold f [0..<n] (None, 0) = (None, 0) \<and> (\<forall>j < n. \<not> route_matches (table j) d)"
    show ?thesis
    proof (cases "route_matches (table n) d")
      case True
      then have "fold f [0..<Suc n] (None, 0) = (Some n, rt_prefix_length (table n))" using h m by (simp add: f_def)
      moreover have "best_route table d (Suc n) n" using h True by (auto simp: best_route_def less_Suc_eq)
      ultimately show ?thesis by blast
    next
      case False
      then have "fold f [0..<Suc n] (None, 0) = (None, 0)" using h m by (auto simp: f_def)
      then show ?thesis using h False by (auto simp: less_Suc_eq)
    qed
  next
    fix i
    assume h: "fold f [0..<n] (None, 0) = (Some i, rt_prefix_length (table i)) \<and> best_route table d n i"
    show ?thesis
    proof (cases "route_matches (table n) d \<and> rt_prefix_length (table i) \<le> rt_prefix_length (table n)")
      case True
      then have "fold f [0..<Suc n] (None, 0) = (Some n, rt_prefix_length (table n))" using h m by (simp add: f_def)
      moreover have "best_route table d (Suc n) n" using h True by (auto simp: best_route_def less_Suc_eq intro: order_trans)
      ultimately show ?thesis by blast
    next
      case False
      then have "fold f [0..<Suc n] (None, 0) = (Some i, rt_prefix_length (table i))" using h m by (auto simp: f_def)
      moreover have "best_route table d (Suc n) i" using h False by (auto simp: best_route_def less_Suc_eq)
      ultimately show ?thesis by blast
    qed
  qed
qed simp

lemma route_lookup_cases:
  obtains (none) "rix_net_ipv6_route_lookup table d = None" "\<And>j. j < RIX_NET_IPV6_ROUTE_MAX \<Longrightarrow> \<not> route_matches (table j) d"
    | (hop) i where "rix_net_ipv6_route_lookup table d = Some (route_hop (rt_next_hop (table i)) d)" "best_route table d RIX_NET_IPV6_ROUTE_MAX i"
proof -
  have l: "list_all (\<lambda>i. h ! i = 0) [0..<16] \<longleftrightarrow> (\<forall>i < 16. h ! i = 0)" for h :: ip6 by (auto simp: list_all_iff)
  from route_scan[of table d RIX_NET_IPV6_ROUTE_MAX] show thesis
  proof (elim disjE exE conjE)
    fix i
    assume f: "fold (\<lambda>i (best, best_length).
          if rt_used (table i) \<and> best_length \<le> rt_prefix_length (table i) \<and>
             ipv6_prefix_matches d (rt_prefix (table i)) (rt_prefix_length (table i))
          then (Some i, rt_prefix_length (table i)) else (best, best_length)) [0..<RIX_NET_IPV6_ROUTE_MAX] (None, 0) =
        (Some i, rt_prefix_length (table i))" and b: "best_route table d RIX_NET_IPV6_ROUTE_MAX i"
    show thesis by (rule hop[OF _ b]) (auto simp: rix_net_ipv6_route_lookup_def f route_hop_def l Let_def)
  qed (rule none, simp_all add: rix_net_ipv6_route_lookup_def)
qed

lemma best_route_unique: "\<lbrakk>best_route table d n i; best_route table d n j\<rbrakk> \<Longrightarrow> i = j"
  by (auto simp: best_route_def intro: antisym)

lemma route_lookup_best:
  assumes "best_route table d RIX_NET_IPV6_ROUTE_MAX i"
  shows "rix_net_ipv6_route_lookup table d = Some (route_hop (rt_next_hop (table i)) d)"
proof (cases table d rule: route_lookup_cases)
  case none
  then show ?thesis using assms by (auto simp: best_route_def)
next
  case (hop j)
  then show ?thesis using best_route_unique[OF assms hop(2)] by simp
qed

lemma route_lookup_none: "(\<And>j. j < RIX_NET_IPV6_ROUTE_MAX \<Longrightarrow> \<not> route_matches (table j) d) \<Longrightarrow> rix_net_ipv6_route_lookup table d = None"
  by (cases table d rule: route_lookup_cases) (auto simp: best_route_def)

subsection \<open>Adding a route\<close>

text \<open>No two routes of the table are for the same prefix.\<close>

definition routes_ok :: "rix_net_ipv6_route_table \<Rightarrow> bool" where
  "routes_ok table \<longleftrightarrow> (\<forall>i < RIX_NET_IPV6_ROUTE_MAX. \<forall>j < RIX_NET_IPV6_ROUTE_MAX.
     rt_used (table i) \<and> rt_used (table j) \<and> rt_prefix_length (table i) = rt_prefix_length (table j) \<and>
     same_prefix (unat (rt_prefix_length (table i))) (rt_prefix (table i)) (rt_prefix (table j)) \<longrightarrow> i = j)"

definition route_for :: "rix_net_ipv6_route \<Rightarrow> ip6 \<Rightarrow> u8 \<Rightarrow> bool" where
  "route_for r p n \<longleftrightarrow> rt_used r \<and> rt_prefix_length r = n \<and> same_prefix (unat n) (rt_prefix r) p"

lemma route_add_cases:
  assumes "unat n \<le> 128"
  obtains (full) "rix_net_ipv6_route_add table p n h = (-2, table)" "\<And>j. j < RIX_NET_IPV6_ROUTE_MAX \<Longrightarrow> rt_used (table j) \<and> \<not> route_for (table j) p n"
    | (put) i where "rix_net_ipv6_route_add table p n h = (0, table(i := \<lparr>rt_prefix = p, rt_next_hop = h, rt_prefix_length = n, rt_used = True\<rparr>))"
        "i < RIX_NET_IPV6_ROUTE_MAX"
        "route_for (table i) p n \<or> \<not> rt_used (table i) \<and> (\<forall>j < RIX_NET_IPV6_ROUTE_MAX. \<not> route_for (table j) p n)"
proof -
  let ?same = "find (\<lambda>i. rt_used (table i) \<and> rt_prefix_length (table i) = n \<and> ipv6_prefix_matches (rt_prefix (table i)) p n) [0..<RIX_NET_IPV6_ROUTE_MAX]"
  have rf: "rt_used (table i) \<and> rt_prefix_length (table i) = n \<and> ipv6_prefix_matches (rt_prefix (table i)) p n \<longleftrightarrow> route_for (table i) p n" for i
    by (auto simp: route_for_def prefix_matches_bits)
  note d = rix_net_ipv6_route_add_def Let_def
  show thesis
  proof (cases ?same)
    case (Some i)
    have "i < RIX_NET_IPV6_ROUTE_MAX" "route_for (table i) p n" using find_upt_SomeD[OF Some] rf by auto
    then show thesis using assms Some by (intro put[of i]) (simp_all add: d)
  next
    case same: None
    then have nr: "\<not> route_for (table j) p n" if "j < RIX_NET_IPV6_ROUTE_MAX" for j using that rf by (auto simp: find_None_iff)
    show thesis
    proof (cases "find (\<lambda>i. \<not> rt_used (table i)) [0..<RIX_NET_IPV6_ROUTE_MAX]")
      case None
      have "rix_net_ipv6_route_add table p n h = (-2, table)" using assms same None by (simp add: d)
      then show thesis using None nr by (intro full) (auto simp: find_None_iff)
    next
      case (Some i)
      have "i < RIX_NET_IPV6_ROUTE_MAX" "\<not> rt_used (table i)" using find_upt_SomeD[OF Some] by auto
      then show thesis using assms Some same nr by (intro put[of i]) (simp_all add: d)
    qed
  qed
qed

lemma route_add_lookup:
  fixes h :: ip6
  assumes ok: "routes_ok table" and i: "i < RIX_NET_IPV6_ROUTE_MAX"
    and slot: "route_for (table i) p n \<or> \<not> rt_used (table i) \<and> (\<forall>j < RIX_NET_IPV6_ROUTE_MAX. \<not> route_for (table j) p n)"
  defines "table' \<equiv> table(i := \<lparr>rt_prefix = p, rt_next_hop = h, rt_prefix_length = n, rt_used = True\<rparr>)"
  shows "routes_ok table'"
    and "rix_net_ipv6_route_lookup table' d =
      (if same_prefix (unat n) d p \<and> (\<forall>j < RIX_NET_IPV6_ROUTE_MAX. route_matches (table j) d \<longrightarrow> rt_prefix_length (table j) \<le> n)
       then Some (route_hop h d) else rix_net_ipv6_route_lookup table d)"
proof -
  have nofor: "\<not> route_for (table j) p n" if "j < RIX_NET_IPV6_ROUTE_MAX" "j \<noteq> i" for j
  proof
    assume j: "route_for (table j) p n"
    then have ri: "route_for (table i) p n" using slot that(1) by blast
    have "same_prefix (unat n) (rt_prefix (table i)) (rt_prefix (table j))"
      using j ri by (auto simp: route_for_def same_prefix_def)
    then show False using ok[unfolded routes_ok_def, rule_format, OF i that(1)] that(2) ri j by (simp add: route_for_def)
  qed
  show "routes_ok table'"
    unfolding routes_ok_def
  proof (intro allI impI)
    fix a b
    assume ab: "a < RIX_NET_IPV6_ROUTE_MAX" "b < RIX_NET_IPV6_ROUTE_MAX"
      and s: "rt_used (table' a) \<and> rt_used (table' b) \<and> rt_prefix_length (table' a) = rt_prefix_length (table' b) \<and>
         same_prefix (unat (rt_prefix_length (table' a))) (rt_prefix (table' a)) (rt_prefix (table' b))"
    consider "a = b" | "a = i" "b \<noteq> i" | "b = i" "a \<noteq> i" | "a \<noteq> i" "b \<noteq> i" by blast
    then show "a = b"
    proof cases
      case 2
      then have "route_for (table b) p n" using s by (auto simp: table'_def route_for_def same_prefix_def)
      then show ?thesis using nofor ab 2 by blast
    next
      case 3
      then have "route_for (table a) p n" using s by (auto simp: table'_def route_for_def same_prefix_def)
      then show ?thesis using nofor ab 3 by blast
    next
      case 4
      then have e: "table' a = table a" "table' b = table b" by (simp_all add: table'_def)
      show ?thesis using ok[unfolded routes_ok_def, rule_format, OF ab] s unfolding e by blast
    qed
  qed
  have mi: "route_matches (table' i) d \<longleftrightarrow> same_prefix (unat n) d p" by (simp add: table'_def route_matches_def)
  have mj: "table' j = table j" if "j \<noteq> i" for j using that by (simp add: table'_def)
  have old: "route_matches (table i) d \<Longrightarrow> rt_prefix_length (table i) = n \<and> same_prefix (unat n) d p"
    using slot by (auto simp: route_matches_def route_for_def same_prefix_def)
  have tie: "j = i" if "route_matches (table j) d" "rt_prefix_length (table j) = n" "j < RIX_NET_IPV6_ROUTE_MAX" "same_prefix (unat n) d p" for j
  proof (rule ccontr)
    assume "j \<noteq> i"
    moreover have "route_for (table j) p n" using that by (auto simp: route_matches_def route_for_def same_prefix_def)
    ultimately show False using nofor that(3) by blast
  qed
  show "rix_net_ipv6_route_lookup table' d =
      (if same_prefix (unat n) d p \<and> (\<forall>j < RIX_NET_IPV6_ROUTE_MAX. route_matches (table j) d \<longrightarrow> rt_prefix_length (table j) \<le> n)
       then Some (route_hop h d) else rix_net_ipv6_route_lookup table d)" (is "_ = (if ?new then _ else _)")
  proof (cases ?new)
    case True
    have "best_route table' d RIX_NET_IPV6_ROUTE_MAX i"
      unfolding best_route_def using i True mi mj tie by (auto simp: table'_def)
    then show ?thesis using route_lookup_best[of table' d i] True by (simp add: table'_def)
  next
    case False
    show ?thesis
    proof (cases table d rule: route_lookup_cases)
      case none
      then have "\<not> same_prefix (unat n) d p" using False by auto
      then have "\<not> route_matches (table' j) d" if "j < RIX_NET_IPV6_ROUTE_MAX" for j using none(2)[OF that] mi mj by (cases "j = i") auto
      then show ?thesis unfolding if_not_P[OF False] using none(1) route_lookup_none[of table' d] by simp
    next
      case (hop b)
      have longer: "\<not> same_prefix (unat n) d p \<or> n < rt_prefix_length (table b)"
        using False hop(2) unfolding best_route_def by (meson not_less order_trans)
      then have bi: "b \<noteq> i" using hop(2) old by (auto simp: best_route_def)
      have "best_route table' d RIX_NET_IPV6_ROUTE_MAX b"
        unfolding best_route_def
      proof (intro conjI allI impI)
        show "b < RIX_NET_IPV6_ROUTE_MAX" "route_matches (table' b) d" using hop(2) bi mj by (simp_all add: best_route_def)
        fix j
        assume j: "j < RIX_NET_IPV6_ROUTE_MAX" "route_matches (table' j) d"
        have "rt_prefix_length (table' j) \<le> rt_prefix_length (table b) \<and> (rt_prefix_length (table' j) = rt_prefix_length (table b) \<longrightarrow> j \<le> b)"
        proof (cases "j = i")
          case True
          then have "n < rt_prefix_length (table b)" using j mi longer by simp
          then show ?thesis using True by (auto simp: table'_def intro: less_imp_le)
        next
          case ne: False
          then show ?thesis using hop(2) j mj by (simp add: best_route_def)
        qed
        then show "rt_prefix_length (table' j) \<le> rt_prefix_length (table' b)" "rt_prefix_length (table' j) = rt_prefix_length (table' b) \<Longrightarrow> j \<le> b"
          using mj[OF bi] by simp_all
      qed
      then show ?thesis unfolding if_not_P[OF False] using route_lookup_best[of table' d b] hop(1) mj[OF bi] by simp
    qed
  qed
qed

subsection \<open>The property\<close>

primrec add_routes :: "(ip6 \<times> u8 \<times> ip6) list \<Rightarrow> rix_net_ipv6_route_table \<Rightarrow> rix_net_ipv6_route_table" where
  "add_routes [] table = table"
| "add_routes (r # rs) table = add_routes rs (snd (rix_net_ipv6_route_add table (fst r) (fst (snd r)) (snd (snd r))))"

lemma routes_ok_add: "routes_ok table \<Longrightarrow> routes_ok (snd (rix_net_ipv6_route_add table p n h))"
proof (cases "unat n \<le> 128")
  case True
  assume ok: "routes_ok table"
  show ?thesis
  proof (cases rule: route_add_cases[OF True, of table p h, case_names full put])
    case full
    then show ?thesis using ok by simp
  next
    case (put i)
    then show ?thesis using route_add_lookup(1)[OF ok put(2,3)] by simp
  qed
qed (simp add: rix_net_ipv6_route_add_def)

lemma add_routes_ok: "routes_ok table \<Longrightarrow> routes_ok (add_routes rs table)"
  by (induction rs arbitrary: table) (simp_all add: routes_ok_add)

lemma routes_ok_init: "routes_ok (rix_net_ipv6_route_init table)"
  by (simp add: routes_ok_def rix_net_ipv6_route_init_def)

text \<open>C22: IPv6 routing.  In every table built by adding routes to an empty one, a lookup fails exactly when no route has
  the destination's leading bits, and otherwise returns the next hop of the matching route with the longest prefix,
  the destination itself where that next hop is zero.  Adding a route to such a table is refused for a prefix longer
  than an address or when the four routes are in use for other prefixes, and then changes nothing; otherwise it
  changes the lookups exactly of the destinations that have its prefix and no longer match.\<close>

theorem ipv6_routing_longest_prefix:
  fixes rs table0
  defines "table \<equiv> add_routes rs (rix_net_ipv6_route_init table0)"
  shows "(case rix_net_ipv6_route_lookup table d of
            None \<Rightarrow> \<forall>j < RIX_NET_IPV6_ROUTE_MAX. \<not> route_matches (table j) d
          | Some hop \<Rightarrow> \<exists>i < RIX_NET_IPV6_ROUTE_MAX. route_matches (table i) d \<and> hop = route_hop (rt_next_hop (table i)) d \<and>
              (\<forall>j < RIX_NET_IPV6_ROUTE_MAX. j \<noteq> i \<and> route_matches (table j) d \<longrightarrow> rt_prefix_length (table j) < rt_prefix_length (table i))) \<and>
         (case rix_net_ipv6_route_add table p n h of
            (rc, table') \<Rightarrow>
              if rc \<noteq> 0 then table' = table \<and> (128 < unat n \<or> (\<forall>j < RIX_NET_IPV6_ROUTE_MAX. rt_used (table j) \<and> \<not> route_for (table j) p n))
              else rix_net_ipv6_route_lookup table' d =
                (if same_prefix (unat n) d p \<and> (\<forall>j < RIX_NET_IPV6_ROUTE_MAX. route_matches (table j) d \<longrightarrow> rt_prefix_length (table j) \<le> n)
                 then Some (route_hop h d) else rix_net_ipv6_route_lookup table d))"
proof -
  have ok: "routes_ok table" unfolding table_def by (rule add_routes_ok[OF routes_ok_init])
  have strict: "rt_prefix_length (table j) < rt_prefix_length (table i)"
    if "best_route table d RIX_NET_IPV6_ROUTE_MAX i" "j < RIX_NET_IPV6_ROUTE_MAX" "j \<noteq> i" "route_matches (table j) d" for i j
  proof -
    have b: "i < RIX_NET_IPV6_ROUTE_MAX" "route_matches (table i) d" "rt_prefix_length (table j) \<le> rt_prefix_length (table i)"
      using that by (auto simp: best_route_def)
    have "rt_prefix_length (table j) \<noteq> rt_prefix_length (table i)"
    proof
      assume e: "rt_prefix_length (table j) = rt_prefix_length (table i)"
      then have "same_prefix (unat (rt_prefix_length (table i))) (rt_prefix (table i)) (rt_prefix (table j))"
        using b(2) that(4) by (auto simp: route_matches_def same_prefix_def)
      then have "i = j" using e b(2) that(4) by (intro ok[unfolded routes_ok_def, rule_format, OF b(1) that(2)]) (simp add: route_matches_def)
      then show False using that(3) by simp
    qed
    then show ?thesis using b(3) by simp
  qed
  have l: "case rix_net_ipv6_route_lookup table d of
            None \<Rightarrow> \<forall>j < RIX_NET_IPV6_ROUTE_MAX. \<not> route_matches (table j) d
          | Some hop \<Rightarrow> \<exists>i < RIX_NET_IPV6_ROUTE_MAX. route_matches (table i) d \<and> hop = route_hop (rt_next_hop (table i)) d \<and>
              (\<forall>j < RIX_NET_IPV6_ROUTE_MAX. j \<noteq> i \<and> route_matches (table j) d \<longrightarrow> rt_prefix_length (table j) < rt_prefix_length (table i))"
  proof (cases table d rule: route_lookup_cases)
    case (hop i)
    then have "i < RIX_NET_IPV6_ROUTE_MAX" "route_matches (table i) d" by (simp_all add: best_route_def)
    then show ?thesis using hop strict by auto
  qed simp
  have a: "case rix_net_ipv6_route_add table p n h of
            (rc, table') \<Rightarrow>
              if rc \<noteq> 0 then table' = table \<and> (128 < unat n \<or> (\<forall>j < RIX_NET_IPV6_ROUTE_MAX. rt_used (table j) \<and> \<not> route_for (table j) p n))
              else rix_net_ipv6_route_lookup table' d =
                (if same_prefix (unat n) d p \<and> (\<forall>j < RIX_NET_IPV6_ROUTE_MAX. route_matches (table j) d \<longrightarrow> rt_prefix_length (table j) \<le> n)
                 then Some (route_hop h d) else rix_net_ipv6_route_lookup table d)"
  proof (cases "unat n \<le> 128")
    case True
    show ?thesis
    proof (cases rule: route_add_cases[OF True, of table p h, case_names full put])
      case (put i)
      then show ?thesis using route_add_lookup(2)[OF ok put(2,3)] by simp
    qed simp
  qed (simp add: rix_net_ipv6_route_add_def)
  show ?thesis using l a by blast
qed

definition demo_table :: rix_net_ipv6_route_table where
  "demo_table = (\<lambda>_. \<lparr>rt_prefix = [], rt_next_hop = [], rt_prefix_length = 0, rt_used = False\<rparr>)"

definition demo_addr :: "u8 \<Rightarrow> u8 \<Rightarrow> ip6" where
  "demo_addr a b = a # replicate 14 0 @ [b]"

definition demo_routes :: rix_net_ipv6_route_table where
  "demo_routes = add_routes [(demo_addr 0 0, 0, demo_addr 0xfe 1), (demo_addr 0x20 0, 8, demo_addr 0xfe 2)] (rix_net_ipv6_route_init demo_table)"

lemma demo_routes_eq:
  "demo_routes 0 = \<lparr>rt_prefix = demo_addr 0 0, rt_next_hop = demo_addr 0xfe 1, rt_prefix_length = 0, rt_used = True\<rparr>"
  "demo_routes (Suc 0) = \<lparr>rt_prefix = demo_addr 0x20 0, rt_next_hop = demo_addr 0xfe 2, rt_prefix_length = 8, rt_used = True\<rparr>"
  "\<not> rt_used (demo_routes 2)" "\<not> rt_used (demo_routes 3)"
  by (simp_all add: demo_routes_def rix_net_ipv6_route_add_def rix_net_ipv6_route_init_def demo_table_def RIX_NET_IPV6_ROUTE_MAX_def
      upt_rec Let_def ipv6_prefix_matches_def demo_addr_def)

theorem ipv6_routing_longest_prefix_witness:
  "rix_net_ipv6_route_lookup demo_routes (demo_addr 0x20 9) = Some (demo_addr 0xfe 2)"
proof -
  let ?d = "demo_addr 0x20 9"
  have m: "route_matches (demo_routes 0) ?d" "route_matches (demo_routes (Suc 0)) ?d"
    by (simp_all add: route_matches_def demo_routes_eq flip: prefix_matches_bits)
      (simp_all add: same_prefix_def addr_bit_def demo_addr_def)
  have u: "rix_net_ipv6_route_lookup demo_routes ?d \<noteq> None"
    "\<And>hop. rix_net_ipv6_route_lookup demo_routes ?d = Some hop \<Longrightarrow> \<exists>i < 4. route_matches (demo_routes i) ?d \<and>
       hop = route_hop (rt_next_hop (demo_routes i)) ?d \<and> (\<forall>j < 4. j \<noteq> i \<and> route_matches (demo_routes j) ?d \<longrightarrow> rt_prefix_length (demo_routes j) < rt_prefix_length (demo_routes i))"
    using conjunct1[OF ipv6_routing_longest_prefix[of "[(demo_addr 0 0, 0, demo_addr 0xfe 1), (demo_addr 0x20 0, 8, demo_addr 0xfe 2)]" demo_table ?d]] m
    unfolding demo_routes_def[symmetric] RIX_NET_IPV6_ROUTE_MAX_def by (auto split: option.splits)
  obtain hop where hop: "rix_net_ipv6_route_lookup demo_routes ?d = Some hop" using u(1) by blast
  obtain i where i: "i < 4" "route_matches (demo_routes i) ?d" "hop = route_hop (rt_next_hop (demo_routes i)) ?d"
      "\<And>j. \<lbrakk>j < 4; j \<noteq> i; route_matches (demo_routes j) ?d\<rbrakk> \<Longrightarrow> rt_prefix_length (demo_routes j) < rt_prefix_length (demo_routes i)"
    using u(2)[OF hop] by blast
  have "i \<noteq> 2" "i \<noteq> 3" using i(2) by (auto simp: route_matches_def demo_routes_eq)
  moreover have "i \<noteq> 0"
  proof
    assume "i = 0"
    then show False using i(4)[of "Suc 0"] m(2) by (simp add: demo_routes_eq)
  qed
  ultimately have "i = Suc 0" using i(1) by linarith
  moreover have "route_hop (demo_addr 0xfe 2) ?d = demo_addr 0xfe 2" by (auto simp: route_hop_def demo_addr_def intro!: exI[of _ 0])
  ultimately show ?thesis using hop i(3) by (simp add: demo_routes_eq)
qed

end
