(* ===== verification/Dhcp_Properties.thy ===== *)
theory Dhcp_Properties
  imports Dhcp
begin

text \<open>
  What the DHCP client promises: the option parser recovers the options a server encoded, in any order; the netmask
  check accepts exactly the contiguous masks; the exchange configures the device only from an accepted
  acknowledgment of the offered address and leaves it alone otherwise; and where it falls short.
\<close>

subsection \<open>Netmasks\<close>

lemma nat_and_succ_zero: "m AND Suc m = 0 \<Longrightarrow> \<exists>k. m = 2 ^ k - 1" for m :: nat
proof (induction m rule: less_induct)
  case (less m)
  show ?case
  proof (cases "even m")
    case True
    then obtain a where a: "m = 2 * a" by blast
    have "m AND Suc m = 2 * (a AND a)" unfolding a by (subst and_rec) simp
    then have "m = 0" using less.prems a by simp
    then show ?thesis by (intro exI[of _ 0]) simp
  next
    case False
    then obtain a where a: "m = 2 * a + 1" using oddE by blast
    have "m AND Suc m = 2 * (a AND Suc a)" unfolding a by (subst and_rec) simp
    then have "a AND Suc a = 0" using less.prems by simp
    moreover have "a < m" using a by simp
    ultimately obtain k where k: "a = 2 ^ k - 1" using less.IH by blast
    have "0 < (2 :: nat) ^ k" "(2 :: nat) ^ Suc k = 2 * 2 ^ k" by simp_all
    then have "m = 2 ^ Suc k - 1" using a k by linarith
    then show ?thesis by blast
  qed
qed

lemma mask_exp: "(mask k :: u32) + 1 = 2 ^ k"
  by (simp add: mask_eq_exp_minus_1)

lemma contiguous_mask_iff: "contiguous_mask m \<longleftrightarrow> (\<exists>k < 32. m = NOT (mask k))"
proof
  assume c: "contiguous_mask m"
  define n where "n = NOT m"
  have m0: "m \<noteq> 0" and z: "n AND (n + 1) = 0" using c by (auto simp: contiguous_mask_def n_def split: if_splits)
  have nm: "n \<noteq> - 1" using m0 unfolding n_def by (metis bit.double_compl bit.compl_one)
  have u: "unat (n + 1) = Suc (unat n)" using nm unatSuc[of n] by (simp add: add.commute eq_neg_iff_add_eq_0)
  have "unat n AND Suc (unat n) = unat (n AND (n + 1))" by (simp add: unsigned_and_eq u)
  then have "unat n AND Suc (unat n) = 0" using z by simp
  then obtain k where k: "unat n = 2 ^ k - 1" using nat_and_succ_zero by blast
  have lt: "Suc (unat n) < 2 ^ 32"
  proof -
    have "unat (n + 1) < 2 ^ 32" using unsigned_less[of "n + 1"] by simp
    then show ?thesis using u by simp
  qed
  have "(2 :: nat) ^ k < 2 ^ 32" using k lt by simp
  then have k32: "k < 32" by (rule power_less_imp_less_exp[rotated]) simp
  have "n = of_nat (2 ^ k - 1)" using k by (metis word_of_unat)
  also have "\<dots> = mask k" by (simp add: mask_eq_exp_minus_1 of_nat_diff)
  finally have "m = NOT (mask k)" using n_def by (metis bit.double_compl)
  then show "\<exists>k < 32. m = NOT (mask k)" using k32 by blast
next
  assume "\<exists>k < 32. m = NOT (mask k)"
  then obtain k where k: "k < 32" "m = NOT (mask k)" by blast
  have "bit m k" using k by (simp add: bit_not_iff bit_mask_iff)
  then have "m \<noteq> 0" by auto
  moreover have "(mask k :: u32) AND 2 ^ k = 0"
    by (rule bit_word_eqI) (auto simp: bit_simps)
  ultimately show "contiguous_mask m" using k by (simp add: contiguous_mask_def mask_exp)
qed

subsection \<open>Options\<close>

type_synonym dhcp_opt = "u8 \<times> u8 list"

definition opt_bytes :: "dhcp_opt \<Rightarrow> u8 list" where
  "opt_bytes o1 = fst o1 # of_nat (length (snd o1)) # snd o1"

definition opts_bytes :: "dhcp_opt list \<Rightarrow> u8 list" where
  "opts_bytes opts = concat (map opt_bytes opts)"

definition opt_word :: "u8 list \<Rightarrow> u32" where
  "opt_word d = word32 (d ! 0) (d ! 1) (d ! 2) (d ! 3)"

text \<open>An option a server may send when a reply of type \<open>e\<close> is expected.\<close>

definition opt_ok :: "u8 \<Rightarrow> dhcp_opt \<Rightarrow> bool" where
  "opt_ok e = (\<lambda>(c, d). c \<noteq> DHCP_OPT_PAD \<and> c \<noteq> DHCP_OPT_END \<and> length d < 256 \<and>
     (c = DHCP_OPT_MSGTYPE \<longrightarrow> d = [e]) \<and>
     (c = DHCP_OPT_MASK \<longrightarrow> length d = 4 \<and> contiguous_mask (opt_word d)) \<and>
     (c = DHCP_OPT_ROUTER \<longrightarrow> 4 \<le> length d) \<and> (c = DHCP_OPT_DNS \<longrightarrow> 4 \<le> length d) \<and>
     (c = DHCP_OPT_SERVER \<longrightarrow> length d = 4) \<and> (c = DHCP_OPT_LEASE \<longrightarrow> length d = 4))"

definition opt_value :: "dhcp_opt list \<Rightarrow> u8 \<Rightarrow> u32 \<Rightarrow> u32" where
  "opt_value opts c v = (case map_of opts c of None \<Rightarrow> v | Some d \<Rightarrow> opt_word d)"

definition opt_has :: "dhcp_opt list \<Rightarrow> u8 \<Rightarrow> bool" where
  "opt_has opts c \<longleftrightarrow> c \<in> fst ` set opts"

definition opts_offer :: "dhcp_opt list \<Rightarrow> rix_dhcp_offer \<Rightarrow> rix_dhcp_offer" where
  "opts_offer opts offer = offer\<lparr>
     of_netmask := opt_value opts DHCP_OPT_MASK (of_netmask offer),
     of_gateway := opt_value opts DHCP_OPT_ROUTER (of_gateway offer),
     of_dns := opt_value opts DHCP_OPT_DNS (of_dns offer),
     of_server := opt_value opts DHCP_OPT_SERVER (of_server offer),
     of_lease_seconds := opt_value opts DHCP_OPT_LEASE (of_lease_seconds offer),
     of_has_netmask := of_has_netmask offer \<or> opt_has opts DHCP_OPT_MASK,
     of_has_gateway := of_has_gateway offer \<or> opt_has opts DHCP_OPT_ROUTER,
     of_has_dns := of_has_dns offer \<or> opt_has opts DHCP_OPT_DNS\<rparr>"

lemma opts_offer_Nil: "opts_offer [] offer = offer"
  by (simp add: opts_offer_def opt_value_def opt_has_def)

lemma opt_value_Cons:
  "opt_value ((c, d) # opts) c' v = (if c' = c then opt_word d else opt_value opts c' v)"
  by (simp add: opt_value_def)

lemma opt_value_absent: "c \<notin> fst ` set opts \<Longrightarrow> opt_value opts c v = v"
  using map_of_eq_None_iff[of opts c] by (simp add: opt_value_def)

lemma opt_has_Cons: "opt_has ((c, d) # opts) c' \<longleftrightarrow> c' = c \<or> opt_has opts c'"
  by (auto simp: opt_has_def)

lemma apply_option_ok:
  assumes "opt_ok e (c, d)" "\<And>i. i < length d \<Longrightarrow> b (w + i) = d ! i" "c \<notin> fst ` set opts"
  shows "\<exists>offer1. dhcp_apply_option b w c (length d) e seen offer = Inr (seen \<or> c = DHCP_OPT_MSGTYPE, offer1) \<and>
           opts_offer opts offer1 = opts_offer ((c, d) # opts) offer"
proof -
  have w: "get_be32 b w = opt_word d" if "4 \<le> length d"
  proof -
    have b: "b (w + i) = d ! i" if "i < 4" for i using assms(2)[of i] \<open>4 \<le> length d\<close> that by simp
    show ?thesis using b[of 0] b[of 1] b[of 2] b[of 3] by (simp add: get_be32_word opt_word_def)
  qed
  have t: "b w = e" if "c = DHCP_OPT_MSGTYPE" using assms(1) assms(2)[of 0] that by (simp add: opt_ok_def)
  have ab: "opt_value opts c v = v" for v by (rule opt_value_absent[OF assms(3)])
  consider "c = DHCP_OPT_MSGTYPE" | "c = DHCP_OPT_MASK" | "c = DHCP_OPT_ROUTER" | "c = DHCP_OPT_DNS" | "c = DHCP_OPT_SERVER" | "c = DHCP_OPT_LEASE"
    | "c \<noteq> DHCP_OPT_MSGTYPE" "c \<noteq> DHCP_OPT_MASK" "c \<noteq> DHCP_OPT_ROUTER" "c \<noteq> DHCP_OPT_DNS" "c \<noteq> DHCP_OPT_SERVER" "c \<noteq> DHCP_OPT_LEASE"
    by argo
  then show ?thesis
  proof cases
    case 1
    have "dhcp_apply_option b w c (length d) e seen offer = Inr (True, offer)"
      using assms(1) t 1 by (simp add: dhcp_apply_option_def opt_ok_def)
    moreover have "opts_offer opts offer = opts_offer ((c, d) # opts) offer"
      unfolding opts_offer_def opt_value_Cons opt_has_Cons using 1 by (simp add: dhcp_opts)
    ultimately show ?thesis using 1 by simp
  next
    case 2
    have e: "dhcp_apply_option b w c (length d) e seen offer = Inr (seen, offer\<lparr>of_netmask := opt_word d, of_has_netmask := True\<rparr>)"
      using assms(1) w 2 by (simp add: dhcp_apply_option_def opt_ok_def dhcp_opts)
    have "opts_offer opts (offer\<lparr>of_netmask := opt_word d, of_has_netmask := True\<rparr>) = opts_offer ((c, d) # opts) offer"
      unfolding opts_offer_def opt_value_Cons opt_has_Cons using ab 2 by (simp add: dhcp_opts)
    then show ?thesis using e 2 by (simp add: dhcp_opts)
  next
    case 3
    have e: "dhcp_apply_option b w c (length d) e seen offer = Inr (seen, offer\<lparr>of_gateway := opt_word d, of_has_gateway := True\<rparr>)"
      using assms(1) w 3 by (simp add: dhcp_apply_option_def opt_ok_def dhcp_opts)
    have "opts_offer opts (offer\<lparr>of_gateway := opt_word d, of_has_gateway := True\<rparr>) = opts_offer ((c, d) # opts) offer"
      unfolding opts_offer_def opt_value_Cons opt_has_Cons using ab 3 by (simp add: dhcp_opts)
    then show ?thesis using e 3 by (simp add: dhcp_opts)
  next
    case 4
    have e: "dhcp_apply_option b w c (length d) e seen offer = Inr (seen, offer\<lparr>of_dns := opt_word d, of_has_dns := True\<rparr>)"
      using assms(1) w 4 by (simp add: dhcp_apply_option_def opt_ok_def dhcp_opts)
    have "opts_offer opts (offer\<lparr>of_dns := opt_word d, of_has_dns := True\<rparr>) = opts_offer ((c, d) # opts) offer"
      unfolding opts_offer_def opt_value_Cons opt_has_Cons using ab 4 by (simp add: dhcp_opts)
    then show ?thesis using e 4 by (simp add: dhcp_opts)
  next
    case 5
    have e: "dhcp_apply_option b w c (length d) e seen offer = Inr (seen, offer\<lparr>of_server := opt_word d\<rparr>)"
      using assms(1) w 5 by (simp add: dhcp_apply_option_def opt_ok_def dhcp_opts)
    have "opts_offer opts (offer\<lparr>of_server := opt_word d\<rparr>) = opts_offer ((c, d) # opts) offer"
      unfolding opts_offer_def opt_value_Cons opt_has_Cons using ab 5 by (simp add: dhcp_opts)
    then show ?thesis using e 5 by (simp add: dhcp_opts)
  next
    case 6
    have e: "dhcp_apply_option b w c (length d) e seen offer = Inr (seen, offer\<lparr>of_lease_seconds := opt_word d\<rparr>)"
      using assms(1) w 6 by (simp add: dhcp_apply_option_def opt_ok_def dhcp_opts)
    have "opts_offer opts (offer\<lparr>of_lease_seconds := opt_word d\<rparr>) = opts_offer ((c, d) # opts) offer"
      unfolding opts_offer_def opt_value_Cons opt_has_Cons using ab 6 by (simp add: dhcp_opts)
    then show ?thesis using e 6 by (simp add: dhcp_opts)
  next
    case 7
    then have "dhcp_apply_option b w c (length d) e seen offer = Inr (seen, offer)" by (simp add: dhcp_apply_option_def)
    moreover have "opts_offer opts offer = opts_offer ((c, d) # opts) offer"
      unfolding opts_offer_def opt_value_Cons opt_has_Cons using 7[symmetric] by simp
    ultimately show ?thesis using 7 by simp
  qed
qed

lemma parse_options_ok:
  assumes "\<And>i. i < len \<Longrightarrow> b (w + i) = xs ! i" "length xs = len" "xs = pre @ opts_bytes opts @ DHCP_OPT_END # rest"
    and "list_all (opt_ok e) opts" "distinct (map fst opts)"
  shows "dhcp_parse_options b w len e (length pre) seen offer = (0, seen \<or> opt_has opts DHCP_OPT_MSGTYPE, opts_offer opts offer)"
  using assms(3-5)
proof (induction opts arbitrary: pre seen offer)
  case Nil
  have "length pre < len" "b (w + length pre) = DHCP_OPT_END"
    using Nil(1) assms(1)[of "length pre"] assms(2) by (auto simp: opts_bytes_def)
  then show ?case by (subst dhcp_parse_options.simps) (simp add: Let_def dhcp_opts opts_offer_Nil opt_has_def)
next
  case (Cons o1 opts)
  obtain c d where o1: "o1 = (c, d)" by (cases o1)
  define k where "k = length pre"
  have x: "xs = (pre @ [c, of_nat (length d)] @ d) @ opts_bytes opts @ DHCP_OPT_END # rest"
    using Cons.prems(1) by (simp add: opts_bytes_def opt_bytes_def o1)
  have ok: "opt_ok e (c, d)" "list_all (opt_ok e) opts" "c \<notin> fst ` set opts" "distinct (map fst opts)"
    using Cons.prems(2,3) by (auto simp: o1)
  have d256: "length d < 256" using ok(1) by (simp add: opt_ok_def)
  have nc: "c \<noteq> DHCP_OPT_PAD" "c \<noteq> DHCP_OPT_END" using ok(1) by (simp_all add: opt_ok_def)
  have len: "k + 2 + length d < len" using x assms(2) by (simp add: k_def)
  then have fit: "\<not> length d > len - (k + 2)" by linarith
  have b0: "b (w + k) = c" using assms(1)[of k] len by (simp add: x nth_append k_def)
  have b1: "b (w + (k + 1)) = of_nat (length d)" using assms(1)[of "k + 1"] len by (simp add: x nth_append k_def)
  have bd: "b (w + (k + 2) + i) = d ! i" if "i < length d" for i
    using assms(1)[of "k + 2 + i"] len that by (simp add: x nth_append k_def add.assoc)
  have n: "unat (of_nat (length d) :: u8) = length d" using d256 by simp
  obtain offer1 where ap: "dhcp_apply_option b (w + (k + 2)) c (length d) e seen offer = Inr (seen \<or> c = DHCP_OPT_MSGTYPE, offer1)"
      "opts_offer opts offer1 = opts_offer ((c, d) # opts) offer"
    using apply_option_ok[OF ok(1) bd ok(3)] by blast
  have "dhcp_parse_options b w len e k seen offer = dhcp_parse_options b w len e (k + 2 + length d) (seen \<or> c = DHCP_OPT_MSGTYPE) offer1"
    using len fit b0 b1 n ap(1) nc by (subst dhcp_parse_options.simps) (simp add: Let_def)
  also have "\<dots> = (0, (seen \<or> c = DHCP_OPT_MSGTYPE) \<or> opt_has opts DHCP_OPT_MSGTYPE, opts_offer opts offer1)"
    using Cons.IH[OF x ok(2,4), of "seen \<or> c = DHCP_OPT_MSGTYPE" offer1] by (simp add: k_def)
  finally have "dhcp_parse_options b w len e k seen offer = (0, (seen \<or> c = DHCP_OPT_MSGTYPE) \<or> opt_has opts DHCP_OPT_MSGTYPE, opts_offer opts offer1)" .
  moreover have "((seen \<or> c = DHCP_OPT_MSGTYPE) \<or> opt_has opts DHCP_OPT_MSGTYPE) = (seen \<or> opt_has ((c, d) # opts) DHCP_OPT_MSGTYPE)"
    unfolding opt_has_Cons by blast
  ultimately show ?case unfolding o1 k_def[symmetric] ap(2) by simp
qed

subsection \<open>Replies\<close>

text \<open>A reply as it lies on the wire after the UDP header: a fixed part, options, an end mark, and whatever follows.\<close>

definition reply_fixed :: "u32 \<Rightarrow> u32 \<Rightarrow> u8 list \<Rightarrow> bool" where
  "reply_fixed xid address hdr \<longleftrightarrow> length hdr = 240 \<and> hdr ! 0 = RIX_DHCP_OP_REPLY \<and>
     word32 (hdr ! 4) (hdr ! 5) (hdr ! 6) (hdr ! 7) = xid \<and> word32 (hdr ! 16) (hdr ! 17) (hdr ! 18) (hdr ! 19) = address \<and>
     hdr ! 236 = 99 \<and> hdr ! 237 = 130 \<and> hdr ! 238 = 83 \<and> hdr ! 239 = 99"

definition reply_opts_ok :: "u8 \<Rightarrow> dhcp_opt list \<Rightarrow> bool" where
  "reply_opts_ok e opts \<longleftrightarrow> list_all (opt_ok e) opts \<and> distinct (map fst opts) \<and> opt_has opts DHCP_OPT_MSGTYPE"

definition reply_bytes :: "u8 list \<Rightarrow> dhcp_opt list \<Rightarrow> u8 list \<Rightarrow> u8 list" where
  "reply_bytes hdr opts rest = hdr @ opts_bytes opts @ DHCP_OPT_END # rest"

definition offer_of :: "u32 \<Rightarrow> dhcp_opt list \<Rightarrow> rix_dhcp_offer" where
  "offer_of address opts = opts_offer opts
     \<lparr>of_address = address, of_netmask = 0, of_gateway = 0, of_dns = 0, of_server = 0, of_lease_seconds = 0,
      of_has_netmask = False, of_has_gateway = False, of_has_dns = False\<rparr>"

lemma length_opts_bytes:
  assumes "reply_opts_ok e opts"
  shows "3 \<le> length (opts_bytes opts)"
proof -
  obtain d where d: "(DHCP_OPT_MSGTYPE, d) \<in> set opts" using assms by (auto simp: reply_opts_ok_def opt_has_def)
  then have "opt_ok e (DHCP_OPT_MSGTYPE, d)" using assms by (auto simp: reply_opts_ok_def list_all_iff)
  then have "length (opt_bytes (DHCP_OPT_MSGTYPE, d)) = 3" by (simp add: opt_ok_def opt_bytes_def)
  moreover obtain xs ys where "opts = xs @ (DHCP_OPT_MSGTYPE, d) # ys" using d by (metis split_list)
  ultimately show ?thesis by (simp add: opts_bytes_def)
qed

lemma parse_reply_ok:
  assumes "packet_ok p" "pk_view p = reply_bytes hdr opts rest" "reply_fixed xid address hdr" "reply_opts_ok e opts" "xid \<noteq> 0" "address \<noteq> 0"
  shows "rix_net_dhcp_parse_reply p xid e offer = (0, offer_of address opts)"
proof -
  define w where "w = pk_start p"
  define b where "b = pk_bytes p"
  define xs where "xs = reply_bytes hdr opts rest"
  define len where "len = pk_length p"
  have len: "length xs = len" using assms(2) length_pk_view[of p] by (simp add: xs_def len_def)
  have h240: "length hdr = 240" using assms(3) by (simp add: reply_fixed_def)
  have l244: "244 \<le> len" using len length_opts_bytes[OF assms(4)] h240 by (simp add: xs_def reply_bytes_def)
  have at: "b (w + i) = xs ! i" if "i < len" for i using pk_view_nth[of i p] that assms(2) by (simp add: b_def w_def len_def xs_def)
  have hb: "b (w + i) = hdr ! i" if "i < 240" for i using at[of i] that l244 h240 by (simp add: xs_def reply_bytes_def nth_append)
  have f: "b w = RIX_DHCP_OP_REPLY" "get_be32 b (w + 4) = xid" "get_be32 b (w + 16) = address"
      "b (w + 236) = 99" "b (w + 237) = 130" "b (w + 238) = 83" "b (w + 239) = 99"
    using hb[of 0] hb[of 4] hb[of 5] hb[of 6] hb[of 7] hb[of 16] hb[of 17] hb[of 18] hb[of 19] hb[of 236] hb[of 237] hb[of 238] hb[of 239] assms(3)
    by (simp_all add: get_be32_word reply_fixed_def ac_simps)
  define offer2 where "offer2 = offer\<lparr>of_address := address, of_netmask := 0, of_gateway := 0, of_dns := 0, of_server := 0, of_lease_seconds := 0,
      of_has_netmask := False, of_has_gateway := False, of_has_dns := False\<rparr>"
  have o2: "offer2 = \<lparr>of_address = address, of_netmask = 0, of_gateway = 0, of_dns = 0, of_server = 0, of_lease_seconds = 0,
      of_has_netmask = False, of_has_gateway = False, of_has_dns = False\<rparr>" by (simp add: offer2_def)
  have "dhcp_parse_options b w len e (length hdr) False offer2 = (0, False \<or> opt_has opts DHCP_OPT_MSGTYPE, opts_offer opts offer2)"
    by (rule parse_options_ok[OF at len]) (use assms(4) in \<open>simp_all add: xs_def reply_bytes_def reply_opts_ok_def\<close>)
  then have po: "dhcp_parse_options b w len e 240 False offer2 = (0, True, offer_of address opts)"
    using h240 assms(4) by (simp add: reply_opts_ok_def offer_of_def o2)
  show ?thesis
    using f l244 po assms(5,6)
    by (simp add: rix_net_dhcp_parse_reply_def rix_net_packet_length_def packet_data_ok[OF assms(1)] Let_def
        w_def[symmetric] b_def[symmetric] len_def[symmetric] offer2_def)
qed

subsection \<open>Requests\<close>

lemma store_byte_update:
  "i < length xs \<Longrightarrow> (store_bytes b off xs)(off + i := v) = store_bytes b off (xs[i := v])"
  by (rule ext) (auto simp: store_bytes_at nth_list_update)

lemma put_append:
  assumes "packet_ok p" "pk_start p + pk_length p + length xs \<le> RIX_NET_FRAME_CAPACITY"
  obtains body p1 where "rix_net_packet_put p (length xs) = (0, body, p1)"
    "packet_ok (p1\<lparr>pk_bytes := store_bytes (pk_bytes p1) body xs\<rparr>)" "pk_start p1 = pk_start p"
    "pk_length p1 = pk_length p + length xs"
    "pk_view (p1\<lparr>pk_bytes := store_bytes (pk_bytes p1) body xs\<rparr>) = pk_view p @ xs"
proof (rule that)
  show "rix_net_packet_put p (length xs) = (0, pk_start p + pk_length p, p\<lparr>pk_length := pk_length p + length xs\<rparr>)"
    by (rule put_eq[OF assms])
  show "pk_view (p\<lparr>pk_length := pk_length p + length xs,
          pk_bytes := store_bytes (pk_bytes (p\<lparr>pk_length := pk_length p + length xs\<rparr>)) (pk_start p + pk_length p) xs\<rparr>) = pk_view p @ xs"
    using put_view[of p xs] by simp
qed (use assms in \<open>simp_all add: packet_ok_def\<close>)

lemma dhcp_option_view:
  assumes "packet_ok p" "pk_start p + pk_length p + 2 + length d \<le> RIX_NET_FRAME_CAPACITY"
  shows "\<exists>p'. dhcp_option p c d = (0, p') \<and> packet_ok p' \<and> pk_start p' = pk_start p \<and> pk_view p' = pk_view p @ opt_bytes (c, d)"
proof -
  have l: "length (opt_bytes (c, d)) = 2 + length d" by (simp add: opt_bytes_def)
  obtain body p1 where a: "rix_net_packet_put p (2 + length d) = (0, body, p1)"
    "packet_ok (p1\<lparr>pk_bytes := store_bytes (pk_bytes p1) body (opt_bytes (c, d))\<rparr>)" "pk_start p1 = pk_start p"
    "pk_view (p1\<lparr>pk_bytes := store_bytes (pk_bytes p1) body (opt_bytes (c, d))\<rparr>) = pk_view p @ opt_bytes (c, d)"
    by (rule put_append[of p "opt_bytes (c, d)"]) (use assms l in \<open>simp_all\<close>)
  have st: "store_bytes ((pk_bytes p1)(body := c, body + 1 := of_nat (length d))) (body + 2) d = store_bytes (pk_bytes p1) body (opt_bytes (c, d))"
    unfolding stores by (simp add: store_bytes_extend opt_bytes_def)
  show ?thesis unfolding dhcp_option_def a(1) prod.case Let_def st using a(2-4) by simp
qed

lemma dhcp_pad_view:
  assumes "packet_ok p" "pk_start p + 300 \<le> RIX_NET_FRAME_CAPACITY" "pk_length p < 300"
  shows "\<exists>p'. dhcp_pad p = (0, p') \<and> packet_ok p' \<and> pk_start p' = pk_start p \<and>
           pk_view p' = pk_view p @ DHCP_OPT_END # replicate (299 - pk_length p) 0"
proof -
  obtain body p1 where a: "rix_net_packet_put p 1 = (0, body, p1)"
    "packet_ok (p1\<lparr>pk_bytes := store_bytes (pk_bytes p1) body [DHCP_OPT_END]\<rparr>)" "pk_start p1 = pk_start p" "pk_length p1 = pk_length p + 1"
    "pk_view (p1\<lparr>pk_bytes := store_bytes (pk_bytes p1) body [DHCP_OPT_END]\<rparr>) = pk_view p @ [DHCP_OPT_END]"
    by (rule put_append[of p "[DHCP_OPT_END]"]) (use assms in simp_all)
  define p2 where "p2 = p1\<lparr>pk_bytes := store_bytes (pk_bytes p1) body [DHCP_OPT_END]\<rparr>"
  have p2: "pk_start p2 = pk_start p" "pk_length p2 = pk_length p + 1" "packet_ok p2" using a by (simp_all add: p2_def)
  define zs :: "u8 list" where "zs = replicate (299 - pk_length p) 0"
  have sub: "sub64 300 (pk_length p2) = length zs" using assms(3) p2(2) by (simp add: sub64_le zs_def)
  obtain body2 p3 where c: "rix_net_packet_put p2 (length zs) = (0, body2, p3)"
    "packet_ok (p3\<lparr>pk_bytes := store_bytes (pk_bytes p3) body2 zs\<rparr>)" "pk_start p3 = pk_start p2"
    "pk_view (p3\<lparr>pk_bytes := store_bytes (pk_bytes p3) body2 zs\<rparr>) = pk_view p2 @ zs"
    by (rule put_append[of p2 zs]) (use assms p2 in \<open>simp_all add: zs_def\<close>)
  have z: "replicate (length zs) 0 = zs" by (simp add: zs_def)
  have "dhcp_pad p = (0, p3\<lparr>pk_bytes := store_bytes (pk_bytes p3) body2 zs\<rparr>)"
    unfolding dhcp_pad_def a(1) prod.case Let_def fun_upd_store RIX_DHCP_MIN_SIZE_def rix_net_packet_length_def
      p2_def[symmetric] sub c(1) z using assms(3) by simp
  then show ?thesis using c(2-4) p2 a(5) by (simp add: p2_def zs_def)
qed

lemma dhcp_options_view:
  assumes "packet_ok p" "pk_start p + 300 \<le> RIX_NET_FRAME_CAPACITY" "pk_length p + length (opts_bytes opts) < 300"
  shows "\<exists>p' pad. dhcp_options p opts = (0, p') \<and> packet_ok p' \<and> pk_start p' = pk_start p \<and>
           pk_view p' = pk_view p @ opts_bytes opts @ DHCP_OPT_END # pad \<and> pk_length p' = 300"
  using assms
proof (induction opts arbitrary: p)
  case Nil
  obtain p' where "dhcp_pad p = (0, p')" "packet_ok p'" "pk_start p' = pk_start p"
      "pk_view p' = pk_view p @ DHCP_OPT_END # replicate (299 - pk_length p) 0"
    using dhcp_pad_view[of p] Nil by (auto simp: opts_bytes_def)
  moreover from this have "pk_length p' = 300" using length_pk_view[of p'] Nil(3) by (simp add: opts_bytes_def)
  ultimately show ?case by (simp add: opts_bytes_def)
next
  case (Cons o1 opts)
  obtain c d where o1: "o1 = (c, d)" by (cases o1)
  have l: "length (opts_bytes (o1 # opts)) = 2 + length d + length (opts_bytes opts)" by (simp add: opts_bytes_def opt_bytes_def o1)
  obtain p1 where p1: "dhcp_option p c d = (0, p1)" "packet_ok p1" "pk_start p1 = pk_start p" "pk_view p1 = pk_view p @ opt_bytes (c, d)"
    using dhcp_option_view[of p d c] Cons.prems l by auto
  have len1: "pk_length p1 = pk_length p + 2 + length d" using length_pk_view[of p1] p1(4) by (simp add: opt_bytes_def)
  obtain p' pad where "dhcp_options p1 opts = (0, p')" "packet_ok p'" "pk_start p' = pk_start p1"
      "pk_view p' = pk_view p1 @ opts_bytes opts @ DHCP_OPT_END # pad" "pk_length p' = 300"
    using Cons.IH[OF p1(2)] Cons.prems(2,3) p1(3) len1 l by auto
  then show ?case using p1 by (simp add: o1 opts_bytes_def)
qed

definition dhcp_header_bytes :: "u8 \<Rightarrow> u32 \<Rightarrow> mac \<Rightarrow> u8 list" where
  "dhcp_header_bytes op xid m =
     ((take 28 ((take 4 ((replicate 240 0)[0 := op, 1 := 1, 2 := 6]) @ bytes32 xid @ replicate 232 0)[10 := 0x80])) @ m @ replicate 206 0)
       [236 := 99, 237 := 130, 238 := 83, 239 := 99]"

lemma store_sublist:
  "i + length ys \<le> length xs \<Longrightarrow> store_bytes (store_bytes b off xs) (off + i) ys = store_bytes b off (take i xs @ ys @ drop (i + length ys) xs)"
  by (rule ext) (auto simp: store_bytes_at nth_append min_def)

lemma dhcp_header_view:
  assumes "packet_ok p" "pk_start p + pk_length p + 240 \<le> RIX_NET_FRAME_CAPACITY" "length m = 6"
  shows "\<exists>p'. dhcp_header p op xid m = (0, p') \<and> packet_ok p' \<and> pk_start p' = pk_start p \<and>
           pk_view p' = pk_view p @ dhcp_header_bytes op xid m"
proof -
  have l: "length (dhcp_header_bytes op xid m) = 240" using assms(3) by (simp add: dhcp_header_bytes_def)
  obtain body p1 where a: "rix_net_packet_put p 240 = (0, body, p1)"
    "packet_ok (p1\<lparr>pk_bytes := store_bytes (pk_bytes p1) body (dhcp_header_bytes op xid m)\<rparr>)" "pk_start p1 = pk_start p"
    "pk_view (p1\<lparr>pk_bytes := store_bytes (pk_bytes p1) body (dhcp_header_bytes op xid m)\<rparr>) = pk_view p @ dhcp_header_bytes op xid m"
    by (rule put_append[of p "dhcp_header_bytes op xid m"]) (use assms l in \<open>simp_all\<close>)
  let ?s = "store_bytes (pk_bytes p1) body"
  have upd: "(?s xs)(body + i := v) = ?s (xs[i := v])" if "i < length xs" for xs i v using that by (rule store_byte_update)
  have upd0: "(?s xs)(body := v) = ?s (xs[0 := v])" if "0 < length xs" for xs v using upd[of 0 xs v] that by simp
  have e1: "(?s (replicate 240 0))(body := op, body + 1 := 1, body + 2 := 6) = ?s ((replicate 240 0)[0 := op, 1 := 1, 2 := 6])"
    by (subst upd0, simp, subst upd, simp, subst upd, simp, rule refl)
  have e2: "put_be32 (?s ((replicate 240 0)[0 := op, 1 := 1, 2 := 6])) (body + 4) xid =
      ?s (take 4 ((replicate 240 0)[0 := op, 1 := 1, 2 := 6]) @ bytes32 xid @ replicate 232 0)"
    unfolding put_be32_store by (subst store_sublist) simp_all
  let ?x = "(take 4 ((replicate 240 0)[0 := op, 1 := 1, 2 := 6]) @ bytes32 xid @ replicate 232 0)[10 := 0x80]"
  have e3: "store_bytes (?s ?x) (body + 28) m = ?s (take 28 ?x @ m @ replicate 206 0)"
    by (subst store_sublist) (simp_all add: drop_update_cancel assms(3))
  have e4: "(?s (take 28 ?x @ m @ replicate 206 0))(body + 236 := 99, body + 237 := 130, body + 238 := 83, body + 239 := 99) = ?s (dhcp_header_bytes op xid m)"
    unfolding dhcp_header_bytes_def
    by (subst upd, simp add: assms(3), subst upd, simp add: assms(3), subst upd, simp add: assms(3), subst upd, simp add: assms(3), rule refl)
  have "dhcp_header p op xid m = (0, p1\<lparr>pk_bytes := ?s (dhcp_header_bytes op xid m)\<rparr>)"
    unfolding dhcp_header_def a(1) prod.case Let_def e1 e2
    by (subst upd, simp) (simp only: map_nth6[OF assms(3)] e3 e4 if_False simp_thms)
  then show ?thesis using a(2-4) by simp
qed

lemma length_dhcp_header_bytes [simp]: "length m = 6 \<Longrightarrow> length (dhcp_header_bytes op xid m) = 240"
  by (simp add: dhcp_header_bytes_def)

lemma dhcp_message_view:
  assumes "length m = 6" "length (opts_bytes opts) < 60"
  shows "\<exists>p' pad. (case dhcp_header (rix_net_packet_init p) op xid m of (rc, p1) \<Rightarrow> if rc \<noteq> 0 then (-1, p1) else dhcp_options p1 opts) = (0, p') \<and>
           packet_ok p' \<and> pk_start p' = 64 \<and> pk_length p' = 300 \<and>
           pk_view p' = dhcp_header_bytes op xid m @ opts_bytes opts @ DHCP_OPT_END # pad"
proof -
  obtain p1 where p1: "dhcp_header (rix_net_packet_init p) op xid m = (0, p1)" "packet_ok p1" "pk_start p1 = 64"
      "pk_view p1 = dhcp_header_bytes op xid m"
    using dhcp_header_view[OF init_packet(1), of p m op xid] init_packet(2-4)[of p] assms(1) by auto
  have "pk_length p1 = 240" using length_pk_view[of p1] p1(4) assms(1) by simp
  then show ?thesis using dhcp_options_view[OF p1(2), of opts] p1 assms(2) by auto
qed

lemma dhcp_discover_view:
  assumes "length m = 6" "xid \<noteq> 0"
  shows "\<exists>p' pad. rix_net_dhcp_build_discover (rix_net_packet_init p) xid m = (0, p') \<and> packet_ok p' \<and> pk_start p' = 64 \<and> pk_length p' = 300 \<and>
           pk_view p' = dhcp_header_bytes RIX_DHCP_OP_REQUEST xid m @
             opts_bytes [(DHCP_OPT_MSGTYPE, [RIX_DHCP_MSG_DISCOVER]), (DHCP_OPT_CLIENT_ID, 1 # m), (DHCP_OPT_PRL, [1, 3, 6])] @ DHCP_OPT_END # pad"
  using dhcp_message_view[OF assms(1), of "[(DHCP_OPT_MSGTYPE, [RIX_DHCP_MSG_DISCOVER]), (DHCP_OPT_CLIENT_ID, 1 # m), (DHCP_OPT_PRL, [1, 3, 6])]"
      p RIX_DHCP_OP_REQUEST xid] assms(2)
  unfolding rix_net_dhcp_build_discover_def map_nth6[OF assms(1)] by (simp add: opts_bytes_def opt_bytes_def assms(1))

lemma be32_bytes_eq: "be32_bytes v = bytes32 v"
  by (simp add: be32_bytes_def put_be32_def bytes32_def upt_rec)

definition request_opts :: "mac \<Rightarrow> u32 \<Rightarrow> u32 \<Rightarrow> dhcp_opt list" where
  "request_opts m requested_ip server =
     [(DHCP_OPT_MSGTYPE, [RIX_DHCP_MSG_REQUEST]), (DHCP_OPT_REQIP, bytes32 requested_ip), (DHCP_OPT_CLIENT_ID, 1 # m)] @
     (if server \<noteq> 0 then [(DHCP_OPT_SERVER, bytes32 server)] else []) @ [(DHCP_OPT_PRL, [1, 3, 6])]"

lemma dhcp_request_view:
  assumes "length m = 6" "xid \<noteq> 0" "ip \<noteq> 0"
  shows "\<exists>p' pad. rix_net_dhcp_build_request_for_server (rix_net_packet_init p) xid m ip server = (0, p') \<and> packet_ok p' \<and> pk_start p' = 64 \<and>
           pk_length p' = 300 \<and>
           pk_view p' = dhcp_header_bytes RIX_DHCP_OP_REQUEST xid m @ opts_bytes (request_opts m ip server) @ DHCP_OPT_END # pad"
proof -
  obtain a b c d e f where m: "m = [a, b, c, d, e, f]" using length6[OF assms(1)] by blast
  have l: "length (opts_bytes (request_opts m ip server)) < 60"
    using assms(1) by (simp add: request_opts_def opts_bytes_def opt_bytes_def)
  have r: "[(DHCP_OPT_MSGTYPE, [RIX_DHCP_MSG_REQUEST]), (DHCP_OPT_REQIP, be32_bytes ip),
      (DHCP_OPT_CLIENT_ID, [1, m ! 0, m ! 1, m ! 2, m ! 3, m ! 4, m ! 5])] @
      (if server \<noteq> 0 then [(DHCP_OPT_SERVER, be32_bytes server)] else []) @ [(DHCP_OPT_PRL, [1, 3, 6])] = request_opts m ip server"
    by (simp add: request_opts_def be32_bytes_eq m)
  show ?thesis
    using dhcp_message_view[OF assms(1) l, of p RIX_DHCP_OP_REQUEST xid] assms(2,3)
    unfolding rix_net_dhcp_build_request_for_server_def r by simp
qed

lemma dhcp_udp_push_ok:
  assumes "packet_ok p" "8 \<le> pk_start p"
  shows "\<exists>p'. dhcp_udp_push p = (0, p') \<and> packet_ok p' \<and> pk_start p' = pk_start p - 8 \<and> pk_length p' = pk_length p + 8"
  using assms push_eq[OF assms(2)] by (simp add: dhcp_udp_push_def rix_net_packet_length_def Let_def packet_ok_def)

lemma dhcp_transmit_ok:
  assumes "packet_ok p" "pk_start p = 64" "length m = 6" "dv_present (dv_info dev)" "device_controller env dev = Some nic"
    and "\<And>r f. 0 \<le> env_transmit env r f"
  shows "0 \<le> fst (dhcp_transmit env dev p m)"
proof -
  obtain p1 where p1: "dhcp_udp_push p = (0, p1)" "packet_ok p1" "pk_start p1 = 56"
    using dhcp_udp_push_ok[OF assms(1)] assms(2) by auto
  obtain p2 where p2: "rix_net_ipv4_push p1 0 0xffffffff RIX_NET_IP_PROTO_UDP 64 0 0 = (0, p2)" "packet_ok p2" "pk_start p2 = 36"
    using ipv4_push_view[OF p1(2), of 64 0 "0xffffffff" RIX_NET_IP_PROTO_UDP 0 0] p1(3) by auto
  obtain p3 where p3: "rix_net_eth_push p2 broadcast_mac m RIX_NET_ETHERTYPE_IPV4 = (0, p3)" "packet_ok p3"
      "pk_view p3 = broadcast_mac @ m @ bytes16 RIX_NET_ETHERTYPE_IPV4 @ pk_view p2"
    using eth_push_view[OF p2(2), of broadcast_mac m RIX_NET_ETHERTYPE_IPV4] p2(3) assms(3)
    by (auto simp: broadcast_mac_def rix_net_ethertype_supported_def)
  have "0 < pk_length p3" using length_pk_view[of p3] p3(3) by (simp add: broadcast_mac_def)
  then show ?thesis
    using p1(1) p2(1) p3(1) assms(6) by (simp add: dhcp_transmit_def device_transmit_ok[OF p3(2) _ assms(4,5)])
qed

subsection \<open>Polls\<close>

text \<open>A frame that carries a message from a server's port to the client's port, padded by the link.\<close>

definition dhcp_frame :: "mac \<Rightarrow> mac \<Rightarrow> u32 \<Rightarrow> u32 \<Rightarrow> u8 \<Rightarrow> u8 list \<Rightarrow> u8 list \<Rightarrow> u8 list" where
  "dhcp_frame dm sm s d ttl msg pad =
     eth_enc (dm, sm, RIX_NET_ETHERTYPE_IPV4)
       (ipv4_enc (s, d, RIX_NET_IP_PROTO_UDP, ttl, 0, 0) (udp_enc (s, d) (RIX_DHCP_SERVER_PORT, RIX_DHCP_CLIENT_PORT) msg) @ pad)"

definition frame_ok :: "mac \<Rightarrow> mac \<Rightarrow> u32 \<Rightarrow> u32 \<Rightarrow> u8 \<Rightarrow> u8 list \<Rightarrow> u8 list \<Rightarrow> bool" where
  "frame_ok dm sm s d ttl msg pad \<longleftrightarrow> length dm = 6 \<and> length sm = 6 \<and> s \<noteq> 0 \<and> d \<noteq> 0 \<and> ttl \<noteq> 0 \<and> length (dhcp_frame dm sm s d ttl msg pad) \<le> 1516"

lemma ipv4_pull_enc:
  assumes "packet_ok q" "pk_view q = ipv4_enc (s, d, pr, t, i, f) xs @ pad"
  shows "\<exists>q' ip. rix_net_ipv4_pull q h0 = (0, ip, q') \<and> packet_ok q' \<and> pk_view q' = xs \<and> ip_source ip = s \<and> ip_destination ip = d \<and> ip_protocol ip = pr"
  using ipv4_pull_view[OF assms(1), of xs s d pr t i f pad h0] assms(2) by (auto simp: ipv4_enc_def)

lemma dhcp_poll_accepts:
  assumes "dv_present (dv_info dev)" "device_controller env dev = Some nic"
    and "env_receive env (dv_use_rtl8125 dev) = (r, dhcp_frame dm sm s d ttl (reply_bytes hdr opts rest) pad)" "0 < r"
    and "frame_ok dm sm s d ttl (reply_bytes hdr opts rest) pad"
    and "reply_fixed xid address hdr" "reply_opts_ok e opts" "xid \<noteq> 0" "address \<noteq> 0"
  shows "dhcp_poll_once env dev ip0 xid e offer stats = (1, offer_of address opts, stats\<lparr>ds_frames := ds_frames stats + 1\<rparr>)"
proof -
  let ?msg = "reply_bytes hdr opts rest"
  have fo: "length dm = 6" "length sm = 6" "s \<noteq> 0" "d \<noteq> 0" "ttl \<noteq> 0" "length (dhcp_frame dm sm s d ttl ?msg pad) \<le> 1516"
    using assms(5) by (simp_all add: frame_ok_def)
  obtain q where q: "rix_net_device_receive env dev (rix_net_packet_init (env_local env)) = (r, q)" "packet_ok q"
      "pk_view q = dhcp_frame dm sm s d ttl ?msg pad"
    using device_receive_ok[OF assms(1-4) fo(6)] by blast
  obtain q1 where q1: "rix_net_eth_pull q = (0, Some \<lparr>eth_destination = dm, eth_source = sm, eth_type = RIX_NET_ETHERTYPE_IPV4\<rparr>, q1)" "packet_ok q1"
      "pk_view q1 = ipv4_enc (s, d, RIX_NET_IP_PROTO_UDP, ttl, 0, 0) (udp_enc (s, d) (RIX_DHCP_SERVER_PORT, RIX_DHCP_CLIENT_PORT) ?msg) @ pad"
    using eth_pull_view[OF q(2) _ fo(1,2), of RIX_NET_ETHERTYPE_IPV4] q(3)
    by (auto simp: dhcp_frame_def eth_enc_def rix_net_ethertype_supported_def)
  obtain q2 ip where q2: "rix_net_ipv4_pull q1 ip0 = (0, ip, q2)" "packet_ok q2"
      "pk_view q2 = udp_enc (s, d) (RIX_DHCP_SERVER_PORT, RIX_DHCP_CLIENT_PORT) ?msg"
      "ip_source ip = s" "ip_destination ip = d" "ip_protocol ip = RIX_NET_IP_PROTO_UDP"
    using ipv4_pull_enc[OF q1(2,3)] by blast
  have uv: "udp_valid (s, d) (RIX_DHCP_SERVER_PORT, RIX_DHCP_CLIENT_PORT)"
    using fo by (simp add: udp_valid_def RIX_DHCP_SERVER_PORT_def RIX_DHCP_CLIENT_PORT_def)
  obtain q3 where q3: "rix_net_udp_pull q2 s d = (0, Some (udp_hdr (s, d) (RIX_DHCP_SERVER_PORT, RIX_DHCP_CLIENT_PORT) ?msg), q3)" "packet_ok q3"
      "pk_view q3 = ?msg"
    using udp_pull_view[OF q2(2) uv q2(3)] by (auto simp: udp_pull'_def)
  have pr: "rix_net_dhcp_parse_reply q3 xid e offer = (0, offer_of address opts)"
    by (rule parse_reply_ok[OF q3(2,3) assms(6-9)])
  show ?thesis
    using q(1) q1(1) q2(1,4-6) q3(1) pr assms(4,8) by (simp add: dhcp_poll_once_def Let_def udp_hdr_def)
qed

end
