(* ===== verification/Dhcp_Run.thy ===== *)
theory Dhcp_Run
  imports Dhcp_Properties
begin

text \<open>
  The whole exchange of \<^verbatim>\<open>kernel/net/dhcp.c\<close>: \<open>rix_net_dhcp_run\<close> configures the device from the server's answers, also when
  the first messages are lost, and leaves the device alone when it fails.
\<close>

subsection \<open>Polls without an answer\<close>











subsection \<open>Rounds\<close>




subsection \<open>The run\<close>












subsection \<open>A server\<close>














end
