(* ===== verification/Block.thy ===== *)
theory Block
  imports Rix_Prelude
begin

text \<open>
  The block layer: \<^verbatim>\<open>kernel/storage/block.c\<close> and the PRP builder of \<^verbatim>\<open>kernel/storage/nvme_prp.c\<close>.  A device is known by its
  number, which stands for the address of its structure.  A driver is a function on a state of its own; a request
  reports through its state field and the code the driver returns.
\<close>

subsection \<open>Requests and devices\<close>

type_synonym buffer = "nat \<Rightarrow> u8"

datatype rix_bio_op = RIX_BIO_READ | RIX_BIO_WRITE | RIX_BIO_FLUSH
datatype rix_bio_state = RIX_BIO_PENDING | RIX_BIO_COMPLETE | RIX_BIO_ERROR | RIX_BIO_TIMEOUT

record rix_bio =
  bio_op :: rix_bio_op
  bio_sector :: u64
  bio_count :: u32
  bio_buffer :: "buffer option"
  bio_buffer_size :: nat
  bio_state :: rix_bio_state
  bio_error :: rc

record rix_block_device =
  bd_name :: string
  bd_sector_size :: u32
  bd_sector_count :: u64
  bd_max_sectors :: u32
  bd_submit :: bool

text \<open>What a driver does with a request to a device.\<close>

type_synonym 'w driver = "nat \<Rightarrow> rix_bio \<Rightarrow> 'w \<Rightarrow> rc \<times> rix_bio \<times> 'w"

definition RIX_BLOCK_NAME_MAX :: nat where "RIX_BLOCK_NAME_MAX = 32"
definition RIX_BLOCK_MAX_DEVICES :: nat where "RIX_BLOCK_MAX_DEVICES = 32"
definition RIX_BIO_MAX_SECTORS :: u32 where "RIX_BIO_MAX_SECTORS = 128"

subsection \<open>The registry\<close>

text \<open>The table of devices in the order they were registered; the structures live in \<open>br_store\<close>.\<close>

record block_registry =
  br_devices :: "nat list"
  br_store :: "nat \<Rightarrow> rix_block_device"

definition block_init :: "block_registry \<Rightarrow> rc \<times> block_registry" where
  "block_init r = (0, r\<lparr>br_devices := []\<rparr>)"

text \<open>A name is the text before its terminating zero.\<close>

definition name_len :: "string \<Rightarrow> nat" where
  "name_len s = min (length s) RIX_BLOCK_NAME_MAX"

text \<open>The comparison looks at no more than \<open>RIX_BLOCK_NAME_MAX\<close> characters and then at the two that follow.\<close>

fun name_eq_from :: "nat \<Rightarrow> string \<Rightarrow> string \<Rightarrow> bool" where
  "name_eq_from (Suc n) (x # xs) (y # ys) = (if x \<noteq> y then False else name_eq_from n xs ys)"
| "name_eq_from n xs ys = (case (xs, ys) of ([], []) \<Rightarrow> True | (x # _, y # _) \<Rightarrow> x = y | _ \<Rightarrow> False)"

definition name_eq :: "string \<Rightarrow> string \<Rightarrow> bool" where
  "name_eq a b = name_eq_from RIX_BLOCK_NAME_MAX a b"

definition block_find :: "block_registry \<Rightarrow> string \<Rightarrow> nat option" where
  "block_find r name = find (\<lambda>d. name_eq (bd_name (br_store r d)) name) (br_devices r)"

definition block_register :: "block_registry \<Rightarrow> nat \<Rightarrow> rc \<times> block_registry" where
  "block_register r d =
     (let dev = br_store r d in
      if bd_name dev = [] \<or> bd_sector_size dev = 0 \<or> bd_sector_count dev = 0 \<or> \<not> bd_submit dev then (-1, r)
      else if name_len (bd_name dev) \<ge> RIX_BLOCK_NAME_MAX then (-1, r)
      else if block_find r (bd_name dev) \<noteq> None then (-1, r)
      else let r1 = (if bd_max_sectors dev = 0 \<or> bd_max_sectors dev > RIX_BIO_MAX_SECTORS
                     then r\<lparr>br_store := (br_store r)(d := dev\<lparr>bd_max_sectors := RIX_BIO_MAX_SECTORS\<rparr>)\<rparr> else r)
           in if length (br_devices r1) \<ge> RIX_BLOCK_MAX_DEVICES then (-1, r1)
              else (0, r1\<lparr>br_devices := br_devices r1 @ [d]\<rparr>))"

definition block_device_at :: "block_registry \<Rightarrow> nat \<Rightarrow> nat option" where
  "block_device_at r i = (if i < length (br_devices r) then Some (br_devices r ! i) else None)"

definition block_device_count :: "block_registry \<Rightarrow> nat" where
  "block_device_count r = length (br_devices r)"

subsection \<open>Submission\<close>

text \<open>The call of the driver and the reading of its answer, common to flushes and transfers.\<close>

definition submit_checked :: "'w driver \<Rightarrow> nat \<Rightarrow> rix_bio \<Rightarrow> 'w \<Rightarrow> rc \<times> rix_bio \<times> 'w" where
  "submit_checked drv d bio w =
     (case drv d (bio\<lparr>bio_state := RIX_BIO_PENDING, bio_error := 0\<rparr>) w of
        (rc, bio1, w1) \<Rightarrow>
          if rc \<noteq> 0 then (rc, bio1\<lparr>bio_state := RIX_BIO_ERROR, bio_error := rc\<rparr>, w1)
          else if bio_state bio1 \<noteq> RIX_BIO_COMPLETE
          then (-1, bio1\<lparr>bio_state := RIX_BIO_ERROR, bio_error := (if bio_error bio1 \<noteq> 0 then bio_error bio1 else -1)\<rparr>, w1)
          else (0, bio1, w1))"

definition block_submit :: "'w driver \<Rightarrow> (nat \<Rightarrow> rix_block_device) \<Rightarrow> nat \<Rightarrow> rix_bio \<Rightarrow> 'w \<Rightarrow> rc \<times> rix_bio \<times> 'w" where
  "block_submit drv devs d bio w =
     (let dev = devs d in
      if \<not> bd_submit dev then (-1, bio, w)
      else if bio_op bio = RIX_BIO_FLUSH then (if bio_count bio \<noteq> 0 then (-1, bio, w) else submit_checked drv d bio w)
      else if bio_count bio = 0 \<or> bio_count bio > bd_max_sectors dev \<or> bio_buffer bio = None \<or> bio_sector bio \<ge> bd_sector_count dev \<or>
              ucast (bio_count bio) > bd_sector_count dev - bio_sector bio then (-1, bio, w)
      else let bytes = unat (ucast (bio_count bio) * ucast (bd_sector_size dev) :: u64) in
        if bytes div unat (bio_count bio) \<noteq> unat (bd_sector_size dev) \<or> bio_buffer_size bio < bytes then (-1, bio, w)
        else submit_checked drv d bio w)"

subsection \<open>Physical region pages\<close>

definition PRP_PAGE :: u64 where "PRP_PAGE = 4096"

text \<open>The result carries the two entries and the list page; a null list is \<open>None\<close>.  The count of further pages is a natural
  number: a quotient by 4096 is far below \<^verbatim>\<open>SIZE_MAX\<close>, so the test against it before the increment cannot fire.\<close>

definition nvme_prp_build ::
    "u64 \<Rightarrow> u64 \<Rightarrow> u64 \<Rightarrow> u64 list \<Rightarrow> u64 list option \<Rightarrow> u64 \<Rightarrow> u64 \<Rightarrow> u64 \<Rightarrow> rc \<times> u64 \<times> u64 \<times> u64 list option" where
  "nvme_prp_build first_pa first_off bytes page_phys list list_phys prp1 prp2 =
     (let page_count = length page_phys in
      if page_count = 0 then (-1, prp1, prp2, list)
      else if first_off \<ge> PRP_PAGE \<or> bytes = 0 then (-1, prp1, prp2, list)
      else if page_count > unat ((- 1 :: u64) div PRP_PAGE) \<or> bytes > of_nat page_count * PRP_PAGE then (-1, prp1, prp2, list)
      else if first_pa AND 0xFFF \<noteq> 0 then (-1, prp1, prp2, list)
      else if page_phys ! 0 \<noteq> first_pa then (-1, prp1, prp2, list)
      else if \<not> list_all (\<lambda>p. p \<noteq> 0 \<and> p AND 0xFFF = 0) page_phys then (-1, prp1, prp2, list)
      else let first_bytes = PRP_PAGE - first_off in
        if first_pa > - 1 - first_off then (-1, prp1, prp2, list)
        else let prp1 = first_pa + first_off in
          if bytes \<le> first_bytes then (0, prp1, 0, list)
          else let remain = bytes - first_bytes;
                   need_pages = unat (remain div PRP_PAGE) + (if remain mod PRP_PAGE \<noteq> 0 then 1 else 0) in
            if need_pages \<ge> page_count then (-1, prp1, prp2, list)
            else if need_pages = 1 then (0, prp1, page_phys ! 1, list)
            else case list of
              None \<Rightarrow> (-1, prp1, prp2, list)
            | Some l \<Rightarrow>
                if length l = 0 \<or> list_phys = 0 \<or> list_phys AND 0xFFF \<noteq> 0 then (-1, prp1, prp2, list)
                else if need_pages > length l then (-1, prp1, prp2, list)
                else (0, prp1, list_phys, Some (take need_pages (drop 1 page_phys) @ drop need_pages l)))"

end
