(* ===== verification/Block_Cache.thy ===== *)
theory Block_Cache
  imports Block
begin

text \<open>
  The write-back cache of \<^verbatim>\<open>kernel/storage/block_cache.c\<close> above a driver given as a parameter.  Calls run one at a time: a
  function is the sequence of its critical sections and of the requests between them.  The sector buffers on the stack
  are zero where the code does not set them; a request tells the driver how many bytes of its buffer count.
\<close>

subsection \<open>The cache\<close>

definition CACHE_ENTRIES :: nat where "CACHE_ENTRIES = 64"
definition CACHE_SECTOR_BYTES :: u32 where "CACHE_SECTOR_BYTES = 4096"

record cache_entry =
  ce_device :: "nat option"
  ce_sector :: u64
  ce_valid :: bool
  ce_dirty :: bool
  ce_writeback :: bool
  ce_data :: buffer
  ce_age :: u64

record block_cache =
  bc_entries :: "nat \<Rightarrow> cache_entry"
  bc_clock :: u64

type_synonym devices = "nat \<Rightarrow> rix_block_device"

definition copy_n :: "u32 \<Rightarrow> buffer \<Rightarrow> buffer \<Rightarrow> buffer" where
  "copy_n n dst src = (\<lambda>i. if i < unat n then src i else dst i)"

definition block_cache_init :: "block_cache \<Rightarrow> rc \<times> block_cache" where
  "block_cache_init c =
     (0, c\<lparr>bc_entries := (\<lambda>i. if i < CACHE_ENTRIES
              then (bc_entries c i)\<lparr>ce_device := None, ce_valid := False, ce_dirty := False, ce_writeback := False, ce_age := 0\<rparr>
              else bc_entries c i), bc_clock := 0\<rparr>)"

definition sector_size_ok :: "devices \<Rightarrow> nat \<Rightarrow> bool" where
  "sector_size_ok devs d \<longleftrightarrow> bd_sector_size (devs d) \<noteq> 0 \<and> bd_sector_size (devs d) \<le> CACHE_SECTOR_BYTES"

text \<open>One request for a whole sector; the result is the buffer as the driver left it.\<close>

definition io :: "'w driver \<Rightarrow> devices \<Rightarrow> nat \<Rightarrow> rix_bio_op \<Rightarrow> u64 \<Rightarrow> buffer \<Rightarrow> 'w \<Rightarrow> rc \<times> buffer \<times> 'w" where
  "io drv devs d op sector b w =
     (if \<not> bd_submit (devs d) \<or> \<not> sector_size_ok devs d then (-1, b, w)
      else case drv d \<lparr>bio_op = op, bio_sector = sector, bio_count = 1, bio_buffer = Some b,
                       bio_buffer_size = unat (bd_sector_size (devs d)), bio_state = RIX_BIO_PENDING, bio_error = 0\<rparr> w of
        (r, bio, w1) \<Rightarrow>
          (if r \<noteq> 0 \<or> bio_state bio = RIX_BIO_ERROR \<or> bio_state bio = RIX_BIO_TIMEOUT then -1 else 0,
           case bio_buffer bio of Some b1 \<Rightarrow> b1 | None \<Rightarrow> b, w1))"

definition find_entry :: "block_cache \<Rightarrow> nat \<Rightarrow> u64 \<Rightarrow> nat option" where
  "find_entry c d s = find (\<lambda>i. ce_valid (bc_entries c i) \<and> ce_device (bc_entries c i) = Some d \<and> ce_sector (bc_entries c i) = s) [0..<CACHE_ENTRIES]"

text \<open>The first entry that is not in use, or the oldest one; entries being written are passed over.\<close>

fun victim_from :: "block_cache \<Rightarrow> nat list \<Rightarrow> nat option \<Rightarrow> nat option" where
  "victim_from c [] v = v"
| "victim_from c (i # is) v =
     (if ce_writeback (bc_entries c i) then victim_from c is v
      else if \<not> ce_valid (bc_entries c i) then Some i
      else victim_from c is (case v of None \<Rightarrow> Some i | Some j \<Rightarrow> if ce_age (bc_entries c i) < ce_age (bc_entries c j) then Some i else Some j))"

definition victim :: "block_cache \<Rightarrow> nat option" where
  "victim c = victim_from c [0..<CACHE_ENTRIES] None"

definition upd_entry :: "block_cache \<Rightarrow> nat \<Rightarrow> (cache_entry \<Rightarrow> cache_entry) \<Rightarrow> block_cache" where
  "upd_entry c i f = c\<lparr>bc_entries := (bc_entries c)(i := f (bc_entries c i))\<rparr>"

definition invalidate :: "cache_entry \<Rightarrow> cache_entry" where
  "invalidate e = e\<lparr>ce_valid := False, ce_dirty := False, ce_writeback := False, ce_device := None, ce_sector := 0, ce_age := 0\<rparr>"

definition evict_one :: "'w driver \<Rightarrow> devices \<Rightarrow> block_cache \<Rightarrow> 'w \<Rightarrow> rc \<times> block_cache \<times> 'w" where
  "evict_one drv devs c w =
     (case victim c of
        None \<Rightarrow> (-1, c, w)
      | Some i \<Rightarrow>
          let e = bc_entries c i in
          if \<not> ce_valid e \<or> \<not> ce_dirty e then (0, upd_entry c i invalidate, w)
          else case ce_device e of
            None \<Rightarrow> (-1, c, w)
          | Some old_d \<Rightarrow>
              if \<not> sector_size_ok devs old_d then (-1, c, w)
              else let old_s = ce_sector e; old_age = ce_age e;
                       old_data = copy_n (bd_sector_size (devs old_d)) (\<lambda>_. 0) (ce_data e);
                       c1 = upd_entry c i (ce_writeback_update (\<lambda>_. True))
                   in case io drv devs old_d RIX_BIO_WRITE old_s old_data w of
                     (rc, _, w1) \<Rightarrow>
                       if rc \<noteq> 0 then
                         (-1, case find_entry c1 old_d old_s of
                                None \<Rightarrow> c1
                              | Some j \<Rightarrow> if ce_age (bc_entries c1 j) = old_age then upd_entry c1 j (ce_writeback_update (\<lambda>_. False)) else c1,
                          w1)
                       else let c2 = (case find_entry c1 old_d old_s of
                                        None \<Rightarrow> c1
                                      | Some j \<Rightarrow> if ce_age (bc_entries c1 j) = old_age then upd_entry c1 j invalidate
                                                 else upd_entry c1 j (ce_writeback_update (\<lambda>_. False)))
                            in case victim c2 of
                                 None \<Rightarrow> (-1, c2, w1)
                               | Some j \<Rightarrow> if ce_valid (bc_entries c2 j) then (-1, c2, w1) else (0, c2, w1))"

text \<open>Up to three attempts.\<close>

primrec evict_attempts :: "nat \<Rightarrow> 'w driver \<Rightarrow> devices \<Rightarrow> block_cache \<Rightarrow> 'w \<Rightarrow> rc \<times> block_cache \<times> 'w" where
  "evict_attempts 0 drv devs c w = (-1, c, w)"
| "evict_attempts (Suc n) drv devs c w =
     (case evict_one drv devs c w of (rc, c1, w1) \<Rightarrow> if rc = 0 then (0, c1, w1) else evict_attempts n drv devs c1 w1)"

text \<open>The entry a sector is put into.\<close>

definition fill_entry :: "devices \<Rightarrow> nat \<Rightarrow> u64 \<Rightarrow> bool \<Rightarrow> buffer \<Rightarrow> nat \<Rightarrow> block_cache \<Rightarrow> block_cache" where
  "fill_entry devs d s dirty src i c =
     (upd_entry c i (\<lambda>e. e\<lparr>ce_data := copy_n (bd_sector_size (devs d)) (ce_data e) src, ce_device := Some d, ce_sector := s,
         ce_valid := True, ce_dirty := dirty, ce_writeback := False, ce_age := bc_clock c + 1\<rparr>))\<lparr>bc_clock := bc_clock c + 1\<rparr>"

definition block_cache_read :: "'w driver \<Rightarrow> devices \<Rightarrow> nat \<Rightarrow> u64 \<Rightarrow> buffer \<Rightarrow> block_cache \<Rightarrow> 'w \<Rightarrow> rc \<times> buffer \<times> block_cache \<times> 'w" where
  "block_cache_read drv devs d s b c w =
     (if \<not> sector_size_ok devs d then (-1, b, c, w)
      else case find_entry c d s of
        Some i \<Rightarrow>
          let c1 = (upd_entry c i (ce_age_update (\<lambda>_. bc_clock c + 1)))\<lparr>bc_clock := bc_clock c + 1\<rparr>
          in (0, copy_n (bd_sector_size (devs d)) b (ce_data (bc_entries c1 i)), c1, w)
      | None \<Rightarrow>
          (case evict_attempts 3 drv devs c w of
             (rc, c1, w1) \<Rightarrow>
               if rc \<noteq> 0 then (-1, b, c1, w1)
               else case io drv devs d RIX_BIO_READ s (\<lambda>_. 0) w1 of
                 (rrc, fresh, w2) \<Rightarrow>
                   if rrc \<noteq> 0 then (-1, b, c1, w2)
                   else let out = copy_n (bd_sector_size (devs d)) b fresh in
                     if find_entry c1 d s \<noteq> None then (0, out, c1, w2)
                     else case victim c1 of
                       None \<Rightarrow> (0, out, c1, w2)
                     | Some i \<Rightarrow>
                         if ce_valid (bc_entries c1 i) then (0, out, c1, w2)
                         else let c2 = fill_entry devs d s False fresh i c1
                              in (0, copy_n (bd_sector_size (devs d)) b (ce_data (bc_entries c2 i)), c2, w2)))"

definition block_cache_write :: "'w driver \<Rightarrow> devices \<Rightarrow> nat \<Rightarrow> u64 \<Rightarrow> buffer \<Rightarrow> block_cache \<Rightarrow> 'w \<Rightarrow> rc \<times> block_cache \<times> 'w" where
  "block_cache_write drv devs d s b c w =
     (if \<not> sector_size_ok devs d then (-1, c, w)
      else let input = copy_n (bd_sector_size (devs d)) (\<lambda>_. 0) b in
        case find_entry c d s of
          Some i \<Rightarrow>
            (0, (upd_entry c i (\<lambda>e. e\<lparr>ce_data := copy_n (bd_sector_size (devs d)) (ce_data e) input, ce_dirty := True, ce_age := bc_clock c + 1\<rparr>))
                  \<lparr>bc_clock := bc_clock c + 1\<rparr>, w)
        | None \<Rightarrow>
            (case evict_attempts 3 drv devs c w of
               (rc, c1, w1) \<Rightarrow>
                 if rc \<noteq> 0 then (-1, c1, w1)
                 else let direct = (case io drv devs d RIX_BIO_WRITE s input w1 of (wrc, _, w2) \<Rightarrow> (wrc, c1, w2)) in
                   case victim c1 of
                     None \<Rightarrow> direct
                   | Some i \<Rightarrow> if ce_valid (bc_entries c1 i) then direct else (0, fill_entry devs d s True input i c1, w1)))"

text \<open>The loop of a flush, with fuel: \<open>None\<close> stands for a loop that did not end.\<close>

primrec flush_loop :: "nat \<Rightarrow> 'w driver \<Rightarrow> devices \<Rightarrow> nat \<Rightarrow> block_cache \<Rightarrow> 'w \<Rightarrow> (rc \<times> block_cache \<times> 'w) option" where
  "flush_loop 0 drv devs d c w = None"
| "flush_loop (Suc n) drv devs d c w =
     (case find (\<lambda>i. ce_valid (bc_entries c i) \<and> ce_device (bc_entries c i) = Some d \<and> ce_dirty (bc_entries c i) \<and> \<not> ce_writeback (bc_entries c i))
             [0..<CACHE_ENTRIES] of
        None \<Rightarrow> Some (0, c, w)
      | Some i \<Rightarrow>
          let sector = ce_sector (bc_entries c i); age = ce_age (bc_entries c i);
              data = copy_n (bd_sector_size (devs d)) (\<lambda>_. 0) (ce_data (bc_entries c i));
              c1 = upd_entry c i (ce_writeback_update (\<lambda>_. True))
          in case io drv devs d RIX_BIO_WRITE sector data w of
            (wr, _, w1) \<Rightarrow>
              let c2 = (case find_entry c1 d sector of
                          None \<Rightarrow> c1
                        | Some x \<Rightarrow>
                            let c2 = upd_entry c1 x (ce_writeback_update (\<lambda>_. False))
                            in if wr = 0 \<and> ce_age (bc_entries c2 x) = age then upd_entry c2 x (ce_dirty_update (\<lambda>_. False)) else c2)
              in if wr \<noteq> 0 then Some (-1, c2, w1) else flush_loop n drv devs d c2 w1)"

definition block_cache_flush :: "nat \<Rightarrow> 'w driver \<Rightarrow> devices \<Rightarrow> nat \<Rightarrow> block_cache \<Rightarrow> 'w \<Rightarrow> (rc \<times> block_cache \<times> 'w) option" where
  "block_cache_flush fuel drv devs d c w =
     (if \<not> bd_submit (devs d) then Some (-1, c, w)
      else case flush_loop fuel drv devs d c w of
        None \<Rightarrow> None
      | Some (lrc, c1, w1) \<Rightarrow>
          if lrc \<noteq> 0 then Some (-1, c1, w1)
          else case drv d \<lparr>bio_op = RIX_BIO_FLUSH, bio_sector = 0, bio_count = 0, bio_buffer = None, bio_buffer_size = 0,
                           bio_state = RIX_BIO_PENDING, bio_error = 0\<rparr> w1 of
            (rc, bio, w2) \<Rightarrow> Some (if rc \<noteq> 0 \<or> bio_state bio \<noteq> RIX_BIO_COMPLETE then -1 else 0, c1, w2))"

end
