(* ===== verification/Block_Properties.thy ===== *)
theory Block_Properties
  imports Block_Cache
begin

text \<open>
  The cache is transparent: above a driver that keeps its contract, reads, writes and flushes act on the sectors as on
  an array, whatever is evicted and whichever requests fail.  Further the range checks of the block layer and the
  page lists of NVMe requests.
\<close>

subsection \<open>The contract of a driver\<close>

definition bio_done :: "rc \<Rightarrow> rix_bio \<Rightarrow> bool" where
  "bio_done r bio \<longleftrightarrow> r = 0 \<and> bio_state bio \<noteq> RIX_BIO_ERROR \<and> bio_state bio \<noteq> RIX_BIO_TIMEOUT"

text \<open>\<open>contents\<close> reads the sectors of a device off the driver's state.  A finished read has filled the buffer, a finished
  write has stored it; a failed write may leave anything in its own sector; nothing else changes.\<close>

definition driver_ok :: "devices \<Rightarrow> ('w \<Rightarrow> nat \<Rightarrow> u64 \<Rightarrow> buffer) \<Rightarrow> 'w driver \<Rightarrow> bool" where
  "driver_ok devs contents drv \<longleftrightarrow>
     (\<forall>d bio w. case drv d bio w of (r, bio', w') \<Rightarrow>
        (bio_op bio \<noteq> RIX_BIO_WRITE \<longrightarrow> contents w' = contents w) \<and>
        (\<forall>d' s. d' \<noteq> d \<or> s \<noteq> bio_sector bio \<longrightarrow> contents w' d' s = contents w d' s) \<and>
        (bio_done r bio' \<and> bio_count bio = 1 \<longrightarrow> (\<forall>b. bio_buffer bio = Some b \<longrightarrow>
           (bio_op bio = RIX_BIO_READ \<longrightarrow> (\<exists>b'. bio_buffer bio' = Some b' \<and> (\<forall>i < unat (bd_sector_size (devs d)). b' i = contents w d (bio_sector bio) i))) \<and>
           (bio_op bio = RIX_BIO_WRITE \<longrightarrow> (\<forall>i < unat (bd_sector_size (devs d)). contents w' d (bio_sector bio) i = b i)))))"

lemma io_read:
  assumes "driver_ok devs contents drv" "io drv devs d RIX_BIO_READ s b w = (rc, b', w')"
  shows "contents w' = contents w" "rc = 0 \<Longrightarrow> i < unat (bd_sector_size (devs d)) \<Longrightarrow> b' i = contents w d s i"
proof -
  let ?bio = "\<lparr>bio_op = RIX_BIO_READ, bio_sector = s, bio_count = 1, bio_buffer = Some b, bio_buffer_size = unat (bd_sector_size (devs d)),
    bio_state = RIX_BIO_PENDING, bio_error = 0\<rparr>"
  obtain r bio w1 where r: "drv d ?bio w = (r, bio, w1)" by (metis prod_cases3)
  note k = assms(1)[unfolded driver_ok_def, THEN spec[of _ d], THEN spec[of _ ?bio], THEN spec[of _ w], unfolded r prod.case]
  show "contents w' = contents w" using assms(2) r k by (auto simp: io_def split: if_splits)
  show "b' i = contents w d s i" if "rc = 0" "i < unat (bd_sector_size (devs d))"
  proof -
    have "bio_done r bio" "b' = (case bio_buffer bio of Some b1 \<Rightarrow> b1 | None \<Rightarrow> b)"
      using assms(2) r that(1) by (auto simp: io_def bio_done_def split: if_splits)
    then show ?thesis using k that(2) by auto
  qed
qed

lemma io_write:
  assumes "driver_ok devs contents drv" "io drv devs d RIX_BIO_WRITE s b w = (rc, b', w')"
  shows "d' \<noteq> d \<or> s' \<noteq> s \<Longrightarrow> contents w' d' s' = contents w d' s'"
    "rc = 0 \<Longrightarrow> i < unat (bd_sector_size (devs d)) \<Longrightarrow> contents w' d s i = b i"
proof -
  let ?bio = "\<lparr>bio_op = RIX_BIO_WRITE, bio_sector = s, bio_count = 1, bio_buffer = Some b, bio_buffer_size = unat (bd_sector_size (devs d)),
    bio_state = RIX_BIO_PENDING, bio_error = 0\<rparr>"
  obtain r bio w1 where r: "drv d ?bio w = (r, bio, w1)" by (metis prod_cases3)
  note k = assms(1)[unfolded driver_ok_def, THEN spec[of _ d], THEN spec[of _ ?bio], THEN spec[of _ w], unfolded r prod.case]
  show "contents w' d' s' = contents w d' s'" if "d' \<noteq> d \<or> s' \<noteq> s" using assms(2) r k that by (auto simp: io_def split: if_splits)
  show "contents w' d s i = b i" if "rc = 0" "i < unat (bd_sector_size (devs d))"
  proof -
    have "bio_done r bio" "w' = w1" using assms(2) r that(1) by (auto simp: io_def bio_done_def split: if_splits)
    then show ?thesis using k that(2) by auto
  qed
qed

subsection \<open>Coherence\<close>

definition holds :: "block_cache \<Rightarrow> nat \<Rightarrow> nat \<Rightarrow> u64 \<Rightarrow> bool" where
  "holds c i d s \<longleftrightarrow> i < CACHE_ENTRIES \<and> ce_valid (bc_entries c i) \<and> ce_device (bc_entries c i) = Some d \<and> ce_sector (bc_entries c i) = s"

definition cache_inv :: "devices \<Rightarrow> (nat \<Rightarrow> u64 \<Rightarrow> buffer) \<Rightarrow> block_cache \<Rightarrow> bool" where
  "cache_inv devs disk c \<longleftrightarrow>
     (\<forall>i < CACHE_ENTRIES. ce_valid (bc_entries c i) \<longrightarrow> (\<exists>d. ce_device (bc_entries c i) = Some d \<and> sector_size_ok devs d)) \<and>
     (\<forall>i j d s. holds c i d s \<longrightarrow> holds c j d s \<longrightarrow> i = j) \<and>
     (\<forall>i d s. holds c i d s \<longrightarrow> \<not> ce_dirty (bc_entries c i) \<longrightarrow>
        (\<forall>k < unat (bd_sector_size (devs d)). ce_data (bc_entries c i) k = disk d s k)) \<and>
     (\<forall>i < CACHE_ENTRIES. \<not> ce_writeback (bc_entries c i))"

text \<open>The bytes of a sector as the users of the cache see them.\<close>

definition logical :: "devices \<Rightarrow> (nat \<Rightarrow> u64 \<Rightarrow> buffer) \<Rightarrow> block_cache \<Rightarrow> nat \<Rightarrow> u64 \<Rightarrow> u8 list" where
  "logical devs disk c d s =
     (let b = (case find_entry c d s of Some i \<Rightarrow> ce_data (bc_entries c i) | None \<Rightarrow> disk d s) in map b [0..<unat (bd_sector_size (devs d))])"

lemma find_entry_iff:
  assumes "cache_inv devs disk c"
  shows "find_entry c d s = Some i \<longleftrightarrow> holds c i d s"
proof
  assume "find_entry c d s = Some i"
  then show "holds c i d s" by (auto simp: find_entry_def find_upt_Some holds_def)
next
  assume h: "holds c i d s"
  have "\<not> (ce_valid (bc_entries c j) \<and> ce_device (bc_entries c j) = Some d \<and> ce_sector (bc_entries c j) = s)" if "j < i" for j
  proof
    assume "ce_valid (bc_entries c j) \<and> ce_device (bc_entries c j) = Some d \<and> ce_sector (bc_entries c j) = s"
    then have "holds c j d s" using h that by (simp add: holds_def)
    then show False using assms h that unfolding cache_inv_def by blast
  qed
  then show "find_entry c d s = Some i" using h by (simp add: find_entry_def find_upt_Some holds_def)
qed

lemma find_entry_None: "find_entry c d s = None \<longleftrightarrow> (\<forall>i. \<not> holds c i d s)"
  by (auto simp: find_entry_def find_upt_None holds_def)

lemma logical_held: "cache_inv devs disk c \<Longrightarrow> holds c i d s \<Longrightarrow> logical devs disk c d s = map (ce_data (bc_entries c i)) [0..<unat (bd_sector_size (devs d))]"
  by (simp add: logical_def find_entry_iff[symmetric])

lemma logical_absent: "(\<And>i. \<not> holds c i d s) \<Longrightarrow> logical devs disk c d s = map (disk d s) [0..<unat (bd_sector_size (devs d))]"
  by (simp add: logical_def find_entry_None[THEN iffD2])

lemma victim_from_invalid:
  assumes "\<forall>i \<in> set is. \<not> ce_writeback (bc_entries c i)" "\<exists>i \<in> set is. \<not> ce_valid (bc_entries c i)"
  shows "\<exists>i \<in> set is. victim_from c is v = Some i \<and> \<not> ce_valid (bc_entries c i)"
  using assms by (induction "is" arbitrary: v) auto

lemma victim_from_Some: "\<exists>i. victim_from c is (Some j) = Some i \<and> (i \<in> set is \<or> i = j)"
proof (induction "is" arbitrary: j)
  case (Cons a "is")
  show ?case using Cons[of j] Cons[of a] by auto
qed simp

lemma victim_from_oldest:
  assumes "\<forall>i \<in> set is. \<not> ce_writeback (bc_entries c i)" "is \<noteq> []"
  shows "\<exists>i \<in> set is. victim_from c is None = Some i"
  using assms victim_from_Some[of c "tl is" "hd is"] by (cases "is") auto

lemma victim_cases:
  assumes "cache_inv devs disk c"
  obtains i where "victim c = Some i" "i < CACHE_ENTRIES" "(\<exists>j < CACHE_ENTRIES. \<not> ce_valid (bc_entries c j)) \<longleftrightarrow> \<not> ce_valid (bc_entries c i)"
proof -
  have wb: "\<forall>i \<in> set [0..<CACHE_ENTRIES]. \<not> ce_writeback (bc_entries c i)" using assms by (simp add: cache_inv_def)
  show thesis
  proof (cases "\<exists>j < CACHE_ENTRIES. \<not> ce_valid (bc_entries c j)")
    case True
    then obtain i where "victim c = Some i" "i < CACHE_ENTRIES" "\<not> ce_valid (bc_entries c i)"
      using victim_from_invalid[OF wb, of None] by (auto simp: victim_def Bex_def)
    then show thesis using True by (intro that[of i]) simp_all
  next
    case False
    obtain i where "victim c = Some i" "i < CACHE_ENTRIES"
      using victim_from_oldest[OF wb] by (auto simp: victim_def CACHE_ENTRIES_def)
    then show thesis using False by (intro that[of i]) simp_all
  qed
qed

text \<open>Dropping an entry whose bytes are on the disk.\<close>

lemma holds_upd_other: "j \<noteq> i \<Longrightarrow> holds (upd_entry c i f) j d s = holds c j d s"
  by (simp add: holds_def upd_entry_def)

lemma not_holds_invalidated: "\<not> holds (upd_entry c i invalidate) i d s"
  by (simp add: holds_def upd_entry_def invalidate_def)

lemma holds_invalidated: "holds (upd_entry c i invalidate) j d s \<longleftrightarrow> j \<noteq> i \<and> holds c j d s"
  using holds_upd_other[of j i c invalidate d s] not_holds_invalidated[of c i d s] by blast

lemma entries_upd: "bc_entries (upd_entry c i f) j = (if j = i then f (bc_entries c i) else bc_entries c j)"
  by (simp add: upd_entry_def)

lemma logical_cong:
  assumes "cache_inv devs disk c" "cache_inv devs disk' c'"
    and "\<And>i k. holds c i d s \<Longrightarrow> k < unat (bd_sector_size (devs d)) \<Longrightarrow>
           (if \<exists>j. holds c' j d s then holds c' i d s \<and> ce_data (bc_entries c' i) k = ce_data (bc_entries c i) k else disk' d s k = ce_data (bc_entries c i) k)"
    and "\<And>i. holds c' i d s \<Longrightarrow> \<exists>j. holds c j d s"
    and "\<And>k. \<forall>i. \<not> holds c i d s \<Longrightarrow> k < unat (bd_sector_size (devs d)) \<Longrightarrow> disk' d s k = disk d s k"
  shows "logical devs disk' c' d s = logical devs disk c d s"
proof (cases "\<exists>i. holds c i d s")
  case True
  then obtain i where i: "holds c i d s" by blast
  show ?thesis
  proof (cases "\<exists>j. holds c' j d s")
    case True
    show ?thesis
    proof (cases "bd_sector_size (devs d) = 0")
      case True
      then show ?thesis by (simp add: logical_def)
    next
      case False
      then have "holds c' i d s" using assms(3)[OF i, of 0] True by (simp add: unat_gt_0)
      then show ?thesis using logical_held[OF assms(1) i] logical_held[OF assms(2)] assms(3)[OF i] True by simp
    qed
  next
    case False
    then have "logical devs disk' c' d s = map (disk' d s) [0..<unat (bd_sector_size (devs d))]" by (intro logical_absent) blast
    then show ?thesis using logical_held[OF assms(1) i] assms(3)[OF i] False by simp
  qed
next
  case False
  then have "\<And>j. \<not> holds c j d s" "\<And>j. \<not> holds c' j d s" using assms(4) by blast+
  then show ?thesis using logical_absent[of c d s devs disk] logical_absent[of c' d s devs disk'] assms(5) by simp
qed

lemma invalidate_keeps:
  assumes inv: "cache_inv devs disk c" and i: "i < CACHE_ENTRIES"
    and off: "\<And>d s. \<not> holds c i d s \<Longrightarrow> disk' d s = disk d s"
    and on: "\<And>d s k. holds c i d s \<Longrightarrow> k < unat (bd_sector_size (devs d)) \<Longrightarrow> disk' d s k = ce_data (bc_entries c i) k"
  shows "cache_inv devs disk' (upd_entry c i invalidate)" "logical devs disk' (upd_entry c i invalidate) d s = logical devs disk c d s"
proof -
  let ?c = "upd_entry c i invalidate"
  have uniq: "holds c j d s \<Longrightarrow> holds c k d s \<Longrightarrow> j = k" for j k d s using inv unfolding cache_inv_def by blast
  have e: "bc_entries ?c j = bc_entries c j" if "j \<noteq> i" for j using that by (simp add: entries_upd)
  have v: "\<not> ce_valid (bc_entries ?c i)" "\<not> ce_writeback (bc_entries ?c i)" by (simp_all add: entries_upd invalidate_def)
  show k: "cache_inv devs disk' ?c"
    unfolding cache_inv_def
  proof (intro conjI allI impI)
    fix j assume "j < CACHE_ENTRIES" "ce_valid (bc_entries ?c j)"
    then show "\<exists>d. ce_device (bc_entries ?c j) = Some d \<and> sector_size_ok devs d"
      using inv v(1) e[of j] by (cases "j = i") (auto simp: cache_inv_def)
  next
    fix j k d s assume "holds ?c j d s" "holds ?c k d s"
    then have "holds c j d s" "holds c k d s" by (simp_all add: holds_invalidated)
    then show "j = k" by (rule uniq)
  next
    fix j d s k assume j: "holds ?c j d s" "\<not> ce_dirty (bc_entries ?c j)" "k < unat (bd_sector_size (devs d))"
    then have "j \<noteq> i" "holds c j d s" by (simp_all add: holds_invalidated)
    moreover have "\<not> holds c i d s" using calculation uniq by blast
    ultimately show "ce_data (bc_entries ?c j) k = disk' d s k" using j(2,3) inv off e[of j] unfolding cache_inv_def by auto
  next
    fix j assume "j < CACHE_ENTRIES"
    then show "\<not> ce_writeback (bc_entries ?c j)" using inv v(2) e[of j] by (cases "j = i") (auto simp: cache_inv_def)
  qed
  show "logical devs disk' ?c d s = logical devs disk c d s"
  proof (rule logical_cong[OF inv k])
    fix j k assume j: "holds c j d s" "k < unat (bd_sector_size (devs d))"
    show "if \<exists>j. holds ?c j d s then holds ?c j d s \<and> ce_data (bc_entries ?c j) k = ce_data (bc_entries c j) k else disk' d s k = ce_data (bc_entries c j) k"
    proof (cases "j = i")
      case True
      then have "\<nexists>j. holds ?c j d s" using j(1) uniq by (auto simp: holds_invalidated)
      then show ?thesis using on j True by simp
    next
      case False
      then show ?thesis using j(1) e[of j] by (auto simp: holds_invalidated)
    qed
  qed (auto simp: holds_invalidated off)
qed

lemma writeback_twice:
  assumes "\<not> ce_writeback (bc_entries c i)"
  shows "upd_entry (upd_entry c i (ce_writeback_update (\<lambda>_. True))) i (ce_writeback_update (\<lambda>_. False)) = c"
proof -
  have "(bc_entries c i)\<lparr>ce_writeback := False\<rparr> = bc_entries c i" using assms by simp
  then show ?thesis by (simp add: upd_entry_def)
qed

lemma invalidate_writeback: "upd_entry (upd_entry c i (ce_writeback_update f)) i invalidate = upd_entry c i invalidate"
  by (simp add: upd_entry_def invalidate_def)

lemma find_entry_writeback: "find_entry (upd_entry c i (ce_writeback_update f)) d s = find_entry c d s"
  unfolding find_entry_def by (rule arg_cong2[of _ _ _ _ find]) (auto simp: entries_upd)

text \<open>An eviction changes no sector as its users see it, frees an entry when it succeeds, and brings nothing in.\<close>

definition evict_keeps :: "devices \<Rightarrow> ('w \<Rightarrow> nat \<Rightarrow> u64 \<Rightarrow> buffer) \<Rightarrow> block_cache \<Rightarrow> 'w \<Rightarrow> rc \<times> block_cache \<times> 'w \<Rightarrow> bool" where
  "evict_keeps devs contents c w res \<longleftrightarrow> (case res of (rc, c', w') \<Rightarrow>
     cache_inv devs (contents w') c' \<and> logical devs (contents w') c' = logical devs (contents w) c \<and>
     (rc = 0 \<longrightarrow> (\<exists>i. victim c' = Some i \<and> i < CACHE_ENTRIES \<and> \<not> ce_valid (bc_entries c' i))) \<and>
     (\<forall>d s i. holds c' i d s \<longrightarrow> holds c i d s))"

lemma victim_after_invalidate:
  assumes "cache_inv devs disk (upd_entry c i invalidate)" "i < CACHE_ENTRIES"
  shows "\<exists>j. victim (upd_entry c i invalidate) = Some j \<and> j < CACHE_ENTRIES \<and> \<not> ce_valid (bc_entries (upd_entry c i invalidate) j)"
proof -
  have "\<not> ce_valid (bc_entries (upd_entry c i invalidate) i)" by (simp add: entries_upd invalidate_def)
  then show ?thesis using assms(2) by (rule_tac victim_cases[OF assms(1)]) blast
qed

lemma evict_one_keeps:
  assumes inv: "cache_inv devs (contents w) c" and drv: "driver_ok devs contents drv"
  shows "evict_keeps devs contents c w (evict_one drv devs c w)"
proof -
  obtain i where i: "victim c = Some i" "i < CACHE_ENTRIES" using victim_cases[OF inv] by blast
  let ?e = "bc_entries c i"
  have same: "evict_keeps devs contents c w (-1, c, w)" using inv by (simp add: evict_keeps_def)
  have drop: "evict_keeps devs contents c w (0, upd_entry c i invalidate, w')"
    if "\<And>d s. \<not> holds c i d s \<Longrightarrow> contents w' d s = contents w d s"
      "\<And>d s k. holds c i d s \<Longrightarrow> k < unat (bd_sector_size (devs d)) \<Longrightarrow> contents w' d s k = ce_data ?e k" for w'
  proof -
    have k: "cache_inv devs (contents w') (upd_entry c i invalidate)"
      by (rule invalidate_keeps(1)[OF inv i(2)]) (use that in blast)+
    have "logical devs (contents w') (upd_entry c i invalidate) d s = logical devs (contents w) c d s" for d s
      by (rule invalidate_keeps(2)[OF inv i(2)]) (use that in blast)+
    then show ?thesis using k victim_after_invalidate[OF k i(2)] by (simp add: evict_keeps_def holds_invalidated fun_eq_iff)
  qed
  show ?thesis
  proof (cases "ce_valid ?e \<and> ce_dirty ?e")
    case False
    have "contents w d s k = ce_data ?e k" if "holds c i d s" "k < unat (bd_sector_size (devs d))" for d s k
      using that False inv unfolding cache_inv_def holds_def by metis
    then show ?thesis using drop[of w] False i by (auto simp: evict_one_def)
  next
    case True
    then obtain d where d: "ce_device ?e = Some d" "sector_size_ok devs d" using inv i(2) by (auto simp: cache_inv_def)
    let ?s = "ce_sector ?e" and ?c1 = "upd_entry c i (ce_writeback_update (\<lambda>_. True))"
    let ?data = "copy_n (bd_sector_size (devs d)) (\<lambda>_. 0) (ce_data ?e)"
    have h: "holds c i d ?s" using True d(1) i(2) by (simp add: holds_def)
    have f: "find_entry ?c1 d ?s = Some i" unfolding find_entry_writeback using find_entry_iff[OF inv] h by blast
    have a: "ce_age (bc_entries ?c1 i) = ce_age ?e" by (simp add: entries_upd)
    have wb: "\<not> ce_writeback ?e" using inv i(2) by (simp add: cache_inv_def)
    obtain rc b w1 where io: "io drv devs d RIX_BIO_WRITE ?s ?data w = (rc, b, w1)" by (metis prod_cases3)
    have only: "holds c i d' s' \<longleftrightarrow> d' = d \<and> s' = ?s" for d' s' using h by (auto simp: holds_def)
    have off: "contents w1 d' s' = contents w d' s'" if "\<not> holds c i d' s'" for d' s'
      using io_write(1)[OF drv io, of d' s'] that only by blast
    show ?thesis
    proof (cases "rc = 0")
      case True
      have on: "contents w1 d' s' k = ce_data ?e k" if "holds c i d' s'" "k < unat (bd_sector_size (devs d'))" for d' s' k
        using io_write(2)[OF drv io True] that only by (simp add: copy_n_def)
      note k = drop[of w1, OF off on]
      obtain j where "victim (upd_entry c i invalidate) = Some j" "\<not> ce_valid (bc_entries (upd_entry c i invalidate) j)"
        using k by (auto simp: evict_keeps_def)
      then have "evict_one drv devs c w = (0, upd_entry c i invalidate, w1)"
        using i \<open>ce_valid ?e \<and> ce_dirty ?e\<close> d True by (simp add: evict_one_def io f a invalidate_writeback Let_def)
      then show ?thesis using k by simp
    next
      case False
      have "evict_one drv devs c w = (-1, c, w1)"
        using i \<open>ce_valid ?e \<and> ce_dirty ?e\<close> d False by (simp add: evict_one_def io f a writeback_twice[OF wb] Let_def)
      moreover have "evict_keeps devs contents c w (-1, c, w1)"
      proof -
        have k: "cache_inv devs (contents w1) c" unfolding cache_inv_def
        proof (intro conjI allI impI)
          fix j d' s' k assume j: "holds c j d' s'" "\<not> ce_dirty (bc_entries c j)" "k < unat (bd_sector_size (devs d'))"
          then have "j \<noteq> i" using \<open>ce_valid ?e \<and> ce_dirty ?e\<close> by blast
          then have "\<not> holds c i d' s'" using j(1) inv unfolding cache_inv_def by blast
          then show "ce_data (bc_entries c j) k = contents w1 d' s' k" using j inv off unfolding cache_inv_def by metis
        qed (use inv[unfolded cache_inv_def] in blast)+
        have "logical devs (contents w1) c d' s' = logical devs (contents w) c d' s'" for d' s'
          by (rule logical_cong[OF inv k]) (use off in auto)
        then show ?thesis using k by (simp add: evict_keeps_def fun_eq_iff)
      qed
      ultimately show ?thesis by simp
    qed
  qed
qed

lemma evict_attempts_keeps:
  assumes "driver_ok devs contents drv" "cache_inv devs (contents w) c"
  shows "evict_keeps devs contents c w (evict_attempts n drv devs c w)"
  using assms(2)
proof (induction n arbitrary: c w)
  case (Suc n)
  obtain rc c1 w1 where e: "evict_one drv devs c w = (rc, c1, w1)" by (metis prod_cases3)
  note k = evict_one_keeps[OF Suc.prems assms(1), unfolded e]
  show ?case
  proof (cases "rc = 0")
    case True
    then show ?thesis using k e by simp
  next
    case False
    have "cache_inv devs (contents w1) c1" using k by (simp add: evict_keeps_def)
    note k2 = Suc.IH[OF this]
    obtain rc2 c2 w2 where e2: "evict_attempts n drv devs c1 w1 = (rc2, c2, w2)" by (metis prod_cases3)
    show ?thesis using k k2 False unfolding evict_attempts.simps e prod.case e2 if_not_P[OF False] by (simp add: evict_keeps_def)
  qed
qed (simp add: evict_keeps_def)

text \<open>Putting a sector into a free entry, and changing the entry that holds it.\<close>

lemma fill_keeps:
  assumes inv: "cache_inv devs disk c" and i: "i < CACHE_ENTRIES" "\<not> ce_valid (bc_entries c i)" and new: "\<And>j. \<not> holds c j d s"
    and d: "sector_size_ok devs d" and clean: "\<And>k. \<not> dirty \<Longrightarrow> k < unat (bd_sector_size (devs d)) \<Longrightarrow> src k = disk d s k"
  shows "cache_inv devs disk (fill_entry devs d s dirty src i c)"
    "logical devs disk (fill_entry devs d s dirty src i c) =
       (logical devs disk c)(d := (logical devs disk c d)(s := map src [0..<unat (bd_sector_size (devs d))]))"
    "map (ce_data (bc_entries (fill_entry devs d s dirty src i c) i)) [0..<unat (bd_sector_size (devs d))] = map src [0..<unat (bd_sector_size (devs d))]"
proof -
  define c1 where "c1 = fill_entry devs d s dirty src i c"
  have e: "bc_entries c1 j = (if j = i then (bc_entries c i)\<lparr>ce_data := copy_n (bd_sector_size (devs d)) (ce_data (bc_entries c i)) src, ce_device := Some d,
      ce_sector := s, ce_valid := True, ce_dirty := dirty, ce_writeback := False, ce_age := bc_clock c + 1\<rparr> else bc_entries c j)" for j
    by (simp add: c1_def fill_entry_def entries_upd)
  have h: "holds c1 j d' s' \<longleftrightarrow> (if j = i then d' = d \<and> s' = s else holds c j d' s')" for j d' s'
    using i by (auto simp: holds_def e)
  have uniq: "holds c j d s \<Longrightarrow> holds c k d s \<Longrightarrow> j = k" for j k d s using inv unfolding cache_inv_def by blast
  have k: "cache_inv devs disk c1" unfolding cache_inv_def
  proof (intro conjI allI impI)
    fix j assume "j < CACHE_ENTRIES" "ce_valid (bc_entries c1 j)"
    then show "\<exists>d. ce_device (bc_entries c1 j) = Some d \<and> sector_size_ok devs d"
      using inv d by (cases "j = i") (auto simp: e cache_inv_def)
  next
    fix j k d' s' assume "holds c1 j d' s'" "holds c1 k d' s'"
    then show "j = k" unfolding h using new uniq by (auto split: if_splits)
  next
    fix j d' s' k assume j: "holds c1 j d' s'" "\<not> ce_dirty (bc_entries c1 j)" "k < unat (bd_sector_size (devs d'))"
    show "ce_data (bc_entries c1 j) k = disk d' s' k"
    proof (cases "j = i")
      case True
      then have "\<not> dirty" "d' = d" "s' = s" "ce_data (bc_entries c1 j) k = src k" using j by (simp_all add: h e copy_n_def)
      then show ?thesis using clean j(3) by simp
    next
      case False
      then show ?thesis using j inv by (simp add: h e cache_inv_def)
    qed
  next
    fix j assume "j < CACHE_ENTRIES"
    then show "\<not> ce_writeback (bc_entries c1 j)" using inv by (simp add: e cache_inv_def)
  qed
  have m: "map (ce_data (bc_entries c1 i)) [0..<unat (bd_sector_size (devs d))] = map src [0..<unat (bd_sector_size (devs d))]"
    by (simp add: e copy_n_def)
  have "logical devs disk c1 d s = map src [0..<unat (bd_sector_size (devs d))]"
    using logical_held[OF k, of i d s] m by (simp add: h)
  moreover have "logical devs disk c1 d' s' = logical devs disk c d' s'" if "\<not> (d' = d \<and> s' = s)" for d' s'
  proof (rule logical_cong[OF inv k])
    fix j k assume "holds c j d' s'" "k < unat (bd_sector_size (devs d'))"
    then show "if \<exists>j. holds c1 j d' s' then holds c1 j d' s' \<and> ce_data (bc_entries c1 j) k = ce_data (bc_entries c j) k else disk d' s' k = ce_data (bc_entries c j) k"
      using i(2) by (auto simp: h e holds_def)
  qed (use that in \<open>auto simp: h split: if_splits\<close>)
  ultimately have l: "logical devs disk c1 = (logical devs disk c)(d := (logical devs disk c d)(s := map src [0..<unat (bd_sector_size (devs d))]))"
    by (auto simp: fun_eq_iff)
  show "cache_inv devs disk (fill_entry devs d s dirty src i c)"
    "logical devs disk (fill_entry devs d s dirty src i c) =
       (logical devs disk c)(d := (logical devs disk c d)(s := map src [0..<unat (bd_sector_size (devs d))]))"
    "map (ce_data (bc_entries (fill_entry devs d s dirty src i c) i)) [0..<unat (bd_sector_size (devs d))] = map src [0..<unat (bd_sector_size (devs d))]"
    using k l m unfolding c1_def by simp_all
qed

lemma touch_keeps:
  assumes inv: "cache_inv devs disk c" and i: "holds c i d s"
    and f: "\<And>e. ce_device (f e) = ce_device e \<and> ce_sector (f e) = ce_sector e \<and> ce_valid (f e) = ce_valid e \<and> ce_writeback (f e) = ce_writeback e"
    and dirty: "\<not> ce_dirty (f (bc_entries c i)) \<Longrightarrow> (\<forall>k < unat (bd_sector_size (devs d)). ce_data (f (bc_entries c i)) k = disk d s k)"
  shows "cache_inv devs disk ((upd_entry c i f)\<lparr>bc_clock := t\<rparr>)"
    "logical devs disk ((upd_entry c i f)\<lparr>bc_clock := t\<rparr>) =
       (logical devs disk c)(d := (logical devs disk c d)(s := map (ce_data (f (bc_entries c i))) [0..<unat (bd_sector_size (devs d))]))"
proof -
  define c1 where "c1 = (upd_entry c i f)\<lparr>bc_clock := t\<rparr>"
  have e: "bc_entries c1 j = (if j = i then f (bc_entries c i) else bc_entries c j)" for j by (simp add: c1_def entries_upd)
  have h: "holds c1 j d' s' \<longleftrightarrow> holds c j d' s'" for j d' s' using f by (simp add: holds_def e)
  have own: "holds c i d' s' \<longleftrightarrow> d' = d \<and> s' = s" for d' s' using i by (auto simp: holds_def)
  have uniq: "holds c j d s \<Longrightarrow> holds c k d s \<Longrightarrow> j = k" for j k d s using inv unfolding cache_inv_def by blast
  have k: "cache_inv devs disk c1" unfolding cache_inv_def
  proof (intro conjI allI impI)
    fix j assume "j < CACHE_ENTRIES" "ce_valid (bc_entries c1 j)"
    then show "\<exists>d. ce_device (bc_entries c1 j) = Some d \<and> sector_size_ok devs d" using inv f by (auto simp: e cache_inv_def split: if_splits)
  next
    fix j k d' s' assume "holds c1 j d' s'" "holds c1 k d' s'"
    then show "j = k" unfolding h by (rule uniq)
  next
    fix j d' s' k assume j: "holds c1 j d' s'" "\<not> ce_dirty (bc_entries c1 j)" "k < unat (bd_sector_size (devs d'))"
    show "ce_data (bc_entries c1 j) k = disk d' s' k"
    proof (cases "j = i")
      case True
      then have "d' = d" "s' = s" using j(1) own by (simp_all add: h)
      then show ?thesis using dirty j(2,3) True by (simp add: e)
    next
      case False
      then show ?thesis using j inv by (simp add: h e cache_inv_def)
    qed
  next
    fix j assume "j < CACHE_ENTRIES"
    then show "\<not> ce_writeback (bc_entries c1 j)" using inv f by (simp add: e cache_inv_def)
  qed
  have "logical devs disk c1 d s = map (ce_data (f (bc_entries c i))) [0..<unat (bd_sector_size (devs d))]"
    using logical_held[OF k, of i d s] i by (simp add: h e)
  moreover have "logical devs disk c1 d' s' = logical devs disk c d' s'" if "\<not> (d' = d \<and> s' = s)" for d' s'
  proof (rule logical_cong[OF inv k])
    fix j k assume "holds c j d' s'" "k < unat (bd_sector_size (devs d'))"
    then show "if \<exists>j. holds c1 j d' s' then holds c1 j d' s' \<and> ce_data (bc_entries c1 j) k = ce_data (bc_entries c j) k else disk d' s' k = ce_data (bc_entries c j) k"
      using that own by (auto simp: h e)
  qed (auto simp: h)
  ultimately have "logical devs disk c1 = (logical devs disk c)(d := (logical devs disk c d)(s := map (ce_data (f (bc_entries c i))) [0..<unat (bd_sector_size (devs d))]))"
    by (auto simp: fun_eq_iff)
  then show "cache_inv devs disk ((upd_entry c i f)\<lparr>bc_clock := t\<rparr>)"
    "logical devs disk ((upd_entry c i f)\<lparr>bc_clock := t\<rparr>) =
       (logical devs disk c)(d := (logical devs disk c d)(s := map (ce_data (f (bc_entries c i))) [0..<unat (bd_sector_size (devs d))]))"
    using k unfolding c1_def by simp_all
qed

subsection \<open>Reads and writes\<close>

definition sector_of :: "devices \<Rightarrow> nat \<Rightarrow> buffer \<Rightarrow> u8 list" where
  "sector_of devs d b = map b [0..<unat (bd_sector_size (devs d))]"

lemma sector_of_copy: "sector_of devs d (copy_n (bd_sector_size (devs d)) b src) = sector_of devs d src"
  by (simp add: sector_of_def copy_n_def)

lemma read_ok:
  assumes drv: "driver_ok devs contents drv" and inv: "cache_inv devs (contents w) c"
    and r: "block_cache_read drv devs d s b c w = (rc, out, c', w')"
  shows "cache_inv devs (contents w') c' \<and> logical devs (contents w') c' = logical devs (contents w) c \<and>
    (rc = 0 \<or> rc = -1) \<and> (rc = 0 \<longrightarrow> sector_of devs d out = logical devs (contents w) c d s)"
proof (cases "sector_size_ok devs d")
  case False
  then show ?thesis using r inv by (auto simp: block_cache_read_def)
next
  case size: True
  show ?thesis
  proof (cases "find_entry c d s")
    case (Some i)
    then have h: "holds c i d s" using find_entry_iff[OF inv] by blast
    let ?f = "ce_age_update (\<lambda>_. bc_clock c + 1)"
    have c': "c' = (upd_entry c i ?f)\<lparr>bc_clock := bc_clock c + 1\<rparr>" "w' = w" "rc = 0"
      and out: "sector_of devs d out = sector_of devs d (ce_data (bc_entries c i))"
      using r size Some by (auto simp: block_cache_read_def Let_def sector_of_copy entries_upd)
    have cl: "\<forall>k < unat (bd_sector_size (devs d)). ce_data (?f (bc_entries c i)) k = contents w d s k" if "\<not> ce_dirty (?f (bc_entries c i))"
      using inv h that unfolding cache_inv_def by simp
    note k = touch_keeps[OF inv h, of ?f, OF _ cl]
    have l: "logical devs (contents w) c d s = sector_of devs d (ce_data (bc_entries c i))" using logical_held[OF inv h] by (simp add: sector_of_def)
    show ?thesis using k(1) k(2) c' out l by (simp add: sector_of_def fun_eq_iff)
  next
    case None
    obtain erc c1 w1 where e: "evict_attempts 3 drv devs c w = (erc, c1, w1)" by (metis prod_cases3)
    note ev = evict_attempts_keeps[OF drv inv, of 3, unfolded e evict_keeps_def prod.case]
    obtain rrc fresh w2 where io: "io drv devs d RIX_BIO_READ s (\<lambda>_. 0) w1 = (rrc, fresh, w2)" by (metis prod_cases3)
    note disk = io_read(1)[OF drv io]
    have new: "\<not> holds c1 j d s" for j using ev None by (auto simp: find_entry_None)
    have l: "logical devs (contents w) c d s = sector_of devs d fresh" if "rrc = 0"
      using logical_absent[of c1 d s devs "contents w1", OF new] ev io_read(2)[OF drv io that] by (simp add: sector_of_def)
    show ?thesis
    proof (cases "erc \<noteq> 0 \<or> rrc \<noteq> 0")
      case True
      then have "rc = -1" "c' = c1" "contents w' = contents w1" using r size None e io disk by (auto simp: block_cache_read_def split: if_splits)
      then show ?thesis using ev by simp
    next
      case False
      then obtain i where i: "victim c1 = Some i" "i < CACHE_ENTRIES" "\<not> ce_valid (bc_entries c1 i)" using ev by auto
      have f1: "find_entry c1 d s = None" using new by (simp add: find_entry_None)
      have c': "c' = fill_entry devs d s False fresh i c1" "w' = w2" "rc = 0"
          "sector_of devs d out = sector_of devs d (ce_data (bc_entries (fill_entry devs d s False fresh i c1) i))"
        using r size None e io False f1 i by (auto simp: block_cache_read_def Let_def sector_of_copy)
      have inv1: "cache_inv devs (contents w2) c1" using ev disk by simp
      have src: "fresh k = contents w2 d s k" if "k < unat (bd_sector_size (devs d))" for k using io_read(2)[OF drv io] False that disk by simp
      note k = fill_keeps[OF inv1 i(2,3) new size, of False fresh, OF src]
      have "logical devs (contents w2) c1 d s = map fresh [0..<unat (bd_sector_size (devs d))]"
        using l ev disk False by (simp add: sector_of_def)
      then show ?thesis using k c' ev disk l False by (simp add: sector_of_def fun_upd_idem)
    qed
  qed
qed

lemma write_ok:
  assumes drv: "driver_ok devs contents drv" and inv: "cache_inv devs (contents w) c"
    and r: "block_cache_write drv devs d s b c w = (rc, c', w')"
  shows "cache_inv devs (contents w') c' \<and> (rc = 0 \<or> rc = -1) \<and>
    logical devs (contents w') c' = (if rc = 0 then (logical devs (contents w) c)(d := (logical devs (contents w) c d)(s := sector_of devs d b))
      else logical devs (contents w) c)"
proof (cases "sector_size_ok devs d")
  case False
  then show ?thesis using r inv by (auto simp: block_cache_write_def)
next
  case size: True
  define input where "input = copy_n (bd_sector_size (devs d)) (\<lambda>_. 0) b"
  have input: "sector_of devs d input = sector_of devs d b" by (simp add: input_def sector_of_copy)
  show ?thesis
  proof (cases "find_entry c d s")
    case (Some i)
    then have h: "holds c i d s" using find_entry_iff[OF inv] by blast
    let ?f = "\<lambda>e. e\<lparr>ce_data := copy_n (bd_sector_size (devs d)) (ce_data e) input, ce_dirty := True, ce_age := bc_clock c + 1\<rparr>"
    have c': "c' = (upd_entry c i ?f)\<lparr>bc_clock := bc_clock c + 1\<rparr>" "w' = w" "rc = 0"
      using r size Some by (auto simp: block_cache_write_def Let_def input_def)
    have "cache_inv devs (contents w) c'" unfolding c'(1) by (rule touch_keeps(1)[OF inv h]) simp_all
    moreover have "logical devs (contents w) c' = (logical devs (contents w) c)(d := (logical devs (contents w) c d)(s := sector_of devs d (ce_data (?f (bc_entries c i)))))"
      unfolding c'(1) sector_of_def by (rule touch_keeps(2)[OF inv h]) simp_all
    ultimately show ?thesis using c'(2,3) input by (simp add: sector_of_copy)
  next
    case None
    obtain erc c1 w1 where e: "evict_attempts 3 drv devs c w = (erc, c1, w1)" by (metis prod_cases3)
    note ev = evict_attempts_keeps[OF drv inv, of 3, unfolded e evict_keeps_def prod.case]
    have new: "\<not> holds c1 j d s" for j using ev None by (auto simp: find_entry_None)
    show ?thesis
    proof (cases "erc = 0")
      case False
      then have "rc = -1" "c' = c1" "w' = w1" using r size None e by (auto simp: block_cache_write_def Let_def)
      then show ?thesis using ev by simp
    next
      case True
      then obtain i where i: "victim c1 = Some i" "i < CACHE_ENTRIES" "\<not> ce_valid (bc_entries c1 i)" using ev by auto
      have c': "c' = fill_entry devs d s True input i c1" "w' = w1" "rc = 0"
        using r size None e True i by (auto simp: block_cache_write_def Let_def input_def)
      have inv1: "cache_inv devs (contents w1) c1" using ev by simp
      have "cache_inv devs (contents w1) c'" unfolding c'(1) by (rule fill_keeps(1)[OF inv1 i(2,3) new size]) simp
      moreover have "logical devs (contents w1) c' = (logical devs (contents w1) c1)(d := (logical devs (contents w1) c1 d)(s := sector_of devs d input))"
        unfolding c'(1) sector_of_def by (rule fill_keeps(2)[OF inv1 i(2,3) new size]) simp
      ultimately show ?thesis using c'(2,3) input ev by simp
    qed
  qed
qed

subsection \<open>Flushes\<close>

definition dirty_entries :: "block_cache \<Rightarrow> nat \<Rightarrow> nat set" where
  "dirty_entries c d = {i. i < CACHE_ENTRIES \<and> ce_valid (bc_entries c i) \<and> ce_device (bc_entries c i) = Some d \<and> ce_dirty (bc_entries c i)}"

lemma dirty_entries_finite: "finite (dirty_entries c d)" "card (dirty_entries c d) \<le> CACHE_ENTRIES"
proof -
  have "dirty_entries c d \<subseteq> {..<CACHE_ENTRIES}" by (auto simp: dirty_entries_def)
  then show "finite (dirty_entries c d)" "card (dirty_entries c d) \<le> CACHE_ENTRIES"
    using finite_subset card_mono[of "{..<CACHE_ENTRIES}"] by auto
qed

text \<open>One round: the entry is written and becomes clean, or stays dirty when the write fails.\<close>

lemma flush_round:
  assumes drv: "driver_ok devs contents drv" and inv: "cache_inv devs (contents w) c" and h: "holds c i d s" and dirty: "ce_dirty (bc_entries c i)"
    and io: "io drv devs d RIX_BIO_WRITE s (copy_n (bd_sector_size (devs d)) (\<lambda>_. 0) (ce_data (bc_entries c i))) w = (wr, b, w1)"
    and c2: "c2 = (if wr = 0 then upd_entry c i (ce_dirty_update (\<lambda>_. False)) else c)"
  shows "cache_inv devs (contents w1) c2" "logical devs (contents w1) c2 = logical devs (contents w) c"
proof -
  have uniq: "holds c j d s \<Longrightarrow> holds c k d s \<Longrightarrow> j = k" for j k d s using inv unfolding cache_inv_def by blast
  have e: "ce_data (bc_entries c2 j) = ce_data (bc_entries c j)" "ce_valid (bc_entries c2 j) = ce_valid (bc_entries c j)"
      "ce_device (bc_entries c2 j) = ce_device (bc_entries c j)" "ce_sector (bc_entries c2 j) = ce_sector (bc_entries c j)"
      "ce_writeback (bc_entries c2 j) = ce_writeback (bc_entries c j)" for j
    by (simp_all add: c2 entries_upd)
  have ed: "ce_dirty (bc_entries c2 j) = (ce_dirty (bc_entries c j) \<and> \<not> (j = i \<and> wr = 0))" for j
    using dirty by (simp add: c2 entries_upd)
  have hh: "holds c2 j d' s' = holds c j d' s'" for j d' s' by (simp add: holds_def e)
  have off: "contents w1 d' s' = contents w d' s'" if "holds c j d' s'" "j \<noteq> i" for j d' s'
    using io_write(1)[OF drv io, of d' s'] uniq[of i d s j] that h by blast
  have on: "contents w1 d s k = ce_data (bc_entries c i) k" if "wr = 0" "k < unat (bd_sector_size (devs d))" for k
    using io_write(2)[OF drv io] that by (simp add: copy_n_def)
  show k: "cache_inv devs (contents w1) c2" unfolding cache_inv_def
  proof (intro conjI allI impI)
    fix j assume "j < CACHE_ENTRIES" "ce_valid (bc_entries c2 j)"
    then show "\<exists>d. ce_device (bc_entries c2 j) = Some d \<and> sector_size_ok devs d" using inv by (simp add: e cache_inv_def)
  next
    fix j k d' s' assume "holds c2 j d' s'" "holds c2 k d' s'"
    then show "j = k" unfolding hh by (rule uniq)
  next
    fix j d' s' k assume j: "holds c2 j d' s'" "\<not> ce_dirty (bc_entries c2 j)" "k < unat (bd_sector_size (devs d'))"
    show "ce_data (bc_entries c2 j) k = contents w1 d' s' k"
    proof (cases "j = i")
      case True
      then have "d' = d" "s' = s" using j(1) h by (auto simp: e holds_def)
      then show ?thesis using on j(2,3) dirty True by (simp add: e ed)
    next
      case False
      then show ?thesis using j inv off[of j d' s'] by (simp add: e ed hh cache_inv_def)
    qed
  next
    fix j assume "j < CACHE_ENTRIES"
    then show "\<not> ce_writeback (bc_entries c2 j)" using inv by (simp add: e cache_inv_def)
  qed
  have "logical devs (contents w1) c2 d' s' = logical devs (contents w) c d' s'" for d' s'
  proof (rule logical_cong[OF inv k])
    fix k assume "\<forall>i. \<not> holds c i d' s'"
    then show "contents w1 d' s' k = contents w d' s' k" using io_write(1)[OF drv io, of d' s'] h by metis
  qed (auto simp: hh e)
  then show "logical devs (contents w1) c2 = logical devs (contents w) c" by (simp add: fun_eq_iff)
qed

lemma flush_loop_step:
  assumes inv: "cache_inv devs disk c" and i: "i \<in> dirty_entries c d"
    and f: "find (\<lambda>i. ce_valid (bc_entries c i) \<and> ce_device (bc_entries c i) = Some d \<and> ce_dirty (bc_entries c i) \<and> \<not> ce_writeback (bc_entries c i)) [0..<CACHE_ENTRIES] = Some i"
    and io: "io drv devs d RIX_BIO_WRITE (ce_sector (bc_entries c i)) (copy_n (bd_sector_size (devs d)) (\<lambda>_. 0) (ce_data (bc_entries c i))) w = (wr, b, w1)"
    and c2: "c2 = (if wr = 0 then upd_entry c i (ce_dirty_update (\<lambda>_. False)) else c)"
  shows "flush_loop (Suc n) drv devs d c w = (if wr \<noteq> 0 then Some (-1, c2, w1) else flush_loop n drv devs d c2 w1)"
proof -
  let ?c1 = "upd_entry c i (ce_writeback_update (\<lambda>_. True))"
  have h: "holds c i d (ce_sector (bc_entries c i))" using i by (simp add: dirty_entries_def holds_def)
  have fe: "find_entry ?c1 d (ce_sector (bc_entries c i)) = Some i" unfolding find_entry_writeback using find_entry_iff[OF inv] h by blast
  have wb: "\<not> ce_writeback (bc_entries c i)" using inv i by (simp add: cache_inv_def dirty_entries_def)
  have a: "ce_age (bc_entries (upd_entry ?c1 i (ce_writeback_update (\<lambda>_. False))) i) = ce_age (bc_entries c i)" by (simp add: entries_upd)
  show ?thesis
    unfolding flush_loop.simps f option.case Let_def io prod.case fe a writeback_twice[OF wb] by (simp add: c2)
qed

lemma flush_loop_ok:
  assumes drv: "driver_ok devs contents drv" and inv: "cache_inv devs (contents w) c" and fuel: "card (dirty_entries c d) < n"
  shows "\<exists>rc c' w'. flush_loop n drv devs d c w = Some (rc, c', w') \<and> cache_inv devs (contents w') c' \<and>
    logical devs (contents w') c' = logical devs (contents w) c \<and> (rc = 0 \<or> rc = -1) \<and> (rc = 0 \<longrightarrow> dirty_entries c' d = {})"
  using inv fuel
proof (induction n arbitrary: c w)
  case (Suc n)
  let ?f = "find (\<lambda>i. ce_valid (bc_entries c i) \<and> ce_device (bc_entries c i) = Some d \<and> ce_dirty (bc_entries c i) \<and> \<not> ce_writeback (bc_entries c i)) [0..<CACHE_ENTRIES]"
  show ?case
  proof (cases ?f)
    case None
    then have "dirty_entries c d = {}" using Suc.prems(1) by (auto simp: find_upt_None dirty_entries_def cache_inv_def)
    then show ?thesis using None Suc.prems(1) by simp
  next
    case (Some i)
    then have i: "i \<in> dirty_entries c d" by (auto simp: find_upt_Some dirty_entries_def)
    then have h: "holds c i d (ce_sector (bc_entries c i))" "ce_dirty (bc_entries c i)" by (simp_all add: dirty_entries_def holds_def)
    obtain wr b w1 where io: "io drv devs d RIX_BIO_WRITE (ce_sector (bc_entries c i)) (copy_n (bd_sector_size (devs d)) (\<lambda>_. 0) (ce_data (bc_entries c i))) w = (wr, b, w1)"
      by (metis prod_cases3)
    define c2 where "c2 = (if wr = 0 then upd_entry c i (ce_dirty_update (\<lambda>_. False)) else c)"
    note k = flush_round[OF drv Suc.prems(1) h io c2_def]
    note step = flush_loop_step[OF Suc.prems(1) i Some io c2_def]
    show ?thesis
    proof (cases "wr = 0")
      case False
      then show ?thesis using step[of n] k by simp
    next
      case True
      have "dirty_entries c2 d = dirty_entries c d - {i}" using True by (auto simp: c2_def dirty_entries_def entries_upd split: if_splits)
      then have "card (dirty_entries c2 d) < n" using Suc.prems(2) i dirty_entries_finite(1)[of c d] card_Diff1_less[of "dirty_entries c d" i] by simp
      from Suc.IH[OF k(1) this] obtain rc c' w' where "flush_loop n drv devs d c2 w1 = Some (rc, c', w')" "cache_inv devs (contents w') c'"
          "logical devs (contents w') c' = logical devs (contents w1) c2" "rc = 0 \<or> rc = -1" "rc = 0 \<longrightarrow> dirty_entries c' d = {}" by blast
      then show ?thesis using step[of n] True k(2) by simp
    qed
  qed
qed simp

lemma flush_ok:
  assumes drv: "driver_ok devs contents drv" and inv: "cache_inv devs (contents w) c" and fuel: "CACHE_ENTRIES < n"
  shows "\<exists>rc c' w'. block_cache_flush n drv devs d c w = Some (rc, c', w') \<and> cache_inv devs (contents w') c' \<and>
    logical devs (contents w') c' = logical devs (contents w) c \<and> (rc = 0 \<or> rc = -1) \<and>
    (rc = 0 \<longrightarrow> (\<forall>s. logical devs (contents w) c d s = sector_of devs d (contents w' d s)))"
proof -
  have "card (dirty_entries c d) < n" using dirty_entries_finite(2)[of c d] fuel by simp
  from flush_loop_ok[OF drv inv this] obtain lrc c1 w1 where l: "flush_loop n drv devs d c w = Some (lrc, c1, w1)" "cache_inv devs (contents w1) c1"
      "logical devs (contents w1) c1 = logical devs (contents w) c" "lrc = 0 \<longrightarrow> dirty_entries c1 d = {}" by blast
  let ?bio = "\<lparr>bio_op = RIX_BIO_FLUSH, bio_sector = 0, bio_count = 0, bio_buffer = None, bio_buffer_size = 0, bio_state = RIX_BIO_PENDING, bio_error = 0\<rparr>"
  obtain rc bio w2 where b: "drv d ?bio w1 = (rc, bio, w2)" by (metis prod_cases3)
  have disk: "contents w2 = contents w1"
    using drv[unfolded driver_ok_def, THEN spec[of _ d], THEN spec[of _ ?bio], THEN spec[of _ w1], unfolded b prod.case] by simp
  have on_disk: "logical devs (contents w) c d s = sector_of devs d (contents w2 d s)" if clean: "dirty_entries c1 d = {}" for s
  proof (cases "\<exists>i. holds c1 i d s")
    case True
    then obtain i where i: "holds c1 i d s" by blast
    then have "\<not> ce_dirty (bc_entries c1 i)" using clean by (auto simp: dirty_entries_def holds_def)
    then have "\<forall>k < unat (bd_sector_size (devs d)). ce_data (bc_entries c1 i) k = contents w1 d s k" using l(2) i unfolding cache_inv_def by blast
    then show ?thesis using logical_held[OF l(2) i] l(3) disk by (simp add: sector_of_def)
  next
    case False
    then show ?thesis using logical_absent[of c1 d s devs "contents w1"] l(3) disk by (simp add: sector_of_def)
  qed
  show ?thesis using l on_disk b disk inv by (auto simp: block_cache_flush_def)
qed

subsection \<open>The property\<close>

datatype cache_op = Cache_read nat u64 buffer | Cache_write nat u64 buffer | Cache_flush nat

text \<open>An operation returns its code and, for a read, the sector.  The fuel of a flush is one more than the number of
  entries.\<close>

primrec cache_exec :: "'w driver \<Rightarrow> devices \<Rightarrow> cache_op \<Rightarrow> block_cache \<times> 'w \<Rightarrow> (rc \<times> u8 list) option \<times> block_cache \<times> 'w" where
  "cache_exec drv devs (Cache_read d s b) cw =
     (case block_cache_read drv devs d s b (fst cw) (snd cw) of (rc, out, c, w) \<Rightarrow> (Some (rc, if rc = 0 then sector_of devs d out else []), c, w))"
| "cache_exec drv devs (Cache_write d s b) cw = (case block_cache_write drv devs d s b (fst cw) (snd cw) of (rc, c, w) \<Rightarrow> (Some (rc, []), c, w))"
| "cache_exec drv devs (Cache_flush d) cw =
     (case block_cache_flush (CACHE_ENTRIES + 1) drv devs d (fst cw) (snd cw) of
        None \<Rightarrow> (None, cw) | Some (rc, c, w) \<Rightarrow> (Some (rc, []), c, w))"

text \<open>What the answers say about an array of sectors.  After a successful flush the sectors of the device are on the disk.\<close>

primrec store_step :: "devices \<Rightarrow> cache_op \<Rightarrow> rc \<Rightarrow> (nat \<Rightarrow> u64 \<Rightarrow> u8 list) \<Rightarrow> nat \<Rightarrow> u64 \<Rightarrow> u8 list" where
  "store_step devs (Cache_read d s b) rc st = st"
| "store_step devs (Cache_write d s b) rc st = (if rc = 0 then st(d := (st d)(s := sector_of devs d b)) else st)"
| "store_step devs (Cache_flush d) rc st = st"

primrec answer_ok :: "cache_op \<Rightarrow> (rc \<times> u8 list) option \<Rightarrow> (nat \<Rightarrow> u64 \<Rightarrow> u8 list) \<Rightarrow> (nat \<Rightarrow> u64 \<Rightarrow> u8 list) \<Rightarrow> bool" where
  "answer_ok (Cache_read d s b) ans st disk = (\<exists>rc xs. ans = Some (rc, xs) \<and> (rc = 0 \<or> rc = -1) \<and> (rc = 0 \<longrightarrow> xs = st d s))"
| "answer_ok (Cache_write d s b) ans st disk = (\<exists>rc. ans = Some (rc, []) \<and> (rc = 0 \<or> rc = -1))"
| "answer_ok (Cache_flush d) ans st disk = (\<exists>rc. ans = Some (rc, []) \<and> (rc = 0 \<or> rc = -1) \<and> (rc = 0 \<longrightarrow> disk d = st d))"

primrec cache_run_ok :: "'w driver \<Rightarrow> devices \<Rightarrow> ('w \<Rightarrow> nat \<Rightarrow> u64 \<Rightarrow> buffer) \<Rightarrow> cache_op list \<Rightarrow> block_cache \<times> 'w \<Rightarrow> (nat \<Rightarrow> u64 \<Rightarrow> u8 list) \<Rightarrow> bool" where
  "cache_run_ok drv devs contents [] cw st = True"
| "cache_run_ok drv devs contents (op1 # ops) cw st =
     (case cache_exec drv devs op1 cw of (ans, cw1) \<Rightarrow>
        answer_ok op1 ans st (\<lambda>d s. sector_of devs d (contents (snd cw1) d s)) \<and>
        cache_run_ok drv devs contents ops cw1 (store_step devs op1 (fst (the ans)) st))"

lemma cache_exec_ok:
  assumes drv: "driver_ok devs contents drv" and inv: "cache_inv devs (contents w) c" and x: "cache_exec drv devs op1 (c, w) = (ans, c', w')"
  shows "cache_inv devs (contents w') c' \<and> answer_ok op1 ans (logical devs (contents w) c) (\<lambda>d s. sector_of devs d (contents w' d s)) \<and>
    logical devs (contents w') c' = store_step devs op1 (fst (the ans)) (logical devs (contents w) c)"
proof (cases op1)
  case (Cache_read d s b)
  obtain rc out c1 w1 where r: "block_cache_read drv devs d s b c w = (rc, out, c1, w1)" by (metis prod_cases4)
  show ?thesis using read_ok[OF drv inv r] x r Cache_read by auto
next
  case (Cache_write d s b)
  obtain rc c1 w1 where r: "block_cache_write drv devs d s b c w = (rc, c1, w1)" by (metis prod_cases3)
  show ?thesis using write_ok[OF drv inv r] x r Cache_write by auto
next
  case (Cache_flush d)
  obtain rc c1 w1 where r: "block_cache_flush (CACHE_ENTRIES + 1) drv devs d c w = Some (rc, c1, w1)" "cache_inv devs (contents w1) c1"
      "logical devs (contents w1) c1 = logical devs (contents w) c" "rc = 0 \<or> rc = -1"
      "rc = 0 \<longrightarrow> (\<forall>s. logical devs (contents w) c d s = sector_of devs d (contents w1 d s))"
    using flush_ok[OF drv inv, of "CACHE_ENTRIES + 1" d] by auto
  then show ?thesis using x Cache_flush by (auto simp: fun_eq_iff)
qed

text \<open>C9: the cache is transparent.  Above a driver that keeps its contract, and whichever of its requests fail, every
  sequence of reads, writes and flushes on a fresh cache behaves as on an array of sectors that starts with the
  contents of the disk: a successful read returns what the last successful write put there, a failed call changes
  nothing, and every call returns.  A successful flush means that the disk itself has the contents of the array.\<close>

theorem block_cache_transparent:
  assumes "driver_ok devs contents drv" "block_cache_init c0 = (rc, c)"
  shows "cache_run_ok drv devs contents ops (c, w) (\<lambda>d s. sector_of devs d (contents w d s))"
proof -
  have free: "\<not> holds c i d s" for i d s using assms(2) by (auto simp: block_cache_init_def holds_def)
  have inv: "cache_inv devs (contents w) c" using assms(2) free by (auto simp: cache_inv_def block_cache_init_def)
  have log: "logical devs (contents w) c = (\<lambda>d s. sector_of devs d (contents w d s))"
    using logical_absent[OF free] by (simp add: fun_eq_iff sector_of_def)
  have "cache_run_ok drv devs contents ops (c, w) (logical devs (contents w) c)" using inv
  proof (induction ops arbitrary: c w)
    case (Cons op1 ops)
    obtain ans c1 w1 where x: "cache_exec drv devs op1 (c, w) = (ans, c1, w1)" by (metis prod_cases3)
    note k = cache_exec_ok[OF assms(1) Cons.prems x]
    show ?case using k Cons.IH[of w1 c1] by (simp add: x)
  qed simp
  then show ?thesis by (simp add: log)
qed

text \<open>Sectors of two bytes in memory; writes to sector 7 fail.\<close>

definition ram_driver :: "(nat \<Rightarrow> u64 \<Rightarrow> buffer) driver" where
  "ram_driver d bio w =
     (case bio_op bio of
        RIX_BIO_READ \<Rightarrow> (0, bio\<lparr>bio_buffer := Some (w d (bio_sector bio)), bio_state := RIX_BIO_COMPLETE\<rparr>, w)
      | RIX_BIO_WRITE \<Rightarrow>
          if bio_sector bio = 7 then (5, bio\<lparr>bio_state := RIX_BIO_ERROR\<rparr>, w)
          else (0, bio\<lparr>bio_state := RIX_BIO_COMPLETE\<rparr>,
                case bio_buffer bio of None \<Rightarrow> w | Some b \<Rightarrow> w(d := (w d)(bio_sector bio := b)))
      | RIX_BIO_FLUSH \<Rightarrow> (0, bio\<lparr>bio_state := RIX_BIO_COMPLETE\<rparr>, w))"

definition ram_devs :: devices where
  "ram_devs _ = \<lparr>bd_name = ''ram'', bd_sector_size = 2, bd_sector_count = 64, bd_max_sectors = 8, bd_submit = True\<rparr>"

lemma ram_driver_ok: "driver_ok ram_devs (\<lambda>w. w) ram_driver"
  by (auto simp: driver_ok_def ram_driver_def bio_done_def split: rix_bio_op.split option.split)

definition ram_cache :: block_cache where
  "ram_cache = \<lparr>bc_entries = (\<lambda>_. \<lparr>ce_device = None, ce_sector = 0, ce_valid = True, ce_dirty = True, ce_writeback = True, ce_data = (\<lambda>_. 9), ce_age = 3\<rparr>),
     bc_clock = 8\<rparr>"

theorem block_cache_transparent_witness:
  "driver_ok ram_devs (\<lambda>w. w) ram_driver \<and>
   cache_run_ok ram_driver ram_devs (\<lambda>w. w)
     [Cache_write 0 3 (\<lambda>i. if i = 0 then 1 else 2), Cache_read 0 3 (\<lambda>_. 0), Cache_write 0 7 (\<lambda>_. 5), Cache_flush 0, Cache_read 0 7 (\<lambda>_. 0)]
     (snd (block_cache_init ram_cache), \<lambda>_ _ _. 0) (\<lambda>_ _. [0, 0])"
proof -
  have i: "block_cache_init ram_cache = (0, snd (block_cache_init ram_cache))" by (simp add: block_cache_init_def)
  have s: "sector_of ram_devs d (\<lambda>_. 0) = [0, 0]" for d by (simp add: sector_of_def ram_devs_def upt_rec)
  show ?thesis
    using ram_driver_ok block_cache_transparent[OF ram_driver_ok i,
      of "[Cache_write 0 3 (\<lambda>i. if i = 0 then 1 else 2), Cache_read 0 3 (\<lambda>_. 0), Cache_write 0 7 (\<lambda>_. 5), Cache_flush 0, Cache_read 0 7 (\<lambda>_. 0)]"
         "\<lambda>_ _ _. 0", unfolded s] by blast
qed

end
