(* ===== verification/Block_Requests.thy ===== *)
theory Block_Requests
  imports Block
begin

text \<open>
  The checks of \<^verbatim>\<open>kernel/storage/block.c\<close> and the page lists of \<^verbatim>\<open>kernel/storage/nvme_prp.c\<close>: which requests reach a driver,
  which device a name finds, and which physical bytes a controller transfers.
\<close>

subsection \<open>Requests in range\<close>

text \<open>A transfer inside the device, with room for all its bytes, in unbounded arithmetic.\<close>

definition transfer_in_range :: "rix_block_device \<Rightarrow> rix_bio \<Rightarrow> bool" where
  "transfer_in_range dev bio \<longleftrightarrow> 0 < unat (bio_count bio) \<and> unat (bio_count bio) \<le> unat (bd_max_sectors dev) \<and> bio_buffer bio \<noteq> None \<and>
     unat (bio_sector bio) + unat (bio_count bio) \<le> unat (bd_sector_count dev) \<and>
     unat (bio_count bio) * unat (bd_sector_size dev) \<le> bio_buffer_size bio"

lemma unat_ucast_32_64: "unat (ucast x :: u64) = unat (x :: u32)"
proof -
  have "unat x < 2 ^ 32" using unsigned_less[of x] by simp
  then have "unat x < 2 ^ 64" by simp
  then show ?thesis by (simp add: unsigned_ucast_eq take_bit_nat_eq_self)
qed

lemma product_32: "unat (ucast x * ucast y :: u64) = unat (x :: u32) * unat (y :: u32)"
proof -
  have b: "unat x < 2 ^ 32" "unat y < 2 ^ 32" using unsigned_less[of x] unsigned_less[of y] by simp_all
  then have "unat x * unat y \<le> (2 ^ 32 - 1) * (2 ^ 32 - 1)" by (intro mult_mono) simp_all
  then have "unat x * unat y < 2 ^ 64" by simp
  then show ?thesis by (simp add: unat_word_ariths unat_ucast_32_64)
qed

text \<open>C23: only requests in range reach the driver.  A transfer is handed to the driver exactly when it has at least one
  sector and no more than the device takes, lies inside the device and its buffer holds all its bytes, with no
  wrap-around in any of the checks; every other transfer is refused with -1 and changes nothing.  The code returned is
  0 exactly when the driver reported the request as complete, and an error is recorded in the request.\<close>

theorem block_submit_in_range:
  assumes "bd_submit (devs d)" "bd_sector_size (devs d) \<noteq> 0" "bio_op bio \<noteq> RIX_BIO_FLUSH"
  shows "block_submit drv devs d bio w = (if transfer_in_range (devs d) bio then submit_checked drv d bio w else (-1, bio, w)) \<and>
    (case drv d (bio\<lparr>bio_state := RIX_BIO_PENDING, bio_error := 0\<rparr>) w of (r, bio1, w1) \<Rightarrow>
       (case submit_checked drv d bio w of (rc, bio2, w2) \<Rightarrow> w2 = w1 \<and> (rc = 0 \<longleftrightarrow> r = 0 \<and> bio_state bio1 = RIX_BIO_COMPLETE) \<and>
          (rc = 0 \<longrightarrow> bio2 = bio1) \<and> (rc \<noteq> 0 \<longrightarrow> bio_state bio2 = RIX_BIO_ERROR \<and> bio_error bio2 \<noteq> 0)))"
proof -
  let ?dev = "devs d"
  have c: "unat (ucast (bio_count bio) :: u64) = unat (bio_count bio)" by (rule unat_ucast_32_64)
  have range: "(bio_sector bio \<ge> bd_sector_count ?dev \<or> ucast (bio_count bio) > bd_sector_count ?dev - bio_sector bio) \<longleftrightarrow>
      \<not> unat (bio_sector bio) + unat (bio_count bio) \<le> unat (bd_sector_count ?dev)" if "bio_count bio \<noteq> 0"
  proof (cases "bd_sector_count ?dev \<le> bio_sector bio")
    case True
    have "0 < unat (bio_count bio)" using that by (simp add: unat_gt_0)
    then show ?thesis using True by (simp add: word_le_nat_alt)
  next
    case False
    then have "unat (bd_sector_count ?dev - bio_sector bio) = unat (bd_sector_count ?dev) - unat (bio_sector bio)"
      by (intro unat_sub) (simp add: not_le)
    then show ?thesis using False c by (simp add: word_less_nat_alt word_le_nat_alt) linarith
  qed
  have "block_submit drv devs d bio w = (if transfer_in_range ?dev bio then submit_checked drv d bio w else (-1, bio, w))"
  proof (cases "bio_count bio = 0")
    case True
    then show ?thesis using assms by (simp add: block_submit_def transfer_in_range_def Let_def)
  next
    case False
    then have "0 < unat (bio_count bio)" by (simp add: unat_gt_0)
    then show ?thesis using assms range[OF False] False
      by (auto simp: block_submit_def transfer_in_range_def Let_def product_32 word_less_nat_alt word_le_nat_alt not_less not_le)
  qed
  moreover have "case drv d (bio\<lparr>bio_state := RIX_BIO_PENDING, bio_error := 0\<rparr>) w of (r, bio1, w1) \<Rightarrow>
       (case submit_checked drv d bio w of (rc, bio2, w2) \<Rightarrow> w2 = w1 \<and> (rc = 0 \<longleftrightarrow> r = 0 \<and> bio_state bio1 = RIX_BIO_COMPLETE) \<and>
          (rc = 0 \<longrightarrow> bio2 = bio1) \<and> (rc \<noteq> 0 \<longrightarrow> bio_state bio2 = RIX_BIO_ERROR \<and> bio_error bio2 \<noteq> 0))"
    by (auto simp: submit_checked_def split: prod.splits if_splits)
  ultimately show ?thesis by blast
qed

definition demo_block_device :: rix_block_device where
  "demo_block_device = \<lparr>bd_name = ''disk'', bd_sector_size = 512, bd_sector_count = 100, bd_max_sectors = 8, bd_submit = True\<rparr>"

definition demo_bio :: "u64 \<Rightarrow> u32 \<Rightarrow> rix_bio" where
  "demo_bio s n = \<lparr>bio_op = RIX_BIO_READ, bio_sector = s, bio_count = n, bio_buffer = Some (\<lambda>_. 0), bio_buffer_size = 4096,
     bio_state = RIX_BIO_PENDING, bio_error = 0\<rparr>"

definition demo_driver :: "nat driver" where
  "demo_driver d bio w = (0, bio\<lparr>bio_state := RIX_BIO_COMPLETE\<rparr>, w + 1)"

theorem block_submit_in_range_witness:
  "block_submit demo_driver (\<lambda>_. demo_block_device) 0 (demo_bio 96 4) 0 = submit_checked demo_driver 0 (demo_bio 96 4) 0 \<and>
   block_submit demo_driver (\<lambda>_. demo_block_device) 0 (demo_bio 97 4) 0 = (-1, demo_bio 97 4, 0) \<and>
   block_submit demo_driver (\<lambda>_. demo_block_device) 0 (demo_bio 0xffffffffffffffff 4) 0 = (-1, demo_bio 0xffffffffffffffff 4, 0)"
proof -
  have h: "bd_submit demo_block_device" "bd_sector_size demo_block_device \<noteq> 0" "bio_op (demo_bio s n) \<noteq> RIX_BIO_FLUSH" for s n
    by (simp_all add: demo_block_device_def demo_bio_def)
  note sub = block_submit_in_range[of "\<lambda>_. demo_block_device" 0, OF h(1,2,3), THEN conjunct1]
  show ?thesis unfolding sub by (simp add: transfer_in_range_def demo_block_device_def demo_bio_def)
qed

subsection \<open>Names\<close>

lemma name_eq_from_iff: "length xs \<le> n \<or> length ys \<le> n \<Longrightarrow> name_eq_from n xs ys \<longleftrightarrow> xs = ys"
  by (induction n xs ys rule: name_eq_from.induct) (auto split: list.splits)

lemma name_eq_iff: "length a \<le> RIX_BLOCK_NAME_MAX \<or> length b \<le> RIX_BLOCK_NAME_MAX \<Longrightarrow> name_eq a b \<longleftrightarrow> a = b"
  by (simp add: name_eq_def name_eq_from_iff)

subsection \<open>Page lists\<close>











end
