(* ===== verification/Spec2Isabelle.thy ===== *)
theory Spec2Isabelle
  imports Scheduler_Properties Locks Lockdep Ipc Klog Heap_Properties Net_Properties Net_Safety Net_Corruption Tcp_States
    Packet_Safety Net_Resolution Ipv6_Routes Dhcp_Run Block_Properties Block_Requests
begin

text \<open>
  \<^bold>\<open>RixuriOS, a 64-bit x86 operating system: a verification of its kernel.\<close>

  The kernel under \<^verbatim>\<open>src/kernel\<close> is modelled component by component as pure functions on explicit states.  A C structure is
  a \<open>record\<close>, an enumeration a \<open>datatype\<close>, a fixed-width integer a word of that width (so additions wrap where the C
  code's do), an array a function from indices, and a function of the kernel one definition of the same name that takes
  the state it reads and returns the state it leaves, with its C return code first.  Definitions are executable; the
  witnesses of the properties evaluate them.  A critical section under a spin lock is one step, and interleavings are
  sequences of such steps.  What lies outside the code modelled (the clock, the answers of the network controllers, the
  contents of uninitialised locals, the process table a scheduler call consults) is an argument of the definitions that
  use it.

  \<^bold>\<open>The parts and their theories\<close>

  \<^item> \<^verbatim>\<open>Rix_Prelude\<close>: the names of the C types, collections of rewrite rules, and the lemmas on bounded searches, bit masks and
    words that the components share.  \<^verbatim>\<open>Handle_Registry\<close>: the locale of a table of slots whose handles carry a
    generation, used by the wait queues.
  \<^item> Scheduling, \<^verbatim>\<open>src/kernel/sched\<close>.  \<^verbatim>\<open>Runqueue\<close> (\<^verbatim>\<open>runqueue.c\<close>): the 32-bit mask of runnable slots of a processor and its
    pick with cursor and streak.  \<^verbatim>\<open>Thread_Table\<close> (\<^verbatim>\<open>thread.c\<close>): the thread records.  \<^verbatim>\<open>Wait_Queue\<close>
    (\<^verbatim>\<open>sync/waitqueue.c\<close>): the waiter registry.  \<^verbatim>\<open>Scheduler\<close> (\<^verbatim>\<open>scheduler.c\<close>) puts them together: task slots, masks of all
    processors, quanta, wait bindings; \<^verbatim>\<open>Scheduler_Invariants\<close> has the step relation of all its operations and the
    invariants kept by each, \<^verbatim>\<open>Scheduler_Properties\<close> what follows for every reachable state.
  \<^item> Synchronisation, \<^verbatim>\<open>src/kernel/sync\<close>.  \<^verbatim>\<open>Locks\<close>: mutex, reader/writer lock, semaphore and reference count, with the
    waiting loops as recursion over what the other processors do in each round.  \<^verbatim>\<open>Lockdep\<close> (\<^verbatim>\<open>lockdep.c\<close>): the lock-order
    checker.
  \<^item> Communication and logging.  \<^verbatim>\<open>Ipc\<close> (\<^verbatim>\<open>ipc/channel.c\<close>, \<^verbatim>\<open>ipc/pipe.c\<close>): byte channel and pipe.  \<^verbatim>\<open>Klog\<close>
    (\<^verbatim>\<open>log/klog.c\<close>): the message ring.
  \<^item> Memory, \<^verbatim>\<open>src/kernel/mm\<close>.  \<^verbatim>\<open>Pmm\<close>, \<^verbatim>\<open>Pmm_Invariants\<close>, \<^verbatim>\<open>Pmm_Properties\<close> (\<^verbatim>\<open>pmm.c\<close>): the page allocator with its bitmaps of
    64-bit words.  \<^verbatim>\<open>Heap\<close>, \<^verbatim>\<open>Heap_Properties\<close> (\<^verbatim>\<open>heap.c\<close>): \<open>kmalloc\<close> and \<open>kfree\<close> over it.
  \<^item> Network, \<^verbatim>\<open>src/kernel/net\<close>.  \<^verbatim>\<open>Net\<close> (\<^verbatim>\<open>net.c\<close>, \<^verbatim>\<open>ethernet.c\<close>): packet buffer, checksum, byte order, Ethernet.  \<^verbatim>\<open>Net_Layers\<close>: the
    algebra of packet views and the locales of a protocol layer (what a push appends a pull removes), of layers that
    trim padding, of transports and of their stacking.  \<^verbatim>\<open>Ipv4\<close>, \<^verbatim>\<open>Udp_Tcp\<close>, \<^verbatim>\<open>Arp\<close>, \<^verbatim>\<open>Ipv6\<close>, \<^verbatim>\<open>Ipv6_Layers\<close>: the protocols,
    each with its interpretation.  \<^verbatim>\<open>Net_Stack\<close> (\<^verbatim>\<open>device.c\<close>, \<^verbatim>\<open>loopback.c\<close>, \<^verbatim>\<open>stack.c\<close>) and \<^verbatim>\<open>Dhcp\<close> (\<^verbatim>\<open>dhcp.c\<close>): the stack
    above the drivers and the boot-time configuration.
  \<^item> Storage, \<^verbatim>\<open>src/kernel/storage\<close>.  \<^verbatim>\<open>Block\<close> (\<^verbatim>\<open>block.c\<close>, \<^verbatim>\<open>nvme_prp.c\<close>): device registry, request submission and the page lists of NVMe
    requests.  \<^verbatim>\<open>Block_Cache\<close> (\<^verbatim>\<open>block_cache.c\<close>): the write-back cache of 64 sectors.  A driver is a parameter: a function from a
    request and its own state to an answer.

  \<^bold>\<open>What is shown\<close>

  \<^item> Scheduling: in every reachable state the run queue masks agree with the task table, so the fail-stop checks never
    fire; a pick is sound and complete and a yield switches, accounts and claims as it should; live tasks and thread
    records correspond one to one; wait bindings are exact; the run queue and the thread table refine a set and a map;
    handles and thread ids are never confused; the pick is fair among normal slots.  Two lemmas describe defects:
    a schedule in which the streak cap starves a normal slot, and one in which a recycled slot runs twice.
  \<^item> Synchronisation: mutual exclusion of the reader/writer lock under any interleaving, exact counting of semaphores and
    references, and that processors waiting for classes the checker accepted never form a cycle.
  \<^item> Communication: what is read from a pipe is what was written, in order, and ends are reported exactly; a copy of
    the message ring returns the requested part of the logged stream.
  \<^item> Memory: first-fit allocation that fails only when nothing is free, with exact counters; reserved memory is never
    handed out; heap blocks are aligned, lie in owned pages and never overlap; pages are returned exactly when empty.
  \<^item> Network: the checksum against RFC 1071; every message built is received with the same fields and payload; receivers
    read only bytes of the packet and no sequence of operations leaves the buffer; single damaged bytes are refused; the
    receive queues of the stack and the loopback refine queues; the ARP cache, address resolution with a parked packet,
    longest-prefix routing and the TCP state machine; the DHCP exchange configures the device when the server answers
    and leaves it alone when the run fails.
  \<^item> Storage: above any driver that stores what it acknowledges, and whichever requests it fails, the cache is
    indistinguishable from the array of sectors itself and a successful flush brings the disk up to date
    (\<^verbatim>\<open>Block_Properties\<close>); only requests inside the device and their buffer reach a driver, and a page list names exactly the
    bytes of the transfer (\<^verbatim>\<open>Block_Requests\<close>).

  \<^bold>\<open>Bounds and fuel\<close>

  The loops are recursion over the lists of indices the C loops run over, so most need no fuel.  \<open>pick_verified\<close> retries at
  most \<open>RIX_MAX_TASKS\<close> times because each retry removes a slot from a 32-bit mask.  The waiting loops of the locks recurse
  over the list of what the other processors do.  A flush of the block cache takes fuel; 65 rounds are enough because each
  successful round cleans one of 64 entries and a failed one ends the loop.  The DHCP loops have the twelve rounds and million polls of the source;
  their properties hold for whichever poll delivers the answer.  Packet lengths are natural numbers below the capacity
  of 1580 bytes; where the C code subtracts sizes that may wrap, \<open>sub64\<close> writes the wrap-around out.

  \<^bold>\<open>Not modelled\<close>

  \<^item> Hardware access: boot code and interrupt entry, \<^verbatim>\<open>arch/x86_64\<close>, port and register access of the drivers for
    PCI, NVMe, USB, the network controllers, serial line, clock and screen.  Their effect is volatile register state; the
    network controllers appear as the environment of the stack, the disk drivers as the parameter of the block layer.
  \<^item> The stack switch of the scheduler (\<^verbatim>\<open>switch.S\<close>, \<open>task_init_stack\<close>, FPU images) and its diagnostics.  The serial
    diagnostics and counters of \<^verbatim>\<open>stack.c\<close> and \<^verbatim>\<open>dhcp.c\<close>.
  \<^item> File systems, processes, address spaces, system calls, sockets, terminal, and the user programs with their C library:
    they rest on the components above and are listed in the manifest as not modelled.
\<close>

end
